(* ===== verification/Prelude.thy ===== *)
theory Prelude
  imports Main "HOL-Library.Char_ord"
begin

text \<open>
  What every component of the development shares: the exceptions the program raises, the
  result type of code that may raise, the part of Python's \<open>str\<close> the program uses
  (whitespace, \<open>strip\<close>, \<open>splitlines\<close>, \<open>split\<close>, \<open>join\<close>, prefixes, decimal numbers,
  \<open>repr\<close>), and the generic lemmas about them.

  A Python string is a \<^typ>\<open>string\<close>: a list of code points below 256. The character
  classes are the Python ones on that range (\<open>str.isspace\<close> and the line boundaries of
  \<open>str.splitlines\<close>).
\<close>

section \<open>Automation\<close>

named_theorems py_str \<open>rewriting of the string primitives\<close>
named_theorems res_simps \<open>rewriting of results that may be exceptions\<close>

section \<open>Exceptions and results\<close>

text \<open>
  The exception classes the modelled code raises or catches. A constructor that carries a
  string keeps \<open>str(exc)\<close>, where some handler prints it.
\<close>

datatype py_exc =
    IndexError
  | KeyError
  | TypeError
  | AttributeError
  | ValueError string
  | JSONDecodeError
  | SyntaxError
  | RuntimeError string
  | TimeoutError string
  | URLError string
  | ApiException string
  | IntegrityError
  | OtherError string

type_synonym 'a res = "py_exc + 'a"

definition bindE :: "'a res \<Rightarrow> ('a \<Rightarrow> 'b res) \<Rightarrow> 'b res" where
  "bindE m f = (case m of Inl e \<Rightarrow> Inl e | Inr x \<Rightarrow> f x)"

lemma bindE_Inl [simp]: "bindE (Inl e) f = Inl e"
  by (simp add: bindE_def)

lemma bindE_Inr [simp]: "bindE (Inr x) f = f x"
  by (simp add: bindE_def)

lemma bindE_eq_Inr [res_simps]:
  "bindE m f = Inr y \<longleftrightarrow> (\<exists>x. m = Inr x \<and> f x = Inr y)"
  by (cases m) auto

lemma bindE_eq_Inl [res_simps]:
  "bindE m f = Inl e \<longleftrightarrow> m = Inl e \<or> (\<exists>x. m = Inr x \<and> f x = Inl e)"
  by (cases m) auto

text \<open>A list comprehension whose element expression may raise.\<close>

fun mapE :: "('a \<Rightarrow> 'b res) \<Rightarrow> 'a list \<Rightarrow> 'b list res" where
  "mapE f [] = Inr []"
| "mapE f (x # xs) = bindE (f x) (\<lambda>y. bindE (mapE f xs) (\<lambda>ys. Inr (y # ys)))"

lemma mapE_Inr: "(\<And>x. x \<in> set xs \<Longrightarrow> f x = Inr (g x)) \<Longrightarrow> mapE f xs = Inr (map g xs)"
  by (induction xs) auto

text \<open>Reading a list by a nonnegative index raises \<open>IndexError\<close> out of range.\<close>

definition py_nth :: "'a list \<Rightarrow> nat \<Rightarrow> 'a res" where
  "py_nth xs i = (if i < length xs then Inr (xs ! i) else Inl IndexError)"

lemma py_nth_Inr [simp]: "i < length xs \<Longrightarrow> py_nth xs i = Inr (xs ! i)"
  by (simp add: py_nth_def)

lemma py_nth_Inl [simp]: "length xs \<le> i \<Longrightarrow> py_nth xs i = Inl IndexError"
  by (simp add: py_nth_def)

section \<open>The environment\<close>

type_synonym environ = "string \<Rightarrow> string option"

text \<open>\<open>os.environ.get(key, default)\<close>\<close>

definition environ_get :: "environ \<Rightarrow> string \<Rightarrow> string \<Rightarrow> string" where
  "environ_get environ key dflt = (case environ key of Some v \<Rightarrow> v | None \<Rightarrow> dflt)"

section \<open>Character classes\<close>

definition py_isspace :: "char \<Rightarrow> bool" where
  "py_isspace c \<longleftrightarrow> c \<in> {CHR 0x09, CHR 0x0A, CHR 0x0B, CHR 0x0C, CHR 0x0D,
     CHR 0x1C, CHR 0x1D, CHR 0x1E, CHR 0x1F, CHR 0x20, CHR 0x85, CHR 0xA0}"

definition line_break :: "char \<Rightarrow> bool" where
  "line_break c \<longleftrightarrow> c \<in> {CHR 0x0A, CHR 0x0B, CHR 0x0C, CHR 0x0D,
     CHR 0x1C, CHR 0x1D, CHR 0x1E, CHR 0x85}"

abbreviation LF :: char where "LF \<equiv> CHR 0x0A"
abbreviation CR :: char where "CR \<equiv> CHR 0x0D"

lemma line_break_isspace: "line_break c \<Longrightarrow> py_isspace c"
  by (auto simp: line_break_def py_isspace_def)

lemma line_break_LF [simp]: "line_break LF"
  by (simp add: line_break_def)

section \<open>Stripping, lines, fields\<close>

definition py_strip :: "string \<Rightarrow> string" where
  "py_strip s = rev (dropWhile py_isspace (rev (dropWhile py_isspace s)))"

fun splitlines :: "string \<Rightarrow> string list" where
  "splitlines [] = []"
| "splitlines (c # cs) =
     (if line_break c then
        [] # (case cs of
                d # ds \<Rightarrow> if c = CR \<and> d = LF then splitlines ds else splitlines cs
              | [] \<Rightarrow> [])
      else (case splitlines cs of [] \<Rightarrow> [[c]] | l # ls \<Rightarrow> (c # l) # ls))"

fun split_on :: "char \<Rightarrow> string \<Rightarrow> string list" where
  "split_on d [] = [[]]"
| "split_on d (c # cs) =
     (if c = d then [] # split_on d cs
      else (case split_on d cs of [] \<Rightarrow> [[c]] | l # ls \<Rightarrow> (c # l) # ls))"

fun join :: "string \<Rightarrow> string list \<Rightarrow> string" where
  "join sep [] = []"
| "join sep [x] = x"
| "join sep (x # y # ys) = x @ sep @ join sep (y # ys)"

definition startswith :: "string \<Rightarrow> string \<Rightarrow> bool" where
  "startswith s p \<longleftrightarrow> take (length p) s = p"

text \<open>\<open>p in s\<close> for strings, and the part of \<open>s\<close> from the first occurrence on.\<close>

fun find_sub :: "string \<Rightarrow> string \<Rightarrow> nat option" where
  "find_sub p [] = (if p = [] then Some 0 else None)"
| "find_sub p (c # cs) =
     (if startswith (c # cs) p then Some 0 else map_option Suc (find_sub p cs))"

lemma startswith_append [simp]: "startswith (p @ s) p"
  by (simp add: startswith_def)

lemma startswith_Nil [simp]: "startswith s []"
  by (simp add: startswith_def)

lemma startswith_Cons [simp]: "startswith (c # cs) (d # ds) \<longleftrightarrow> c = d \<and> startswith cs ds"
  by (simp add: startswith_def)

lemma startswith_empty [simp]: "\<not> startswith [] (d # ds)"
  by (simp add: startswith_def)

lemma startswith_iff: "startswith s p \<longleftrightarrow> (\<exists>t. s = p @ t)"
  by (metis append_eq_conv_conj append_take_drop_id startswith_def)

subsection \<open>\<open>strip\<close>\<close>

lemma py_strip_Nil [simp]: "py_strip [] = []"
  by (simp add: py_strip_def)

lemma dropWhile_id: "(s \<noteq> [] \<Longrightarrow> \<not> P (hd s)) \<Longrightarrow> dropWhile P s = s"
  by (cases s) auto

text \<open>A text that neither starts nor ends with whitespace is unchanged.\<close>

lemma py_strip_id:
  assumes "s \<noteq> []" and "\<not> py_isspace (hd s)" and "\<not> py_isspace (last s)"
  shows "py_strip s = s"
  using assms by (simp add: py_strip_def dropWhile_id hd_rev)

lemma dropWhile_append_all: "(\<And>x. x \<in> set xs \<Longrightarrow> P x) \<Longrightarrow> dropWhile P (xs @ ys) = dropWhile P ys"
  by (induction xs) auto

text \<open>Whitespace around such a text is removed.\<close>

lemma py_strip_surround:
  assumes "\<And>c. c \<in> set pre \<Longrightarrow> py_isspace c" and "\<And>c. c \<in> set post \<Longrightarrow> py_isspace c"
    and "s \<noteq> []" and "\<not> py_isspace (hd s)" and "\<not> py_isspace (last s)"
  shows "py_strip (pre @ s @ post) = s"
proof -
  have "dropWhile py_isspace (pre @ s @ post) = s @ post"
    using assms by (simp add: dropWhile_append_all dropWhile_id)
  moreover have "dropWhile py_isspace (rev post @ rev s) = dropWhile py_isspace (rev s)"
    using assms(2) by (intro dropWhile_append_all) simp
  moreover have "dropWhile py_isspace (rev s) = rev s"
    using assms by (simp add: dropWhile_id hd_rev)
  ultimately show ?thesis by (simp add: py_strip_def)
qed

lemma dropWhile_hd: "dropWhile P s \<noteq> [] \<Longrightarrow> \<not> P (hd (dropWhile P s))"
  by (induction s) auto

lemma py_strip_last: "py_strip s \<noteq> [] \<Longrightarrow> \<not> py_isspace (last (py_strip s))"
  by (simp add: py_strip_def last_rev dropWhile_hd)

lemma py_strip_hd:
  assumes "py_strip s \<noteq> []"
  shows "\<not> py_isspace (hd (py_strip s))"
proof -
  let ?l = "dropWhile py_isspace s"
  obtain t where t: "rev ?l = t @ dropWhile py_isspace (rev ?l)"
    by (metis takeWhile_dropWhile_id)
  then have "?l = py_strip s @ rev t"
    by (metis py_strip_def rev_append rev_rev_ident)
  then have "hd ?l = hd (py_strip s)" and "?l \<noteq> []"
    using assms by auto
  then show ?thesis by (metis dropWhile_hd)
qed

subsection \<open>\<open>split\<close> and \<open>join\<close>\<close>

lemma split_on_nonempty [simp]: "split_on d s \<noteq> []"
  by (induction s) (auto split: list.splits)

lemma split_on_no_sep: "d \<notin> set s \<Longrightarrow> split_on d s = [s]"
  by (induction s) auto

lemma split_on_append_sep:
  "d \<notin> set s \<Longrightarrow> split_on d (s @ d # t) = s # split_on d t"
  by (induction s) auto

lemma split_on_join [py_str]:
  assumes "xs \<noteq> []" and "\<And>x. x \<in> set xs \<Longrightarrow> d \<notin> set x"
  shows "split_on d (join [d] xs) = xs"
  using assms
proof (induction "[d]" xs rule: join.induct)
  case (3 x y ys)
  then show ?case by (simp add: split_on_append_sep)
qed (simp_all add: split_on_no_sep)

lemma join_split_on [py_str]: "join [d] (split_on d s) = s"
proof (induction s)
  case (Cons c cs)
  obtain l ls where l: "split_on d cs = l # ls"
    by (cases "split_on d cs") auto
  with Cons show ?case by (cases ls) auto
qed simp

lemma set_split_on: "x \<in> set (split_on d s) \<Longrightarrow> d \<notin> set x \<and> set x \<subseteq> set s"
proof (induction s arbitrary: x)
  case (Cons c cs)
  then show ?case by (fastforce split: list.splits if_splits)
qed simp

lemma splitlines_no_break:
  "s \<noteq> [] \<Longrightarrow> (\<And>c. c \<in> set s \<Longrightarrow> \<not> line_break c) \<Longrightarrow> splitlines s = [s]"
proof (induction s)
  case (Cons c cs)
  then show ?case by (cases "cs = []") auto
qed simp

lemma splitlines_append_LF:
  "(\<And>c. c \<in> set s \<Longrightarrow> \<not> line_break c) \<Longrightarrow> splitlines (s @ LF # t) = s # splitlines t"
proof (induction s)
  case Nil
  then show ?case by (cases t) auto
qed auto

text \<open>Lines joined with a newline are read back, when the last line is not empty.\<close>

lemma splitlines_join [py_str]:
  assumes "xs \<noteq> []" and "last xs \<noteq> []"
    and "\<And>x c. x \<in> set xs \<Longrightarrow> c \<in> set x \<Longrightarrow> \<not> line_break c"
  shows "splitlines (join [LF] xs) = xs"
  using assms
proof (induction "[LF]" xs rule: join.induct)
  case (3 x y ys)
  have "splitlines (join [LF] (y # ys)) = y # ys"
    by (rule 3(1)) (use 3(3,4) in auto)
  with 3(4) [of x] show ?case by (simp add: splitlines_append_LF)
qed (simp_all add: splitlines_no_break)

lemma set_splitlines: "x \<in> set (splitlines s) \<Longrightarrow> d \<in> set x \<Longrightarrow> \<not> line_break d"
proof (induction s arbitrary: x rule: length_induct)
  case (1 s)
  note IH = 1(1) [rule_format]
  show ?case
  proof (cases s)
    case Nil
    with 1(2) show ?thesis by simp
  next
    case (Cons c cs)
    show ?thesis
    proof (cases "line_break c")
      case True
      from 1(2) True Cons have "x = [] \<or> (\<exists>t. length t < length s \<and> x \<in> set (splitlines t))"
        by (cases cs) (auto simp del: splitlines.simps(2) simp: splitlines.simps(2) [of c]
            split: if_splits)
      with IH 1(3) show ?thesis by auto
    next
      case False
      with 1(2,3) Cons IH [of cs] show ?thesis
        by (cases "splitlines cs") (auto, blast)
    qed
  qed
qed

section \<open>Decimal numbers\<close>

definition digit_char :: "nat \<Rightarrow> char" where
  "digit_char d = char_of (48 + d)"

definition is_digit :: "char \<Rightarrow> bool" where
  "is_digit c \<longleftrightarrow> c \<in> set ''0123456789''"

fun nat_str :: "nat \<Rightarrow> string" where
  "nat_str n = (if n < 10 then [digit_char n] else nat_str (n div 10) @ [digit_char (n mod 10)])"

declare nat_str.simps [simp del]

text \<open>\<open>str(i)\<close> of a Python integer.\<close>

definition int_str :: "int \<Rightarrow> string" where
  "int_str i = (if i < 0 then CHR ''-'' # nat_str (nat (- i)) else nat_str (nat i))"

definition digit_val :: "char \<Rightarrow> nat" where
  "digit_val c = of_char c - 48"

definition nat_of_digits :: "string \<Rightarrow> nat" where
  "nat_of_digits s = foldl (\<lambda>n c. 10 * n + digit_val c) 0 s"

lemma digit_val_char [simp]: "d < 10 \<Longrightarrow> digit_val (digit_char d) = d"
  by (simp add: digit_val_def digit_char_def of_char_of take_bit_eq_mod)

lemma digit_chars: "map digit_char [0..<10] = ''0123456789''"
  by code_simp

lemma is_digit_digit_char [simp]:
  assumes "d < 10"
  shows "is_digit (digit_char d)"
proof -
  have "digit_char d \<in> set (map digit_char [0..<10])"
    using assms by simp
  then show ?thesis unfolding digit_chars is_digit_def .
qed

lemma digit_char_zero: "d < 10 \<Longrightarrow> digit_char d = CHR ''0'' \<longleftrightarrow> d = 0"
proof -
  assume "d < 10"
  moreover have "digit_char 0 = CHR ''0''" by code_simp
  ultimately show ?thesis by (metis digit_val_char zero_less_numeral)
qed

lemma nat_str_digits: "c \<in> set (nat_str n) \<Longrightarrow> is_digit c"
proof (induction n rule: nat_str.induct)
  case (1 n)
  then show ?case by (cases "n < 10") (auto simp: nat_str.simps [of n])
qed

lemma while_digits_rev_nat_str [simp]:
  "takeWhile is_digit (rev (nat_str n) @ t) = rev (nat_str n) @ takeWhile is_digit t"
  "dropWhile is_digit (rev (nat_str n) @ t) = dropWhile is_digit t"
proof -
  have digits: "x \<in> set (rev (nat_str n)) \<Longrightarrow> is_digit x" for x
    by (simp add: nat_str_digits)
  show "takeWhile is_digit (rev (nat_str n) @ t) = rev (nat_str n) @ takeWhile is_digit t"
    by (rule takeWhile_append2) (rule digits)
  show "dropWhile is_digit (rev (nat_str n) @ t) = dropWhile is_digit t"
    by (rule dropWhile_append2) (rule digits)
qed

lemma nat_str_nonempty [simp]: "nat_str n \<noteq> []"
  by (subst nat_str.simps) simp

lemma nat_of_digits_snoc: "nat_of_digits (s @ [c]) = 10 * nat_of_digits s + digit_val c"
  by (simp add: nat_of_digits_def)

lemma nat_of_digits_nat_str [simp]: "nat_of_digits (nat_str n) = n"
proof (induction n rule: nat_str.induct)
  case (1 n)
  show ?case
  proof (cases "n < 10")
    case True
    then show ?thesis by (simp add: nat_str.simps [of n] nat_of_digits_def)
  next
    case False
    with 1 show ?thesis by (simp add: nat_str.simps [of n] nat_of_digits_snoc)
  qed
qed

lemma nat_str_inject [simp]: "nat_str m = nat_str n \<longleftrightarrow> m = n"
  by (metis nat_of_digits_nat_str)

lemma minus_not_digit: "CHR ''-'' \<notin> set (nat_str n)"
  using nat_str_digits by (force simp: is_digit_def)

lemma int_str_inject [simp]: "int_str i = int_str j \<longleftrightarrow> i = j"
proof
  assume eq: "int_str i = int_str j"
  have "CHR ''-'' # nat_str m \<noteq> nat_str n" for m n
    by (metis list.set_intros(1) minus_not_digit)
  with eq show "i = j"
    by (auto simp: int_str_def split: if_splits) (metis)
qed simp

lemma int_str_nonempty [simp]: "int_str i \<noteq> []"
  by (simp add: int_str_def)

text \<open>The first digit of a number is 0 only in 0 itself.\<close>

lemma hd_nat_str: "0 < n \<Longrightarrow> hd (nat_str n) \<noteq> CHR ''0''"
proof (induction n rule: nat_str.induct)
  case (1 n)
  show ?case
  proof (cases "n < 10")
    case True
    with 1(2) show ?thesis by (simp add: nat_str.simps [of n] digit_char_zero)
  next
    case False
    with 1 show ?thesis by (simp add: nat_str.simps [of n] hd_append)
  qed
qed

section \<open>\<open>repr\<close> of a string\<close>

definition hex_char :: "nat \<Rightarrow> char" where
  "hex_char d = (if d < 10 then char_of (48 + d) else char_of (87 + d))"

definition hex2 :: "char \<Rightarrow> string" where
  "hex2 c = [hex_char (of_char c div 16), hex_char (of_char c mod 16)]"

definition repr_char :: "char \<Rightarrow> char \<Rightarrow> string" where
  "repr_char q c =
     (if c = q \<or> c = CHR 0x5C then [CHR 0x5C, c]
      else if c = CHR 0x09 then [CHR 0x5C, CHR ''t'']
      else if c = LF then [CHR 0x5C, CHR ''n'']
      else if c = CR then [CHR 0x5C, CHR ''r'']
      else if of_char c < (32::nat) \<or> (127 \<le> (of_char c::nat) \<and> (of_char c::nat) \<le> 160)
              \<or> c = CHR 0xAD
        then [CHR 0x5C, CHR ''x''] @ hex2 c
      else [c])"

definition py_repr :: "string \<Rightarrow> string" where
  "py_repr s =
     (let q = (if CHR 0x27 \<in> set s \<and> CHR 0x22 \<notin> set s then CHR 0x22 else CHR 0x27)
      in [q] @ concat (map (repr_char q) s) @ [q])"

end
