(* ===== verification/Json.thy ===== *)
theory Json
  imports Prelude "HOL-Library.AList"
begin

text \<open>
  The part of Python's \<open>json\<close> module the program calls: \<open>json.dumps\<close> with its defaults
  (ASCII output, \<open>", "\<close> and \<open>": "\<close> as separators) and \<open>json.loads\<close>, as a recursive descent
  over the text with fuel. The request bodies, the bot server's replies, the ownership
  cookie, the events and the health envelopes of the other theories are texts made and
  read by these two. \<open>json_loads\<close> gives its parser one unit of fuel more than the text has
  characters; the round trip shows that this is enough for every printed value.

  Bounds: an escape \<open>\u\<close> above 00FF has no counterpart among the code points of the model
  and reads as a syntax error; a number with a fraction or an exponent keeps its lexeme.
\<close>

section \<open>Values\<close>

datatype json =
    JNull
  | JBool bool
  | JInt int
  | JFloat string
  | JStr string
  | JArr "json list"
  | JObj "(string \<times> json) list"

text \<open>A Python dict built from pairs: a later value replaces an earlier one in place.\<close>

definition dict_of :: "('k \<times> 'v) list \<Rightarrow> ('k \<times> 'v) list" where
  "dict_of kvs = fold (\<lambda>(k, v). AList.update k v) kvs []"

text \<open>
  A JSON value is also the model of the dynamically typed Python value \<open>json.loads\<close> makes of
  it: \<open>JNull\<close> is \<open>None\<close>. \<open>truthy\<close> is its truth value. A float is false when its lexeme
  denotes zero, which is when no digit of its mantissa is nonzero.
\<close>

definition float_zero :: "string \<Rightarrow> bool" where
  "float_zero s \<longleftrightarrow> s \<notin> {''NaN'', ''Infinity'', ''-Infinity''} \<and>
     list_all (\<lambda>c. c \<in> {CHR ''-'', CHR ''0'', CHR ''.''})
       (takeWhile (\<lambda>c. c \<noteq> CHR ''e'' \<and> c \<noteq> CHR ''E'') s)"

fun truthy :: "json \<Rightarrow> bool" where
  "truthy JNull = False"
| "truthy (JBool b) = b"
| "truthy (JInt i) = (i \<noteq> 0)"
| "truthy (JFloat s) = (\<not> float_zero s)"
| "truthy (JStr s) = (s \<noteq> [])"
| "truthy (JArr vs) = (vs \<noteq> [])"
| "truthy (JObj kvs) = (kvs \<noteq> [])"

text \<open>\<open>value.get(key)\<close>; anything but a dict has no such method.\<close>

definition json_get :: "json \<Rightarrow> string \<Rightarrow> json res" where
  "json_get v k = (case v of
     JObj kvs \<Rightarrow> Inr (case map_of kvs k of Some x \<Rightarrow> x | None \<Rightarrow> JNull)
   | _ \<Rightarrow> Inl AttributeError)"

section \<open>Printing\<close>

definition esc_char :: "char \<Rightarrow> string" where
  "esc_char c =
     (if c = CHR 0x22 then [CHR 0x5C, CHR 0x22]
      else if c = CHR 0x5C then [CHR 0x5C, CHR 0x5C]
      else if c = LF then [CHR 0x5C, CHR ''n'']
      else if c = CR then [CHR 0x5C, CHR ''r'']
      else if c = CHR 0x09 then [CHR 0x5C, CHR ''t'']
      else if c = CHR 0x0C then [CHR 0x5C, CHR ''f'']
      else if c = CHR 0x08 then [CHR 0x5C, CHR ''b'']
      else if (32::nat) \<le> of_char c \<and> of_char c \<le> (126::nat) then [c]
      else [CHR 0x5C, CHR ''u'', CHR ''0'', CHR ''0''] @ hex2 c)"

definition json_string :: "string \<Rightarrow> string" where
  "json_string s = [CHR 0x22] @ concat (map esc_char s) @ [CHR 0x22]"

fun json_dumps :: "json \<Rightarrow> string" where
  "json_dumps JNull = ''null''"
| "json_dumps (JBool b) = (if b then ''true'' else ''false'')"
| "json_dumps (JInt i) = int_str i"
| "json_dumps (JFloat s) = s"
| "json_dumps (JStr s) = json_string s"
| "json_dumps (JArr vs) = ''['' @ join '', '' (map json_dumps vs) @ '']''"
| "json_dumps (JObj kvs) =
     ''{'' @ join '', '' (map (\<lambda>(k, v). json_string k @ '': '' @ json_dumps v) kvs) @ ''}''"

section \<open>Parsing\<close>

definition json_ws :: "char \<Rightarrow> bool" where
  "json_ws c \<longleftrightarrow> c \<in> {CHR 0x20, CHR 0x09, LF, CR}"

definition skip_ws :: "string \<Rightarrow> string" where
  "skip_ws s = dropWhile json_ws s"

definition hex_val :: "char \<Rightarrow> nat option" where
  "hex_val c = (let n = of_char c :: nat in
     if 48 \<le> n \<and> n \<le> 57 then Some (n - 48)
     else if 97 \<le> n \<and> n \<le> 102 then Some (n - 87)
     else if 65 \<le> n \<and> n \<le> 70 then Some (n - 55)
     else None)"

fun hex4 :: "char \<Rightarrow> char \<Rightarrow> char \<Rightarrow> char \<Rightarrow> nat option" where
  "hex4 a b c d =
     (case (hex_val a, hex_val b, hex_val c, hex_val d) of
        (Some w, Some x, Some y, Some z) \<Rightarrow> Some (((w * 16 + x) * 16 + y) * 16 + z)
      | _ \<Rightarrow> None)"

definition unescape :: "char \<Rightarrow> char option" where
  "unescape e = map_of
     [(CHR 0x22, CHR 0x22), (CHR 0x5C, CHR 0x5C), (CHR ''/'', CHR ''/''), (CHR ''b'', CHR 0x08),
      (CHR ''f'', CHR 0x0C), (CHR ''n'', LF), (CHR ''r'', CR), (CHR ''t'', CHR 0x09)] e"

definition push :: "char \<Rightarrow> (string \<times> string) option \<Rightarrow> (string \<times> string) option" where
  "push c r = map_option (\<lambda>(s, rest). (c # s, rest)) r"

text \<open>The rest of a string literal after its opening quote: its value and what follows it.\<close>

fun scan_string :: "string \<Rightarrow> (string \<times> string) option" where
  "scan_string [] = None"
| "scan_string (c # cs) =
     (if c = CHR 0x22 then Some ([], cs)
      else if c = CHR 0x5C then
        (case cs of
           [] \<Rightarrow> None
         | e # es \<Rightarrow>
             if e = CHR ''u'' then
               (case es of
                  h1 # h2 # h3 # h4 # rest \<Rightarrow>
                    (case hex4 h1 h2 h3 h4 of
                       Some v \<Rightarrow> if v < 256 then push (char_of v) (scan_string rest) else None
                     | None \<Rightarrow> None)
                | _ \<Rightarrow> None)
             else (case unescape e of
                     Some d \<Rightarrow> push d (scan_string es)
                   | None \<Rightarrow> None))
      else if of_char c < (32::nat) then None
      else push c (scan_string cs))"

text \<open>Digits, then an optional fraction, then an optional exponent.\<close>

definition scan_frac :: "string \<Rightarrow> string" where
  "scan_frac s = (case s of
     d # r \<Rightarrow> if d = CHR ''.'' \<and> takeWhile is_digit r \<noteq> [] then d # takeWhile is_digit r else []
   | [] \<Rightarrow> [])"

definition scan_exp :: "string \<Rightarrow> string" where
  "scan_exp s = (case s of
     e # r \<Rightarrow>
       if e \<in> {CHR ''e'', CHR ''E''} then
         (let sgn = (case r of g # _ \<Rightarrow> if g \<in> {CHR ''+'', CHR ''-''} then [g] else [] | [] \<Rightarrow> []);
              ds = takeWhile is_digit (drop (length sgn) r)
          in if ds \<noteq> [] then e # sgn @ ds else [])
       else []
   | [] \<Rightarrow> [])"

definition scan_int_part :: "string \<Rightarrow> string" where
  "scan_int_part s = (if startswith s ''0'' then ''0'' else takeWhile is_digit s)"

definition scan_number :: "string \<Rightarrow> (json \<times> string) option" where
  "scan_number s =
     (let sgn = (if startswith s ''-'' then ''-'' else []);
          r0 = drop (length sgn) s;
          ds = scan_int_part r0
      in if ds = [] then None
         else (let r1 = drop (length ds) r0;
                   frac = scan_frac r1;
                   ex = scan_exp (drop (length frac) r1);
                   rest = drop (length ex) (drop (length frac) r1)
               in if frac = [] \<and> ex = []
                    then Some (JInt (if sgn = [] then int (nat_of_digits ds)
                                     else - int (nat_of_digits ds)), rest)
                    else Some (JFloat (sgn @ ds @ frac @ ex), rest)))"

definition lit :: "string \<Rightarrow> json \<Rightarrow> string \<Rightarrow> (json \<times> string) option" where
  "lit word v s = (if startswith s word then Some (v, drop (length word) s) else None)"

text \<open>The scalar branches of the scanner, in its order.\<close>

definition scan_scalar :: "string \<Rightarrow> (json \<times> string) option" where
  "scan_scalar s =
     (case lit ''null'' JNull s of Some x \<Rightarrow> Some x | None \<Rightarrow>
      (case lit ''true'' (JBool True) s of Some x \<Rightarrow> Some x | None \<Rightarrow>
       (case lit ''false'' (JBool False) s of Some x \<Rightarrow> Some x | None \<Rightarrow>
        (case scan_number s of Some x \<Rightarrow> Some x | None \<Rightarrow>
         (case lit ''NaN'' (JFloat ''NaN'') s of Some x \<Rightarrow> Some x | None \<Rightarrow>
          (case lit ''Infinity'' (JFloat ''Infinity'') s of Some x \<Rightarrow> Some x | None \<Rightarrow>
             lit ''-Infinity'' (JFloat ''-Infinity'') s))))))"

fun parse_value :: "nat \<Rightarrow> string \<Rightarrow> (json \<times> string) option"
  and parse_elems :: "nat \<Rightarrow> string \<Rightarrow> (json list \<times> string) option"
  and parse_members :: "nat \<Rightarrow> string \<Rightarrow> ((string \<times> json) list \<times> string) option"
where
  "parse_value 0 s = None"
| "parse_value (Suc n) s =
     (case s of
        [] \<Rightarrow> None
      | c # cs \<Rightarrow>
          if c = CHR 0x22 then map_option (\<lambda>(t, r). (JStr t, r)) (scan_string cs)
          else if c = CHR ''{'' then
            (let r = skip_ws cs
             in if startswith r ''}'' then Some (JObj [], tl r)
                else map_option (\<lambda>(kvs, r'). (JObj (dict_of kvs), r')) (parse_members n r))
          else if c = CHR ''['' then
            (let r = skip_ws cs
             in if startswith r '']'' then Some (JArr [], tl r)
                else map_option (\<lambda>(vs, r'). (JArr vs, r')) (parse_elems n r))
          else scan_scalar s)"
| "parse_elems 0 s = None"
| "parse_elems (Suc n) s =
     (case parse_value n s of
        None \<Rightarrow> None
      | Some (v, r) \<Rightarrow>
          (let r' = skip_ws r
           in if startswith r' '']'' then Some ([v], tl r')
              else if startswith r' '','' then
                map_option (\<lambda>(vs, r''). (v # vs, r'')) (parse_elems n (skip_ws (tl r')))
              else None))"
| "parse_members 0 s = None"
| "parse_members (Suc n) s =
     (if \<not> startswith s [CHR 0x22] then None
      else (case scan_string (tl s) of
        None \<Rightarrow> None
      | Some (k, r) \<Rightarrow>
          (if \<not> startswith (skip_ws r) '':'' then None
           else (case parse_value n (skip_ws (tl (skip_ws r))) of
                   None \<Rightarrow> None
                 | Some (v, r') \<Rightarrow>
                     (let r'' = skip_ws r'
                      in if startswith r'' ''}'' then Some ([(k, v)], tl r'')
                         else if startswith r'' '','' then
                           map_option (\<lambda>(kvs, q). ((k, v) # kvs, q))
                             (parse_members n (skip_ws (tl r'')))
                         else None)))))"

definition json_loads :: "string \<Rightarrow> json option" where
  "json_loads s =
     (case parse_value (Suc (length s)) (skip_ws s) of
        Some (v, r) \<Rightarrow> if skip_ws r = [] then Some v else None
      | None \<Rightarrow> None)"

section \<open>Round trip\<close>

text \<open>Values the program prints: dicts with distinct keys, no fractions.\<close>

fun wf_json :: "json \<Rightarrow> bool" where
  "wf_json (JFloat s) = False"
| "wf_json (JArr vs) = (\<forall>v \<in> set vs. wf_json v)"
| "wf_json (JObj kvs) = (distinct (map fst kvs) \<and> (\<forall>kv \<in> set kvs. wf_json (snd kv)))"
| "wf_json _ = True"

lemma update_fresh: "k \<notin> fst ` set kvs \<Longrightarrow> AList.update k v kvs = kvs @ [(k, v)]"
  by (induction kvs) auto

lemma fold_update_fresh:
  "distinct (map fst (kvs0 @ kvs)) \<Longrightarrow> fold (\<lambda>(k, v). AList.update k v) kvs kvs0 = kvs0 @ kvs"
proof (induction kvs arbitrary: kvs0)
  case (Cons kv kvs)
  obtain k v where kv: "kv = (k, v)" by (cases kv)
  have "AList.update k v kvs0 = kvs0 @ [(k, v)]"
    using Cons.prems kv by (intro update_fresh) auto
  then show ?case using Cons.IH [of "kvs0 @ [(k, v)]"] Cons.prems kv by simp
qed simp

lemma dict_of_distinct [simp]: "distinct (map fst kvs) \<Longrightarrow> dict_of kvs = kvs"
  using fold_update_fresh [of "[]" kvs] by (simp add: dict_of_def)

subsection \<open>Strings\<close>

lemma hex_val_hex_char: "d < 16 \<Longrightarrow> hex_val (hex_char d) = Some d"
  by (auto simp: hex_val_def hex_char_def of_char_of take_bit_eq_mod)

lemma of_char_less: "of_char c < (256::nat)"
  by simp

lemma hex4_hex2:
  "hex4 (CHR ''0'') (CHR ''0'') (hex_char (of_char c div 16)) (hex_char (of_char c mod 16)) =
     Some (of_char c)"
proof -
  have "hex_val (CHR ''0'') = Some 0" by (simp add: hex_val_def)
  moreover have "of_char c div 16 < (16::nat)" by (rule less_mult_imp_div_less) simp
  moreover have "of_char c mod 16 < (16::nat)" by simp
  ultimately show ?thesis by (simp add: hex_val_hex_char)
qed

lemma scan_string_esc: "scan_string (esc_char c @ t) = push c (scan_string t)"
proof (cases "(32::nat) \<le> of_char c \<and> of_char c \<le> (126::nat)")
  case True
  then show ?thesis by (auto simp: esc_char_def unescape_def)
next
  case False
  then show ?thesis
    by (auto simp: esc_char_def unescape_def hex2_def hex4_hex2 simp del: hex4.simps)
qed

lemma scan_string_print:
  "scan_string (concat (map esc_char s) @ CHR 0x22 # rest) = Some (s, rest)"
  by (induction s) (simp_all add: scan_string_esc push_def del: scan_string.simps(2),
    simp add: scan_string.simps(2))

subsection \<open>Numbers\<close>

text \<open>What may follow a value in a printed text.\<close>

definition delimited :: "string \<Rightarrow> bool" where
  "delimited s \<longleftrightarrow> (case s of [] \<Rightarrow> True | c # _ \<Rightarrow> c \<in> {CHR '','', CHR '']'', CHR ''}''} \<or> json_ws c)"

lemma delimited_scan:
  assumes "delimited s"
  shows "scan_frac s = []" and "scan_exp s = []" and "s \<noteq> [] \<Longrightarrow> \<not> is_digit (hd s)"
  using assms
  by (auto simp: delimited_def scan_frac_def scan_exp_def json_ws_def is_digit_def split: list.splits)

lemma takeWhile_nat_str:
  assumes "delimited rest"
  shows "takeWhile is_digit (nat_str n @ rest) = nat_str n"
proof -
  have "takeWhile is_digit rest = []"
    using delimited_scan(3) [OF assms] by (cases rest) auto
  then show ?thesis using nat_str_digits by (simp add: takeWhile_append)
qed

lemma nat_str_0: "nat_str 0 = ''0''"
  by code_simp

lemma scan_int_part_nat_str:
  assumes "delimited rest"
  shows "scan_int_part (nat_str n @ rest) = nat_str n"
proof (cases "n = 0")
  case True
  then show ?thesis by (simp add: scan_int_part_def nat_str_0)
next
  case False
  then have "hd (nat_str n) \<noteq> CHR ''0''" by (simp add: hd_nat_str)
  then have "\<not> startswith (nat_str n @ rest) ''0''"
    by (cases "nat_str n") (use nat_str_nonempty in auto)
  then show ?thesis by (simp add: scan_int_part_def takeWhile_nat_str [OF assms])
qed

lemma hd_nat_str_digit: "is_digit (hd (nat_str n))"
  using nat_str_digits [of "hd (nat_str n)" n] by simp

lemma scan_number_int_str:
  assumes "delimited rest"
  shows "scan_number (int_str i @ rest) = Some (JInt i, rest)"
proof (cases "i < 0")
  case True
  then show ?thesis
    using delimited_scan [OF assms]
    by (simp add: scan_number_def int_str_def Let_def scan_int_part_nat_str [OF assms])
next
  case False
  have "\<not> startswith (nat_str (nat i) @ rest) ''-''"
    using minus_not_digit [of "nat i"]
    by (cases "nat_str (nat i)") (use nat_str_nonempty in auto)
  then show ?thesis
    using False delimited_scan [OF assms]
    by (simp add: scan_number_def int_str_def Let_def scan_int_part_nat_str [OF assms])
qed

text \<open>How a printed number starts.\<close>

lemma int_str_Cons:
  obtains c cs where "int_str i = c # cs" and "is_digit c \<or> c = CHR ''-''"
proof (cases "i < 0")
  case True
  then show thesis using that by (simp add: int_str_def)
next
  case False
  then show thesis
    using that hd_nat_str_digit [of "nat i"]
    by (cases "nat_str (nat i)") (auto simp: int_str_def)
qed

lemma scan_scalar_int:
  assumes "delimited rest"
  shows "scan_scalar (int_str i @ rest) = Some (JInt i, rest)"
proof -
  obtain c cs where c: "int_str i = c # cs" "is_digit c \<or> c = CHR ''-''"
    using int_str_Cons .
  then have "c \<notin> {CHR ''n'', CHR ''t'', CHR ''f''}"
    by (auto simp: is_digit_def)
  then have "\<not> startswith (int_str i @ rest) ''null''"
    and "\<not> startswith (int_str i @ rest) ''true''"
    and "\<not> startswith (int_str i @ rest) ''false''"
    by (auto simp: c(1))
  then show ?thesis
    by (simp add: scan_scalar_def lit_def scan_number_int_str [OF assms])
qed

subsection \<open>Whole values\<close>

lemma json_dumps_Cons:
  assumes "wf_json v"
  obtains c cs where "json_dumps v = c # cs" and "\<not> json_ws c" and "c \<notin> {CHR '']'', CHR ''}''}"
proof (cases v)
  case (JInt i)
  obtain c cs where "int_str i = c # cs" "is_digit c \<or> c = CHR ''-''"
    using int_str_Cons .
  then show thesis using that JInt by (auto simp: is_digit_def json_ws_def)
next
  case (JBool b)
  then show thesis by (cases b) (use that in \<open>simp_all add: json_ws_def\<close>)
qed (use that assms in \<open>simp_all add: json_string_def json_ws_def\<close>)

lemma skip_ws_id: "(s \<noteq> [] \<Longrightarrow> \<not> json_ws (hd s)) \<Longrightarrow> skip_ws s = s"
  by (simp add: skip_ws_def dropWhile_id)

lemma skip_ws_dumps: "wf_json v \<Longrightarrow> skip_ws (json_dumps v @ rest) = json_dumps v @ rest"
  by (rule skip_ws_id) (metis append_Cons json_dumps_Cons list.sel(1))

lemma skip_ws_simps [simp]:
  "skip_ws (CHR '' '' # s) = skip_ws s" "skip_ws (CHR '','' # s) = CHR '','' # s"
  "skip_ws (CHR '']'' # s) = CHR '']'' # s" "skip_ws (CHR ''}'' # s) = CHR ''}'' # s"
  "skip_ws (CHR '':'' # s) = CHR '':'' # s" "skip_ws (CHR 0x22 # s) = CHR 0x22 # s"
  by (simp_all add: skip_ws_def json_ws_def)

lemma delimited_simps [simp]:
  "delimited []" "delimited (CHR '','' # s)" "delimited (CHR '']'' # s)" "delimited (CHR ''}'' # s)"
  by (simp_all add: delimited_def)

lemma length_join_elem: "x \<in> set xs \<Longrightarrow> length x \<le> length (join sep xs)"
  by (induction sep xs rule: join.induct) auto

text \<open>The statement carried through the induction: with fuel for its printed length, the
  parser reads a printed value back and stops right after it.\<close>

definition reads_back :: "json \<Rightarrow> bool" where
  "reads_back v \<longleftrightarrow> (\<forall>fuel rest. length (json_dumps v) \<le> fuel \<longrightarrow> delimited rest \<longrightarrow>
     parse_value fuel (json_dumps v @ rest) = Some (v, rest))"

lemma reads_backD:
  "reads_back v \<Longrightarrow> length (json_dumps v) \<le> fuel \<Longrightarrow> delimited rest \<Longrightarrow>
     parse_value fuel (json_dumps v @ rest) = Some (v, rest)"
  by (simp add: reads_back_def)

lemma reads_backI:
  assumes "wf_json v"
    and "\<And>n rest. length (json_dumps v) \<le> Suc n \<Longrightarrow> delimited rest \<Longrightarrow>
      parse_value (Suc n) (json_dumps v @ rest) = Some (v, rest)"
  shows "reads_back v"
  unfolding reads_back_def
proof (intro allI impI)
  fix fuel rest
  assume len: "length (json_dumps v) \<le> fuel" and "delimited rest"
  obtain c cs where "json_dumps v = c # cs" using json_dumps_Cons [OF assms(1)] by blast
  with len obtain n where "fuel = Suc n" by (cases fuel) auto
  with assms(2) len \<open>delimited rest\<close>
  show "parse_value fuel (json_dumps v @ rest) = Some (v, rest)" by simp
qed

lemma parse_elems_print:
  assumes "vs \<noteq> []" and "\<And>v. v \<in> set vs \<Longrightarrow> wf_json v \<and> reads_back v"
    and "length (join '', '' (map json_dumps vs)) < fuel"
  shows "parse_elems fuel (join '', '' (map json_dumps vs) @ CHR '']'' # rest) = Some (vs, rest)"
  using assms
proof (induction vs arbitrary: fuel)
  case (Cons v vs)
  obtain n where fuel: "fuel = Suc n" using Cons.prems(3) by (cases fuel) auto
  have v: "parse_value n (json_dumps v @ t) = Some (v, t)" if "delimited t" for t
    using Cons.prems(2) [of v] Cons.prems(3) that fuel
      length_join_elem [of "json_dumps v" "map json_dumps (v # vs)" "'', ''"]
    by (intro reads_backD) simp_all
  show ?case
  proof (cases "vs = []")
    case True
    then show ?thesis by (simp add: fuel v)
  next
    case False
    then obtain w ws where vs: "vs = w # ws" by (cases vs) auto
    let ?t = "join '', '' (map json_dumps vs) @ CHR '']'' # rest"
    have "skip_ws ?t = ?t"
      using Cons.prems(2) vs by (cases ws) (auto simp: skip_ws_dumps)
    moreover have "parse_elems n ?t = Some (vs, rest)"
      using Cons.prems fuel vs by (intro Cons.IH) auto
    ultimately show ?thesis using vs by (simp add: fuel v)
  qed
qed simp

lemma parse_members_print:
  assumes "kvs \<noteq> []" and "\<And>kv. kv \<in> set kvs \<Longrightarrow> wf_json (snd kv) \<and> reads_back (snd kv)"
    and "length (join '', '' (map (\<lambda>(k, v). json_string k @ '': '' @ json_dumps v) kvs)) < fuel"
  shows "parse_members fuel
    (join '', '' (map (\<lambda>(k, v). json_string k @ '': '' @ json_dumps v) kvs) @ CHR ''}'' # rest) =
    Some (kvs, rest)"
  using assms
proof (induction kvs arbitrary: fuel)
  case (Cons kv kvs)
  obtain k v where kv: "kv = (k, v)" by (cases kv)
  obtain n where fuel: "fuel = Suc n" using Cons.prems(3) by (cases fuel) auto
  have v: "parse_value n (json_dumps v @ t) = Some (v, t)" if "delimited t" for t
    using Cons.prems(2) [of kv] Cons.prems(3) that fuel kv
      length_join_elem [of "json_string k @ '': '' @ json_dumps v"
        "map (\<lambda>(k, v). json_string k @ '': '' @ json_dumps v) (kv # kvs)" "'', ''"]
    by (intro reads_backD) simp_all
  have wf: "wf_json v" using Cons.prems(2) [of kv] kv by simp
  have key: "scan_string (concat (map esc_char k) @ CHR 0x22 # t) = Some (k, t)" for t
    by (rule scan_string_print)
  show ?case
  proof (cases "kvs = []")
    case True
    then show ?thesis by (simp add: fuel v kv json_string_def key skip_ws_dumps wf)
  next
    case False
    then obtain k' v' kvs' where kvs: "kvs = (k', v') # kvs'" by (cases kvs) auto
    let ?t = "join '', '' (map (\<lambda>(k, v). json_string k @ '': '' @ json_dumps v) kvs) @ CHR ''}'' # rest"
    have "skip_ws ?t = ?t"
      using kvs by (cases kvs') (auto simp: json_string_def)
    moreover have "parse_members n ?t = Some (kvs, rest)"
      using Cons.prems fuel kvs kv by (intro Cons.IH) (auto simp: json_string_def)
    ultimately show ?thesis
      using kvs by (simp add: fuel v kv json_string_def key skip_ws_dumps wf)
  qed
qed simp

lemma reads_back_scalar:
  assumes "wf_json v" and "\<And>vs. v \<noteq> JArr vs" and "\<And>kvs. v \<noteq> JObj kvs"
  shows "reads_back v"
proof (rule reads_backI [OF assms(1)])
  fix n rest
  assume d: "delimited rest"
  show "parse_value (Suc n) (json_dumps v @ rest) = Some (v, rest)"
  proof (cases v)
    case (JInt i)
    obtain c cs where c: "int_str i = c # cs" "is_digit c \<or> c = CHR ''-''"
      using int_str_Cons .
    then have "c \<notin> {CHR 0x22, CHR ''{'', CHR ''[''}" by (auto simp: is_digit_def)
    with c(1) scan_scalar_int [OF d, of i] JInt show ?thesis by simp
  next
    case (JBool b)
    then show ?thesis by (cases b) (simp_all add: scan_scalar_def lit_def)
  qed (use assms in \<open>simp_all add: scan_scalar_def lit_def json_string_def scan_string_print\<close>)
qed

lemma reads_back_wf: "wf_json v \<Longrightarrow> reads_back v"
proof (induction v)
  case (JArr vs)
  then have vs: "wf_json v \<and> reads_back v" if "v \<in> set vs" for v using that by simp
  show ?case
  proof (rule reads_backI [OF JArr.prems])
    fix n rest
    assume n: "length (json_dumps (JArr vs)) \<le> Suc n"
    show "parse_value (Suc n) (json_dumps (JArr vs) @ rest) = Some (JArr vs, rest)"
    proof (cases vs)
      case Nil
      then show ?thesis by simp
    next
      case (Cons w ws)
      let ?t = "join '', '' (map json_dumps vs) @ CHR '']'' # rest"
      obtain c cs where c: "json_dumps w = c # cs" "\<not> json_ws c" "c \<notin> {CHR '']'', CHR ''}''}"
        using json_dumps_Cons [of w] vs [of w] Cons by auto
      then have "\<exists>t. ?t = c # t" using Cons by (cases ws) auto
      with c have "skip_ws ?t = ?t" and "\<not> startswith ?t '']''"
        by (auto intro: skip_ws_id)
      moreover have "parse_elems n ?t = Some (vs, rest)"
        using n Cons vs by (intro parse_elems_print) auto
      ultimately show ?thesis by simp
    qed
  qed
next
  case (JObj kvs)
  then have kvs: "wf_json (snd kv) \<and> reads_back (snd kv)" if "kv \<in> set kvs" for kv
    using that by (cases kv) (auto simp: snds.simps)
  show ?case
  proof (rule reads_backI [OF JObj.prems])
    fix n rest
    assume n: "length (json_dumps (JObj kvs)) \<le> Suc n"
    show "parse_value (Suc n) (json_dumps (JObj kvs) @ rest) = Some (JObj kvs, rest)"
    proof (cases kvs)
      case Nil
      then show ?thesis by simp
    next
      case (Cons kv' kvs')
      let ?t = "join '', '' (map (\<lambda>(k, v). json_string k @ '': '' @ json_dumps v) kvs) @ CHR ''}'' # rest"
      have "\<exists>t. ?t = CHR 0x22 # t"
        using Cons by (cases kv'; cases kvs') (auto simp: json_string_def)
      then have "skip_ws ?t = ?t" and "\<not> startswith ?t ''}''" by auto
      moreover have "parse_members n ?t = Some (kvs, rest)"
        using n Cons kvs by (intro parse_members_print) auto
      ultimately show ?thesis using JObj.prems by simp
    qed
  qed
qed (simp_all add: reads_back_scalar)

text \<open>Reading a printed value gives it back.\<close>

lemma json_loads_dumps:
  assumes "wf_json v"
  shows "json_loads (json_dumps v) = Some v"
proof -
  have "skip_ws (json_dumps v) = json_dumps v"
    using skip_ws_dumps [OF assms, of "[]"] by simp
  moreover have "parse_value (Suc (length (json_dumps v))) (json_dumps v) = Some (v, [])"
    using reads_backD [OF reads_back_wf [OF assms], of "Suc (length (json_dumps v))" "[]"] by simp
  ultimately show ?thesis by (simp add: json_loads_def skip_ws_def)
qed

end
