(* ===== verification/Engine.thy ===== *)
theory Engine
  imports Prelude Json
begin

text \<open>
  \<open>runner/engine.py\<close>: boards, the parser and printer of the wire format, the winner check
  and the validation of a move. A board is the source's list of lists of one-character
  strings; reading a cell out of range raises \<open>IndexError\<close>, so the operations return
  results that may be exceptions. The specification side of the file (\<open>wf_board\<close>,
  \<open>has_line\<close>, \<open>legal_move\<close>) states the rules of the game independently of the source's
  tables and loops.
\<close>

section \<open>Data\<close>

type_synonym board = "string list list"

datatype MatchOutcome = X_WINS | O_WINS | X_FORFEIT | O_FORFEIT | CAT

fun outcome_value :: "MatchOutcome \<Rightarrow> string" where
  "outcome_value X_WINS = ''x_wins''"
| "outcome_value O_WINS = ''o_wins''"
| "outcome_value X_FORFEIT = ''x_forfeit''"
| "outcome_value O_FORFEIT = ''o_forfeit''"
| "outcome_value CAT = ''cat''"

definition EMPTY_BOARD :: board where
  "EMPTY_BOARD = [[''.'', ''.'', ''.''], [''.'', ''.'', ''.''], [''.'', ''.'', ''.'']]"

definition WINNING_LINES :: "(nat \<times> nat) list list" where
  "WINNING_LINES =
     [[(0, 0), (0, 1), (0, 2)],
      [(1, 0), (1, 1), (1, 2)],
      [(2, 0), (2, 1), (2, 2)],
      [(0, 0), (1, 0), (2, 0)],
      [(0, 1), (1, 1), (2, 1)],
      [(0, 2), (1, 2), (2, 2)],
      [(0, 0), (1, 1), (2, 2)],
      [(0, 2), (1, 1), (2, 0)]]"

text \<open>The positions in the order of \<open>for r in range(3) for c in range(3)\<close>.\<close>

definition grid :: "(nat \<times> nat) list" where
  "grid = [(0, 0), (0, 1), (0, 2), (1, 0), (1, 1), (1, 2), (2, 0), (2, 1), (2, 2)]"

record Move =
  mv_number :: nat
  mv_player :: string
  mv_board :: string
  mv_error :: json

record MatchResult =
  mr_result :: MatchOutcome
  mr_moves :: "Move list"

text \<open>
  A move's error is the dynamically typed value the bot's reply carried (\<open>JNull\<close> is \<open>None\<close>):
  the code puts whatever \<open>json.loads\<close> gave there without checking that it is a string.
\<close>

section \<open>Operations\<close>

text \<open>\<open>c in ("X", "O", ".")\<close>\<close>

definition is_cell :: "string \<Rightarrow> bool" where
  "is_cell c \<longleftrightarrow> c \<in> {''X'', ''O'', ''.''}"

fun parse_rows :: "string list \<Rightarrow> board option" where
  "parse_rows [] = Some []"
| "parse_rows (row # rows) =
     (let cells = split_on (CHR ''|'') row
      in if length cells \<noteq> 3 \<or> \<not> list_all is_cell cells then None
         else map_option (\<lambda>board. cells # board) (parse_rows rows))"

definition parse_board :: "string \<Rightarrow> board option" where
  "parse_board text =
     (let rows = splitlines (py_strip text)
      in if length rows \<noteq> 3 then None else parse_rows rows)"

definition board_to_str :: "board \<Rightarrow> string" where
  "board_to_str board = join [LF] (map (join ''|'') board)"

definition board_cell :: "board \<Rightarrow> nat \<Rightarrow> nat \<Rightarrow> string res" where
  "board_cell board r c = bindE (py_nth board r) (\<lambda>row. py_nth row c)"

fun check_lines :: "board \<Rightarrow> (nat \<times> nat) list list \<Rightarrow> MatchOutcome option res" where
  "check_lines board [] = Inr None"
| "check_lines board (line # lines) =
     bindE (mapE (\<lambda>(r, c). board_cell board r c) line) (\<lambda>values.
       if values = [''X'', ''X'', ''X''] then Inr (Some X_WINS)
       else if values = [''O'', ''O'', ''O''] then Inr (Some O_WINS)
       else check_lines board lines)"

fun all_filled :: "board \<Rightarrow> (nat \<times> nat) list \<Rightarrow> bool res" where
  "all_filled board [] = Inr True"
| "all_filled board ((r, c) # ps) =
     bindE (board_cell board r c) (\<lambda>v. if v \<noteq> ''.'' then all_filled board ps else Inr False)"

definition check_winner :: "board \<Rightarrow> MatchOutcome option res" where
  "check_winner board =
     bindE (check_lines board WINNING_LINES) (\<lambda>w.
       case w of
         Some outcome \<Rightarrow> Inr (Some outcome)
       | None \<Rightarrow> bindE (all_filled board grid) (\<lambda>full. Inr (if full then Some CAT else None)))"

definition board_changes :: "board \<Rightarrow> board \<Rightarrow> (nat \<times> nat \<times> string \<times> string) list res" where
  "board_changes old_board new_board =
     bindE
       (mapE (\<lambda>(r, c). bindE (board_cell old_board r c) (\<lambda>old.
                         bindE (board_cell new_board r c) (\<lambda>new. Inr (r, c, old, new)))) grid)
       (\<lambda>cells. Inr (filter (\<lambda>(r, c, old, new). old \<noteq> new) cells))"

definition validate_move :: "board \<Rightarrow> board \<Rightarrow> string \<Rightarrow> string option res" where
  "validate_move old_board new_board symbol =
     bindE (board_changes old_board new_board) (\<lambda>changes.
       case changes of
         [] \<Rightarrow> Inr (Some ''no move made'')
       | (r, c, old, new) # rest \<Rightarrow>
           if length changes > 1
             then Inr (Some (nat_str (length changes) @ '' cells changed, expected 1''))
           else if old \<noteq> ''.''
             then Inr (Some (''cell ('' @ nat_str r @ '','' @ nat_str c @
                             '') was already occupied''))
           else if new \<noteq> symbol
             then Inr (Some (''placed wrong symbol '' @ [CHR 0x27] @ new @ [CHR 0x27] @
                             '', expected '' @ [CHR 0x27] @ symbol @ [CHR 0x27]))
           else Inr None)"

section \<open>Specification\<close>

definition wf_board :: "board \<Rightarrow> bool" where
  "wf_board b \<longleftrightarrow> length b = 3 \<and>
     (\<forall>row \<in> set b. length row = 3 \<and> (\<forall>c \<in> set row. is_cell c))"

text \<open>Three in a row, a column or a diagonal, said without the source's table of lines.\<close>

definition has_line :: "board \<Rightarrow> string \<Rightarrow> bool" where
  "has_line b s \<longleftrightarrow>
     (\<exists>r<3. \<forall>c<3. b ! r ! c = s) \<or> (\<exists>c<3. \<forall>r<3. b ! r ! c = s) \<or>
     (\<forall>i<3. b ! i ! i = s) \<or> (\<forall>i<3. b ! i ! (2 - i) = s)"

definition is_full :: "board \<Rightarrow> bool" where
  "is_full b \<longleftrightarrow> (\<forall>r<3. \<forall>c<3. b ! r ! c \<noteq> ''.'')"

definition place :: "board \<Rightarrow> nat \<Rightarrow> nat \<Rightarrow> string \<Rightarrow> board" where
  "place b r c s = b[r := (b ! r)[c := s]]"

definition legal_move :: "board \<Rightarrow> board \<Rightarrow> string \<Rightarrow> bool" where
  "legal_move old new s \<longleftrightarrow>
     (\<exists>r<3. \<exists>c<3. old ! r ! c = ''.'' \<and> new = place old r c s)"

definition pieces :: "board \<Rightarrow> string \<Rightarrow> nat" where
  "pieces b s = length (filter (\<lambda>(r, c). b ! r ! c = s) grid)"

section \<open>Cells of well-formed boards\<close>

lemma is_cell_simps [simp]: "is_cell ''X''" "is_cell ''O''" "is_cell ''.''"
  by (simp_all add: is_cell_def)

lemma wf_EMPTY_BOARD [simp]: "wf_board EMPTY_BOARD"
  by (simp add: wf_board_def EMPTY_BOARD_def)

lemma wf_boardD:
  assumes "wf_board b"
  shows "length b = 3" and "r < 3 \<Longrightarrow> length (b ! r) = 3"
    and "r < 3 \<Longrightarrow> c < 3 \<Longrightarrow> is_cell (b ! r ! c)"
proof -
  show "length b = 3" and row: "r < 3 \<Longrightarrow> length (b ! r) = 3"
    using assms by (simp_all add: wf_board_def)
  show "is_cell (b ! r ! c)" if "r < 3" "c < 3"
  proof -
    have "b ! r \<in> set b" and "b ! r ! c \<in> set (b ! r)"
      using that row \<open>length b = 3\<close> by simp_all
    with assms show ?thesis by (auto simp: wf_board_def)
  qed
qed

lemma wf_boardI:
  assumes "length b = 3" and "\<And>r. r < 3 \<Longrightarrow> length (b ! r) = 3"
    and "\<And>r c. r < 3 \<Longrightarrow> c < 3 \<Longrightarrow> is_cell (b ! r ! c)"
  shows "wf_board b"
  using assms by (metis in_set_conv_nth wf_board_def)

lemma board_cell_wf [simp]:
  "wf_board b \<Longrightarrow> r < 3 \<Longrightarrow> c < 3 \<Longrightarrow> board_cell b r c = Inr (b ! r ! c)"
  by (simp add: board_cell_def wf_boardD)

lemma set_grid: "set grid = {(r, c). r < 3 \<and> c < 3}"
proof -
  have "grid = List.product [0..<3] [0..<3]" by code_simp
  then have "set grid = set (List.product [0..<3] [0..<3])" by (rule arg_cong)
  also have "\<dots> = set [0..<3] \<times> set [0..<3]" by (rule set_product)
  also have "\<dots> = {(r, c). r < 3 \<and> c < 3}" unfolding set_upt atLeast0LessThan by blast
  finally show ?thesis .
qed

lemma distinct_grid: "distinct grid"
  by (simp add: grid_def)

lemma less_3_cases: "(r::nat) < 3 \<Longrightarrow> r = 0 \<or> r = 1 \<or> r = 2"
  by auto

lemma all_less_3: "(\<forall>i<3. P i) \<longleftrightarrow> P 0 \<and> P 1 \<and> P (2::nat)"
  by (auto dest: less_3_cases)

lemma ex_less_3: "(\<exists>i<3. P i) \<longleftrightarrow> P 0 \<or> P 1 \<or> P (2::nat)"
  using all_less_3 [of "\<lambda>i. \<not> P i"] by blast

lemma board_eqI:
  assumes "length a = 3" and "length b = 3"
    and "\<And>r. r < 3 \<Longrightarrow> length (a ! r) = 3" and "\<And>r. r < 3 \<Longrightarrow> length (b ! r) = 3"
    and "\<And>r c. r < 3 \<Longrightarrow> c < 3 \<Longrightarrow> a ! r ! c = b ! r ! c"
  shows "a = b"
  using assms by (auto intro!: nth_equalityI)

lemma place_nth:
  assumes "length b = 3" and "\<And>r. r < 3 \<Longrightarrow> length (b ! r) = 3"
    and "r < 3" and "c < 3" and "r' < 3" and "c' < 3"
  shows "place b r c s ! r' ! c' = (if r' = r \<and> c' = c then s else b ! r' ! c')"
  using assms by (auto simp: place_def nth_list_update)

lemma place_lengths:
  assumes "length b = 3" and "\<And>r. r < 3 \<Longrightarrow> length (b ! r) = 3"
  shows "length (place b r c s) = 3" and "r' < 3 \<Longrightarrow> length (place b r c s ! r') = 3"
  using assms by (cases "r = r'"; simp add: place_def)+

lemma wf_place:
  assumes "wf_board b" and "r < 3" and "c < 3" and "is_cell s"
  shows "wf_board (place b r c s)"
proof (rule wf_boardI)
  show "is_cell (place b r c s ! r' ! c')" if "r' < 3" "c' < 3" for r' c'
    using assms that wf_boardD(3) [OF assms(1), of r' c'] by (simp add: place_nth wf_boardD)
qed (use assms in \<open>auto simp: place_lengths wf_boardD\<close>)

lemma wf_legal_move:
  "wf_board old \<Longrightarrow> s \<in> {''X'', ''O''} \<Longrightarrow> legal_move old new s \<Longrightarrow> wf_board new"
  by (auto simp: legal_move_def wf_place)

section \<open>Parsing and printing\<close>

lemma parse_rows_Some:
  "parse_rows rows = Some b \<Longrightarrow>
     length b = length rows \<and>
     (\<forall>row \<in> set b. length row = 3 \<and> (\<forall>c \<in> set row. is_cell c))"
  by (induction rows arbitrary: b) (auto simp: Let_def list_all_iff split: if_splits)

lemma parse_board_wf: "parse_board text = Some b \<Longrightarrow> wf_board b"
  by (auto simp: parse_board_def wf_board_def Let_def dest: parse_rows_Some split: if_splits)

lemma is_cell_chars:
  assumes "is_cell c"
  shows "c \<noteq> []" and "d \<in> set c \<Longrightarrow> \<not> py_isspace d" and "CHR ''|'' \<notin> set c"
    and "\<not> py_isspace (hd c)" and "\<not> py_isspace (last c)"
  using assms by (auto simp: is_cell_def py_isspace_def)

lemma wf_board_cases:
  assumes "wf_board b"
  obtains x1 x2 x3 y1 y2 y3 z1 z2 z3
  where "b = [[x1, x2, x3], [y1, y2, y3], [z1, z2, z3]]"
    and "\<forall>c \<in> set [x1, x2, x3, y1, y2, y3, z1, z2, z3]. is_cell c"
  using assms by (auto simp: wf_board_def numeral_3_eq_3 length_Suc_conv)

lemma print_row_no_space:
  "\<forall>c \<in> set row. is_cell c \<Longrightarrow> d \<in> set (join ''|'' row) \<Longrightarrow> \<not> py_isspace d"
proof (induction "''|''" row rule: join.induct)
  case (3 x y ys)
  have "\<not> py_isspace (CHR ''|'')" by (simp add: py_isspace_def)
  with 3 show ?case using is_cell_chars(2) by auto
qed (simp_all add: is_cell_chars)

lemma board_to_str_ends:
  assumes "wf_board b"
  shows "board_to_str b \<noteq> []" and "\<not> py_isspace (hd (board_to_str b))"
    and "\<not> py_isspace (last (board_to_str b))"
proof -
  obtain x1 x2 x3 y1 y2 y3 z1 z2 z3
    where b: "b = [[x1, x2, x3], [y1, y2, y3], [z1, z2, z3]]"
      and cells: "\<forall>c \<in> set [x1, x2, x3, y1, y2, y3, z1, z2, z3]. is_cell c"
    using wf_board_cases [OF assms] .
  have "x1 \<noteq> []" and "\<not> py_isspace (hd x1)" and "z3 \<noteq> []" and "\<not> py_isspace (last z3)"
    using cells by (simp_all add: is_cell_chars)
  then show "board_to_str b \<noteq> []" and "\<not> py_isspace (hd (board_to_str b))"
    and "\<not> py_isspace (last (board_to_str b))"
    by (simp_all add: b board_to_str_def)
qed

lemma parse_rows_print:
  assumes "\<forall>row \<in> set b. length row = 3 \<and> (\<forall>c \<in> set row. is_cell c)"
  shows "parse_rows (map (join ''|'') b) = Some b"
  using assms
proof (induction b)
  case (Cons row b)
  have "split_on (CHR ''|'') (join ''|'' row) = row"
    by (rule split_on_join) (use Cons.prems is_cell_chars(3) in auto)
  with Cons show ?case by (simp add: list_all_iff)
qed simp

lemma splitlines_board_to_str:
  assumes "wf_board b"
  shows "splitlines (board_to_str b) = map (join ''|'') b"
  unfolding board_to_str_def
proof (rule splitlines_join)
  show "map (join ''|'') b \<noteq> []"
    using assms by (auto simp: wf_board_def)
  obtain x1 x2 x3 y1 y2 y3 z1 z2 z3 where "b = [[x1, x2, x3], [y1, y2, y3], [z1, z2, z3]]"
    by (rule wf_board_cases [OF assms]) blast
  then show "last (map (join ''|'') b) \<noteq> []" by simp
  show "\<not> line_break d" if x: "x \<in> set (map (join ''|'') b)" and d: "d \<in> set x" for x d
  proof -
    obtain row where "row \<in> set b" and row: "x = join ''|'' row" using x by auto
    then have "\<forall>c \<in> set row. is_cell c" using assms by (simp add: wf_board_def)
    then show ?thesis using d row print_row_no_space line_break_isspace by blast
  qed
qed

lemma parse_board_padded:
  assumes "wf_board b"
    and "\<And>c. c \<in> set pre \<Longrightarrow> py_isspace c" and "\<And>c. c \<in> set post \<Longrightarrow> py_isspace c"
  shows "parse_board (pre @ board_to_str b @ post) = Some b"
proof -
  have "py_strip (pre @ board_to_str b @ post) = board_to_str b"
    using assms by (intro py_strip_surround) (auto simp: board_to_str_ends)
  then show ?thesis
    using assms(1) parse_rows_print [of b]
    by (simp add: parse_board_def splitlines_board_to_str) (simp add: wf_board_def)
qed

lemma parse_board_to_str: "wf_board b \<Longrightarrow> parse_board (board_to_str b) = Some b"
  using parse_board_padded [of b "[]" "[]"] by simp

section \<open>The winner check\<close>

text \<open>Reading a line of an in-range table never raises on a well-formed board.\<close>

lemma mapE_board_cell:
  assumes "wf_board b" and "\<forall>p \<in> set ps. fst p < 3 \<and> snd p < 3"
  shows "mapE (\<lambda>(r, c). board_cell b r c) ps = Inr (map (\<lambda>(r, c). b ! r ! c) ps)"
  using assms by (intro mapE_Inr) auto

definition line_values :: "board \<Rightarrow> (nat \<times> nat) list \<Rightarrow> string list" where
  "line_values b line = map (\<lambda>(r, c). b ! r ! c) line"

lemma check_lines_wf:
  assumes "wf_board b" and "\<forall>line \<in> set lines. \<forall>p \<in> set line. fst p < 3 \<and> snd p < 3"
  shows "check_lines b lines = Inr (
    case filter (\<lambda>line. line_values b line \<in> {[''X'', ''X'', ''X''], [''O'', ''O'', ''O'']}) lines of
      [] \<Rightarrow> None
    | line # _ \<Rightarrow> Some (if line_values b line = [''X'', ''X'', ''X''] then X_WINS else O_WINS))"
  using assms(2)
proof (induction lines)
  case (Cons line lines)
  then have "mapE (\<lambda>(r, c). board_cell b r c) line = Inr (line_values b line)"
    by (simp add: mapE_board_cell [OF assms(1)] line_values_def)
  with Cons show ?case by (simp only: check_lines.simps) simp
qed simp

lemma all_filled_wf:
  assumes "wf_board b" and "\<forall>p \<in> set ps. fst p < 3 \<and> snd p < 3"
  shows "all_filled b ps = Inr (\<forall>(r, c) \<in> set ps. b ! r ! c \<noteq> ''.'')"
  using assms(2) by (induction ps) (use assms(1) in auto)

text \<open>Some line of the table holds three times \<open>s\<close> exactly when there is a row, a column or
  a diagonal of \<open>s\<close>: the table is complete and has no spurious line.\<close>

lemma has_line_table:
  "has_line b s \<longleftrightarrow> (\<exists>line \<in> set WINNING_LINES. line_values b line = [s, s, s])"
  by (simp add: has_line_def all_less_3 ex_less_3 WINNING_LINES_def line_values_def)

lemma WINNING_LINES_range: "\<forall>line \<in> set WINNING_LINES. \<forall>p \<in> set line. fst p < 3 \<and> snd p < 3"
  by (simp add: WINNING_LINES_def)

lemma grid_range: "\<forall>p \<in> set grid. fst p < 3 \<and> snd p < 3"
  by (auto simp: set_grid)

lemma is_full_grid: "is_full b \<longleftrightarrow> (\<forall>(r, c) \<in> set grid. b ! r ! c \<noteq> ''.'')"
  by (auto simp: is_full_def set_grid)

lemma check_winner_no_line:
  assumes "wf_board b" and "\<not> has_line b ''X''" and "\<not> has_line b ''O''"
  shows "check_winner b = Inr (if is_full b then Some CAT else None)"
proof -
  have "check_lines b WINNING_LINES = Inr None"
    using assms(2,3) check_lines_wf [OF assms(1) WINNING_LINES_range]
    by (auto simp: has_line_table split: list.split)
  then show ?thesis
    by (simp add: check_winner_def all_filled_wf [OF assms(1) grid_range] is_full_grid)
qed

lemma check_winner_line:
  assumes "wf_board b" and "has_line b ''X'' \<or> has_line b ''O''"
  shows "\<exists>w. check_winner b = Inr (Some w) \<and>
     (w = X_WINS \<and> has_line b ''X'' \<or> w = O_WINS \<and> has_line b ''O'')"
proof -
  let ?P = "\<lambda>line. line_values b line \<in> {[''X'', ''X'', ''X''], [''O'', ''O'', ''O'']}"
  obtain line lines where F: "filter ?P WINNING_LINES = line # lines"
    using assms(2) unfolding has_line_table
    by (cases "filter ?P WINNING_LINES") (auto simp: filter_empty_conv)
  have "line \<in> set (filter ?P WINNING_LINES)" by (simp only: F list.set_intros)
  then have line: "line \<in> set WINNING_LINES" "?P line" by simp_all
  let ?w = "if line_values b line = [''X'', ''X'', ''X''] then X_WINS else O_WINS"
  have "check_winner b = Inr (Some ?w)"
    using check_lines_wf [OF assms(1) WINNING_LINES_range] F by (simp add: check_winner_def)
  moreover have "?w = X_WINS \<and> has_line b ''X'' \<or> ?w = O_WINS \<and> has_line b ''O''"
    using line by (auto simp: has_line_table)
  ultimately show ?thesis by blast
qed

text \<open>\<open>check_winner\<close> never raises on a well-formed board.\<close>

lemma check_winner_total: "wf_board b \<Longrightarrow> \<exists>w. check_winner b = Inr w"
  by (cases "has_line b ''X'' \<or> has_line b ''O''")
    (use check_winner_line check_winner_no_line in blast)+

lemma check_winner_None:
  "wf_board b \<Longrightarrow> check_winner b = Inr None \<Longrightarrow>
     \<not> has_line b ''X'' \<and> \<not> has_line b ''O'' \<and> \<not> is_full b"
  by (cases "has_line b ''X'' \<or> has_line b ''O''")
    (use check_winner_line [of b] check_winner_no_line [of b] in \<open>auto split: if_splits\<close>)

lemma check_winner_not_forfeit:
  "wf_board b \<Longrightarrow> check_winner b = Inr (Some w) \<Longrightarrow> w \<in> {X_WINS, O_WINS, CAT}"
  using check_winner_line [of b] check_winner_no_line [of b]
  by (cases "has_line b ''X'' \<or> has_line b ''O''") (auto split: if_splits)

section \<open>Move validation\<close>

text \<open>The positions where two boards differ, in grid order.\<close>

definition diff_cells :: "board \<Rightarrow> board \<Rightarrow> (nat \<times> nat) list" where
  "diff_cells old new = filter (\<lambda>(r, c). old ! r ! c \<noteq> new ! r ! c) grid"

lemma board_changes_wf:
  assumes "wf_board old" and "wf_board new"
  shows "board_changes old new =
    Inr (map (\<lambda>(r, c). (r, c, old ! r ! c, new ! r ! c)) (diff_cells old new))"
proof -
  have "mapE (\<lambda>(r, c). bindE (board_cell old r c) (\<lambda>v.
                         bindE (board_cell new r c) (\<lambda>w. Inr (r, c, v, w)))) grid =
        Inr (map (\<lambda>(r, c). (r, c, old ! r ! c, new ! r ! c)) grid)"
    using assms by (intro mapE_Inr) (auto simp: set_grid)
  then show ?thesis
    by (simp add: board_changes_def diff_cells_def filter_map comp_def case_prod_unfold)
qed

lemma diff_cells_mem:
  "(r, c) \<in> set (diff_cells old new) \<longleftrightarrow> r < 3 \<and> c < 3 \<and> old ! r ! c \<noteq> new ! r ! c"
  by (auto simp: diff_cells_def set_grid)

lemma distinct_diff_cells: "distinct (diff_cells old new)"
  by (simp add: diff_cells_def distinct_grid)

lemma diff_cells_Nil:
  "wf_board old \<Longrightarrow> wf_board new \<Longrightarrow> diff_cells old new = [] \<longleftrightarrow> new = old"
  using board_eqI [of new old] by (auto simp: wf_boardD diff_cells_def filter_empty_conv set_grid)

lemma diff_cells_place:
  assumes "wf_board old" and "r < 3" and "c < 3" and "old ! r ! c \<noteq> s"
  shows "diff_cells old (place old r c s) = [(r, c)]"
proof -
  have "set (diff_cells old (place old r c s)) = {(r, c)}"
    using assms by (auto simp: diff_cells_mem place_nth wf_boardD split: if_splits)
  then have "length (diff_cells old (place old r c s)) = 1"
    by (metis distinct_diff_cells distinct_card is_singletonI is_singleton_altdef)
  with \<open>set _ = _\<close> show ?thesis by (auto simp: length_Suc_conv)
qed

text \<open>Two well-formed boards that differ in one cell only: the second is a placement.\<close>

lemma diff_cells_single:
  assumes "wf_board old" and "wf_board new" and "diff_cells old new = [(r, c)]"
  shows "r < 3 \<and> c < 3 \<and> new = place old r c (new ! r ! c)"
proof -
  have mem: "r < 3 \<and> c < 3"
    using diff_cells_mem [of r c old new] assms(3) by simp
  have "new = place old r c (new ! r ! c)"
  proof (rule board_eqI)
    show "new ! r' ! c' = place old r c (new ! r ! c) ! r' ! c'" if "r' < 3" "c' < 3" for r' c'
      using diff_cells_mem [of r' c' old new] assms mem that
      by (auto simp: place_nth wf_boardD)
  qed (use assms mem in \<open>simp_all add: wf_boardD place_lengths\<close>)
  with mem show ?thesis by simp
qed

text \<open>The four outcomes of \<open>validate_move\<close>, by the cells that changed.\<close>

lemma validate_move_wf:
  assumes "wf_board old" and "wf_board new"
  shows "validate_move old new s = Inr (
    case diff_cells old new of
      [] \<Rightarrow> Some ''no move made''
    | (r, c) # rest \<Rightarrow>
        if rest \<noteq> [] then Some (nat_str (Suc (length rest)) @ '' cells changed, expected 1'')
        else if old ! r ! c \<noteq> ''.''
          then Some (''cell ('' @ nat_str r @ '','' @ nat_str c @ '') was already occupied'')
        else if new ! r ! c \<noteq> s
          then Some (''placed wrong symbol '' @ [CHR 0x27] @ new ! r ! c @ [CHR 0x27] @
                     '', expected '' @ [CHR 0x27] @ s @ [CHR 0x27])
        else None)"
proof (cases "diff_cells old new")
  case Nil
  then show ?thesis by (simp add: validate_move_def board_changes_wf [OF assms])
next
  case (Cons p rest)
  obtain r c where "p = (r, c)" by (cases p)
  with Cons show ?thesis by (simp add: validate_move_def board_changes_wf [OF assms])
qed

lemma validate_move_legal:
  assumes "wf_board old" and "wf_board new" and "s \<noteq> ''.''"
  shows "validate_move old new s = Inr None \<longleftrightarrow> legal_move old new s"
proof
  assume "validate_move old new s = Inr None"
  then obtain r c where D: "diff_cells old new = [(r, c)]" "old ! r ! c = ''.''" "new ! r ! c = s"
    by (auto simp: validate_move_wf [OF assms(1,2)] split: list.splits if_splits)
  with diff_cells_single [OF assms(1,2) D(1)] show "legal_move old new s"
    by (auto simp: legal_move_def)
next
  assume "legal_move old new s"
  then obtain r c where "r < 3" "c < 3" "old ! r ! c = ''.''" "new = place old r c s"
    by (auto simp: legal_move_def)
  with assms show "validate_move old new s = Inr None"
    by (simp add: validate_move_wf diff_cells_place place_nth wf_boardD)
qed

section \<open>Counting pieces\<close>

lemma pieces_place:
  assumes "wf_board b" and "r < 3" and "c < 3" and "b ! r ! c = ''.''" and "s \<noteq> ''.''"
  shows "pieces (place b r c s) s = Suc (pieces b s)"
    and "pieces b ''.'' = Suc (pieces (place b r c s) ''.'')"
    and "t \<noteq> s \<Longrightarrow> t \<noteq> ''.'' \<Longrightarrow> pieces (place b r c s) t = pieces b t"
proof -
  have pieces: "pieces a t = card {(i, j). i < 3 \<and> j < 3 \<and> a ! i ! j = t}" for a t
  proof -
    have "pieces a t = card (set (filter (\<lambda>(i, j). a ! i ! j = t) grid))"
      unfolding pieces_def by (rule distinct_card [symmetric]) (simp add: distinct_grid)
    also have "set (filter (\<lambda>(i, j). a ! i ! j = t) grid) = {(i, j). i < 3 \<and> j < 3 \<and> a ! i ! j = t}"
      by (auto simp: set_grid)
    finally show ?thesis .
  qed
  let ?S = "\<lambda>a t. {(i, j). i < 3 \<and> j < 3 \<and> a ! i ! j = t} :: (nat \<times> nat) set"
  have fin: "finite (?S a t)" for a t
    by (rule finite_subset [of _ "{..<3} \<times> {..<3}"]) auto
  have nth: "place b r c t ! i ! j = (if i = r \<and> j = c then t else b ! i ! j)"
    if "i < 3" "j < 3" for i j t
    using that assms by (simp add: place_nth wf_boardD)
  have "?S (place b r c s) s = insert (r, c) (?S b s)" and "(r, c) \<notin> ?S b s"
    using assms by (auto simp: nth split: if_splits)
  then show "pieces (place b r c s) s = Suc (pieces b s)"
    by (simp add: pieces fin)
  have "?S b ''.'' = insert (r, c) (?S (place b r c s) ''.'')" and "(r, c) \<notin> ?S (place b r c s) ''.''"
    using assms by (auto simp: nth split: if_splits)
  then show "pieces b ''.'' = Suc (pieces (place b r c s) ''.'')"
    by (simp add: pieces fin)
  have "?S (place b r c s) t = ?S b t" if "t \<noteq> s" "t \<noteq> ''.''"
    using assms that by (auto simp: nth split: if_splits)
  then show "t \<noteq> s \<Longrightarrow> t \<noteq> ''.'' \<Longrightarrow> pieces (place b r c s) t = pieces b t"
    by (simp add: pieces)
qed

lemma pieces_EMPTY_BOARD: "pieces EMPTY_BOARD ''.'' = 9"
  by (simp add: pieces_def grid_def EMPTY_BOARD_def)

text \<open>A board with no empty cell is full; the game cannot go on.\<close>

lemma is_full_pieces: "is_full b \<longleftrightarrow> pieces b ''.'' = 0"
  by (auto simp: is_full_grid pieces_def filter_empty_conv)

lemma legal_move_pieces:
  assumes "wf_board old" and "legal_move old new s" and "s \<noteq> ''.''"
  shows "pieces old ''.'' = Suc (pieces new ''.'')"
    and "pieces new s = Suc (pieces old s)"
    and "t \<noteq> s \<Longrightarrow> t \<noteq> ''.'' \<Longrightarrow> pieces new t = pieces old t"
  using assms by (auto simp: legal_move_def pieces_place)

section \<open>Properties\<close>

text \<open>C12: \<open>validate_move\<close> always returns on two parsed boards; it accepts exactly the moves that
  place the player's symbol in one empty cell and change nothing else, and gives a nonempty
  message for every other.\<close>

theorem validate_move_decides:
  assumes "wf_board old" and "wf_board new" and "s \<noteq> ''.''"
  shows "\<exists>m. validate_move old new s = Inr m \<and> (m = None \<longleftrightarrow> legal_move old new s) \<and> m \<noteq> Some []"
proof -
  obtain m where m: "validate_move old new s = Inr m"
    by (simp add: validate_move_wf [OF assms(1,2)])
  moreover have "m \<noteq> Some []"
    using m by (auto simp: validate_move_wf [OF assms(1,2)] split: list.splits if_splits)
  ultimately show ?thesis using validate_move_legal [OF assms] by auto
qed

theorem validate_move_decides_witness:
  "\<exists>m. validate_move EMPTY_BOARD (place EMPTY_BOARD 1 1 ''X'') ''X'' = Inr m \<and>
     (m = None \<longleftrightarrow> legal_move EMPTY_BOARD (place EMPTY_BOARD 1 1 ''X'') ''X'') \<and> m \<noteq> Some []"
  by (rule validate_move_decides) (simp_all add: wf_board_def place_def EMPTY_BOARD_def is_cell_def)

text \<open>C13: \<open>check_winner\<close> never raises on a parsed board; it gives \<open>None\<close> exactly while nobody has a
  row, column or diagonal and a cell is empty, a draw exactly when the board is full without a
  line, a win only to a player who has a line, and never a forfeit.\<close>

theorem check_winner_decides:
  assumes "wf_board b"
  shows "\<exists>w. check_winner b = Inr w \<and>
    (w = None \<longleftrightarrow> \<not> has_line b ''X'' \<and> \<not> has_line b ''O'' \<and> \<not> is_full b) \<and>
    (w = Some CAT \<longleftrightarrow> \<not> has_line b ''X'' \<and> \<not> has_line b ''O'' \<and> is_full b) \<and>
    (w = Some X_WINS \<longrightarrow> has_line b ''X'') \<and> (w = Some O_WINS \<longrightarrow> has_line b ''O'') \<and>
    w \<noteq> Some X_FORFEIT \<and> w \<noteq> Some O_FORFEIT"
proof (cases "has_line b ''X'' \<or> has_line b ''O''")
  case True
  with check_winner_line [OF assms] show ?thesis by auto
next
  case False
  with check_winner_no_line [OF assms] show ?thesis by auto
qed

theorem check_winner_decides_witness:
  "\<exists>w. check_winner EMPTY_BOARD = Inr w \<and>
    (w = None \<longleftrightarrow> \<not> has_line EMPTY_BOARD ''X'' \<and> \<not> has_line EMPTY_BOARD ''O'' \<and> \<not> is_full EMPTY_BOARD) \<and>
    (w = Some CAT \<longleftrightarrow> \<not> has_line EMPTY_BOARD ''X'' \<and> \<not> has_line EMPTY_BOARD ''O'' \<and> is_full EMPTY_BOARD) \<and>
    (w = Some X_WINS \<longrightarrow> has_line EMPTY_BOARD ''X'') \<and> (w = Some O_WINS \<longrightarrow> has_line EMPTY_BOARD ''O'') \<and>
    w \<noteq> Some X_FORFEIT \<and> w \<noteq> Some O_FORFEIT"
  using check_winner_decides [of EMPTY_BOARD] by simp

text \<open>Parsing a printed board gives the board back, whatever whitespace surrounds the text;
  and only boards of three rows of three cells X, O or a dot are ever parsed.\<close>

theorem board_round_trip:
  assumes "list_all py_isspace pre" and "list_all py_isspace post"
  shows "(wf_board b \<longrightarrow> parse_board (pre @ board_to_str b @ post) = Some b) \<and>
    (parse_board t = Some b \<longrightarrow> wf_board b)"
  using assms parse_board_padded [of b pre post] parse_board_wf by (auto simp: list_all_iff)

theorem board_round_trip_witness:
  "parse_board ('' '' @ board_to_str EMPTY_BOARD @ [LF]) = Some EMPTY_BOARD"
  using board_round_trip [of "'' ''" "[LF]" EMPTY_BOARD "[]"] by (simp add: py_isspace_def)

end
