(* ===== verification/Pods.thy ===== *)
theory Pods
  imports Engine Json
begin

text \<open>
  \<open>dispatcher/pods.py\<close>: naming and describing bot pods, waiting for them, and asking them for
  a turn over HTTP. Kubernetes, the network and the clock are outside the repository: they
  are the operations of an \<open>env\<close> over an arbitrary world type \<open>'w\<close>, which every call
  threads. Durations are integers in milliseconds.
\<close>

section \<open>The outside world\<close>

record pod_status =
  phase :: "string option"
  container_statuses :: "bool list option"
  pod_ip :: "string option"

record http_request =
  req_url :: string
  req_data :: "string option"
  req_headers :: "(string \<times> string) list"

text \<open>
  The pod API of the Kubernetes client, \<open>urlopen\<close> with a timeout (the body of the response or the
  exception), \<open>urlopen\<close> without one (\<open>urlopen_blocking\<close>: \<open>None\<close> when the other side neither answers
  nor closes the connection, and the call never returns), \<open>time.monotonic\<close> and \<open>time.sleep\<close>.
\<close>

record 'w env =
  read_namespaced_pod :: "string \<Rightarrow> string \<Rightarrow> 'w \<Rightarrow> pod_status res \<times> 'w"
  create_namespaced_pod :: "string \<Rightarrow> json \<Rightarrow> 'w \<Rightarrow> unit res \<times> 'w"
  delete_namespaced_pod :: "string \<Rightarrow> string \<Rightarrow> 'w \<Rightarrow> unit res \<times> 'w"
  urlopen :: "http_request \<Rightarrow> int \<Rightarrow> 'w \<Rightarrow> string res \<times> 'w"
  urlopen_blocking :: "http_request \<Rightarrow> 'w \<Rightarrow> (string res \<times> 'w) option"
  monotonic :: "'w \<Rightarrow> int \<times> 'w"
  sleep :: "int \<Rightarrow> 'w \<Rightarrow> 'w"

section \<open>Constants, names and the manifest\<close>

record TurnResponse =
  tr_board :: json
  tr_error :: json

definition NAMESPACE :: string where "NAMESPACE = ''bots''"
definition TURN_PORT :: int where "TURN_PORT = 8080"
definition POLL_INTERVAL :: int where "POLL_INTERVAL = 500"

definition TERMINAL_POD_PHASES :: "string list" where
  "TERMINAL_POD_PHASES = [''Failed'', ''Unknown'']"

definition pod_name :: "int \<Rightarrow> string" where
  "pod_name bot_id = ''bot-'' @ int_str bot_id"

definition build_bot_pod_manifest :: "string \<Rightarrow> string \<Rightarrow> string \<Rightarrow> int \<Rightarrow> json" where
  "build_bot_pod_manifest pname img source_b64 bot_id =
     JObj
      [(''apiVersion'', JStr ''v1''),
       (''kind'', JStr ''Pod''),
       (''metadata'', JObj
         [(''name'', JStr pname),
          (''namespace'', JStr NAMESPACE),
          (''labels'', JObj
            [(''app'', JStr ''bot-runner''),
             (''bot-id'', JStr (int_str bot_id))])]),
       (''spec'', JObj
         [(''restartPolicy'', JStr ''Never''),
          (''automountServiceAccountToken'', JBool False),
          (''containers'', JArr
            [JObj
              [(''name'', JStr ''bot''),
               (''image'', JStr img),
               (''imagePullPolicy'', JStr ''Never''),
               (''env'', JArr [JObj [(''name'', JStr ''SOURCE_B64''), (''value'', JStr source_b64)]]),
               (''resources'', JObj
                 [(''limits'', JObj [(''cpu'', JStr ''500m''), (''memory'', JStr ''256Mi'')]),
                  (''requests'', JObj [(''cpu'', JStr ''100m''), (''memory'', JStr ''64Mi'')])]),
               (''ports'', JArr [JObj [(''containerPort'', JInt TURN_PORT)]])]])])]"

text \<open>\<open>f"{timeout}"\<close> of a float given in milliseconds: seconds with at least one decimal.\<close>

definition float_str :: "int \<Rightarrow> string" where
  "float_str ms =
     (let frac = nat (ms mod 1000);
          digits = [digit_char (frac div 100), digit_char (frac div 10 mod 10), digit_char (frac mod 10)];
          trimmed = rev (dropWhile (\<lambda>c. c = CHR ''0'') (rev digits))
      in int_str (ms div 1000) @ ''.'' @ (if trimmed = [] then ''0'' else trimmed))"

definition turn_url :: "string \<Rightarrow> string \<Rightarrow> string" where
  "turn_url ip path = ''http://'' @ ip @ '':'' @ int_str TURN_PORT @ path"

section \<open>Polling\<close>

definition check_pod_phase :: "pod_status \<Rightarrow> string \<Rightarrow> bool res" where
  "check_pod_phase pod pname =
     (case phase pod of
        Some p \<Rightarrow>
          if p \<in> set TERMINAL_POD_PHASES
            then Inl (RuntimeError (''pod '' @ pname @ '' entered phase '' @ py_repr p))
          else Inr (p = ''Running'' \<and>
                    (case container_statuses pod of
                       Some (ready # _) \<Rightarrow> ready
                     | _ \<Rightarrow> False))
      | None \<Rightarrow> Inr False)"

text \<open>
  The two loops poll until the clock reaches the deadline. Nothing in the code bounds the
  number of turns, and the request of the second has no timeout, so they are partial functions:
  \<open>None\<close> is a loop that never ends or a request that never returns.
\<close>

definition health_request :: "string \<Rightarrow> http_request" where
  "health_request ip = \<lparr>req_url = turn_url ip ''/health'', req_data = None, req_headers = []\<rparr>"

partial_function (option) http_ready_loop ::
  "'w env \<Rightarrow> string \<Rightarrow> int \<Rightarrow> int \<Rightarrow> 'w \<Rightarrow> (unit res \<times> 'w) option"
where
  "http_ready_loop E ip timeout deadline w =
     (case monotonic E w of (now, w1) \<Rightarrow>
        if now < deadline then
          (case urlopen_blocking E (health_request ip) w1 of
             None \<Rightarrow> None
           | Some (Inr _, w2) \<Rightarrow> Some (Inr (), w2)
           | Some (Inl _, w2) \<Rightarrow> http_ready_loop E ip timeout deadline (sleep E POLL_INTERVAL w2))
        else Some (Inl (TimeoutError
               (''pod at '' @ ip @ '' not ready after '' @ float_str timeout @ ''s'')), w1))"

definition wait_for_http_ready ::
  "'w env \<Rightarrow> string \<Rightarrow> int \<Rightarrow> 'w \<Rightarrow> (unit res \<times> 'w) option"
where
  "wait_for_http_ready E ip timeout w =
     (case monotonic E w of (now, w1) \<Rightarrow> http_ready_loop E ip timeout (now + timeout) w1)"

partial_function (option) pod_ready_loop ::
  "'w env \<Rightarrow> string \<Rightarrow> int \<Rightarrow> int \<Rightarrow> 'w \<Rightarrow> (unit res \<times> 'w) option"
where
  "pod_ready_loop E pname timeout deadline w =
     (case monotonic E w of (now, w1) \<Rightarrow>
        if now < deadline then
          (case read_namespaced_pod E pname NAMESPACE w1 of
             (Inl e, w2) \<Rightarrow> Some (Inl e, w2)
           | (Inr pod, w2) \<Rightarrow>
               (case check_pod_phase pod pname of
                  Inl e \<Rightarrow> Some (Inl e, w2)
                | Inr ready \<Rightarrow>
                    if ready then Some (Inr (), w2)
                    else pod_ready_loop E pname timeout deadline (sleep E POLL_INTERVAL w2)))
        else Some (Inl (TimeoutError
               (''pod '' @ pname @ '' not ready after '' @ float_str timeout @ ''s'')), w1))"

definition wait_for_pod_ready ::
  "'w env \<Rightarrow> string \<Rightarrow> int \<Rightarrow> 'w \<Rightarrow> (unit res \<times> 'w) option"
where
  "wait_for_pod_ready E pname timeout w =
     (case monotonic E w of (now, w1) \<Rightarrow> pod_ready_loop E pname timeout (now + timeout) w1)"

section \<open>One call each\<close>

definition get_pod_ip :: "'w env \<Rightarrow> string \<Rightarrow> 'w \<Rightarrow> string res \<times> 'w" where
  "get_pod_ip E pname w =
     (case read_namespaced_pod E pname NAMESPACE w of
        (Inl e, w1) \<Rightarrow> (Inl e, w1)
      | (Inr pod, w1) \<Rightarrow>
          (case pod_ip pod of
             Some ip \<Rightarrow>
               if ip = [] then (Inl (RuntimeError (''pod '' @ pname @ '' has no IP yet'')), w1)
               else (Inr ip, w1)
           | None \<Rightarrow> (Inl (RuntimeError (''pod '' @ pname @ '' has no IP yet'')), w1)))"

definition turn_request :: "string \<Rightarrow> string \<Rightarrow> string \<Rightarrow> http_request" where
  "turn_request ip symbol board =
     \<lparr>req_url = turn_url ip ''/turn'',
      req_data = Some (json_dumps (JObj [(''symbol'', JStr symbol), (''board'', JStr board)])),
      req_headers = [(''Content-Type'', ''application/json'')]\<rparr>"

definition parse_turn_response :: "string \<Rightarrow> TurnResponse res" where
  "parse_turn_response body =
     (case json_loads body of
        None \<Rightarrow> Inl JSONDecodeError
      | Some data \<Rightarrow>
          bindE (json_get data ''board'') (\<lambda>b.
          bindE (json_get data ''error'') (\<lambda>e.
            Inr \<lparr>tr_board = b, tr_error = e\<rparr>)))"

definition request_turn ::
  "'w env \<Rightarrow> string \<Rightarrow> string \<Rightarrow> string \<Rightarrow> int \<Rightarrow> 'w \<Rightarrow> TurnResponse res \<times> 'w"
where
  "request_turn E ip symbol board timeout w =
     (case urlopen E (turn_request ip symbol board) timeout w of
        (r, w1) \<Rightarrow> (bindE r parse_turn_response, w1))"

definition delete_pod :: "'w env \<Rightarrow> string \<Rightarrow> 'w \<Rightarrow> unit res \<times> 'w" where
  "delete_pod E pname w = delete_namespaced_pod E pname NAMESPACE w"

section \<open>Names and manifests\<close>

lemma pod_name_inject [simp]: "pod_name i = pod_name j \<longleftrightarrow> i = j"
  by (simp add: pod_name_def)

section \<open>The polling loops end\<close>

text \<open>
  What the loops need of the world: a clock that \<open>monotonic\<close> reads, that no call turns back
  and that \<open>sleep\<close> advances by at least the time asked for.
\<close>

definition clock_ok :: "'w env \<Rightarrow> ('w \<Rightarrow> int) \<Rightarrow> bool" where
  "clock_ok E clk \<longleftrightarrow>
     (\<forall>w. fst (monotonic E w) = clk w \<and> clk w \<le> clk (snd (monotonic E w))) \<and>
     (\<forall>r w x w1. urlopen_blocking E r w = Some (x, w1) \<longrightarrow> clk w \<le> clk w1) \<and>
     (\<forall>p n w. clk w \<le> clk (snd (read_namespaced_pod E p n w))) \<and>
     (\<forall>d w. clk w + d \<le> clk (sleep E d w))"

lemma clock_okD:
  assumes "clock_ok E clk"
  shows "monotonic E w = (t, w1) \<Longrightarrow> t = clk w \<and> clk w \<le> clk w1"
    and "urlopen_blocking E r w = Some (x, w1) \<Longrightarrow> clk w \<le> clk w1"
    and "read_namespaced_pod E p n w = (y, w1) \<Longrightarrow> clk w \<le> clk w1"
    and "clk w + d \<le> clk (sleep E d w)"
  using assms by (auto simp: clock_ok_def) (metis fst_conv snd_conv)+

text \<open>
  A turn of the health loop in which the request fails, and a request on the way to the deadline
  that never returns.
\<close>

definition probe_fails :: "'w env \<Rightarrow> string \<Rightarrow> int \<Rightarrow> 'w \<Rightarrow> 'w \<Rightarrow> bool" where
  "probe_fails E ip deadline w w' \<longleftrightarrow>
     (\<exists>now w1 e w2. monotonic E w = (now, w1) \<and> now < deadline \<and>
        urlopen_blocking E (health_request ip) w1 = Some (Inl e, w2) \<and> w' = sleep E POLL_INTERVAL w2)"

definition probe_hangs :: "'w env \<Rightarrow> string \<Rightarrow> int \<Rightarrow> 'w \<Rightarrow> bool" where
  "probe_hangs E ip deadline w \<longleftrightarrow>
     (\<exists>w' now w1. (probe_fails E ip deadline)\<^sup>*\<^sup>* w w' \<and> monotonic E w' = (now, w1) \<and> now < deadline \<and>
        urlopen_blocking E (health_request ip) w1 = None)"

lemma probe_hangs_now:
  "monotonic E w = (now, w1) \<Longrightarrow> now < deadline \<Longrightarrow> urlopen_blocking E (health_request ip) w1 = None \<Longrightarrow>
     probe_hangs E ip deadline w"
  unfolding probe_hangs_def by blast

lemma probe_hangs_later: "probe_fails E ip deadline w w' \<Longrightarrow> probe_hangs E ip deadline w' \<Longrightarrow> probe_hangs E ip deadline w"
  unfolding probe_hangs_def by (blast intro: converse_rtranclp_into_rtranclp)

lemma http_ready_loop_fails:
  "probe_fails E ip deadline w w' \<Longrightarrow> http_ready_loop E ip timeout deadline w = http_ready_loop E ip timeout deadline w'"
  by (subst http_ready_loop.simps) (auto simp: probe_fails_def)

lemma http_ready_loop_hangs:
  assumes "probe_hangs E ip deadline w"
  shows "http_ready_loop E ip timeout deadline w = None"
proof -
  obtain w' now w1 where path: "(probe_fails E ip deadline)\<^sup>*\<^sup>* w w'"
    and stuck: "monotonic E w' = (now, w1)" "now < deadline" "urlopen_blocking E (health_request ip) w1 = None"
    using assms unfolding probe_hangs_def by blast
  have "http_ready_loop E ip timeout deadline w' = None"
    using stuck by (subst http_ready_loop.simps) simp
  with path show ?thesis
    by (induction rule: converse_rtranclp_induct) (simp_all add: http_ready_loop_fails)
qed

text \<open>The loop never returns exactly when one of its requests does not.\<close>

lemma http_ready_loop_None_iff:
  assumes "clock_ok E clk"
  shows "http_ready_loop E ip timeout deadline w = None \<longleftrightarrow> probe_hangs E ip deadline w"
proof
  assume "http_ready_loop E ip timeout deadline w = None"
  then show "probe_hangs E ip deadline w"
  proof (induction "nat (deadline - clk w)" arbitrary: w rule: less_induct)
    case less
    obtain now w1 where m: "monotonic E w = (now, w1)" by force
    have now: "now < deadline"
      using less.prems m by (subst (asm) http_ready_loop.simps) (simp split: if_splits)
    show ?case
    proof (cases "urlopen_blocking E (health_request ip) w1")
      case None
      with m now show ?thesis by (rule probe_hangs_now)
    next
      case (Some r)
      then obtain e w2 where e: "urlopen_blocking E (health_request ip) w1 = Some (Inl e, w2)"
        using less.prems m now by (subst (asm) http_ready_loop.simps) (auto split: prod.splits sum.splits)
      then have step: "probe_fails E ip deadline w (sleep E POLL_INTERVAL w2)"
        using m now unfolding probe_fails_def by blast
      have "now = clk w" "clk w \<le> clk w1" "clk w1 \<le> clk w2"
        "clk w2 + POLL_INTERVAL \<le> clk (sleep E POLL_INTERVAL w2)"
        using clock_okD [OF assms] m e by auto
      with now have "nat (deadline - clk (sleep E POLL_INTERVAL w2)) < nat (deadline - clk w)"
        by (simp add: POLL_INTERVAL_def)
      from less.hyps [OF this] less.prems http_ready_loop_fails [OF step]
      show ?thesis by (intro probe_hangs_later [OF step]) simp
    qed
  qed
qed (rule http_ready_loop_hangs)

lemma pod_ready_loop_ends:
  assumes "clock_ok E clk"
  shows "\<exists>r. pod_ready_loop E pname timeout deadline w = Some r"
proof (induction "nat (deadline - clk w)" arbitrary: w rule: less_induct)
  case less
  obtain now w1 where m: "monotonic E w = (now, w1)" by force
  obtain x w2 where u: "read_namespaced_pod E pname NAMESPACE w1 = (x, w2)" by force
  have le: "now = clk w" "clk w \<le> clk w1" "clk w1 \<le> clk w2"
    "clk w2 + POLL_INTERVAL \<le> clk (sleep E POLL_INTERVAL w2)"
    using clock_okD [OF assms] m u by auto
  show ?case
  proof (cases "now < deadline")
    case True
    with le have "nat (deadline - clk (sleep E POLL_INTERVAL w2)) < nat (deadline - clk w)"
      by (simp add: POLL_INTERVAL_def)
    then obtain r where "pod_ready_loop E pname timeout deadline (sleep E POLL_INTERVAL w2) = Some r"
      using less by blast
    then show ?thesis by (subst pod_ready_loop.simps) (simp add: m u split: sum.split)
  next
    case False
    then show ?thesis by (subst pod_ready_loop.simps) (simp add: m)
  qed
qed

lemma request_turn_cases:
  assumes "urlopen E (turn_request ip symbol board) timeout w = (r, w1)"
  shows "request_turn E ip symbol board timeout w = (bindE r parse_turn_response, w1)"
  using assms by (simp add: request_turn_def)

section \<open>How long the loops take\<close>

text \<open>
  An outside in which every call of the builder returns within \<open>lat\<close> milliseconds, the health
  request among them, and a sleep takes at least its duration and at most \<open>lat\<close> more.
\<close>

definition took :: "('w \<Rightarrow> int) \<Rightarrow> int \<Rightarrow> 'w \<Rightarrow> 'w \<Rightarrow> bool" where
  "took clk lat w w' \<longleftrightarrow> clk w \<le> clk w' \<and> clk w' \<le> clk w + lat"

definition prompt_env :: "'w env \<Rightarrow> ('w \<Rightarrow> int) \<Rightarrow> int \<Rightarrow> bool" where
  "prompt_env E clk lat \<longleftrightarrow>
     (\<forall>w. fst (monotonic E w) = clk w \<and> took clk lat w (snd (monotonic E w))) \<and>
     (\<forall>n m w. took clk lat w (snd (create_namespaced_pod E n m w))) \<and>
     (\<forall>p n w. took clk lat w (snd (read_namespaced_pod E p n w))) \<and>
     (\<forall>ip w. \<exists>x w1. urlopen_blocking E (health_request ip) w = Some (x, w1) \<and> took clk lat w w1) \<and>
     (\<forall>d w. clk w + d \<le> clk (sleep E d w) \<and> clk (sleep E d w) \<le> clk w + d + lat)"

lemma prompt_envD:
  assumes "prompt_env E clk lat"
  shows "monotonic E w = (now, w1) \<Longrightarrow> now = clk w \<and> clk w \<le> clk w1 \<and> clk w1 \<le> clk w + lat"
    and "create_namespaced_pod E n m w = (c, w1) \<Longrightarrow> clk w1 \<le> clk w + lat"
    and "read_namespaced_pod E p n w = (y, w1) \<Longrightarrow> clk w \<le> clk w1 \<and> clk w1 \<le> clk w + lat"
    and "\<exists>x w1. urlopen_blocking E (health_request ip) w = Some (x, w1) \<and> clk w \<le> clk w1 \<and> clk w1 \<le> clk w + lat"
    and "clk w + d \<le> clk (sleep E d w) \<and> clk (sleep E d w) \<le> clk w + d + lat"
    and "0 \<le> lat"
proof -
  have E: "fst (monotonic E w) = clk w" "took clk lat w (snd (monotonic E w))"
    "took clk lat w (snd (create_namespaced_pod E n m w))" "took clk lat w (snd (read_namespaced_pod E p n w))"
    "\<exists>x w1. urlopen_blocking E (health_request ip) w = Some (x, w1) \<and> took clk lat w w1" for w n m p ip
    using assms unfolding prompt_env_def by blast+
  show "monotonic E w = (now, w1) \<Longrightarrow> now = clk w \<and> clk w \<le> clk w1 \<and> clk w1 \<le> clk w + lat"
    using E(1,2) [of w] by (simp add: took_def)
  show "create_namespaced_pod E n m w = (c, w1) \<Longrightarrow> clk w1 \<le> clk w + lat"
    using E(3) [of w n m] by (simp add: took_def)
  show "read_namespaced_pod E p n w = (y, w1) \<Longrightarrow> clk w \<le> clk w1 \<and> clk w1 \<le> clk w + lat"
    using E(4) [of w p n] by (simp add: took_def)
  show "\<exists>x w1. urlopen_blocking E (health_request ip) w = Some (x, w1) \<and> clk w \<le> clk w1 \<and> clk w1 \<le> clk w + lat"
    using E(5) [of ip w] by (simp add: took_def)
  show "clk w + d \<le> clk (sleep E d w) \<and> clk (sleep E d w) \<le> clk w + d + lat"
    using assms unfolding prompt_env_def by blast
  show "0 \<le> lat" using E(2) [of w] by (simp add: took_def)
qed

text \<open>One turn after the deadline at most: the clock, the call, the sleep, and the clock again.\<close>

lemma http_ready_loop_elapsed:
  assumes P: "prompt_env E clk lat"
  shows "\<exists>x w'. http_ready_loop E ip timeout deadline w = Some (x, w') \<and>
    clk w' \<le> max (clk w) (deadline + POLL_INTERVAL + 3 * lat) + lat"
proof (induction "nat (deadline - clk w)" arbitrary: w rule: less_induct)
  case less
  obtain now w1 where m: "monotonic E w = (now, w1)" by force
  then have now: "now = clk w" "clk w \<le> clk w1" "clk w1 \<le> clk w + lat" using prompt_envD(1) [OF P] by auto
  obtain x w2 where u: "urlopen_blocking E (health_request ip) w1 = Some (x, w2)" "clk w1 \<le> clk w2" "clk w2 \<le> clk w1 + lat"
    using prompt_envD(4) [OF P] by blast
  let ?s = "sleep E POLL_INTERVAL w2"
  have s: "clk w2 + POLL_INTERVAL \<le> clk ?s" "clk ?s \<le> clk w2 + POLL_INTERVAL + lat" and lat: "0 \<le> lat"
    using prompt_envD(5,6) [OF P] by blast+
  show ?case
  proof (cases "now < deadline")
    case False
    with now m lat show ?thesis by (subst http_ready_loop.simps) simp
  next
    case True
    show ?thesis
    proof (cases x)
      case (Inr body)
      with m u True now lat show ?thesis by (subst http_ready_loop.simps) (simp add: POLL_INTERVAL_def)
    next
      case (Inl e)
      then have loop: "http_ready_loop E ip timeout deadline w = http_ready_loop E ip timeout deadline ?s"
        using m u(1) True by (subst http_ready_loop.simps) simp
      have "nat (deadline - clk ?s) < nat (deadline - clk w)"
        using True now u(2) s(1) by (simp add: POLL_INTERVAL_def)
      from less [OF this] obtain y w' where "http_ready_loop E ip timeout deadline ?s = Some (y, w')"
        "clk w' \<le> max (clk ?s) (deadline + POLL_INTERVAL + 3 * lat) + lat" by blast
      with loop True now u(3) s(2) show ?thesis by auto
    qed
  qed
qed

lemma pod_ready_loop_elapsed:
  assumes P: "prompt_env E clk lat"
  shows "\<exists>x w'. pod_ready_loop E pname timeout deadline w = Some (x, w') \<and>
    clk w' \<le> max (clk w) (deadline + POLL_INTERVAL + 3 * lat) + lat"
proof (induction "nat (deadline - clk w)" arbitrary: w rule: less_induct)
  case less
  obtain now w1 where m: "monotonic E w = (now, w1)" by force
  then have now: "now = clk w" "clk w \<le> clk w1" "clk w1 \<le> clk w + lat" using prompt_envD(1) [OF P] by auto
  obtain x w2 where u: "read_namespaced_pod E pname NAMESPACE w1 = (x, w2)" by force
  then have w2: "clk w1 \<le> clk w2" "clk w2 \<le> clk w1 + lat" using prompt_envD(3) [OF P] by blast+
  let ?s = "sleep E POLL_INTERVAL w2"
  have s: "clk w2 + POLL_INTERVAL \<le> clk ?s" "clk ?s \<le> clk w2 + POLL_INTERVAL + lat" and lat: "0 \<le> lat"
    using prompt_envD(5,6) [OF P] by blast+
  show ?case
  proof (cases "\<exists>pod. now < deadline \<and> x = Inr pod \<and> check_pod_phase pod pname = Inr False")
    case False
    then show ?thesis
      using m u now w2 lat by (subst pod_ready_loop.simps) (auto simp: POLL_INTERVAL_def split: sum.splits)
  next
    case True
    then have now': "now < deadline"
      and loop: "pod_ready_loop E pname timeout deadline w = pod_ready_loop E pname timeout deadline ?s"
      using m u by (auto simp: pod_ready_loop.simps [of E pname timeout deadline w])
    have "nat (deadline - clk ?s) < nat (deadline - clk w)"
      using now' now w2(1) s(1) by (simp add: POLL_INTERVAL_def)
    from less [OF this] obtain y w' where "pod_ready_loop E pname timeout deadline ?s = Some (y, w')"
      "clk w' \<le> max (clk ?s) (deadline + POLL_INTERVAL + 3 * lat) + lat" by blast
    with loop now' now w2(2) s(2) show ?thesis by auto
  qed
qed

text \<open>The waits, from the call to the return.\<close>

lemma wait_for_pod_ready_elapsed:
  assumes P: "prompt_env E clk lat" and t: "0 \<le> timeout"
  shows "\<exists>x w'. wait_for_pod_ready E pname timeout w = Some (x, w') \<and>
    clk w' \<le> clk w + timeout + POLL_INTERVAL + 4 * lat"
proof -
  obtain now w1 where m: "monotonic E w = (now, w1)" by force
  then have "now = clk w" "clk w1 \<le> clk w + lat" using prompt_envD(1) [OF P] by auto
  moreover obtain x w' where "pod_ready_loop E pname timeout (now + timeout) w1 = Some (x, w')"
    "clk w' \<le> max (clk w1) (now + timeout + POLL_INTERVAL + 3 * lat) + lat"
    using pod_ready_loop_elapsed [OF P] by blast
  ultimately show ?thesis
    using m t prompt_envD(6) [OF P] by (auto simp: wait_for_pod_ready_def POLL_INTERVAL_def)
qed

lemma wait_for_http_ready_elapsed:
  assumes P: "prompt_env E clk lat" and t: "0 \<le> timeout"
  shows "\<exists>x w'. wait_for_http_ready E ip timeout w = Some (x, w') \<and>
    clk w' \<le> clk w + timeout + POLL_INTERVAL + 4 * lat"
proof -
  obtain now w1 where m: "monotonic E w = (now, w1)" by force
  then have "now = clk w" "clk w1 \<le> clk w + lat" using prompt_envD(1) [OF P] by auto
  moreover obtain x w' where "http_ready_loop E ip timeout (now + timeout) w1 = Some (x, w')"
    "clk w' \<le> max (clk w1) (now + timeout + POLL_INTERVAL + 3 * lat) + lat"
    using http_ready_loop_elapsed [OF P] by blast
  ultimately show ?thesis
    using m t prompt_envD(6) [OF P] by (auto simp: wait_for_http_ready_def POLL_INTERVAL_def)
qed

section \<open>What a wait that succeeds has seen\<close>

text \<open>The calls of a wait, one after the other; none of them creates or deletes a pod.\<close>

inductive poll_call :: "'w env \<Rightarrow> 'w \<Rightarrow> 'w \<Rightarrow> bool" for E where
  clock: "monotonic E w = (now, w1) \<Longrightarrow> poll_call E w w1"
| look: "read_namespaced_pod E p n w = (x, w1) \<Longrightarrow> poll_call E w w1"
| probe: "urlopen_blocking E r w = Some (x, w1) \<Longrightarrow> poll_call E w w1"
| wait: "poll_call E w (sleep E d w)"

lemma polled_later: "poll_call E w v \<Longrightarrow> (poll_call E)\<^sup>*\<^sup>* v u \<Longrightarrow> (poll_call E)\<^sup>*\<^sup>* w u"
  by (rule converse_rtranclp_into_rtranclp)

lemma pod_ready_loop_success:
  assumes "pod_ready_loop E pname timeout deadline w = Some y" and "y = (Inr (), w')"
  shows "\<exists>u pod. (poll_call E)\<^sup>*\<^sup>* w u \<and> read_namespaced_pod E pname NAMESPACE u = (Inr pod, w') \<and>
    check_pod_phase pod pname = Inr True"
  using assms
proof (induction rule: pod_ready_loop.raw_induct [rotated, consumes 1, case_names 1])
  case (1 f E pname timeout deadline w y)
  obtain now w1 where m: "monotonic E w = (now, w1)" by force
  obtain x w2 where x: "read_namespaced_pod E pname NAMESPACE w1 = (x, w2)" by force
  with 1(2,3) m obtain pod ready where pod: "x = Inr pod" "check_pod_phase pod pname = Inr ready" and now: "now < deadline"
    by (auto split: if_splits sum.splits)
  show ?case
  proof (cases ready)
    case True
    with 1(2,3) m x pod now have "w2 = w'" by simp
    moreover have "(poll_call E)\<^sup>*\<^sup>* w w1" by (intro r_into_rtranclp poll_call.clock [OF m])
    ultimately show ?thesis using x pod True by (intro exI [of _ w1] exI [of _ pod]) simp
  next
    case False
    with 1(2,3) m x pod now have "f E pname timeout deadline (sleep E POLL_INTERVAL w2) = Some y" by simp
    from 1(1) [OF this 1(3)] obtain u pod' where
      u: "(poll_call E)\<^sup>*\<^sup>* (sleep E POLL_INTERVAL w2) u" "read_namespaced_pod E pname NAMESPACE u = (Inr pod', w')"
        "check_pod_phase pod' pname = Inr True" by blast
    have "(poll_call E)\<^sup>*\<^sup>* w u"
      by (rule polled_later [OF poll_call.clock [OF m] polled_later [OF poll_call.look [OF x]
            polled_later [OF poll_call.wait u(1)]]])
    with u(2,3) show ?thesis by blast
  qed
qed

lemma http_ready_loop_success:
  assumes "http_ready_loop E ip timeout deadline w = Some y" and "y = (Inr (), w')"
  shows "\<exists>u answer. (poll_call E)\<^sup>*\<^sup>* w u \<and> urlopen_blocking E (health_request ip) u = Some (Inr answer, w')"
  using assms
proof (induction rule: http_ready_loop.raw_induct [rotated, consumes 1, case_names 1])
  case (1 f E ip timeout deadline w y)
  obtain now w1 where m: "monotonic E w = (now, w1)" by force
  with 1(2,3) obtain x w2 where x: "urlopen_blocking E (health_request ip) w1 = Some (x, w2)" and now: "now < deadline"
    by (auto split: if_splits option.splits)
  show ?case
  proof (cases x)
    case (Inr answer)
    with 1(2,3) m x now have "w2 = w'" by simp
    moreover have "(poll_call E)\<^sup>*\<^sup>* w w1" by (intro r_into_rtranclp poll_call.clock [OF m])
    ultimately show ?thesis using x Inr by (intro exI [of _ w1] exI [of _ answer]) simp
  next
    case (Inl e)
    with 1(2,3) m x now have "f E ip timeout deadline (sleep E POLL_INTERVAL w2) = Some y" by simp
    from 1(1) [OF this 1(3)] obtain u answer where
      u: "(poll_call E)\<^sup>*\<^sup>* (sleep E POLL_INTERVAL w2) u" "urlopen_blocking E (health_request ip) u = Some (Inr answer, w')"
      by blast
    have "(poll_call E)\<^sup>*\<^sup>* w u"
      by (rule polled_later [OF poll_call.clock [OF m] polled_later [OF poll_call.probe [OF x]
            polled_later [OF poll_call.wait u(1)]]])
    with u(2) show ?thesis by blast
  qed
qed

lemma wait_for_pod_ready_success:
  assumes "wait_for_pod_ready E pname timeout w = Some (Inr (), w')"
  obtains u pod where "(poll_call E)\<^sup>*\<^sup>* w u" and "read_namespaced_pod E pname NAMESPACE u = (Inr pod, w')"
    and "phase pod = Some ''Running''" and "\<exists>rest. container_statuses pod = Some (True # rest)"
proof -
  obtain now w1 where m: "monotonic E w = (now, w1)" by force
  with assms have "pod_ready_loop E pname timeout (now + timeout) w1 = Some (Inr (), w')"
    by (simp add: wait_for_pod_ready_def)
  from pod_ready_loop_success [OF this refl] obtain u pod where
    u: "(poll_call E)\<^sup>*\<^sup>* w1 u" "read_namespaced_pod E pname NAMESPACE u = (Inr pod, w')" and
    up: "check_pod_phase pod pname = Inr True" by blast
  have "phase pod = Some ''Running''" "\<exists>rest. container_statuses pod = Some (True # rest)"
    using up by (auto simp: check_pod_phase_def split: option.splits if_splits list.splits)
  then show ?thesis by (rule that [OF polled_later [OF poll_call.clock [OF m] u(1)] u(2)])
qed

lemma wait_for_http_ready_success:
  assumes "wait_for_http_ready E ip timeout w = Some (Inr (), w')"
  obtains u answer where "(poll_call E)\<^sup>*\<^sup>* w u" and "urlopen_blocking E (health_request ip) u = Some (Inr answer, w')"
proof -
  obtain now w1 where m: "monotonic E w = (now, w1)" by force
  with assms have "http_ready_loop E ip timeout (now + timeout) w1 = Some (Inr (), w')"
    by (simp add: wait_for_http_ready_def)
  from http_ready_loop_success [OF this refl] obtain u answer where
    "(poll_call E)\<^sup>*\<^sup>* w1 u" "urlopen_blocking E (health_request ip) u = Some (Inr answer, w')" by blast
  then show ?thesis by (intro that [OF polled_later [OF poll_call.clock [OF m]]])
qed

lemma get_pod_ip_success:
  assumes "get_pod_ip E pname w = (Inr ip, w')"
  obtains pod where "read_namespaced_pod E pname NAMESPACE w = (Inr pod, w')" and "pod_ip pod = Some ip" and "ip \<noteq> []"
  using assms by (auto simp: get_pod_ip_def split: prod.splits sum.splits option.splits if_splits)

text \<open>What a turn request carries: the fields the bot server reads back.\<close>

lemma turn_request_body:
  "json_loads (the (req_data (turn_request ip symbol board))) =
     Some (JObj [(''symbol'', JStr symbol), (''board'', JStr board)])"
  by (simp add: turn_request_def json_loads_dumps del: json_dumps.simps)

end
