(* ===== verification/WebUtils.thy ===== *)
theory WebUtils
  imports Json
begin

text \<open>
  \<open>web/runtimes.py\<close> and the pure helpers of \<open>web/utils.py\<close>: reading a bot's docstring, the
  allowlist of runtimes, versioned names and the ownership cookie, with the parts of
  \<open>urllib.parse\<close> the cookie uses. \<open>ast.parse\<close> is a parameter: a function from source text to
  the statements of the module, of which the code only looks at the first.

  Bound: decoding UTF-8 writes \<open>?\<close> for a code point above 00FF and for an invalid byte.
\<close>

section \<open>Runtimes\<close>

record Runtime =
  rt_image :: string
  rt_interpreter :: string
  rt_ext :: string

definition RUNTIMES :: "(string \<times> Runtime) list" where
  "RUNTIMES =
     [(''python-3.10'', \<lparr>rt_image = ''pyowa/bot-runner-python:3.10'', rt_interpreter = ''python'', rt_ext = ''.py''\<rparr>),
      (''python-3.11'', \<lparr>rt_image = ''pyowa/bot-runner-python:3.11'', rt_interpreter = ''python'', rt_ext = ''.py''\<rparr>),
      (''python-3.12'', \<lparr>rt_image = ''pyowa/bot-runner-python:3.12'', rt_interpreter = ''python'', rt_ext = ''.py''\<rparr>),
      (''python-3.13'', \<lparr>rt_image = ''pyowa/bot-runner-python:3.13'', rt_interpreter = ''python'', rt_ext = ''.py''\<rparr>),
      (''python-3.14'', \<lparr>rt_image = ''pyowa/bot-runner-python:3.14'', rt_interpreter = ''python'', rt_ext = ''.py''\<rparr>)]"

definition DEFAULT_RUNTIME_KEY :: string where
  "DEFAULT_RUNTIME_KEY = ''python-3.14''"

definition is_runtime :: "string \<Rightarrow> bool" where
  "is_runtime key \<longleftrightarrow> map_of RUNTIMES key \<noteq> None"

definition SUPPORTED_PYTHON_VERSIONS :: "string list" where
  "SUPPORTED_PYTHON_VERSIONS =
     map (drop (length ''python-'')) (filter (\<lambda>key. startswith key ''python-'') (map fst RUNTIMES))"

definition DEFAULT_PYTHON_VERSION :: string where
  "DEFAULT_PYTHON_VERSION = drop (length ''python-'') DEFAULT_RUNTIME_KEY"

section \<open>Docstrings\<close>

datatype ast_expr = ConstStr string | ConstOther | NonConst
datatype ast_stmt = Expr ast_expr | OtherStmt

type_synonym ast_parser = "string \<Rightarrow> ast_stmt list res"

definition lower_char :: "char \<Rightarrow> char" where
  "lower_char c = (let n = of_char c :: nat in
     if (65 \<le> n \<and> n \<le> 90) \<or> (192 \<le> n \<and> n \<le> 222 \<and> n \<noteq> 215) then char_of (n + 32) else c)"

definition py_lower :: "string \<Rightarrow> string" where
  "py_lower s = map lower_char s"

text \<open>
  What both extractors begin with: the docstring, or \<open>None\<close> when the text does not parse,
  is empty, or does not start with a string constant. Only \<open>SyntaxError\<close> is caught.
\<close>

definition docstring_of :: "ast_parser \<Rightarrow> string \<Rightarrow> string option res" where
  "docstring_of ast_parse source =
     (case ast_parse source of
        Inl SyntaxError \<Rightarrow> Inr None
      | Inl e \<Rightarrow> Inl e
      | Inr [] \<Rightarrow> Inr None
      | Inr (first # _) \<Rightarrow>
          (case first of
             Expr (ConstStr docstring) \<Rightarrow> Inr (Some docstring)
           | _ \<Rightarrow> Inr None))"

fun find_name :: "string list \<Rightarrow> string option" where
  "find_name [] = None"
| "find_name (line # lines) =
     (let stripped = py_strip line
      in if startswith (py_lower stripped) ''name:'' then
           (let name = py_strip (drop (length ''name:'') stripped)
            in if name \<noteq> [] then Some name else None)
         else find_name lines)"

definition extract_bot_name :: "ast_parser \<Rightarrow> string \<Rightarrow> string option res" where
  "extract_bot_name ast_parse source =
     bindE (docstring_of ast_parse source) (\<lambda>d.
       Inr (case d of None \<Rightarrow> None | Some docstring \<Rightarrow> find_name (splitlines docstring)))"

text \<open>The loop over the lines keeps the last value of each of the two fields.\<close>

fun find_runtime_fields :: "string list \<Rightarrow> string option \<Rightarrow> string option \<Rightarrow> string option \<times> string option" where
  "find_runtime_fields [] language_key python_ver = (language_key, python_ver)"
| "find_runtime_fields (line # lines) language_key python_ver =
     (let stripped = py_strip line
      in if startswith (py_lower stripped) ''language:'' then
           find_runtime_fields lines (Some (py_strip (drop (length ''language:'') stripped))) python_ver
         else if startswith (py_lower stripped) ''python:'' then
           find_runtime_fields lines language_key (Some (py_strip (drop (length ''python:'') stripped)))
         else find_runtime_fields lines language_key python_ver)"

definition extract_runtime_key :: "ast_parser \<Rightarrow> string \<Rightarrow> string option res" where
  "extract_runtime_key ast_parse source =
     bindE (docstring_of ast_parse source) (\<lambda>d.
       case d of
         None \<Rightarrow> Inr None
       | Some docstring \<Rightarrow>
           (case find_runtime_fields (splitlines docstring) None None of
              (Some language_key, _) \<Rightarrow>
                Inr (if is_runtime language_key then Some language_key else None)
            | (None, Some python_ver) \<Rightarrow>
                (let mapped = ''python-'' @ python_ver
                 in Inr (if is_runtime mapped then Some mapped else None))
            | (None, None) \<Rightarrow> Inr (Some DEFAULT_RUNTIME_KEY)))"

definition extract_python_version :: "ast_parser \<Rightarrow> string \<Rightarrow> string option res" where
  "extract_python_version ast_parse source =
     bindE (extract_runtime_key ast_parse source) (\<lambda>k.
       case k of
         None \<Rightarrow> Inr None
       | Some key \<Rightarrow>
           Inr (if startswith key ''python-'' then Some (drop (length ''python-'') key) else None))"

definition python_version_from_runtime_key :: "string \<Rightarrow> string" where
  "python_version_from_runtime_key key =
     (if startswith key ''python-'' then drop (length ''python-'') key else key)"

section \<open>Versioned names\<close>

definition versioned_name :: "string \<Rightarrow> int \<Rightarrow> string" where
  "versioned_name base_name version =
     (if version = 1 then base_name else base_name @ ''V'' @ int_str version)"

text \<open>\<open>_RESERVED_VERSION_SUFFIX.search(name)\<close>: the pattern \<open>V\d+$\<close>, whose \<open>$\<close> also matches
  before a final newline.\<close>

definition ends_in_version :: "string \<Rightarrow> bool" where
  "ends_in_version s =
     (let r = rev s; ds = takeWhile is_digit r
      in ds \<noteq> [] \<and> startswith (dropWhile is_digit r) ''V'')"

definition reserved_version_suffix :: "string \<Rightarrow> bool" where
  "reserved_version_suffix s \<longleftrightarrow>
     ends_in_version s \<or> (s \<noteq> [] \<and> last s = LF \<and> ends_in_version (butlast s))"

section \<open>Percent encoding and UTF-8\<close>

definition is_ascii :: "char \<Rightarrow> bool" where
  "is_ascii c \<longleftrightarrow> of_char c < (128::nat)"

definition utf8_char :: "char \<Rightarrow> string" where
  "utf8_char c = (if is_ascii c then [c]
     else [char_of (192 + of_char c div 64 :: nat), char_of (128 + of_char c mod 64 :: nat)])"

definition utf8_cont :: "char \<Rightarrow> bool" where
  "utf8_cont c \<longleftrightarrow> (128::nat) \<le> of_char c \<and> of_char c < (192::nat)"

fun utf8_decode :: "string \<Rightarrow> string" where
  "utf8_decode [] = []"
| "utf8_decode (c # cs) =
     (if is_ascii c then c # utf8_decode cs
      else (case cs of
              d # ds \<Rightarrow>
                if c \<in> {CHR 0xC2, CHR 0xC3} \<and> utf8_cont d
                then char_of ((of_char c - 192) * 64 + (of_char d - 128) :: nat) # utf8_decode ds
                else CHR ''?'' # utf8_decode cs
            | [] \<Rightarrow> ''?''))"

definition upper_hex :: "nat \<Rightarrow> char" where
  "upper_hex d = (if d < 10 then char_of (48 + d) else char_of (55 + d))"

definition unreserved :: "char \<Rightarrow> bool" where
  "unreserved c \<longleftrightarrow> c \<in> set (''ABCDEFGHIJKLMNOPQRSTUVWXYZ'' @ ''abcdefghijklmnopqrstuvwxyz'' @
     ''0123456789'' @ ''_.-~'')"

definition quote_byte :: "char \<Rightarrow> string" where
  "quote_byte c = (if unreserved c then [c]
     else [CHR ''%'', upper_hex (of_char c div 16), upper_hex (of_char c mod 16)])"

definition url_quote :: "string \<Rightarrow> string" where
  "url_quote s = concat (map quote_byte (concat (map utf8_char s)))"

fun unquote_bytes :: "string \<Rightarrow> string" where
  "unquote_bytes (p # a # b # cs) =
     (if p = CHR ''%'' then
        (case (hex_val a, hex_val b) of
           (Some x, Some y) \<Rightarrow> char_of (16 * x + y) # unquote_bytes cs
         | _ \<Rightarrow> p # unquote_bytes (a # b # cs))
      else p # unquote_bytes (a # b # cs))"
| "unquote_bytes s = s"

text \<open>Runs of ASCII are percent-decoded and read as UTF-8; other characters stay.\<close>

function url_unquote :: "string \<Rightarrow> string" where
  "url_unquote [] = []"
| "url_unquote (c # cs) =
     (if is_ascii c
        then utf8_decode (unquote_bytes (c # takeWhile is_ascii cs)) @ url_unquote (dropWhile is_ascii cs)
      else c # url_unquote cs)"
  by pat_completeness auto
termination
  by (relation "measure length") (auto simp: le_imp_less_Suc length_dropWhile_le)

section \<open>The ownership cookie\<close>

definition parse_cookie :: "string option \<Rightarrow> json" where
  "parse_cookie value =
     (case value of
        None \<Rightarrow> JObj []
      | Some v \<Rightarrow>
          if v = [] then JObj []
          else (case json_loads (url_unquote v) of None \<Rightarrow> JObj [] | Some j \<Rightarrow> j))"

definition encode_cookie :: "json \<Rightarrow> string" where
  "encode_cookie owned = url_quote (json_dumps owned)"

section \<open>Versioned names do not collide\<close>

lemma V_not_digit [simp]: "\<not> is_digit (CHR ''V'')"
  by (simp add: is_digit_def)

lemma ends_in_version_append: "ends_in_version (b @ ''V'' @ nat_str n)"
  by (simp add: ends_in_version_def Let_def)

lemma version_suffix_unique:
  assumes "b @ ''V'' @ nat_str m = c @ ''V'' @ nat_str n"
  shows "b = c \<and> m = n"
proof -
  have split: "takeWhile is_digit (rev (a @ ''V'' @ nat_str k)) = rev (nat_str k)"
    "dropWhile is_digit (rev (a @ ''V'' @ nat_str k)) = CHR ''V'' # rev a" for a k
    by simp_all
  show ?thesis using split [of b m] split [of c n] unfolding assms by simp
qed

lemma versioned_name_inject:
  assumes "\<not> reserved_version_suffix b" and "\<not> reserved_version_suffix c"
    and "1 \<le> v" and "1 \<le> w"
  shows "versioned_name b v = versioned_name c w \<longleftrightarrow> b = c \<and> v = w"
proof
  assume eq: "versioned_name b v = versioned_name c w"
  have str: "int_str v = nat_str (nat v)" "int_str w = nat_str (nat w)"
    using assms(3,4) by (simp_all add: int_str_def)
  have "\<not> ends_in_version b" "\<not> ends_in_version c"
    using assms(1,2) by (simp_all add: reserved_version_suffix_def)
  then show "b = c \<and> v = w"
    using eq version_suffix_unique [of b "nat v" c "nat w"] ends_in_version_append [of b "nat v"]
      ends_in_version_append [of c "nat w"] assms(3,4)
    by (auto simp: versioned_name_def str split: if_splits)
qed simp

section \<open>The cookie round trip\<close>

lemma hex_val_upper_hex: "d < 16 \<Longrightarrow> hex_val (upper_hex d) = Some d"
  by (auto simp: hex_val_def upper_hex_def of_char_of take_bit_eq_mod)

lemma unquote_quote_byte: "unquote_bytes (quote_byte c @ s) = c # unquote_bytes s"
proof (cases "unreserved c")
  case True
  then have "c \<noteq> CHR ''%''" by (auto simp: unreserved_def)
  with True show ?thesis
    by (cases s rule: unquote_bytes.cases) (auto simp: quote_byte_def)
next
  case False
  have "of_char c div 16 < (16::nat)" by (rule less_mult_imp_div_less) simp
  moreover have "of_char c mod 16 < (16::nat)" by simp
  ultimately show ?thesis
    using False by (simp add: quote_byte_def hex_val_upper_hex)
qed

lemma unquote_bytes_quote: "unquote_bytes (concat (map quote_byte s)) = s"
  by (induction s) (simp_all add: unquote_quote_byte)

lemma is_ascii_Char [simp]: "is_ascii (Char b0 b1 b2 b3 b4 b5 b6 b7) \<longleftrightarrow> \<not> b7"
proof -
  let ?n = "of_bool b0 + 2 * (of_bool b1 + 2 * (of_bool b2 + 2 * (of_bool b3 + 2 * (of_bool b4 +
    2 * (of_bool b5 + 2 * of_bool b6))))) :: nat"
  have "?n < 128"
    by (cases b0; cases b1; cases b2; cases b3; cases b4; cases b5; cases b6) simp_all
  moreover have "of_char (Char b0 b1 b2 b3 b4 b5 b6 b7) = ?n + 128 * of_bool b7"
    by (simp add: of_char_def)
  ultimately show ?thesis by (cases b7) (simp_all add: is_ascii_def)
qed

lemma utf8_decode_ascii: "list_all is_ascii s \<Longrightarrow> utf8_decode s = s"
  by (induction s) auto

lemma utf8_encode_ascii: "list_all is_ascii s \<Longrightarrow> concat (map utf8_char s) = s"
  by (induction s) (auto simp: utf8_char_def)

lemma ascii_quote_byte: "list_all is_ascii (quote_byte c)"
proof -
  have "is_ascii (upper_hex d)" if "d < 16" for d
    using that by (auto simp: is_ascii_def upper_hex_def of_char_of take_bit_eq_mod)
  moreover have "of_char c div 16 < (16::nat)" by (rule less_mult_imp_div_less) simp
  moreover have "of_char c mod 16 < (16::nat)" by simp
  moreover have "is_ascii c" if "unreserved c"
    using that by (auto simp: unreserved_def)
  ultimately show ?thesis by (simp add: quote_byte_def)
qed

lemma ascii_quote: "list_all is_ascii (concat (map quote_byte s))"
  using ascii_quote_byte by (induction s) auto

lemma url_unquote_ascii: "list_all is_ascii s \<Longrightarrow> url_unquote s = utf8_decode (unquote_bytes s)"
proof (cases s)
  case (Cons c cs)
  assume "list_all is_ascii s"
  with Cons have "takeWhile is_ascii cs = cs" "dropWhile is_ascii cs = []" and c: "is_ascii c"
    by (auto simp: list_all_iff takeWhile_eq_all_conv dropWhile_eq_Nil_conv)
  then have "url_unquote (c # cs) = utf8_decode (unquote_bytes (c # cs))"
    by (simp only: url_unquote.simps if_True append_Nil2)
  with Cons show ?thesis by simp
qed simp

lemma url_unquote_quote:
  assumes "list_all is_ascii s"
  shows "url_unquote (url_quote s) = s"
  using assms
  by (simp add: url_quote_def url_unquote_ascii ascii_quote utf8_encode_ascii unquote_bytes_quote
      utf8_decode_ascii)

lemma quote_byte_nonempty [simp]: "quote_byte c \<noteq> []"
  by (simp add: quote_byte_def)

lemma url_quote_nonempty: "s \<noteq> [] \<Longrightarrow> url_quote s \<noteq> []"
  by (cases s) (simp_all add: url_quote_def utf8_char_def)

text \<open>Printed JSON is ASCII.\<close>

lemma ascii_esc_char: "list_all is_ascii (esc_char c)"
proof -
  have hex: "is_ascii (hex_char d)" if "d < 16" for d
    using that by (auto simp: is_ascii_def hex_char_def of_char_of take_bit_eq_mod)
  have "of_char c div 16 < (16::nat)" by (rule less_mult_imp_div_less) simp
  then have "list_all is_ascii (hex2 c)" by (simp add: hex2_def hex)
  then show ?thesis by (simp add: esc_char_def is_ascii_def [of c])
qed

lemma ascii_json_string: "list_all is_ascii (json_string s)"
proof -
  have "list_all is_ascii (concat (map esc_char s))"
    by (induction s) (simp_all add: ascii_esc_char)
  then show ?thesis by (simp add: json_string_def)
qed

lemma is_digit_ascii: "is_digit c \<Longrightarrow> is_ascii c"
  by (auto simp: is_digit_def)

lemma ascii_int_str: "list_all is_ascii (int_str i)"
proof -
  have "list_all is_ascii (nat_str n)" for n
    unfolding list_all_iff using nat_str_digits is_digit_ascii by blast
  then show ?thesis by (simp add: int_str_def)
qed

lemma ascii_join: "list_all is_ascii sep \<Longrightarrow> list_all (list_all is_ascii) xs \<Longrightarrow> list_all is_ascii (join sep xs)"
  by (induction sep xs rule: join.induct) simp_all

lemma ascii_json_dumps: "wf_json v \<Longrightarrow> list_all is_ascii (json_dumps v)"
proof (induction v)
  case (JArr vs)
  then have "list_all (list_all is_ascii) (map json_dumps vs)" by (simp add: list_all_iff)
  then have "list_all is_ascii (join '', '' (map json_dumps vs))"
    by (intro ascii_join) simp_all
  then show ?case by simp
next
  case (JObj kvs)
  have "list_all is_ascii (json_string k @ '': '' @ json_dumps v)" if "(k, v) \<in> set kvs" for k v
    using JObj.IH [OF that, of v] JObj.prems that by (force simp: ascii_json_string snds.simps)
  then have "list_all (list_all is_ascii)
      (map (\<lambda>(k, v). json_string k @ '': '' @ json_dumps v) kvs)"
    unfolding list_all_iff [of "list_all is_ascii"] by auto
  then have "list_all is_ascii
      (join '', '' (map (\<lambda>(k, v). json_string k @ '': '' @ json_dumps v) kvs))"
    by (intro ascii_join) simp_all
  then show ?case by simp
qed (simp_all add: ascii_json_string ascii_int_str)

lemma json_dumps_nonempty: "wf_json v \<Longrightarrow> json_dumps v \<noteq> []"
  by (metis json_dumps_Cons list.distinct(1))

lemma parse_encode_cookie:
  assumes "wf_json owned"
  shows "parse_cookie (Some (encode_cookie owned)) = owned"
  using assms
  by (simp add: parse_cookie_def encode_cookie_def url_unquote_quote ascii_json_dumps
      url_quote_nonempty json_dumps_nonempty json_loads_dumps)

section \<open>Properties\<close>

text \<open>Two families whose names do not end in a version suffix never share a versioned name:
  equal versioned names come from the same family and the same version.\<close>

theorem versioned_names_distinct:
  assumes "\<not> reserved_version_suffix b" and "\<not> reserved_version_suffix c" and "1 \<le> v" and "1 \<le> w"
  shows "versioned_name b v = versioned_name c w \<longleftrightarrow> b = c \<and> v = w"
  by (rule versioned_name_inject [OF assms])

theorem versioned_names_distinct_witness:
  "versioned_name ''Bot'' 2 = versioned_name ''BotV'' 1 \<longleftrightarrow> ''Bot'' = ''BotV'' \<and> (2::int) = 1"
  by (rule versioned_names_distinct)
    (simp_all add: reserved_version_suffix_def ends_in_version_def is_digit_def startswith_def)

text \<open>The ownership cookie reads back as the dictionary it was made from: percent encoding,
  UTF-8 and JSON together lose nothing, for any keys and tokens.\<close>

theorem cookie_round_trip:
  assumes "distinct (map fst owned)"
  shows "parse_cookie (Some (encode_cookie (JObj (map (\<lambda>(n, t). (n, JStr t)) owned)))) =
    JObj (map (\<lambda>(n, t). (n, JStr t)) owned)"
proof -
  have "fst \<circ> (\<lambda>(n, t). (n, JStr t)) = (fst :: string \<times> string \<Rightarrow> string)"
    by (auto simp: fun_eq_iff)
  with assms show ?thesis by (intro parse_encode_cookie) auto
qed

theorem cookie_round_trip_witness:
  "parse_cookie (Some (encode_cookie (JObj [(''a b%'', JStr ''t'')]))) = JObj [(''a b%'', JStr ''t'')]"
  using cookie_round_trip [of "[(''a b%'', ''t'')]"] by simp

end
