(* ===== verification/Messaging.thy ===== *)
theory Messaging
  imports Json WebUtils
begin

text \<open>
  \<open>messaging/contracts.py\<close>, \<open>messaging/amqp.py\<close> and \<open>messaging/routing.py\<close>: the queues, the
  messages, how a consumer reads one, and the helpers that map runtimes to queues. Pydantic is
  outside the repository: a \<open>pydantic\<close> value holds \<open>model_dump_json\<close> and
  \<open>model_validate_json\<close> of each message class, the second giving \<open>None\<close> where it raises. What
  the code relies on is \<open>pydantic_ok\<close>: reading back what was written.
\<close>

section \<open>Queues and messages\<close>

definition BUILD_POD_QUEUE :: string where "BUILD_POD_QUEUE = ''matches.build''"
definition POD_READY_QUEUE :: string where "POD_READY_QUEUE = ''matches.schedule''"
definition MATCH_ONDECK_QUEUE :: string where "MATCH_ONDECK_QUEUE = ''matches.ondeck''"
definition EVENTS_EXCHANGE :: string where "EVENTS_EXCHANGE = ''ttt.events''"
definition EVENT_BOT_UPLOADED :: string where "EVENT_BOT_UPLOADED = ''bot.uploaded''"
definition EVENT_MATCH_FINISHED :: string where "EVENT_MATCH_FINISHED = ''match.finished''"

record BuildPodMessage =
  bp_bot_id :: int
  bp_runtime_key :: string

record PodReadyMessage =
  pr_bot_id :: int

record MatchOndeck =
  mo_bot_x_id :: int
  mo_bot_o_id :: int
  mo_correlation_id :: string

record pydantic =
  dump_build :: "BuildPodMessage \<Rightarrow> string"
  validate_build :: "string \<Rightarrow> BuildPodMessage option"
  dump_ready :: "PodReadyMessage \<Rightarrow> string"
  validate_ready :: "string \<Rightarrow> PodReadyMessage option"
  dump_ondeck :: "MatchOndeck \<Rightarrow> string"
  validate_ondeck :: "string \<Rightarrow> MatchOndeck option"

definition pydantic_ok :: "pydantic \<Rightarrow> bool" where
  "pydantic_ok P \<longleftrightarrow>
     (\<forall>m. validate_build P (dump_build P m) = Some m) \<and>
     (\<forall>m. validate_ready P (dump_ready P m) = Some m) \<and>
     (\<forall>m. validate_ondeck P (dump_ondeck P m) = Some m)"

text \<open>\<open>parse_amqp_message(body, model)\<close>: any failure to validate is \<open>None\<close>.\<close>

definition parse_amqp_message :: "(string \<Rightarrow> 'm option) \<Rightarrow> string \<Rightarrow> 'm option" where
  "parse_amqp_message validate body = validate body"

text \<open>The body \<open>publish_event\<close> and \<open>_publish_match_finished\<close> send.\<close>

definition event_body :: "string \<Rightarrow> (string \<times> json) list \<Rightarrow> string" where
  "event_body event_type details =
     json_dumps (JObj [(''type'', JStr event_type), (''details'', JObj details)])"

section \<open>Routing\<close>

text \<open>
  \<open>int(x)\<close>: surrounding whitespace, a sign, and digits with single underscores between them.
  \<open>None\<close> is \<open>ValueError\<close>.
\<close>

fun underscored :: "string \<Rightarrow> string option" where
  "underscored [] = None"
| "underscored [c] = (if is_digit c then Some [c] else None)"
| "underscored (c # d # cs) =
     (if \<not> is_digit c then None
      else if d = CHR ''_'' then map_option ((#) c) (underscored cs)
      else map_option ((#) c) (underscored (d # cs)))"

definition py_int :: "string \<Rightarrow> int option" where
  "py_int s =
     (case py_strip s of
        [] \<Rightarrow> None
      | c # cs \<Rightarrow>
          if c = CHR ''-'' then map_option (\<lambda>ds. - int (nat_of_digits ds)) (underscored cs)
          else map_option (\<lambda>ds. int (nat_of_digits ds)) (underscored (if c = CHR ''+'' then cs else c # cs)))"

fun all_some :: "'a option list \<Rightarrow> 'a list option" where
  "all_some [] = Some []"
| "all_some (None # xs) = None"
| "all_some (Some x # xs) = map_option ((#) x) (all_some xs)"

text \<open>\<open>tuple(int(x) for x in v.split("."))\<close>, or \<open>()\<close> when a part is not a number.\<close>

definition version_tuple :: "string \<Rightarrow> int list" where
  "version_tuple v =
     (case all_some (map py_int (split_on (CHR ''.'') v)) of None \<Rightarrow> [] | Some t \<Rightarrow> t)"

definition python_tuple :: "string \<Rightarrow> int list" where
  "python_tuple key =
     (if startswith key ''python-'' then version_tuple (drop (length ''python-'') key) else [])"

text \<open>Python's order on tuples.\<close>

fun tuple_le :: "int list \<Rightarrow> int list \<Rightarrow> bool" where
  "tuple_le [] ys = True"
| "tuple_le (x # xs) [] = False"
| "tuple_le (x # xs) (y # ys) = (x < y \<or> (x = y \<and> tuple_le xs ys))"

definition pick_runtime_key :: "string \<Rightarrow> string \<Rightarrow> string" where
  "pick_runtime_key a b =
     (let ta = python_tuple a; tb = python_tuple b
      in if ta \<noteq> [] \<and> tb \<noteq> [] then (if tuple_le tb ta then a else b) else a)"

text \<open>\<open>max(a, b, key=parse)\<close> keeps the first argument when the keys are equal.\<close>

definition pick_python_version :: "string \<Rightarrow> string \<Rightarrow> string" where
  "pick_python_version a b = (if tuple_le (version_tuple b) (version_tuple a) then a else b)"

definition turn_queue_for :: "string \<Rightarrow> string" where
  "turn_queue_for python_version =
     ''turn.py'' @ filter (\<lambda>c. c \<noteq> CHR ''.'') python_version @ ''.requests''"

section \<open>Lemmas\<close>

lemma pydantic_okD:
  assumes "pydantic_ok P"
  shows "validate_build P (dump_build P mb) = Some mb"
    and "validate_ready P (dump_ready P mr) = Some mr"
    and "validate_ondeck P (dump_ondeck P mo) = Some mo"
  using assms by (simp_all add: pydantic_ok_def)

lemma tuple_le_refl [simp]: "tuple_le xs xs"
  by (induction xs) auto

lemma tuple_le_total: "tuple_le xs ys \<or> tuple_le ys xs"
  by (induction xs ys rule: tuple_le.induct) auto

lemma tuple_le_antisym: "tuple_le xs ys \<Longrightarrow> tuple_le ys xs \<Longrightarrow> xs = ys"
proof (induction xs ys rule: tuple_le.induct)
  case (1 ys)
  then show ?case by (cases ys) auto
qed auto

lemma tuple_le_trans: "tuple_le xs ys \<Longrightarrow> tuple_le ys zs \<Longrightarrow> tuple_le xs zs"
proof (induction xs ys arbitrary: zs rule: tuple_le.induct)
  case (3 x xs y ys)
  then show ?case by (cases zs) auto
qed auto

text \<open>Choosing the higher of two values by a rank: what both \<open>pick\<close> functions rely on.\<close>

locale ranking =
  fixes rank :: "'a \<Rightarrow> 'k" and le :: "'k \<Rightarrow> 'k \<Rightarrow> bool"
  assumes le_trans: "le k l \<Longrightarrow> le l m \<Longrightarrow> le k m"
    and le_total: "le k l \<or> le l k"
begin

definition higher :: "'a \<Rightarrow> 'a \<Rightarrow> 'a" where
  "higher a b = (if le (rank b) (rank a) then a else b)"

lemma higher_upper: "le (rank a) (rank (higher a b)) \<and> le (rank b) (rank (higher a b))"
  using le_total by (auto simp: higher_def)

lemma higher_mem: "higher a b = a \<or> higher a b = b"
  by (simp add: higher_def)

lemma higher_rank_assoc:
  "le (rank (higher (higher a b) c)) (rank (higher a (higher b c))) \<and>
   le (rank (higher a (higher b c))) (rank (higher (higher a b) c))"
  using le_total le_trans unfolding higher_def by (smt (verit, best))

end

interpretation version_ranking: ranking version_tuple tuple_le
  by unfold_locales (use tuple_le_trans tuple_le_total in blast)+

interpretation runtime_ranking: ranking python_tuple tuple_le
  by unfold_locales (use tuple_le_trans tuple_le_total in blast)+

lemma pick_python_version_higher: "pick_python_version = version_ranking.higher"
  by (simp add: fun_eq_iff pick_python_version_def version_ranking.higher_def)

lemma pick_runtime_key_higher:
  "python_tuple a \<noteq> [] \<Longrightarrow> python_tuple b \<noteq> [] \<Longrightarrow> pick_runtime_key a b = runtime_ranking.higher a b"
  by (simp add: pick_runtime_key_def runtime_ranking.higher_def)

lemma queue_names_distinct [simp]:
  "BUILD_POD_QUEUE \<noteq> POD_READY_QUEUE" "POD_READY_QUEUE \<noteq> BUILD_POD_QUEUE"
  "BUILD_POD_QUEUE \<noteq> MATCH_ONDECK_QUEUE" "MATCH_ONDECK_QUEUE \<noteq> BUILD_POD_QUEUE"
  "POD_READY_QUEUE \<noteq> MATCH_ONDECK_QUEUE" "MATCH_ONDECK_QUEUE \<noteq> POD_READY_QUEUE"
  by (simp_all add: BUILD_POD_QUEUE_def POD_READY_QUEUE_def MATCH_ONDECK_QUEUE_def)

text \<open>What a dashboard reads back from an event.\<close>

lemma json_loads_event_body:
  assumes "wf_json (JObj details)"
  shows "json_loads (event_body t details) = Some (JObj [(''type'', JStr t), (''details'', JObj details)])"
  unfolding event_body_def by (rule json_loads_dumps) (use assms in simp)

section \<open>Properties\<close>

text \<open>Of two Python versions \<open>pick_python_version\<close> gives one of the two, at least as high as
  both in the order of the numbers between the dots; and choosing among three does not depend
  on the grouping, up to versions that order the same.\<close>

theorem pick_python_version_highest:
  "pick_python_version a b \<in> {a, b} \<and>
   tuple_le (version_tuple a) (version_tuple (pick_python_version a b)) \<and>
   tuple_le (version_tuple b) (version_tuple (pick_python_version a b)) \<and>
   version_tuple (pick_python_version (pick_python_version a b) c) =
     version_tuple (pick_python_version a (pick_python_version b c))"
  unfolding pick_python_version_higher
  using version_ranking.higher_mem [of a b] version_ranking.higher_upper [of a b]
    version_ranking.higher_rank_assoc [of a b c] tuple_le_antisym
  by blast

text \<open>A dashboard that parses an event reads back its type and its details, for details of any
  JSON value the program can print.\<close>

theorem dashboard_reads_events:
  assumes "wf_json (JObj details)"
  shows "json_loads (event_body t details) = Some (JObj [(''type'', JStr t), (''details'', JObj details)])"
  by (rule json_loads_event_body [OF assms])

theorem dashboard_reads_events_witness:
  "json_loads (event_body EVENT_MATCH_FINISHED [(''result'', JStr ''cat'')]) =
     Some (JObj [(''type'', JStr ''match.finished''), (''details'', JObj [(''result'', JStr ''cat'')])])"
  using dashboard_reads_events [of "[(''result'', JStr ''cat'')]" EVENT_MATCH_FINISHED]
  by (simp add: EVENT_MATCH_FINISHED_def)

end
