(* ===== verification/Db.thy ===== *)
theory Db
  imports Engine WebUtils
begin

text \<open>
  The database as the program sees it: the tables of \<open>entities/*/model.py\<close> with the
  constraints of the schema, and every query of \<open>BotRepository\<close>, \<open>MatchRepository\<close> and
  \<open>MoveRepository\<close>. A table is the list of its rows in insertion order; a \<open>SELECT\<close> without
  \<open>ORDER BY\<close> and rows an \<open>ORDER BY\<close> leaves tied come in that order. A sequence goes on when
  the insertion it served fails. \<open>CURRENT_TIMESTAMP\<close> is an argument, and so is the collation
  of the one query that sorts strings. An \<open>INTEGER\<close> column has 32 bits: the driver refuses
  a parameter it does not fit, and a sequence that has reached its end refuses the insertion.
\<close>

section \<open>Rows and tables\<close>

record Bot =
  b_id :: int
  b_base_name :: string
  b_versioned_name :: string
  b_version :: int
  b_owner_token :: string
  b_source :: "string option"
  b_python_version :: string
  b_runtime_key :: string
  b_pod_name :: "string option"
  b_pod_ready :: bool
  b_submitted_at :: int

record Match =
  m_id :: int
  m_bot_x_id :: int
  m_bot_o_id :: int
  m_winner_id :: "int option"
  m_result :: string
  m_correlation_id :: "string option"
  m_played_at :: int

record MoveRow =
  v_id :: int
  v_match_id :: int
  v_move_number :: int
  v_bot_id :: int
  v_board_state :: string
  v_error :: "string option"

record db =
  bots :: "Bot list"
  matches :: "Match list"
  moves :: "MoveRow list"
  bots_seq :: int
  matches_seq :: int
  moves_seq :: int

definition empty_db :: db where
  "empty_db = \<lparr>bots = [], matches = [], moves = [], bots_seq = 1, matches_seq = 1, moves_seq = 1\<rparr>"

section \<open>SQL and SQLAlchemy\<close>

text \<open>\<open>Result.scalar_one_or_none\<close>\<close>

definition scalar_one_or_none :: "'a list \<Rightarrow> 'a option res" where
  "scalar_one_or_none rows =
     (case rows of
        [] \<Rightarrow> Inr None
      | [x] \<Rightarrow> Inr (Some x)
      | _ \<Rightarrow> Inl (OtherError ''MultipleResultsFound''))"

fun sql_max :: "int list \<Rightarrow> int option" where
  "sql_max [] = None"
| "sql_max (x # xs) = (case sql_max xs of None \<Rightarrow> Some x | Some m \<Rightarrow> Some (max x m))"

definition sql_count :: "('a \<Rightarrow> bool) \<Rightarrow> 'a list \<Rightarrow> nat" where
  "sql_count P rows = length (filter P rows)"

text \<open>\<open>outerjoin\<close>: the matching rows, or one NULL row.\<close>

definition outer_join :: "('a \<Rightarrow> bool) \<Rightarrow> 'a list \<Rightarrow> 'a option list" where
  "outer_join P rows = (case filter P rows of [] \<Rightarrow> [None] | xs \<Rightarrow> map Some xs)"

text \<open>A text value the database can store: PostgreSQL refuses the NUL character.\<close>

definition pg_text :: "string \<Rightarrow> bool" where
  "pg_text s \<longleftrightarrow> CHR 0x00 \<notin> set s"

text \<open>The range of an \<open>INTEGER\<close> column.\<close>

definition pg_int4 :: "int \<Rightarrow> bool" where
  "pg_int4 i \<longleftrightarrow> - (2 ^ 31) \<le> i \<and> i < 2 ^ 31"

abbreviation DataError :: py_exc where "DataError \<equiv> OtherError ''DataError''"

section \<open>Bots\<close>

definition by_id :: "int \<Rightarrow> db \<Rightarrow> Bot option res" where
  "by_id i db =
     (if \<not> pg_int4 i then Inl DataError
      else scalar_one_or_none (filter (\<lambda>b. b_id b = i) (bots db)))"

text \<open>A dict keyed by id: a later row of the same id would replace an earlier one.\<close>

definition by_ids :: "int list \<Rightarrow> db \<Rightarrow> (int \<Rightarrow> Bot option) res" where
  "by_ids ids db =
     (if \<not> list_all pg_int4 ids then Inl DataError
      else Inr (map_of (rev (map (\<lambda>b. (b_id b, b)) (filter (\<lambda>b. b_id b \<in> set ids) (bots db))))))"

definition by_versioned_name :: "string \<Rightarrow> db \<Rightarrow> Bot option res" where
  "by_versioned_name name db =
     (if \<not> pg_text name then Inl DataError
      else scalar_one_or_none (filter (\<lambda>b. b_versioned_name b = name) (bots db)))"

definition all_bots :: "db \<Rightarrow> Bot list" where
  "all_bots db = bots db"

definition owner_token :: "string \<Rightarrow> db \<Rightarrow> string option res" where
  "owner_token base db =
     (if \<not> pg_text base then Inl DataError
      else scalar_one_or_none (take 1 (map b_owner_token (filter (\<lambda>b. b_base_name b = base) (bots db)))))"

text \<open>\<open>max(version)\<close> over the rows of a family.\<close>

definition family_max :: "string \<Rightarrow> db \<Rightarrow> int option" where
  "family_max base db = sql_max (map b_version (filter (\<lambda>b. b_base_name b = base) (bots db)))"

definition next_version :: "string \<Rightarrow> db \<Rightarrow> int" where
  "next_version base db =
     (case family_max base db of None \<Rightarrow> 0 | Some current \<Rightarrow> current) + 1"

definition create_bot ::
  "string \<Rightarrow> string \<Rightarrow> int \<Rightarrow> string \<Rightarrow> string \<Rightarrow> string \<Rightarrow> string option \<Rightarrow> int \<Rightarrow> db \<Rightarrow> Bot res \<times> db"
where
  "create_bot base vname version token python_ver runtime_key src now db =
     (let bot = \<lparr>b_id = bots_seq db, b_base_name = base, b_versioned_name = vname,
                 b_version = version, b_owner_token = token, b_source = src,
                 b_python_version = python_ver, b_runtime_key = runtime_key,
                 b_pod_name = None, b_pod_ready = False, b_submitted_at = now\<rparr>
      in if \<not> list_all pg_text [base, vname, token, python_ver, runtime_key] \<or> \<not> pg_int4 version
           then (Inl DataError, db)
         else if \<not> pg_int4 (bots_seq db) then (Inl DataError, db)
         else if vname \<in> set (map b_versioned_name (bots db))
           then (Inl IntegrityError, db\<lparr>bots_seq := bots_seq db + 1\<rparr>)
         else (Inr bot, db\<lparr>bots := bots db @ [bot], bots_seq := bots_seq db + 1\<rparr>))"

definition ready_bots :: "db \<Rightarrow> Bot list" where
  "ready_bots db = filter b_pod_ready (bots db)"

record PlayRow =
  p_id :: int
  p_versioned_name :: string
  p_base_name :: string
  p_python_version :: string
  p_submitted_at :: int

definition ready_bots_for_play :: "(string \<Rightarrow> 'k::linorder) \<Rightarrow> db \<Rightarrow> PlayRow list" where
  "ready_bots_for_play collate db =
     sort_key (\<lambda>r. collate (p_versioned_name r))
       (map (\<lambda>b. \<lparr>p_id = b_id b, p_versioned_name = b_versioned_name b,
                   p_base_name = b_base_name b, p_python_version = b_python_version b,
                   p_submitted_at = b_submitted_at b\<rparr>)
         (filter b_pod_ready (bots db)))"

definition mark_ready :: "int \<Rightarrow> string \<Rightarrow> Bot \<Rightarrow> Bot" where
  "mark_ready i pname b = (if b_id b = i then b\<lparr>b_pod_ready := True, b_pod_name := Some pname\<rparr> else b)"

definition set_pod_ready :: "int \<Rightarrow> string \<Rightarrow> db \<Rightarrow> db" where
  "set_pod_ready i pname db = db\<lparr>bots := map (mark_ready i pname) (bots db)\<rparr>"

section \<open>Statistics\<close>

definition latest_per_family :: "db \<Rightarrow> (string \<times> int option) list" where
  "latest_per_family db =
     map (\<lambda>base. (base, family_max base db)) (remdups (map b_base_name (bots db)))"

definition latest_bot_cte :: "db \<Rightarrow> Bot list" where
  "latest_bot_cte db =
     concat (map (\<lambda>b. map (\<lambda>_. b)
       (filter (\<lambda>(base, max_v). base = b_base_name b \<and> max_v = Some (b_version b))
         (latest_per_family db)))
     (bots db))"

definition clean_wins :: "int \<Rightarrow> db \<Rightarrow> nat" where
  "clean_wins i db =
     sql_count (\<lambda>m. m_winner_id m = Some i \<and> m_result m \<in> {''x_wins'', ''o_wins''}) (matches db)"

definition forfeit_wins :: "int \<Rightarrow> db \<Rightarrow> nat" where
  "forfeit_wins i db =
     sql_count (\<lambda>m. m_winner_id m = Some i \<and> m_result m \<in> {''x_forfeit'', ''o_forfeit''}) (matches db)"

definition draws :: "int \<Rightarrow> db \<Rightarrow> nat" where
  "draws i db =
     sql_count (\<lambda>m. (m_bot_x_id m = i \<or> m_bot_o_id m = i) \<and> m_result m = ''cat'') (matches db)"

definition losses :: "int \<Rightarrow> db \<Rightarrow> nat" where
  "losses i db =
     sql_count (\<lambda>m. (m_bot_x_id m = i \<or> m_bot_o_id m = i) \<and> m_result m \<noteq> ''cat'' \<and>
                     (m_winner_id m = None \<or> m_winner_id m \<noteq> Some i)) (matches db)"

text \<open>The inner join of \<open>matches\<close> with \<open>bots\<close> as x and as o: one row per pair of partners.\<close>

definition join_players :: "db \<Rightarrow> (Match \<times> Bot \<times> Bot) list" where
  "join_players db =
     concat (map (\<lambda>m. concat (map (\<lambda>bx. map (\<lambda>bo. (m, bx, bo))
       (filter (\<lambda>b. b_id b = m_bot_o_id m) (bots db)))
       (filter (\<lambda>b. b_id b = m_bot_x_id m) (bots db)))) (matches db))"

definition lifetime_wins :: "string \<Rightarrow> db \<Rightarrow> nat" where
  "lifetime_wins base db =
     sql_count (\<lambda>((m, bx, bo), bw). b_base_name bw = base \<and>
         (m_bot_x_id m = m_bot_o_id m \<or> b_base_name bx \<noteq> base \<or> b_base_name bo \<noteq> base))
       (concat (map (\<lambda>(m, bx, bo). map (\<lambda>bw. ((m, bx, bo), bw))
          (filter (\<lambda>b. Some (b_id b) = m_winner_id m) (bots db))) (join_players db)))"

definition winner_in_family :: "string \<Rightarrow> db \<Rightarrow> Match \<Rightarrow> bool" where
  "winner_in_family base db m \<longleftrightarrow>
     filter (\<lambda>b. Some (b_id b) = m_winner_id m \<and> b_base_name b = base) (bots db) \<noteq> []"

definition lifetime_losses :: "string \<Rightarrow> db \<Rightarrow> nat" where
  "lifetime_losses base db =
     sql_count (\<lambda>(m, bx, bo). m_result m \<noteq> ''cat'' \<and>
         (b_base_name bx = base \<or> b_base_name bo = base) \<and>
         (b_base_name bx \<noteq> base \<or> b_base_name bo \<noteq> base) \<and>
         (m_winner_id m = None \<or> \<not> winner_in_family base db m))
       (join_players db)"

record StatsRow =
  s_base_name :: string
  s_versioned_name :: string
  s_submitted_at :: int
  s_clean_wins :: nat
  s_forfeit_wins :: nat
  s_draws :: nat
  s_losses :: nat
  s_lifetime_wins :: nat
  s_lifetime_losses :: nat

definition stats_row :: "db \<Rightarrow> Bot \<Rightarrow> StatsRow" where
  "stats_row db b =
     \<lparr>s_base_name = b_base_name b, s_versioned_name = b_versioned_name b,
      s_submitted_at = b_submitted_at b,
      s_clean_wins = clean_wins (b_id b) db, s_forfeit_wins = forfeit_wins (b_id b) db,
      s_draws = draws (b_id b) db, s_losses = losses (b_id b) db,
      s_lifetime_wins = lifetime_wins (b_base_name b) db,
      s_lifetime_losses = lifetime_losses (b_base_name b) db\<rparr>"

definition leaderboard :: "db \<Rightarrow> StatsRow list" where
  "leaderboard db =
     sort_key (\<lambda>r. - int (s_clean_wins r + s_forfeit_wins r))
       (sort_key s_submitted_at (map (stats_row db) (latest_bot_cte db)))"

record FamilyRow =
  f_versioned_name :: string
  f_version :: int
  f_submitted_at :: int
  f_clean_wins :: nat
  f_forfeit_wins :: nat
  f_draws :: nat
  f_losses :: nat

definition family_rows :: "string \<Rightarrow> db \<Rightarrow> FamilyRow list" where
  "family_rows base db =
     sort_key (\<lambda>r. - f_version r)
       (map (\<lambda>b. \<lparr>f_versioned_name = b_versioned_name b, f_version = b_version b,
                   f_submitted_at = b_submitted_at b,
                   f_clean_wins = clean_wins (b_id b) db, f_forfeit_wins = forfeit_wins (b_id b) db,
                   f_draws = draws (b_id b) db, f_losses = losses (b_id b) db\<rparr>)
         (filter (\<lambda>b. b_base_name b = base) (bots db)))"

definition family :: "string \<Rightarrow> db \<Rightarrow> FamilyRow list res" where
  "family base db = (if \<not> pg_text base then Inl DataError else Inr (family_rows base db))"

section \<open>Matches and moves\<close>

record MatchRow =
  r_id :: int
  r_bot_x :: string
  r_bot_x_base :: string
  r_bot_x_python :: string
  r_bot_o :: string
  r_bot_o_base :: string
  r_bot_o_python :: string
  r_winner :: "string option"
  r_result :: string
  r_played_at :: int

definition match_row :: "Match \<Rightarrow> Bot \<Rightarrow> Bot \<Rightarrow> Bot option \<Rightarrow> MatchRow" where
  "match_row m bx bo bw =
     \<lparr>r_id = m_id m,
      r_bot_x = b_versioned_name bx, r_bot_x_base = b_base_name bx, r_bot_x_python = b_python_version bx,
      r_bot_o = b_versioned_name bo, r_bot_o_base = b_base_name bo, r_bot_o_python = b_python_version bo,
      r_winner = map_option b_versioned_name bw, r_result = m_result m, r_played_at = m_played_at m\<rparr>"

definition match_select :: "db \<Rightarrow> MatchRow list" where
  "match_select db =
     concat (map (\<lambda>(m, bx, bo). map (match_row m bx bo)
       (outer_join (\<lambda>b. Some (b_id b) = m_winner_id m) (bots db))) (join_players db))"

definition involves_family :: "string \<Rightarrow> MatchRow \<Rightarrow> bool" where
  "involves_family base r \<longleftrightarrow> r_bot_x_base r = base \<or> r_bot_o_base r = base"

text \<open>\<open>MatchRepository.by_id\<close>, \<open>list_all\<close> and \<open>list_for_bot\<close>; \<open>first()\<close> takes the first row.\<close>

definition match_by_id :: "int \<Rightarrow> string option \<Rightarrow> db \<Rightarrow> MatchRow option res" where
  "match_by_id i base db =
     (if \<not> pg_int4 i \<or> (\<exists>n \<in> set_option base. \<not> pg_text n) then Inl DataError
      else Inr (case filter (\<lambda>r. r_id r = i \<and> (case base of None \<Rightarrow> True | Some n \<Rightarrow> involves_family n r))
             (match_select db) of
        [] \<Rightarrow> None
      | r # _ \<Rightarrow> Some r))"

definition list_all_matches :: "db \<Rightarrow> MatchRow list" where
  "list_all_matches db = sort_key (\<lambda>r. - r_played_at r) (match_select db)"

definition rows_for_bot :: "string \<Rightarrow> db \<Rightarrow> MatchRow list" where
  "rows_for_bot base db =
     sort_key (\<lambda>r. - r_played_at r) (filter (involves_family base) (match_select db))"

definition list_for_bot :: "string \<Rightarrow> db \<Rightarrow> MatchRow list res" where
  "list_for_bot base db = (if \<not> pg_text base then Inl DataError else Inr (rows_for_bot base db))"

definition winner_of :: "int \<Rightarrow> int \<Rightarrow> MatchOutcome \<Rightarrow> int option" where
  "winner_of x y result =
     (if result \<in> {X_WINS, O_FORFEIT} then Some x
      else if result \<in> {O_WINS, X_FORFEIT} then Some y
      else None)"

text \<open>The error of a move is any JSON value a bot sent; the column takes text or NULL.\<close>

definition error_column :: "json \<Rightarrow> string option res" where
  "error_column e =
     (case e of
        JNull \<Rightarrow> Inr None
      | JStr s \<Rightarrow> if pg_text s then Inr (Some s) else Inl DataError
      | _ \<Rightarrow> Inl DataError)"

fun move_rows :: "int \<Rightarrow> int \<Rightarrow> int \<Rightarrow> int \<Rightarrow> Move list \<Rightarrow> MoveRow list res" where
  "move_rows seq mid x y [] = Inr []"
| "move_rows seq mid x y (mv # mvs) =
     bindE (error_column (mv_error mv)) (\<lambda>e.
     bindE (move_rows (seq + 1) mid x y mvs) (\<lambda>rows.
       Inr (\<lparr>v_id = seq, v_match_id = mid, v_move_number = int (mv_number mv),
              v_bot_id = (if mv_player mv = ''x'' then x else y),
              v_board_state = mv_board mv, v_error = e\<rparr> # rows)))"

text \<open>
  \<open>MatchRepository.record\<close>: the match row is flushed first, then the moves go with the commit;
  a failure of either rolls back both.
\<close>

definition record_match ::
  "int \<Rightarrow> int \<Rightarrow> MatchResult \<Rightarrow> string \<Rightarrow> int \<Rightarrow> db \<Rightarrow> unit res \<times> db"
where
  "record_match x y result correlation_id now db =
     (let m = \<lparr>m_id = matches_seq db, m_bot_x_id = x, m_bot_o_id = y,
               m_winner_id = winner_of x y (mr_result result),
               m_result = outcome_value (mr_result result),
               m_correlation_id = Some correlation_id, m_played_at = now\<rparr>;
          db1 = db\<lparr>matches_seq := matches_seq db + 1\<rparr>
      in if \<not> pg_text correlation_id \<or> \<not> list_all pg_int4 [x, y, matches_seq db] then (Inl DataError, db)
         else if \<not> {x, y} \<subseteq> set (map b_id (bots db)) then (Inl IntegrityError, db1)
         else (case move_rows (moves_seq db) (m_id m) x y (mr_moves result) of
                 Inl e \<Rightarrow> (Inl e, db1)
               | Inr rows \<Rightarrow>
                   if moves_seq db + int (length rows) > 2 ^ 31 then (Inl DataError, db1\<lparr>moves_seq := 2 ^ 31\<rparr>)
                   else (Inr (), db1\<lparr>matches := matches db @ [m], moves := moves db @ rows,
                                moves_seq := moves_seq db + int (length rows)\<rparr>)))"

record MoveView =
  w_move_number :: int
  w_board_state :: string
  w_error :: "string option"
  w_bot_name :: string

text \<open>\<open>MoveRepository.for_match\<close>\<close>

definition for_match :: "int \<Rightarrow> db \<Rightarrow> MoveView list" where
  "for_match mid db =
     sort_key w_move_number
       (concat (map (\<lambda>v. map (\<lambda>b. \<lparr>w_move_number = v_move_number v, w_board_state = v_board_state v,
                                   w_error = v_error v, w_bot_name = b_versioned_name b\<rparr>)
           (filter (\<lambda>b. b_id b = v_bot_id v) (bots db)))
         (filter (\<lambda>v. v_match_id v = mid) (moves db))))"

section \<open>Invariants\<close>

text \<open>What the constraints of the schema promise.\<close>

text \<open>Who wins a game with this result: the player with the line, or the one who did not forfeit.\<close>

fun rightful_winner :: "int \<Rightarrow> int \<Rightarrow> MatchOutcome \<Rightarrow> int option" where
  "rightful_winner x y X_WINS = Some x"
| "rightful_winner x y O_WINS = Some y"
| "rightful_winner x y X_FORFEIT = Some y"
| "rightful_winner x y O_FORFEIT = Some x"
| "rightful_winner x y CAT = None"

lemma winner_of_rightful: "winner_of x y r = rightful_winner x y r"
  by (cases r) (simp_all add: winner_of_def)

definition winner_consistent :: "Match \<Rightarrow> bool" where
  "winner_consistent m \<longleftrightarrow>
     (\<exists>r. m_result m = outcome_value r \<and> m_winner_id m = rightful_winner (m_bot_x_id m) (m_bot_o_id m) r)"

definition bot_ids :: "db \<Rightarrow> int set" where
  "bot_ids db = b_id ` set (bots db)"

text \<open>A sequence gives the numbers from 1 and stands after the last one when it is spent.\<close>

definition seqs_ok :: "db \<Rightarrow> bool" where
  "seqs_ok db \<longleftrightarrow> {bots_seq db, matches_seq db, moves_seq db} \<subseteq> {1..2 ^ 31} \<and>
     (\<forall>b \<in> set (bots db). 1 \<le> b_id b) \<and> (\<forall>m \<in> set (matches db). 1 \<le> m_id m) \<and>
     (\<forall>v \<in> set (moves db). 1 \<le> v_id v)"

text \<open>What the driver let through: text without NUL characters and integers of 32 bits.\<close>

definition columns_ok :: "db \<Rightarrow> bool" where
  "columns_ok db \<longleftrightarrow>
     (\<forall>b \<in> set (bots db). list_all pg_text [b_base_name b, b_versioned_name b, b_owner_token b,
        b_python_version b, b_runtime_key b] \<and> pg_int4 (b_version b)) \<and>
     (\<forall>m \<in> set (matches db). \<forall>c \<in> set_option (m_correlation_id m). pg_text c) \<and>
     (\<forall>v \<in> set (moves db). \<forall>e \<in> set_option (v_error v). pg_text e)"

definition db_ok :: "db \<Rightarrow> bool" where
  "db_ok db \<longleftrightarrow> seqs_ok db \<and> columns_ok db \<and>
     distinct (map b_id (bots db)) \<and> (\<forall>b \<in> set (bots db). b_id b < bots_seq db) \<and>
     distinct (map b_versioned_name (bots db)) \<and>
     distinct (map m_id (matches db)) \<and> (\<forall>m \<in> set (matches db). m_id m < matches_seq db) \<and>
     (\<forall>m \<in> set (matches db). m_bot_x_id m \<in> bot_ids db \<and> m_bot_o_id m \<in> bot_ids db \<and>
        winner_consistent m) \<and>
     distinct (map v_id (moves db)) \<and> (\<forall>v \<in> set (moves db). v_id v < moves_seq db) \<and>
     (\<forall>v \<in> set (moves db). v_bot_id v \<in> bot_ids db \<and> v_match_id v \<in> m_id ` set (matches db))"

text \<open>
  What the submission code adds: every row carries the versioned name of its version, and no
  family name ends in a version suffix.
\<close>

definition names_ok :: "db \<Rightarrow> bool" where
  "names_ok db \<longleftrightarrow> (\<forall>b \<in> set (bots db). 1 \<le> b_version b \<and>
     \<not> reserved_version_suffix (b_base_name b) \<and>
     b_versioned_name b = versioned_name (b_base_name b) (b_version b))"


section \<open>Keys\<close>

lemma filter_key_distinct:
  "distinct (map f xs) \<Longrightarrow> x \<in> set xs \<Longrightarrow> filter (\<lambda>y. f y = f x) xs = [x]"
proof (induction xs)
  case (Cons a xs)
  show ?case
  proof (cases "x = a")
    case True
    then have "filter (\<lambda>y. f y = f x) xs = []"
      using Cons.prems(1) by (auto simp: filter_empty_conv) (metis image_eqI)
    with True show ?thesis by simp
  next
    case False
    with Cons show ?thesis by auto
  qed
qed simp

lemma filter_key_none: "k \<notin> f ` set xs \<Longrightarrow> filter (\<lambda>y. f y = k) xs = []"
  by (auto simp: filter_empty_conv)

lemma scalar_one_or_none_simps [simp]:
  "scalar_one_or_none [] = Inr None" "scalar_one_or_none [x] = Inr (Some x)"
  by (simp_all add: scalar_one_or_none_def)

lemma db_okD:
  assumes "db_ok db"
  shows "distinct (map b_id (bots db))" and "distinct (map b_versioned_name (bots db))"
    and "distinct (map m_id (matches db))" and "distinct (map v_id (moves db))"
    and "b \<in> set (bots db) \<Longrightarrow> b_id b < bots_seq db"
    and "m \<in> set (matches db) \<Longrightarrow> m_id m < matches_seq db"
    and "v \<in> set (moves db) \<Longrightarrow> v_id v < moves_seq db"
    and "m \<in> set (matches db) \<Longrightarrow> m_bot_x_id m \<in> bot_ids db"
    and "m \<in> set (matches db) \<Longrightarrow> m_bot_o_id m \<in> bot_ids db"
    and "m \<in> set (matches db) \<Longrightarrow> winner_consistent m"
    and "v \<in> set (moves db) \<Longrightarrow> v_bot_id v \<in> bot_ids db"
    and "v \<in> set (moves db) \<Longrightarrow> v_match_id v \<in> m_id ` set (matches db)"
  using assms by (simp_all add: db_ok_def)

lemma db_ok_int4:
  assumes "db_ok db"
  shows "i \<in> bot_ids db \<Longrightarrow> pg_int4 i" and "m \<in> set (matches db) \<Longrightarrow> pg_int4 (m_id m)"
    and "v \<in> set (moves db) \<Longrightarrow> pg_int4 (v_id v)"
  using assms by (fastforce simp: db_ok_def seqs_ok_def pg_int4_def bot_ids_def)+

lemma pg_int4_small [simp]: "0 \<le> i \<Longrightarrow> i < 2 ^ 31 \<Longrightarrow> pg_int4 i"
  by (simp add: pg_int4_def)

lemma empty_db_ok [simp]: "db_ok empty_db"
  by (simp add: db_ok_def seqs_ok_def columns_ok_def empty_db_def)

lemma bot_idsE:
  assumes "i \<in> bot_ids db"
  obtains b where "b \<in> set (bots db)" and "b_id b = i"
  using assms by (auto simp: bot_ids_def)

text \<open>The lookups of a consistent database never find two rows.\<close>

lemma by_id_bot: "db_ok db \<Longrightarrow> b \<in> set (bots db) \<Longrightarrow> by_id (b_id b) db = Inr (Some b)"
  using db_ok_int4(1) [of db "b_id b"] by (simp add: by_id_def filter_key_distinct db_okD(1) bot_ids_def)

lemma by_id_none: "i \<notin> bot_ids db \<Longrightarrow> pg_int4 i \<Longrightarrow> by_id i db = Inr None"
  by (simp add: by_id_def filter_key_none bot_ids_def)

lemma by_id_cases:
  assumes "db_ok db"
  obtains b where "by_id i db = Inr (Some b)" "b \<in> set (bots db)" "b_id b = i"
  | "by_id i db = Inr None" "i \<notin> bot_ids db" "pg_int4 i"
  | "by_id i db = Inl DataError" "i \<notin> bot_ids db" "\<not> pg_int4 i"
proof (cases "i \<in> bot_ids db")
  case True
  then show ?thesis using that(1) by_id_bot [OF assms] bot_idsE by metis
next
  case False
  then show ?thesis using that(2,3) by_id_none by (cases "pg_int4 i") (simp_all add: by_id_def)
qed

lemma by_id_Some:
  assumes "db_ok db" and "by_id i db = Inr (Some b)"
  shows "b \<in> set (bots db)" and "b_id b = i"
  using by_id_cases [OF assms(1), of i] assms(2) by force+

lemma by_versioned_name_bot:
  "db_ok db \<Longrightarrow> b \<in> set (bots db) \<Longrightarrow> pg_text (b_versioned_name b) \<Longrightarrow> by_versioned_name (b_versioned_name b) db = Inr (Some b)"
  by (simp add: by_versioned_name_def filter_key_distinct db_okD(2))

lemma owner_token_total: "pg_text base \<Longrightarrow> \<exists>t. owner_token base db = Inr t"
proof -
  assume "pg_text base"
  moreover
  have "take 1 xs = [] \<or> (\<exists>x. take 1 xs = [x])" for xs :: "string list"
    by (cases xs) auto
  ultimately show ?thesis unfolding owner_token_def by (metis scalar_one_or_none_simps)
qed

lemma pg_text_simps:
  "pg_text []" "pg_text (c # s) \<longleftrightarrow> c \<noteq> CHR 0x00 \<and> pg_text s" "pg_text (s @ t) \<longleftrightarrow> pg_text s \<and> pg_text t"
  "pg_text (nat_str n)"
  using nat_str_digits [of "CHR 0x00" n] by (auto simp: pg_text_def is_digit_def)

lemma pg_text_cell: "is_cell c \<Longrightarrow> pg_text c"
  by (auto simp: is_cell_def pg_text_def)

lemma pg_text_join: "pg_text sep \<Longrightarrow> \<forall>x \<in> set xs. pg_text x \<Longrightarrow> pg_text (join sep xs)"
  by (induction sep xs rule: join.induct) (auto simp: pg_text_def)

lemma pg_text_board: "wf_board b \<Longrightarrow> pg_text (board_to_str b)"
  unfolding board_to_str_def
proof (intro pg_text_join ballI)
  fix x assume b: "wf_board b" and "x \<in> set (map (join ''|'') b)"
  then obtain row where row: "x = join ''|'' row" "row \<in> set b" by auto
  have "\<forall>c \<in> set row. is_cell c" using b row(2) unfolding wf_board_def by blast
  then have "\<forall>c \<in> set row. pg_text c" by (simp add: pg_text_cell)
  moreover have "pg_text ''|''" by (simp add: pg_text_def)
  ultimately show "pg_text x" unfolding row(1) by (intro pg_text_join)
qed (simp add: pg_text_def)

section \<open>The writes keep the schema's promises\<close>

lemma create_bot_ok:
  assumes "db_ok db"
  shows "db_ok (snd (create_bot base vname version token pyv key src now db))"
proof -
  have "bots_seq db \<notin> b_id ` set (bots db)" using db_okD(5) [OF assms] by force
  moreover have "b_id b < bots_seq db + 1" if "b \<in> set (bots db)" for b
    using db_okD(5) [OF assms that] by simp
  moreover have "seqs_ok (snd (create_bot base vname version token pyv key src now db))"
    using assms by (auto simp: create_bot_def Let_def db_ok_def seqs_ok_def pg_int4_def)
  moreover have "columns_ok (snd (create_bot base vname version token pyv key src now db))"
    using assms by (auto simp: create_bot_def Let_def db_ok_def columns_ok_def)
  ultimately show ?thesis
    using assms by (auto simp: create_bot_def Let_def db_ok_def bot_ids_def)
qed

lemma create_bot_names_ok:
  assumes "names_ok db" and "vname = versioned_name base version" and "1 \<le> version"
    and "\<not> reserved_version_suffix base"
  shows "names_ok (snd (create_bot base vname version token pyv key src now db))"
  using assms by (auto simp: create_bot_def Let_def names_ok_def)

lemma b_keys_mark_ready [simp]:
  "b_id (mark_ready i p b) = b_id b" "b_versioned_name (mark_ready i p b) = b_versioned_name b"
  "b_version (mark_ready i p b) = b_version b" "b_base_name (mark_ready i p b) = b_base_name b"
  by (simp_all add: mark_ready_def)

lemma map_keys_mark_ready [simp]:
  "map (b_id \<circ> mark_ready i p) xs = map b_id xs"
  "map (b_versioned_name \<circ> mark_ready i p) xs = map b_versioned_name xs"
  by simp_all

lemma bot_ids_set_pod_ready [simp]: "bot_ids (set_pod_ready i p db) = bot_ids db"
  by (simp add: bot_ids_def set_pod_ready_def image_image)

lemma set_pod_ready_ok: "db_ok db \<Longrightarrow> db_ok (set_pod_ready i p db)"
  unfolding db_ok_def bot_ids_set_pod_ready
  by (simp add: set_pod_ready_def seqs_ok_def columns_ok_def) (simp add: mark_ready_def)

lemma set_pod_ready_names_ok: "names_ok db \<Longrightarrow> names_ok (set_pod_ready i p db)"
  by (simp add: names_ok_def set_pod_ready_def)

lemma move_rows_keys:
  assumes "move_rows seq mid x y mvs = Inr rows"
  shows "map v_id rows = map (\<lambda>k. seq + int k) [0..<length mvs]"
    and "length rows = length mvs"
    and "\<forall>v \<in> set rows. v_match_id v = mid \<and> v_bot_id v \<in> {x, y}"
  using assms
proof (induction mvs arbitrary: seq rows)
  case (Cons mv mvs)
  {
    case 1
    then obtain e rest where "move_rows (seq + 1) mid x y mvs = Inr rest"
      "rows = \<lparr>v_id = seq, v_match_id = mid, v_move_number = int (mv_number mv),
              v_bot_id = (if mv_player mv = ''x'' then x else y),
              v_board_state = mv_board mv, v_error = e\<rparr> # rest"
      by (auto simp: res_simps)
    with Cons.IH(1) [of "seq + 1" rest] show ?case
      by (simp add: upt_conv_Cons map_Suc_upt [symmetric] del: upt_Suc)
  next
    case 2
    with Cons.IH(2) show ?case by (auto simp: res_simps)
  next
    case 3
    then obtain e rest where "move_rows (seq + 1) mid x y mvs = Inr rest"
      "rows = \<lparr>v_id = seq, v_match_id = mid, v_move_number = int (mv_number mv),
              v_bot_id = (if mv_player mv = ''x'' then x else y),
              v_board_state = mv_board mv, v_error = e\<rparr> # rest"
      by (auto simp: res_simps)
    with Cons.IH(3) [of "seq + 1" rest] show ?case by simp
  }
qed auto

lemma move_rows_errors:
  assumes "move_rows seq mid x y mvs = Inr rows"
  shows "\<forall>v \<in> set rows. \<forall>e \<in> set_option (v_error v). pg_text e"
  using assms
proof (induction mvs arbitrary: seq rows)
  case (Cons mv mvs)
  then show ?case by (fastforce simp: res_simps error_column_def split: json.splits if_splits)
qed simp

lemma winner_consistent_record:
  "winner_consistent \<lparr>m_id = i, m_bot_x_id = x, m_bot_o_id = y, m_winner_id = winner_of x y r,
     m_result = outcome_value r, m_correlation_id = c, m_played_at = t\<rparr>"
  by (auto simp: winner_consistent_def winner_of_rightful)

lemma record_match_Inr:
  assumes "record_match x y result cid now db = (Inr u, db1)"
  obtains rows where "move_rows (moves_seq db) (matches_seq db) x y (mr_moves result) = Inr rows"
    and "x \<in> bot_ids db" and "y \<in> bot_ids db"
    and "pg_int4 (matches_seq db)" and "moves_seq db + int (length rows) \<le> 2 ^ 31" and "pg_text cid"
    and "db1 = db\<lparr>matches_seq := matches_seq db + 1,
           matches := matches db @ [\<lparr>m_id = matches_seq db, m_bot_x_id = x, m_bot_o_id = y,
              m_winner_id = winner_of x y (mr_result result),
              m_result = outcome_value (mr_result result),
              m_correlation_id = Some cid, m_played_at = now\<rparr>],
           moves := moves db @ rows, moves_seq := moves_seq db + int (length rows)\<rparr>"
  using assms by (auto simp: record_match_def Let_def bot_ids_def split: if_splits sum.splits)

lemma record_match_Inl:
  assumes "record_match x y result cid now db = (Inl e, db1)"
  obtains "db1 = db" | "pg_int4 (matches_seq db)" "db1 = db\<lparr>matches_seq := matches_seq db + 1\<rparr>"
  | "pg_int4 (matches_seq db)" "db1 = db\<lparr>matches_seq := matches_seq db + 1, moves_seq := 2 ^ 31\<rparr>"
proof -
  have "db1 = db \<or> pg_int4 (matches_seq db) \<and> (db1 = db\<lparr>matches_seq := matches_seq db + 1\<rparr> \<or>
      db1 = db\<lparr>matches_seq := matches_seq db + 1, moves_seq := 2 ^ 31\<rparr>)"
    using assms by (auto simp: record_match_def Let_def split: if_splits sum.splits)
  with that show ?thesis by blast
qed

lemma record_match_bots_seq: "bots_seq (snd (record_match x y result cid now db)) = bots_seq db"
  by (simp add: record_match_def Let_def split: sum.split)

lemma record_match_Inl_tables:
  assumes "record_match x y result cid now db = (Inl e, db1)"
  shows "bots db1 = bots db" and "matches db1 = matches db" and "moves db1 = moves db"
    and "bots_seq db1 = bots_seq db"
  using assms by (cases rule: record_match_Inl; simp)+

lemma record_match_ok:
  assumes "db_ok db"
  shows "db_ok (snd (record_match x y result cid now db))"
proof (cases "record_match x y result cid now db")
  case (Pair r db1)
  show ?thesis
  proof (cases r)
    case (Inl e)
    have seqs: "db_ok (db\<lparr>matches_seq := matches_seq db + 1, moves_seq := n\<rparr>)"
      if "pg_int4 (matches_seq db)" "moves_seq db \<le> n" "n \<le> 2 ^ 31" for n
    proof -
      have "seqs_ok (db\<lparr>matches_seq := matches_seq db + 1, moves_seq := n\<rparr>)"
        using assms that by (auto simp: db_ok_def seqs_ok_def pg_int4_def)
      then show ?thesis
        using assms that db_okD(6,7) [OF assms]
        by (auto simp: db_ok_def bot_ids_def columns_ok_def intro: less_le_trans less_imp_le)
    qed
    have m: "moves_seq db \<le> 2 ^ 31" using assms by (simp add: db_ok_def seqs_ok_def)
    from Pair [unfolded Inl] show ?thesis
    proof (cases rule: record_match_Inl)
      case 1
      with assms Pair show ?thesis by simp
    next
      case 2
      with seqs [OF 2(1) order_refl m] Pair show ?thesis by simp
    next
      case 3
      with seqs [OF 3(1) m order_refl] Pair show ?thesis by simp
    qed
  next
    case (Inr u)
    from record_match_Inr [OF Pair [unfolded Inr]] obtain rows
      where rows: "move_rows (moves_seq db) (matches_seq db) x y (mr_moves result) = Inr rows"
        and xy: "x \<in> bot_ids db" "y \<in> bot_ids db"
        and room: "pg_int4 (matches_seq db)" "moves_seq db + int (length rows) \<le> 2 ^ 31" and cid: "pg_text cid"
        and db1: "db1 = db\<lparr>matches_seq := matches_seq db + 1,
           matches := matches db @ [\<lparr>m_id = matches_seq db, m_bot_x_id = x, m_bot_o_id = y,
              m_winner_id = winner_of x y (mr_result result),
              m_result = outcome_value (mr_result result),
              m_correlation_id = Some cid, m_played_at = now\<rparr>],
           moves := moves db @ rows, moves_seq := moves_seq db + int (length rows)\<rparr>" .
    have keys: "v_id ` set rows = (\<lambda>k. moves_seq db + int k) ` {0..<length rows}" "distinct (map v_id rows)"
    proof -
      have eq: "map v_id rows = map (\<lambda>k. moves_seq db + int k) [0..<length rows]"
        using move_rows_keys(1,2) [OF rows] by simp
      show "distinct (map v_id rows)" unfolding eq by (simp add: distinct_map inj_on_def)
      have "set (map v_id rows) = set (map (\<lambda>k. moves_seq db + int k) [0..<length rows])"
        by (simp only: eq)
      then show "v_id ` set rows = (\<lambda>k. moves_seq db + int k) ` {0..<length rows}" by simp
    qed
    have ids: "bot_ids db1 = bot_ids db" by (simp add: db1 bot_ids_def)
    have "\<forall>k \<in> v_id ` set rows. k < moves_seq db + int (length rows)"
      unfolding keys(1) by auto
    then have "\<forall>v \<in> set rows. v_id v < moves_seq db + int (length rows)" by simp
    moreover have "matches_seq db \<notin> m_id ` set (matches db)" using db_okD(6) [OF assms] by force
    moreover have "v_id ` set (moves db) \<inter> v_id ` set rows = {}"
      using db_okD(7) [OF assms] unfolding keys(1) by fastforce
    moreover have "v_id v < moves_seq db + int (length rows)" if "v \<in> set (moves db)" for v
      using db_okD(7) [OF assms that] by simp
    moreover have "m_id m < matches_seq db + 1" if "m \<in> set (matches db)" for m
      using db_okD(6) [OF assms that] by simp
    moreover have "\<forall>v \<in> set rows. v_bot_id v \<in> bot_ids db \<and> v_match_id v = matches_seq db"
      using move_rows_keys(3) [OF rows] xy by auto
    moreover have "seqs_ok db1"
    proof -
      have "1 \<le> moves_seq db" using assms by (simp add: db_ok_def seqs_ok_def)
      then have "\<forall>k \<in> v_id ` set rows. 1 \<le> k" unfolding keys(1) by auto
      then show ?thesis using assms room by (auto simp: db_ok_def seqs_ok_def pg_int4_def db1)
    qed
    moreover have "columns_ok db1"
      using assms move_rows_errors [OF rows] cid by (auto simp: db1 db_ok_def columns_ok_def)
    ultimately have "db_ok db1"
      using assms xy keys(2) unfolding db_ok_def ids
      by (auto simp: db1 winner_consistent_record)
    with Pair show ?thesis by simp
  qed
qed

section \<open>Properties\<close>

text \<open>Creating a bot, marking it ready and recording a match keep every promise of the schema
  (unique ids and versioned names, foreign keys, the winner that goes with the result), on
  success and on every failure.\<close>

theorem writes_keep_schema:
  assumes "db_ok d"
  shows "db_ok (snd (create_bot base vname version token pyv key src now d)) \<and>
    db_ok (set_pod_ready i pname d) \<and> db_ok (snd (record_match x y result cid now d))"
  using create_bot_ok [OF assms] set_pod_ready_ok [OF assms] record_match_ok [OF assms] by blast+

theorem writes_keep_schema_witness:
  "db_ok (snd (create_bot ''A'' ''A'' 1 ''t'' ''3.14'' ''python-3.14'' None 0 empty_db)) \<and>
   db_ok (snd (record_match 1 1 \<lparr>mr_result = CAT, mr_moves = []\<rparr> ''c'' 0 empty_db))"
  using writes_keep_schema [OF empty_db_ok] by blast

end
