(* ===== verification/DbStats.thy ===== *)
theory DbStats
  imports Db "HOL-Library.Multiset"
begin

text \<open>
  What the queries of \<open>Db\<close> answer on a consistent database: fresh versions and names, the
  rows of the leaderboard, how the statistics split the matches of a bot, and what reading
  back a recorded match gives.
\<close>

section \<open>Versions and names\<close>

lemma sql_max_Max: "sql_max xs = (if xs = [] then None else Some (Max (set xs)))"
  by (induction xs) (auto split: option.split)

lemma sql_max_mem: "sql_max xs = Some m \<Longrightarrow> m \<in> set xs \<and> (\<forall>x \<in> set xs. x \<le> m)"
  by (auto simp: sql_max_Max split: if_splits)

lemma family_max_ge:
  "b \<in> set (bots db) \<Longrightarrow> \<exists>m. family_max (b_base_name b) db = Some m \<and> b_version b \<le> m"
  by (auto simp: family_max_def sql_max_Max filter_empty_conv)

lemma next_version_greater: "b \<in> set (bots db) \<Longrightarrow> b_version b < next_version (b_base_name b) db"
  using family_max_ge [of b db] by (auto simp: next_version_def)

lemma next_version_le:
  assumes "\<forall>b \<in> set (bots db). b_version b \<le> N" and "0 \<le> N"
  shows "next_version base db \<le> N + 1"
proof (cases "family_max base db")
  case (Some m)
  then have "m \<in> b_version ` set (bots db)"
    by (auto simp: family_max_def dest!: sql_max_mem)
  with assms Some show ?thesis by (auto simp: next_version_def)
qed (use assms in \<open>simp add: next_version_def\<close>)

lemma next_version_positive:
  assumes "names_ok db"
  shows "1 \<le> next_version base db"
proof (cases "family_max base db")
  case (Some m)
  then have "m \<in> b_version ` set (bots db)"
    by (auto simp: family_max_def dest!: sql_max_mem)
  with assms Some show ?thesis by (auto simp: next_version_def names_ok_def)
qed (simp add: next_version_def)

text \<open>The name of the next version is not taken, by the family or by any other.\<close>

lemma next_name_fresh:
  assumes "names_ok db" and "\<not> reserved_version_suffix base"
  shows "versioned_name base (next_version base db) \<notin> set (map b_versioned_name (bots db))"
proof
  assume "versioned_name base (next_version base db) \<in> set (map b_versioned_name (bots db))"
  then obtain b where b: "b \<in> set (bots db)"
    and eq: "versioned_name base (next_version base db) = b_versioned_name b"
    by auto
  from b assms(1) have "versioned_name base (next_version base db) = versioned_name (b_base_name b) (b_version b)"
    "1 \<le> b_version b" "\<not> reserved_version_suffix (b_base_name b)"
    using eq by (auto simp: names_ok_def)
  then have "base = b_base_name b \<and> next_version base db = b_version b"
    using versioned_name_inject assms(2) next_version_positive [OF assms(1)] by blast
  then have "next_version (b_base_name b) db = b_version b" by blast
  with next_version_greater [OF b] show False by linarith
qed

section \<open>The leaderboard\<close>

lemma same_version_same_bot:
  assumes "db_ok db" and "names_ok db" and "b \<in> set (bots db)" and "c \<in> set (bots db)"
    and "b_base_name b = b_base_name c" and "b_version b = b_version c"
  shows "b = c"
proof -
  have "b_versioned_name b = b_versioned_name c" using assms by (simp add: names_ok_def)
  with db_okD(2) [OF assms(1)] assms(3,4) show ?thesis
    by (simp add: distinct_map inj_on_def)
qed

lemma latest_join:
  assumes "b \<in> set (bots db)"
  shows "filter (\<lambda>(base, max_v). base = b_base_name b \<and> max_v = Some (b_version b))
           (latest_per_family db) =
         (if family_max (b_base_name b) db = Some (b_version b)
          then [(b_base_name b, family_max (b_base_name b) db)] else [])"
proof -
  have key: "filter (\<lambda>y. y = x) xs = (if x \<in> set xs then [x] else [])" if "distinct xs"
    for x :: string and xs
    using that by (induction xs) auto
  have "filter (\<lambda>(base, max_v). base = b_base_name b \<and> max_v = Some (b_version b)) (latest_per_family db) =
        map (\<lambda>base. (base, family_max base db))
          (filter (\<lambda>base. base = b_base_name b \<and> family_max base db = Some (b_version b))
            (remdups (map b_base_name (bots db))))"
    by (simp add: latest_per_family_def filter_map o_def)
  also have "filter (\<lambda>base. base = b_base_name b \<and> family_max base db = Some (b_version b))
            (remdups (map b_base_name (bots db))) =
        filter (\<lambda>base. family_max base db = Some (b_version b))
          (filter (\<lambda>base. base = b_base_name b) (remdups (map b_base_name (bots db))))"
    by (simp add: conj_commute)
  also have "filter (\<lambda>base. base = b_base_name b) (remdups (map b_base_name (bots db))) = [b_base_name b]"
    using assms by (simp add: key)
  finally show ?thesis by simp
qed

lemma latest_bot_cte_eq:
  "latest_bot_cte db =
     filter (\<lambda>b. family_max (b_base_name b) db = Some (b_version b)) (bots db)"
proof -
  have "concat (map (\<lambda>b. map (\<lambda>_. b)
          (if family_max (b_base_name b) db = Some (b_version b)
           then [(b_base_name b, family_max (b_base_name b) db)] else [])) bs) =
        filter (\<lambda>b. family_max (b_base_name b) db = Some (b_version b)) bs" for bs
    by (induction bs) auto
  moreover have "latest_bot_cte db = concat (map (\<lambda>b. map (\<lambda>_. b)
          (if family_max (b_base_name b) db = Some (b_version b)
           then [(b_base_name b, family_max (b_base_name b) db)] else [])) (bots db))"
    unfolding latest_bot_cte_def by (intro arg_cong [where f = concat] map_cong) (simp_all only: latest_join)
  ultimately show ?thesis by simp
qed

lemma latest_bot_exists:
  assumes "b \<in> set (bots db)"
  shows "\<exists>c \<in> set (latest_bot_cte db). b_base_name c = b_base_name b"
proof -
  obtain m where m: "family_max (b_base_name b) db = Some m" using family_max_ge [OF assms] by blast
  then have "m \<in> b_version ` {c \<in> set (bots db). b_base_name c = b_base_name b}"
    by (auto simp: family_max_def dest!: sql_max_mem)
  with m show ?thesis by (force simp: latest_bot_cte_eq)
qed

lemma distinct_latest_families:
  assumes "db_ok db" and "names_ok db"
  shows "distinct (map b_base_name (latest_bot_cte db))"
proof -
  have "distinct (map b_id (bots db))" using assms(1) by (rule db_okD)
  then have "distinct (latest_bot_cte db)"
    by (simp add: latest_bot_cte_eq distinct_map)
  moreover have "inj_on b_base_name (set (latest_bot_cte db))"
    using same_version_same_bot [OF assms] by (auto simp: inj_on_def latest_bot_cte_eq)
  ultimately show ?thesis by (simp add: distinct_map)
qed

lemma mset_leaderboard: "mset (leaderboard db) = mset (map (stats_row db) (latest_bot_cte db))"
  by (simp add: leaderboard_def)

lemma set_leaderboard: "set (leaderboard db) = stats_row db ` set (latest_bot_cte db)"
  by (simp add: leaderboard_def)

lemma leaderboard_families:
  assumes "db_ok db" and "names_ok db"
  shows "distinct (map s_base_name (leaderboard db))"
    and "set (map s_base_name (leaderboard db)) = b_base_name ` set (bots db)"
proof -
  have "mset (map s_base_name (leaderboard db)) = mset (map b_base_name (latest_bot_cte db))"
    by (simp add: mset_leaderboard stats_row_def image_mset.compositionality o_def)
  then show "distinct (map s_base_name (leaderboard db))"
    using distinct_latest_families [OF assms] mset_eq_imp_distinct_iff by blast
  have "b_base_name ` set (latest_bot_cte db) = b_base_name ` set (bots db)"
  proof
    show "b_base_name ` set (latest_bot_cte db) \<subseteq> b_base_name ` set (bots db)"
      by (rule image_mono) (simp add: latest_bot_cte_eq)
    show "b_base_name ` set (bots db) \<subseteq> b_base_name ` set (latest_bot_cte db)"
    proof (rule image_subsetI)
      fix b
      assume "b \<in> set (bots db)"
      then obtain c where "c \<in> set (latest_bot_cte db)" "b_base_name c = b_base_name b"
        using latest_bot_exists by blast
      then show "b_base_name b \<in> b_base_name ` set (latest_bot_cte db)"
        by (rule image_eqI [OF sym, rotated])
    qed
  qed
  then show "set (map s_base_name (leaderboard db)) = b_base_name ` set (bots db)"
    by (simp add: set_leaderboard image_image stats_row_def)
qed

lemma leaderboard_order:
  shows "sorted (map (\<lambda>r. - int (s_clean_wins r + s_forfeit_wins r)) (leaderboard db))"
    and "sorted (map s_submitted_at
           (filter (\<lambda>r. int (s_clean_wins r + s_forfeit_wins r) = w) (leaderboard db)))"
proof -
  let ?k = "\<lambda>r. - int (s_clean_wins r + s_forfeit_wins r)"
  show "sorted (map ?k (leaderboard db))"
    unfolding leaderboard_def by (rule sorted_sort_key)
  have eq: "(\<lambda>r. int (s_clean_wins r + s_forfeit_wins r) = w) = (\<lambda>r. ?k r = - w)" by auto
  show "sorted (map s_submitted_at
       (filter (\<lambda>r. int (s_clean_wins r + s_forfeit_wins r) = w) (leaderboard db)))"
    unfolding leaderboard_def eq sort_key_stable filter_sort by (rule sorted_sort_key)
qed

section \<open>Wins, draws and losses\<close>

lemma sql_count_simps [simp]:
  "sql_count P [] = 0" "sql_count P (x # xs) = (if P x then 1 else 0) + sql_count P xs"
  "sql_count P (xs @ ys) = sql_count P xs + sql_count P ys"
  by (simp_all add: sql_count_def)

definition played_by :: "int \<Rightarrow> Match \<Rightarrow> bool" where
  "played_by i m \<longleftrightarrow> m_bot_x_id m = i \<or> m_bot_o_id m = i"

lemma winner_consistent_cases:
  assumes "winner_consistent m"
  obtains (cat) "m_result m = ''cat''" "m_winner_id m = None"
  | (x) "m_result m = ''x_wins'' \<or> m_result m = ''o_forfeit''" "m_winner_id m = Some (m_bot_x_id m)"
  | (o) "m_result m = ''o_wins'' \<or> m_result m = ''x_forfeit''" "m_winner_id m = Some (m_bot_o_id m)"
proof -
  from assms obtain r where r: "m_result m = outcome_value r"
    "m_winner_id m = rightful_winner (m_bot_x_id m) (m_bot_o_id m) r"
    by (auto simp: winner_consistent_def)
  then show ?thesis by (cases r) (auto intro: that)
qed

lemma stats_partition_list:
  assumes "\<forall>m \<in> set ms. winner_consistent m"
  shows "sql_count (\<lambda>m. m_winner_id m = Some i \<and> m_result m \<in> {''x_wins'', ''o_wins''}) ms +
         sql_count (\<lambda>m. m_winner_id m = Some i \<and> m_result m \<in> {''x_forfeit'', ''o_forfeit''}) ms +
         sql_count (\<lambda>m. (m_bot_x_id m = i \<or> m_bot_o_id m = i) \<and> m_result m = ''cat'') ms +
         sql_count (\<lambda>m. (m_bot_x_id m = i \<or> m_bot_o_id m = i) \<and> m_result m \<noteq> ''cat'' \<and>
                     (m_winner_id m = None \<or> m_winner_id m \<noteq> Some i)) ms =
         sql_count (played_by i) ms"
  using assms
proof (induction ms)
  case (Cons m ms)
  then have "winner_consistent m" by simp
  then show ?case
    using Cons by (cases rule: winner_consistent_cases) (auto simp: played_by_def)
qed simp

lemma stats_partition:
  assumes "db_ok db"
  shows "clean_wins i db + forfeit_wins i db + draws i db + losses i db =
         sql_count (played_by i) (matches db)"
  using stats_partition_list [of "matches db" i] db_okD(10) [OF assms]
  by (simp add: clean_wins_def forfeit_wins_def draws_def losses_def)

section \<open>What a recorded match adds\<close>

text \<open>The row \<open>record_match\<close> inserts.\<close>

definition recorded :: "int \<Rightarrow> int \<Rightarrow> MatchResult \<Rightarrow> string \<Rightarrow> int \<Rightarrow> db \<Rightarrow> Match" where
  "recorded x y result cid now db =
     \<lparr>m_id = matches_seq db, m_bot_x_id = x, m_bot_o_id = y,
      m_winner_id = winner_of x y (mr_result result), m_result = outcome_value (mr_result result),
      m_correlation_id = Some cid, m_played_at = now\<rparr>"

lemma recorded_sel [simp]:
  "m_id (recorded x y result cid now db) = matches_seq db"
  "m_bot_x_id (recorded x y result cid now db) = x" "m_bot_o_id (recorded x y result cid now db) = y"
  "m_winner_id (recorded x y result cid now db) = winner_of x y (mr_result result)"
  "m_result (recorded x y result cid now db) = outcome_value (mr_result result)"
  "m_played_at (recorded x y result cid now db) = now"
  by (simp_all add: recorded_def)

lemma record_match_tables:
  assumes "record_match x y result cid now db = (Inr u, db1)"
  shows "bots db1 = bots db" and "matches db1 = matches db @ [recorded x y result cid now db]"
    and "\<exists>rows. move_rows (moves_seq db) (matches_seq db) x y (mr_moves result) = Inr rows \<and>
           moves db1 = moves db @ rows"
    and "x \<in> bot_ids db" and "y \<in> bot_ids db"
  by (rule record_match_Inr [OF assms], simp add: recorded_def)+

lemma join_one:
  assumes "db_ok db" and "bx \<in> set (bots db)" and "bo \<in> set (bots db)"
    and "m_bot_x_id m = b_id bx" and "m_bot_o_id m = b_id bo"
  shows "concat (map (\<lambda>bx. map (\<lambda>bo. (m, bx, bo))
       (filter (\<lambda>b. b_id b = m_bot_o_id m) (bots db)))
       (filter (\<lambda>b. b_id b = m_bot_x_id m) (bots db))) = [(m, bx, bo)]"
  using assms by (simp add: filter_key_distinct db_okD(1))

lemma join_players_record:
  assumes "db_ok db" and "record_match x y result cid now db = (Inr u, db1)"
    and "bx \<in> set (bots db)" and "bo \<in> set (bots db)" and "b_id bx = x" and "b_id bo = y"
  shows "join_players db1 = join_players db @ [(recorded x y result cid now db, bx, bo)]"
  using join_one [OF assms(1,3,4), of "recorded x y result cid now db"] assms(5,6)
  by (simp add: join_players_def record_match_tables(1,2) [OF assms(2)])

lemma filter_Some_id:
  assumes "db_ok db" and "bw \<in> set (bots db)"
  shows "filter (\<lambda>b. b_id b = b_id bw) (bots db) = [bw]"
  using assms by (simp add: filter_key_distinct db_okD(1))

text \<open>
  The lifetime record of a family after a match: a win goes to the family of the winner unless
  both bots are versions of one family, a loss to the family of the loser unless that is also
  the winner's. A bot that plays itself gets the win and not the loss.
\<close>

lemma lifetime_after_record:
  assumes ok: "db_ok db" and rec: "record_match x y result cid now db = (Inr u, db1)"
    and bx: "bx \<in> set (bots db)" "b_id bx = x" and bo: "bo \<in> set (bots db)" "b_id bo = y"
    and win: "(mr_result result \<in> {X_WINS, O_FORFEIT} \<and> bw = bx \<and> bl = bo) \<or>
              (mr_result result \<in> {O_WINS, X_FORFEIT} \<and> bw = bo \<and> bl = bx)"
  shows "lifetime_wins base db1 = lifetime_wins base db +
           (if b_base_name bw = base \<and> (x = y \<or> b_base_name bl \<noteq> base) then 1 else 0)"
    and "lifetime_losses base db1 = lifetime_losses base db +
           (if b_base_name bl = base \<and> b_base_name bw \<noteq> base then 1 else 0)"
proof -
  let ?m = "recorded x y result cid now db"
  have tables: "bots db1 = bots db" "join_players db1 = join_players db @ [(?m, bx, bo)]"
    using record_match_tables(1) [OF rec] join_players_record [OF ok rec] bx bo by auto
  have bw: "bw \<in> set (bots db)" "winner_of x y (mr_result result) = Some (b_id bw)"
    and cat: "outcome_value (mr_result result) \<noteq> ''cat''"
    using win bx bo by (auto simp: winner_of_def)
  have one: "filter (\<lambda>b. b_id b = b_id bw) (bots db) = [bw]"
    using filter_Some_id [OF ok bw(1)] .
  have self: "bx = bo" if "x = y"
    using filter_Some_id [OF ok bx(1)] filter_Some_id [OF ok bo(1)] bx bo that by simp
  show "lifetime_wins base db1 = lifetime_wins base db +
           (if b_base_name bw = base \<and> (x = y \<or> b_base_name bl \<noteq> base) then 1 else 0)"
    unfolding lifetime_wins_def tables map_append concat_append sql_count_simps(3)
    using win bw(2) one by auto
  have "filter (\<lambda>b. b_id b = b_id bw \<and> b_base_name b = base) (bots db) =
        filter (\<lambda>b. b_base_name b = base) (filter (\<lambda>b. b_id b = b_id bw) (bots db))"
    by (simp add: conj_commute)
  then have family: "winner_in_family base db ?m \<longleftrightarrow> b_base_name bw = base"
    using bw(2) one by (auto simp: winner_in_family_def)
  have "winner_in_family base db1 = winner_in_family base db"
    by (simp add: winner_in_family_def tables fun_eq_iff)
  then show "lifetime_losses base db1 = lifetime_losses base db +
           (if b_base_name bl = base \<and> b_base_name bw \<noteq> base then 1 else 0)"
    unfolding lifetime_losses_def tables sql_count_simps(3)
    using win bw(2) cat family self by auto
qed

section \<open>Reading back a recorded match\<close>

lemma join_players_ids: "(m, bx, bo) \<in> set (join_players db) \<Longrightarrow> m \<in> set (matches db)"
  by (auto simp: join_players_def)

definition winner_bot :: "Bot \<Rightarrow> Bot \<Rightarrow> MatchOutcome \<Rightarrow> Bot option" where
  "winner_bot bx bo r =
     (if r \<in> {X_WINS, O_FORFEIT} then Some bx else if r \<in> {O_WINS, X_FORFEIT} then Some bo else None)"

lemma match_select_record:
  assumes "db_ok db" and "record_match x y result cid now db = (Inr u, db1)"
    and "bx \<in> set (bots db)" "b_id bx = x" and "bo \<in> set (bots db)" "b_id bo = y"
  shows "match_select db1 = match_select db @
    [match_row (recorded x y result cid now db) bx bo (winner_bot bx bo (mr_result result))]"
proof -
  let ?m = "recorded x y result cid now db"
  have "outer_join (\<lambda>b. Some (b_id b) = m_winner_id ?m) (bots db) =
        [winner_bot bx bo (mr_result result)]"
    using filter_Some_id [OF assms(1,3)] filter_Some_id [OF assms(1,5)] assms(4,6)
    by (auto simp: outer_join_def winner_of_def winner_bot_def)
  then show ?thesis
    using join_players_record [OF assms(1,2,3,5,4,6)]
    by (simp add: match_select_def record_match_tables(1) [OF assms(2)])
qed

lemma match_select_ids:
  assumes "db_ok db" and "r \<in> set (match_select db)"
  shows "r_id r < matches_seq db"
  using assms(2) db_okD(6) [OF assms(1)]
  by (auto simp: match_select_def match_row_def dest!: join_players_ids)

lemma match_select_matches:
  assumes "db_ok db"
  shows "r_id ` set (match_select db) = m_id ` set (matches db)"
proof
  show "r_id ` set (match_select db) \<subseteq> m_id ` set (matches db)"
    by (auto simp: match_select_def match_row_def dest!: join_players_ids)
  show "m_id ` set (matches db) \<subseteq> r_id ` set (match_select db)"
  proof
    fix i assume "i \<in> m_id ` set (matches db)"
    then obtain m where m: "m \<in> set (matches db)" "m_id m = i" by auto
    obtain bx bo where b: "bx \<in> set (bots db)" "b_id bx = m_bot_x_id m" "bo \<in> set (bots db)" "b_id bo = m_bot_o_id m"
      using db_okD(8,9) [OF assms m(1)] by (metis bot_idsE)
    have "(m, bx, bo) \<in> set (join_players db)" using m(1) b by (auto simp: join_players_def)
    moreover obtain bw where "bw \<in> set (outer_join (\<lambda>b. Some (b_id b) = m_winner_id m) (bots db))"
      by (cases "filter (\<lambda>b. Some (b_id b) = m_winner_id m) (bots db)") (auto simp: outer_join_def)
    ultimately have "match_row m bx bo bw \<in> set (match_select db)" by (force simp: match_select_def)
    then show "i \<in> r_id ` set (match_select db)" using m(2) by (force simp: match_row_def)
  qed
qed

lemma match_by_id_status:
  assumes "db_ok db"
  shows "\<not> pg_int4 i \<Longrightarrow> match_by_id i None db = Inl DataError"
    and "pg_int4 i \<Longrightarrow> i \<notin> m_id ` set (matches db) \<Longrightarrow> match_by_id i None db = Inr None"
    and "i \<in> m_id ` set (matches db) \<Longrightarrow> \<exists>r. match_by_id i None db = Inr (Some r) \<and> r_id r = i"
proof -
  show "match_by_id i None db = Inl DataError" if "\<not> pg_int4 i" using that by (simp add: match_by_id_def)
  show "match_by_id i None db = Inr None" if "pg_int4 i" "i \<notin> m_id ` set (matches db)"
  proof -
    have "filter (\<lambda>r. r_id r = i) (match_select db) = []"
      using that(2) unfolding match_select_matches [OF assms, symmetric] by (auto simp: filter_empty_conv)
    then show ?thesis using that(1) by (simp add: match_by_id_def)
  qed
  assume i: "i \<in> m_id ` set (matches db)"
  then have "pg_int4 i" using db_ok_int4(2) [OF assms] by auto
  from i obtain r rs where r: "filter (\<lambda>r. r_id r = i) (match_select db) = r # rs"
    unfolding match_select_matches [OF assms, symmetric]
    by (cases "filter (\<lambda>r. r_id r = i) (match_select db)") (auto simp: filter_empty_conv)
  moreover have "r_id r = i" using arg_cong [OF r, of set] by auto
  ultimately show "\<exists>r. match_by_id i None db = Inr (Some r) \<and> r_id r = i"
    using \<open>pg_int4 i\<close> by (simp add: match_by_id_def)
qed

lemma match_by_id_record:
  assumes "db_ok db" and "record_match x y result cid now db = (Inr u, db1)"
    and "bx \<in> set (bots db)" "b_id bx = x" and "bo \<in> set (bots db)" "b_id bo = y"
  shows "match_by_id (matches_seq db) None db1 =
    Inr (Some (match_row (recorded x y result cid now db) bx bo (winner_bot bx bo (mr_result result))))"
proof -
  have "pg_int4 (matches_seq db)" using record_match_Inr [OF assms(2)] by blast
  moreover have "filter (\<lambda>r. r_id r = matches_seq db) (match_select db) = []"
    using match_select_ids [OF assms(1)] by (force simp: filter_empty_conv)
  ultimately show ?thesis
    by (simp add: match_by_id_def match_select_record [OF assms] match_row_def)
qed

text \<open>What the page of a match shows of a move.\<close>

definition move_view :: "(int \<Rightarrow> string) \<Rightarrow> int \<Rightarrow> int \<Rightarrow> Move \<Rightarrow> MoveView" where
  "move_view name x y mv =
     \<lparr>w_move_number = int (mv_number mv), w_board_state = mv_board mv,
      w_error = (case mv_error mv of JStr s \<Rightarrow> Some s | _ \<Rightarrow> None),
      w_bot_name = name (if mv_player mv = ''x'' then x else y)\<rparr>"

lemma view_move_rows:
  assumes "move_rows seq mid x y mvs = Inr rows"
    and "\<And>i. i \<in> {x, y} \<Longrightarrow> filter (\<lambda>b. b_id b = i) bs = [who i]"
  shows "concat (map (\<lambda>v. map (\<lambda>b. \<lparr>w_move_number = v_move_number v, w_board_state = v_board_state v,
           w_error = v_error v, w_bot_name = b_versioned_name b\<rparr>)
           (filter (\<lambda>b. b_id b = v_bot_id v) bs)) (filter (\<lambda>v. v_match_id v = mid) rows)) =
         map (move_view (\<lambda>i. b_versioned_name (who i)) x y) mvs"
  using assms(1)
proof (induction mvs arbitrary: seq rows)
  case (Cons mv mvs)
  from Cons.prems obtain e rest where e: "error_column (mv_error mv) = Inr e"
    and rest: "move_rows (seq + 1) mid x y mvs = Inr rest"
    and rows: "rows = \<lparr>v_id = seq, v_match_id = mid, v_move_number = int (mv_number mv),
              v_bot_id = (if mv_player mv = ''x'' then x else y),
              v_board_state = mv_board mv, v_error = e\<rparr> # rest"
    by (auto simp: res_simps)
  have "e = (case mv_error mv of JStr s \<Rightarrow> Some s | _ \<Rightarrow> None)"
    using e by (auto simp: error_column_def split: json.splits if_splits)
  with rows Cons.IH [OF rest] show ?case by (simp add: move_view_def assms(2))
qed simp

lemma for_match_record:
  assumes "db_ok db" and "record_match x y result cid now db = (Inr u, db1)"
    and "bx \<in> set (bots db)" "b_id bx = x" and "bo \<in> set (bots db)" "b_id bo = y"
    and "sorted (map mv_number (mr_moves result))"
  shows "for_match (matches_seq db) db1 =
    map (move_view (\<lambda>i. b_versioned_name (if i = x then bx else bo)) x y) (mr_moves result)"
proof -
  obtain rows where rows: "move_rows (moves_seq db) (matches_seq db) x y (mr_moves result) = Inr rows"
    and moves: "moves db1 = moves db @ rows"
    using record_match_tables(3) [OF assms(2)] by blast
  have old: "filter (\<lambda>v. v_match_id v = matches_seq db) (moves db) = []"
    using db_okD(12) [OF assms(1)] db_okD(6) [OF assms(1)] by (fastforce simp: filter_empty_conv)
  have bots: "filter (\<lambda>b. b_id b = i) (bots db) = [if i = x then bx else bo]" if "i \<in> {x, y}" for i
    using that filter_Some_id [OF assms(1,3)] filter_Some_id [OF assms(1,5)] assms(4,6) by auto
  have "sorted (map w_move_number (map (move_view (\<lambda>i. b_versioned_name (if i = x then bx else bo)) x y)
          (mr_moves result)))"
    using assms(7) by (simp add: move_view_def o_def sorted_map)
  then show ?thesis
    unfolding for_match_def
    using view_move_rows [OF rows bots] old
    by (simp add: moves record_match_tables(1) [OF assms(2)] sort_key_id_if_sorted)
qed

section \<open>Properties\<close>

text \<open>A small database: two families, one with two versions, and three matches.\<close>

definition sample_bot :: "int \<Rightarrow> string \<Rightarrow> string \<Rightarrow> int \<Rightarrow> Bot" where
  "sample_bot i base vname v = \<lparr>b_id = i, b_base_name = base, b_versioned_name = vname, b_version = v,
     b_owner_token = ''t'', b_source = None, b_python_version = ''3.14'', b_runtime_key = ''python-3.14'',
     b_pod_name = None, b_pod_ready = False, b_submitted_at = i\<rparr>"

definition sample_match :: "int \<Rightarrow> int \<Rightarrow> int \<Rightarrow> MatchOutcome \<Rightarrow> Match" where
  "sample_match i x y r = \<lparr>m_id = i, m_bot_x_id = x, m_bot_o_id = y, m_winner_id = winner_of x y r,
     m_result = outcome_value r, m_correlation_id = None, m_played_at = i\<rparr>"

definition sample_db :: db where
  "sample_db = \<lparr>bots = [sample_bot 1 ''A'' ''A'' 1, sample_bot 2 ''B'' ''B'' 1, sample_bot 3 ''A'' ''AV2'' 2],
     matches = [sample_match 1 1 2 X_WINS, sample_match 2 2 3 X_FORFEIT, sample_match 3 3 3 CAT],
     moves = [], bots_seq = 4, matches_seq = 4, moves_seq = 1\<rparr>"

lemma sample_db_ok: "db_ok sample_db"
proof -
  have "winner_consistent (sample_match i x y r)" for i x y r
    by (auto simp: winner_consistent_def sample_match_def winner_of_rightful)
  then show ?thesis
    by (simp add: db_ok_def seqs_ok_def columns_ok_def pg_text_def sample_db_def bot_ids_def sample_bot_def) (simp add: sample_match_def)
qed

lemma sample_names_ok: "names_ok sample_db"
proof -
  have "versioned_name ''A'' 1 = ''A''" "versioned_name ''B'' 1 = ''B''" "versioned_name ''A'' 2 = ''AV2''"
    "\<not> reserved_version_suffix ''A''" "\<not> reserved_version_suffix ''B''"
    by code_simp+
  then show ?thesis by (simp add: names_ok_def sample_db_def sample_bot_def)
qed

text \<open>C24: the leaderboard has exactly one row for every family, the rows come in order of falling
  total wins, and rows with the same total in order of submission.\<close>

theorem leaderboard_one_row_per_family:
  assumes "db_ok d" and "names_ok d"
  shows "distinct (map s_base_name (leaderboard d)) \<and>
    set (map s_base_name (leaderboard d)) = b_base_name ` set (bots d) \<and>
    sorted (map (\<lambda>r. - int (s_clean_wins r + s_forfeit_wins r)) (leaderboard d)) \<and>
    (\<forall>w. sorted (map s_submitted_at
       (filter (\<lambda>r. int (s_clean_wins r + s_forfeit_wins r) = w) (leaderboard d))))"
  using leaderboard_families [OF assms] leaderboard_order [where db = d] by blast

theorem leaderboard_one_row_per_family_witness:
  "distinct (map s_base_name (leaderboard sample_db)) \<and>
   set (map s_base_name (leaderboard sample_db)) = {''A'', ''B''}"
proof -
  have "b_base_name ` set (bots sample_db) = {''A'', ''B''}"
    by (auto simp: sample_db_def sample_bot_def)
  then show ?thesis using leaderboard_one_row_per_family [OF sample_db_ok sample_names_ok] by simp
qed

text \<open>The clean wins, forfeit wins, draws and losses shown for a bot add up to the matches it
  played, each match counted once.\<close>

theorem stats_add_up:
  assumes "db_ok d"
  shows "clean_wins i d + forfeit_wins i d + draws i d + losses i d =
    length (filter (\<lambda>m. m_bot_x_id m = i \<or> m_bot_o_id m = i) (matches d))"
  using stats_partition [OF assms, of i] by (simp add: sql_count_def played_by_def [abs_def])

theorem stats_add_up_witness:
  "clean_wins 3 sample_db + forfeit_wins 3 sample_db + draws 3 sample_db + losses 3 sample_db =
     length (filter (\<lambda>m. m_bot_x_id m = 3 \<or> m_bot_o_id m = 3) (matches sample_db)) \<and>
   forfeit_wins 3 sample_db = 1 \<and> draws 3 sample_db = 1"
  using stats_add_up [OF sample_db_ok, of 3]
  by (simp add: sample_db_def sample_match_def forfeit_wins_def draws_def winner_of_def)

text \<open>C25: recording a decided match adds one lifetime win to the winner's family and one lifetime
  loss to the loser's, and nothing to any other family; between two versions of one family it
  adds nothing, except that a bot that plays itself adds a lifetime win and no loss.\<close>

theorem lifetime_record:
  assumes "db_ok d" and "record_match x y result cid now d = (Inr u, d1)"
    and "bx \<in> set (bots d)" "b_id bx = x" and "bo \<in> set (bots d)" "b_id bo = y"
    and "(mr_result result \<in> {X_WINS, O_FORFEIT} \<and> bw = bx \<and> bl = bo) \<or>
         (mr_result result \<in> {O_WINS, X_FORFEIT} \<and> bw = bo \<and> bl = bx)"
  shows "lifetime_wins base d1 = lifetime_wins base d +
      (if b_base_name bw = base \<and> (x = y \<or> b_base_name bl \<noteq> base) then 1 else 0) \<and>
    lifetime_losses base d1 = lifetime_losses base d +
      (if b_base_name bl = base \<and> b_base_name bw \<noteq> base then 1 else 0)"
  using lifetime_after_record [OF assms] by blast

theorem lifetime_record_witness:
  "\<exists>d1. record_match 1 1 \<lparr>mr_result = X_WINS, mr_moves = []\<rparr> ''c'' 0 sample_db = (Inr (), d1) \<and>
     lifetime_wins ''A'' d1 = lifetime_wins ''A'' sample_db + 1 \<and>
     lifetime_losses ''A'' d1 = lifetime_losses ''A'' sample_db"
proof -
  obtain d1 where d1: "record_match 1 1 \<lparr>mr_result = X_WINS, mr_moves = []\<rparr> ''c'' 0 sample_db = (Inr (), d1)"
    by (simp add: record_match_def Let_def pg_text_def sample_db_def sample_bot_def)
  have b: "sample_bot 1 ''A'' ''A'' 1 \<in> set (bots sample_db)" "b_id (sample_bot 1 ''A'' ''A'' 1) = 1"
    "b_base_name (sample_bot 1 ''A'' ''A'' 1) = ''A''"
    by (simp_all add: sample_db_def sample_bot_def)
  show ?thesis
    using lifetime_record [OF sample_db_ok d1 b(1,2) b(1,2), of "sample_bot 1 ''A'' ''A'' 1"
        "sample_bot 1 ''A'' ''A'' 1" "''A''"] d1 b(3)
    by auto
qed

text \<open>After a match is recorded, its page shows it: the bots' names, the result and the winner's
  name, and its moves in order with their boards, errors and the name of the bot that moved.\<close>

theorem record_read_back:
  assumes "db_ok d" and "record_match x y result cid now d = (Inr u, d1)"
    and "bx \<in> set (bots d)" "b_id bx = x" and "bo \<in> set (bots d)" "b_id bo = y"
    and "sorted (map mv_number (mr_moves result))"
  shows "match_by_id (matches_seq d) None d1 =
      Inr (Some (match_row (recorded x y result cid now d) bx bo (winner_bot bx bo (mr_result result)))) \<and>
    for_match (matches_seq d) d1 =
      map (move_view (\<lambda>i. b_versioned_name (if i = x then bx else bo)) x y) (mr_moves result)"
  using match_by_id_record [OF assms(1-6)] for_match_record [OF assms] by blast

theorem record_read_back_witness:
  "\<exists>d1. record_match 1 2 \<lparr>mr_result = X_FORFEIT, mr_moves = [\<lparr>mv_number = 1, mv_player = ''x'',
       mv_board = ''b'', mv_error = JStr ''e''\<rparr>]\<rparr> ''c'' 9 sample_db = (Inr (), d1) \<and>
     for_match 4 d1 = [\<lparr>w_move_number = 1, w_board_state = ''b'', w_error = Some ''e'', w_bot_name = ''A''\<rparr>]"
proof -
  let ?r = "\<lparr>mr_result = X_FORFEIT, mr_moves = [\<lparr>mv_number = 1, mv_player = ''x'',
       mv_board = ''b'', mv_error = JStr ''e''\<rparr>]\<rparr>"
  obtain d1 where d1: "record_match 1 2 ?r ''c'' 9 sample_db = (Inr (), d1)"
    by (simp add: record_match_def Let_def pg_text_def sample_db_def sample_bot_def error_column_def)
  have b: "sample_bot 1 ''A'' ''A'' 1 \<in> set (bots sample_db)" "sample_bot 2 ''B'' ''B'' 1 \<in> set (bots sample_db)"
    "b_id (sample_bot 1 ''A'' ''A'' 1) = 1" "b_id (sample_bot 2 ''B'' ''B'' 1) = 2"
    "b_versioned_name (sample_bot 1 ''A'' ''A'' 1) = ''A''" "matches_seq sample_db = 4"
    by (simp_all add: sample_db_def sample_bot_def)
  show ?thesis
    using record_read_back [OF sample_db_ok d1 b(1,3) b(2,4)] d1 b(5,6) by (simp add: move_view_def)
qed

end
