(* ===== verification/System.thy ===== *)
theory System
  imports Pods Messaging DbStats
begin

text \<open>
  The state the services share and the small language their handlers are written in. A system
  state holds the database, the broker's log of published messages with the number taken from
  each queue (a queue is what was published under its name beyond what was taken), the events
  sent to the dashboards, the outside world of \<open>Pods\<close> and two counters: secrets drawn and
  publishes tried. A \<open>prog\<close> is a coroutine: from a state to a value or an exception, and a state.
  Publishing may fail: the broker is a parameter that says which attempt raises what.
\<close>

section \<open>State\<close>

record 'w sys =
  s_db :: db
  s_log :: "(string \<times> string) list"
  s_taken :: "string \<Rightarrow> nat"
  s_events :: "string list"
  s_world :: 'w
  s_drawn :: nat
  s_tried :: nat

record 'w outside =
  o_env :: "'w env"
  o_pydantic :: pydantic
  o_broker :: "nat \<Rightarrow> py_exc option"
  o_token_hex :: "nat \<Rightarrow> nat \<Rightarrow> string"
  o_now :: "'w \<Rightarrow> int"

section \<open>Programs\<close>

type_synonym ('w, 'a) prog = "'w sys \<Rightarrow> 'a res \<times> 'w sys"

definition ret :: "'a \<Rightarrow> ('w, 'a) prog" where
  "ret x s = (Inr x, s)"

definition raise :: "py_exc \<Rightarrow> ('w, 'a) prog" where
  "raise e s = (Inl e, s)"

definition bindP :: "('w, 'a) prog \<Rightarrow> ('a \<Rightarrow> ('w, 'b) prog) \<Rightarrow> ('w, 'b) prog" where
  "bindP m f s = (case m s of (Inl e, s1) \<Rightarrow> (Inl e, s1) | (Inr x, s1) \<Rightarrow> f x s1)"

definition seqP :: "('w, 'a) prog \<Rightarrow> ('w, 'b) prog \<Rightarrow> ('w, 'b) prog" where
  "seqP m k = bindP m (\<lambda>_. k)"

text \<open>\<open>try: m; except Exception: h\<close>\<close>

definition catch :: "('w, 'a) prog \<Rightarrow> (py_exc \<Rightarrow> ('w, 'a) prog) \<Rightarrow> ('w, 'a) prog" where
  "catch m h s = (case m s of (Inl e, s1) \<Rightarrow> h e s1 | (Inr x, s1) \<Rightarrow> (Inr x, s1))"

definition lift_res :: "'a res \<Rightarrow> ('w, 'a) prog" where
  "lift_res r s = (r, s)"

text \<open>\<open>async with get_session() as session\<close>: a read, or a transaction.\<close>

definition db_read :: "(db \<Rightarrow> 'a) \<Rightarrow> ('w, 'a) prog" where
  "db_read f s = (Inr (f (s_db s)), s)"

text \<open>A read the database may refuse.\<close>

definition db_query :: "(db \<Rightarrow> 'a res) \<Rightarrow> ('w, 'a) prog" where
  "db_query f s = (f (s_db s), s)"

definition db_write :: "(db \<Rightarrow> 'a res \<times> db) \<Rightarrow> ('w, 'a) prog" where
  "db_write f s = (case f (s_db s) of (r, d) \<Rightarrow> (r, s\<lparr>s_db := d\<rparr>))"

text \<open>A call to the outside, on a thread of the executor.\<close>

definition in_world :: "('w \<Rightarrow> 'a res \<times> 'w) \<Rightarrow> ('w, 'a) prog" where
  "in_world f s = (case f (s_world s) of (r, w) \<Rightarrow> (r, s\<lparr>s_world := w\<rparr>))"

definition token_hex :: "'w outside \<Rightarrow> nat \<Rightarrow> ('w, string) prog" where
  "token_hex W n s = (Inr (o_token_hex W n (s_drawn s)), s\<lparr>s_drawn := s_drawn s + 1\<rparr>)"

definition publish :: "'w outside \<Rightarrow> string \<Rightarrow> string \<Rightarrow> ('w, unit) prog" where
  "publish W routing_key body s =
     (let s1 = s\<lparr>s_tried := s_tried s + 1\<rparr>
      in case o_broker W (s_tried s) of
           Some e \<Rightarrow> (Inl e, s1)
         | None \<Rightarrow> (Inr (), s1\<lparr>s_log := s_log s @ [(routing_key, body)]\<rparr>))"

definition publish_fanout :: "'w outside \<Rightarrow> string \<Rightarrow> ('w, unit) prog" where
  "publish_fanout W body s =
     (let s1 = s\<lparr>s_tried := s_tried s + 1\<rparr>
      in case o_broker W (s_tried s) of
           Some e \<Rightarrow> (Inl e, s1)
         | None \<Rightarrow> (Inr (), s1\<lparr>s_events := s_events s @ [body]\<rparr>))"

section \<open>The queue of \<open>messaging/rabbitmq.py\<close>\<close>

definition enqueue_build_pod :: "'w outside \<Rightarrow> BuildPodMessage \<Rightarrow> ('w, unit) prog" where
  "enqueue_build_pod W msg = publish W BUILD_POD_QUEUE (dump_build (o_pydantic W) msg)"

definition publish_event :: "'w outside \<Rightarrow> string \<Rightarrow> (string \<times> json) list \<Rightarrow> ('w, unit) prog" where
  "publish_event W event_type details = publish_fanout W (event_body event_type details)"

section \<open>Consumers\<close>

text \<open>
  A consumer takes the next message of its queue and runs its handler inside
  \<open>message.process()\<close>, which acknowledges the message when the handler returns and rejects it,
  without requeueing, when it raises; either way it has left the queue.
\<close>

definition sent_to :: "string \<Rightarrow> 'w sys \<Rightarrow> string list" where
  "sent_to q s = map snd (filter (\<lambda>m. fst m = q) (s_log s))"

definition waiting :: "string \<Rightarrow> 'w sys \<Rightarrow> string list" where
  "waiting q s = drop (s_taken s q) (sent_to q s)"

definition take_one :: "string \<Rightarrow> 'w sys \<Rightarrow> (string \<times> 'w sys) option" where
  "take_one q s =
     (case waiting q s of
        [] \<Rightarrow> None
      | body # _ \<Rightarrow> Some (body, s\<lparr>s_taken := (s_taken s)(q := s_taken s q + 1)\<rparr>))"

definition consume_one :: "string \<Rightarrow> (string \<Rightarrow> ('w, unit) prog) \<Rightarrow> ('w, unit) prog" where
  "consume_one q handler s =
     (case take_one q s of
        None \<Rightarrow> (Inr (), s)
      | Some (body, s1) \<Rightarrow> handler body s1)"

section \<open>Reasoning about programs\<close>

named_theorems prog_simps \<open>unfolding of the primitive programs\<close>

lemma bindP_ret [simp]: "bindP (ret x) f = f x"
  by (simp add: bindP_def ret_def fun_eq_iff)

lemma ret_bindP [simp]: "bindP m ret = m"
  by (simp add: bindP_def ret_def fun_eq_iff split: prod.split sum.split)

lemma bindP_raise [simp]: "bindP (raise e) f = raise e"
  by (simp add: bindP_def raise_def fun_eq_iff)

lemma bindP_assoc: "bindP (bindP m f) g = bindP m (\<lambda>x. bindP (f x) g)"
  by (simp add: bindP_def fun_eq_iff split: prod.split sum.split)

lemma bindP_run: "m s = (Inr x, s1) \<Longrightarrow> bindP m f s = f x s1"
  by (simp add: bindP_def)

lemma bindP_fail: "m s = (Inl e, s1) \<Longrightarrow> bindP m f s = (Inl e, s1)"
  by (simp add: bindP_def)

lemma seqP_run: "m s = (Inr x, s1) \<Longrightarrow> seqP m k s = k s1"
  by (simp add: seqP_def bindP_def)

lemma seqP_fail: "m s = (Inl e, s1) \<Longrightarrow> seqP m k s = (Inl e, s1)"
  by (simp add: seqP_def bindP_def)

lemmas [prog_simps] = ret_def raise_def bindP_def seqP_def catch_def lift_res_def db_read_def db_query_def
  db_write_def in_world_def token_hex_def publish_def publish_fanout_def Let_def

text \<open>
  A relation between the state before and after that every primitive keeps, every program keeps:
  the interface the invariants of the services are proved over.
\<close>

definition keeps :: "('w sys \<Rightarrow> 'w sys \<Rightarrow> bool) \<Rightarrow> ('w, 'a) prog \<Rightarrow> bool" where
  "keeps R m \<longleftrightarrow> (\<forall>s. R s (snd (m s)))"

locale state_preorder =
  fixes R :: "'w sys \<Rightarrow> 'w sys \<Rightarrow> bool"
  assumes R_refl: "R s s" and R_trans: "R s t \<Longrightarrow> R t u \<Longrightarrow> R s u"
begin

lemma keeps_ret: "keeps R (ret x)"
  by (simp add: keeps_def ret_def R_refl)

lemma keeps_raise: "keeps R (raise e)"
  by (simp add: keeps_def raise_def R_refl)

lemma keeps_db_read: "keeps R (db_read f)"
  by (simp add: keeps_def db_read_def R_refl)

lemma keeps_db_query: "keeps R (db_query f)"
  by (simp add: keeps_def db_query_def R_refl)

lemma keeps_lift_res: "keeps R (lift_res r)"
  by (simp add: keeps_def lift_res_def R_refl)

lemma keeps_bindP:
  assumes "keeps R m" and "\<And>x. keeps R (f x)"
  shows "keeps R (bindP m f)"
  unfolding keeps_def bindP_def
proof
  fix s
  obtain r s1 where m: "m s = (r, s1)" by force
  with assms(1) have "R s s1" by (metis keeps_def snd_conv)
  moreover have "R s1 (snd (f x s1))" for x using assms(2) by (simp add: keeps_def)
  ultimately show "R s (snd (case m s of (Inl e, s1) \<Rightarrow> (Inl e, s1) | (Inr x, s1) \<Rightarrow> f x s1))"
    using m R_trans by (cases r) auto
qed

lemma keeps_seqP: "keeps R m \<Longrightarrow> keeps R k \<Longrightarrow> keeps R (seqP m k)"
  unfolding seqP_def by (rule keeps_bindP)

lemma keeps_catch:
  assumes "keeps R m" and "\<And>e. keeps R (h e)"
  shows "keeps R (catch m h)"
  unfolding keeps_def catch_def
proof
  fix s
  obtain r s1 where m: "m s = (r, s1)" by force
  with assms(1) have "R s s1" by (metis keeps_def snd_conv)
  moreover have "R s1 (snd (h e s1))" for e using assms(2) by (simp add: keeps_def)
  ultimately show "R s (snd (case m s of (Inl e, s1) \<Rightarrow> h e s1 | (Inr x, s1) \<Rightarrow> (Inr x, s1)))"
    using m R_trans by (cases r) auto
qed

lemmas keeps_rules = keeps_ret keeps_raise keeps_db_read keeps_db_query keeps_lift_res keeps_bindP keeps_seqP keeps_catch

end

section \<open>What handlers do to the state\<close>

definition ready_ids :: "db \<Rightarrow> int set" where
  "ready_ids d = b_id ` set (ready_bots d)"

text \<open>
  A handler takes nothing from the queues, publishes at the end of the log, and removes neither
  bots nor their readiness.
\<close>

definition grows :: "'w sys \<Rightarrow> 'w sys \<Rightarrow> bool" where
  "grows s t \<longleftrightarrow> s_taken t = s_taken s \<and> (\<exists>ms. s_log t = s_log s @ ms) \<and>
     bot_ids (s_db s) \<subseteq> bot_ids (s_db t) \<and> ready_ids (s_db s) \<subseteq> ready_ids (s_db t)"

interpretation growth: state_preorder grows
proof
  show "grows s s" for s :: "'w sys" by (auto simp: grows_def)
  show "grows s t \<Longrightarrow> grows t u \<Longrightarrow> grows s u" for s t u :: "'w sys"
    unfolding grows_def by (elim conjE exE) (intro conjI, auto)
qed

lemma keeps_grows_token_hex: "keeps grows (token_hex W n)"
  by (auto simp: keeps_def grows_def token_hex_def)

lemma keeps_grows_publish: "keeps grows (publish W k b)"
  by (auto simp: keeps_def grows_def publish_def Let_def split: option.split)

lemma keeps_grows_publish_fanout: "keeps grows (publish_fanout W b)"
  by (auto simp: keeps_def grows_def publish_fanout_def Let_def split: option.split)

lemma keeps_grows_in_world: "keeps grows (in_world f)"
  by (auto simp: keeps_def grows_def in_world_def split: prod.split)

lemma keeps_grows_db_write:
  assumes "\<And>d. bot_ids d \<subseteq> bot_ids (snd (f d)) \<and> ready_ids d \<subseteq> ready_ids (snd (f d))"
  shows "keeps grows (db_write f)"
  using assms by (auto simp: keeps_def grows_def db_write_def split: prod.split) (metis snd_conv subsetD)+

lemmas grows_rules = growth.keeps_rules keeps_grows_token_hex keeps_grows_publish
  keeps_grows_publish_fanout keeps_grows_in_world

lemma keepsD: "keeps R m \<Longrightarrow> m s = (r, t) \<Longrightarrow> R s t"
  by (metis keeps_def snd_conv)

lemma ready_ids_bots: "ready_ids d \<subseteq> bot_ids d"
  by (auto simp: ready_ids_def ready_bots_def bot_ids_def)

lemma create_bot_grows:
  "bot_ids d \<subseteq> bot_ids (snd (create_bot n v k t pv rk src now d)) \<and>
   ready_ids d \<subseteq> ready_ids (snd (create_bot n v k t pv rk src now d))"
  by (auto simp: create_bot_def Let_def bot_ids_def ready_ids_def ready_bots_def)

lemma ready_ids_eq: "ready_ids d = {b_id b | b. b \<in> set (bots d) \<and> b_pod_ready b}"
  by (auto simp: ready_ids_def ready_bots_def)

lemma b_pod_ready_mark_ready [simp]: "b_pod_ready (mark_ready i p b) \<longleftrightarrow> b_pod_ready b \<or> b_id b = i"
  by (auto simp: mark_ready_def)

lemma ready_ids_mark: "ready_ids (set_pod_ready i p d) = {b_id b | b. b \<in> set (bots d) \<and> (b_pod_ready b \<or> b_id b = i)}"
proof
  show "ready_ids (set_pod_ready i p d) \<subseteq> {b_id b | b. b \<in> set (bots d) \<and> (b_pod_ready b \<or> b_id b = i)}"
    by (auto simp: ready_ids_eq set_pod_ready_def)
  have "\<exists>b'. b_id b = b_id b' \<and> b' \<in> mark_ready i p ` set (bots d) \<and> b_pod_ready b'"
    if "b \<in> set (bots d)" "b_pod_ready b \<or> b_id b = i" for b
    using that by (intro exI [of _ "mark_ready i p b"]) auto
  then show "{b_id b | b. b \<in> set (bots d) \<and> (b_pod_ready b \<or> b_id b = i)} \<subseteq> ready_ids (set_pod_ready i p d)"
    unfolding ready_ids_eq set_pod_ready_def by auto
qed

lemma ready_ids_set_pod_ready:
  "i \<in> bot_ids d \<Longrightarrow> ready_ids (set_pod_ready i p d) = insert i (ready_ids d)"
  unfolding ready_ids_mark by (auto simp: ready_ids_eq bot_ids_def)

lemma set_pod_ready_grows:
  "bot_ids d \<subseteq> bot_ids (set_pod_ready i p d) \<and> ready_ids d \<subseteq> ready_ids (set_pod_ready i p d)"
  unfolding ready_ids_mark bot_ids_set_pod_ready by (auto simp: ready_ids_eq)

lemma bots_record_match: "bots (snd (record_match x y r cid now d)) = bots d"
  by (auto simp: record_match_def Let_def split: sum.split)

lemma record_match_grows:
  "bot_ids d \<subseteq> bot_ids (snd (record_match x y r cid now d)) \<and>
   ready_ids d \<subseteq> ready_ids (snd (record_match x y r cid now d))"
  by (simp add: bot_ids_def ready_ids_def ready_bots_def bots_record_match)

section \<open>Queues\<close>

lemma take_one_Some:
  assumes "take_one q s = Some (body, s1)"
  shows "(q, body) \<in> set (s_log s)"
    and "s1 = s\<lparr>s_taken := (s_taken s)(q := s_taken s q + 1)\<rparr>"
    and "body = sent_to q s ! s_taken s q" and "s_taken s q < length (sent_to q s)"
    and "waiting q s = body # waiting q s1"
proof -
  obtain rest where rest: "waiting q s = body # rest"
    and s1: "s1 = s\<lparr>s_taken := (s_taken s)(q := s_taken s q + 1)\<rparr>"
    using assms by (auto simp: take_one_def split: list.splits)
  then show "s1 = s\<lparr>s_taken := (s_taken s)(q := s_taken s q + 1)\<rparr>" by simp
  show less: "s_taken s q < length (sent_to q s)"
    using rest by (metis drop_all leI list.distinct(1) waiting_def)
  then show body: "body = sent_to q s ! s_taken s q"
    using rest by (metis hd_drop_conv_nth list.sel(1) waiting_def)
  have "body \<in> set (sent_to q s)" using body less by simp
  then show "(q, body) \<in> set (s_log s)" by (auto simp: sent_to_def)
  show "waiting q s = body # waiting q s1"
  proof -
    have "sent_to q s1 = sent_to q s" by (simp add: s1 sent_to_def)
    then have "waiting q s1 = drop (Suc (s_taken s q)) (sent_to q s)"
      by (simp add: waiting_def s1)
    then show ?thesis using body less by (simp add: waiting_def Cons_nth_drop_Suc)
  qed
qed

lemma sent_to_grows: "grows s t \<Longrightarrow> \<exists>ms. sent_to q t = sent_to q s @ ms"
  by (auto simp: grows_def sent_to_def)

end
