(* ===== verification/Coroutines.thy ===== *)
theory Coroutines
  imports System
begin

text \<open>
  Coroutines: a handler as asyncio runs it. Between two \<open>await\<close>s a coroutine is one action on the
  shared state; at an \<open>await\<close> every other task may act. A coroutine is its result, or an action
  with the coroutine that follows it, or a call that never returns. \<open>run_co\<close> runs one alone, and
  \<open>rely_guarantee\<close> is the interface for proofs about many: a relation that every action of every
  task keeps, and an invariant of the state between two actions.
\<close>

section \<open>Coroutines\<close>

datatype ('s, 'a) coro =
    Done "'a res"
  | Await "'s \<Rightarrow> 's" "'s \<Rightarrow> ('s, 'a) coro"
  | Hang

primrec bind_co :: "('s, 'a) coro \<Rightarrow> ('a \<Rightarrow> ('s, 'b) coro) \<Rightarrow> ('s, 'b) coro" where
  "bind_co (Done r) f = (case r of Inl e \<Rightarrow> Done (Inl e) | Inr x \<Rightarrow> f x)"
| "bind_co (Await a k) f = Await a (\<lambda>s. bind_co (k s) f)"
| "bind_co Hang f = Hang"

definition seq_co :: "('s, 'a) coro \<Rightarrow> ('s, 'b) coro \<Rightarrow> ('s, 'b) coro" where
  "seq_co c d = bind_co c (\<lambda>_. d)"

lemma bind_co_assoc: "bind_co (bind_co c f) g = bind_co c (\<lambda>x. bind_co (f x) g)"
  by (induction c) (simp_all split: sum.split)

text \<open>\<open>try: c; except Exception: h\<close>\<close>

primrec catch_co :: "('s, 'a) coro \<Rightarrow> (py_exc \<Rightarrow> ('s, 'a) coro) \<Rightarrow> ('s, 'a) coro" where
  "catch_co (Done r) h = (case r of Inl e \<Rightarrow> h e | Inr x \<Rightarrow> Done (Inr x))"
| "catch_co (Await a k) h = Await a (\<lambda>s. catch_co (k s) h)"
| "catch_co Hang h = Hang"

text \<open>One awaited operation: a program of \<open>System\<close> run as a single action.\<close>

definition act :: "('s \<Rightarrow> 'a res \<times> 's) \<Rightarrow> ('s, 'a) coro" where
  "act m = Await (\<lambda>s. snd (m s)) (\<lambda>s. Done (fst (m s)))"

text \<open>One that may never return: \<open>None\<close> leaves the state to the others and the task hangs.\<close>

definition act_opt :: "('s \<Rightarrow> ('a res \<times> 's) option) \<Rightarrow> ('s, 'a) coro" where
  "act_opt m = Await (\<lambda>s. case m s of None \<Rightarrow> s | Some (r, t) \<Rightarrow> t)
     (\<lambda>s. case m s of None \<Rightarrow> Hang | Some (r, t) \<Rightarrow> Done r)"

section \<open>A coroutine that runs alone\<close>

primrec run_co :: "('s, 'a) coro \<Rightarrow> 's \<Rightarrow> ('a res \<times> 's) option" where
  "run_co (Done r) s = Some (r, s)"
| "run_co (Await a k) s = run_co (k s) (a s)"
| "run_co Hang s = None"

named_theorems run_simps \<open>running a coroutine alone\<close>

lemma run_act [run_simps]: "run_co (act m) s = Some (m s)"
  by (simp add: act_def)

lemma run_act_opt [run_simps]: "run_co (act_opt m) s = m s"
  by (cases "m s") (auto simp: act_opt_def)

lemma run_bind_co:
  "run_co (bind_co c f) s =
     (case run_co c s of
        None \<Rightarrow> None
      | Some (Inl e, t) \<Rightarrow> Some (Inl e, t)
      | Some (Inr x, t) \<Rightarrow> run_co (f x) t)"
  by (induction c arbitrary: s) (simp_all split: sum.split)

lemma run_catch_co:
  "run_co (catch_co c h) s =
     (case run_co c s of
        None \<Rightarrow> None
      | Some (Inl e, t) \<Rightarrow> run_co (h e) t
      | Some (Inr x, t) \<Rightarrow> Some (Inr x, t))"
  by (induction c arbitrary: s) (simp_all split: sum.split)

text \<open>The programs of \<open>System\<close> are coroutines that always return.\<close>

definition implements :: "('w sys, 'a) coro \<Rightarrow> ('w, 'a) prog \<Rightarrow> bool" where
  "implements c m \<longleftrightarrow> (\<forall>s. run_co c s = Some (m s))"

named_theorems implements_intros \<open>coroutines that implement programs\<close>

lemma implements_act [implements_intros]: "implements (act m) m"
  by (simp add: implements_def run_act)

lemma implements_ret [implements_intros]: "implements (Done (Inr x)) (ret x)"
  by (simp add: implements_def ret_def)

lemma implements_raise [implements_intros]: "implements (Done (Inl e)) (raise e)"
  by (simp add: implements_def raise_def)

lemma implements_lift_res [implements_intros]: "implements (Done r) (lift_res r)"
  by (simp add: implements_def lift_res_def)

lemma implements_bind_co [implements_intros]:
  "implements c m \<Longrightarrow> (\<And>x. implements (f x) (g x)) \<Longrightarrow> implements (bind_co c f) (bindP m g)"
  by (simp add: implements_def run_bind_co bindP_def split: prod.split sum.split)

lemma implements_seq_co [implements_intros]:
  "implements c m \<Longrightarrow> implements d n \<Longrightarrow> implements (seq_co c d) (seqP m n)"
  unfolding seq_co_def seqP_def by (rule implements_bind_co)

lemma implements_catch_co [implements_intros]:
  "implements c m \<Longrightarrow> (\<And>e. implements (h e) (g e)) \<Longrightarrow> implements (catch_co c h) (catch m g)"
  by (simp add: implements_def run_catch_co catch_def split: prod.split sum.split)

section \<open>Several coroutines on one state\<close>

inductive co_step :: "'s \<times> ('s, 'a) coro list \<Rightarrow> 's \<times> ('s, 'a) coro list \<Rightarrow> bool" where
  "co_step (s, ts @ Await a k # us) (a s, ts @ k s # us)"

text \<open>One interleaving: the numbers of the tasks in the order of their actions.\<close>

fun interleave :: "nat list \<Rightarrow> 's \<times> ('s, 'a) coro list \<Rightarrow> ('s \<times> ('s, 'a) coro list) option" where
  "interleave [] x = Some x"
| "interleave (i # is) (s, cs) =
     (if i < length cs then
        (case cs ! i of
           Await a k \<Rightarrow> interleave is (a s, cs[i := k s])
         | _ \<Rightarrow> None)
      else None)"

lemma interleave_steps: "interleave is x = Some y \<Longrightarrow> co_step\<^sup>*\<^sup>* x y"
proof (induction "is" x rule: interleave.induct)
  case (2 i "is" s cs)
  then obtain a k where i: "i < length cs" "cs ! i = Await a k"
    by (auto split: if_splits coro.splits)
  with 2 have "co_step\<^sup>*\<^sup>* (a s, cs[i := k s]) y" by simp
  moreover have "co_step (s, cs) (a s, cs[i := k s])"
  proof -
    have "cs = take i cs @ Await a k # drop (Suc i) cs" using id_take_nth_drop [OF i(1)] i(2) by simp
    moreover have "cs[i := k s] = take i cs @ k s # drop (Suc i) cs" by (rule upd_conv_take_nth_drop [OF i(1)])
    ultimately show ?thesis using co_step.intros [of s "take i cs" a k "drop (Suc i) cs"] by metis
  qed
  ultimately show ?case by (rule converse_rtranclp_into_rtranclp [rotated])
qed simp

section \<open>A coroutine among others\<close>

text \<open>
  \<open>guar R I Q c s\<close>: from the state \<open>s\<close> on, whatever the other tasks do within \<open>R\<close> and \<open>I\<close>,
  every action of \<open>c\<close> stays within them, and its result satisfies \<open>Q\<close>.
\<close>

primrec guar ::
  "('s \<Rightarrow> 's \<Rightarrow> bool) \<Rightarrow> ('s \<Rightarrow> bool) \<Rightarrow> ('a res \<Rightarrow> 's \<Rightarrow> bool) \<Rightarrow> ('s, 'a) coro \<Rightarrow> 's \<Rightarrow> bool"
where
  "guar R I Q (Done r) = (\<lambda>s. \<forall>t. R s t \<longrightarrow> I t \<longrightarrow> Q r t)"
| "guar R I Q (Await a k) = (\<lambda>s. \<forall>t. R s t \<longrightarrow> I t \<longrightarrow> R t (a t) \<and> I (a t) \<and> guar R I Q (k t) (a t))"
| "guar R I Q Hang = (\<lambda>s. True)"

locale rely_guarantee =
  fixes R :: "'s \<Rightarrow> 's \<Rightarrow> bool" and I :: "'s \<Rightarrow> bool"
  assumes rely_refl: "R s s" and rely_trans: "R s t \<Longrightarrow> R t u \<Longrightarrow> R s u"
begin

text \<open>What the others do does not take it back.\<close>

lemma guar_stable: "guar R I Q c s \<Longrightarrow> R s t \<Longrightarrow> guar R I Q c t"
  using rely_trans by (cases c) fastforce+

lemma guar_done: "(\<And>t. R s t \<Longrightarrow> I t \<Longrightarrow> Q r t) \<Longrightarrow> guar R I Q (Done r) s"
  by simp

lemma guar_doneD: "guar R I Q (Done r) s \<Longrightarrow> I s \<Longrightarrow> Q r s"
  using rely_refl by simp

lemma guar_awaitD:
  "guar R I Q (Await a k) s \<Longrightarrow> I s \<Longrightarrow> R s (a s) \<and> I (a s) \<and> guar R I Q (k s) (a s)"
  using rely_refl by simp

lemma guar_mono: "guar R I Q c s \<Longrightarrow> (\<And>r t. Q r t \<Longrightarrow> Q' r t) \<Longrightarrow> guar R I Q' c s"
  by (induction c arbitrary: s) auto

lemma guar_stable_fact:
  assumes "guar R I Q c s" and "P s" and "\<And>t u. P t \<Longrightarrow> R t u \<Longrightarrow> P u"
  shows "guar R I (\<lambda>r t. Q r t \<and> P t) c s"
  using assms(1,2)
proof (induction c arbitrary: s)
  case (Await a k)
  show ?case
    unfolding guar.simps
  proof (intro allI impI)
    fix t assume t: "R s t" "I t"
    with Await.prems have step: "R t (a t)" "I (a t)" "guar R I Q (k t) (a t)" by auto
    have "P (a t)" using assms(3) [OF assms(3) [OF Await.prems(2) t(1)] step(1)] .
    with step show "R t (a t) \<and> I (a t) \<and> guar R I (\<lambda>r t. Q r t \<and> P t) (k t) (a t)"
      using Await.IH [of "k t" "a t"] by simp
  qed
qed (use assms(3) in auto)

lemma guar_act:
  assumes "\<And>t r u. R s t \<Longrightarrow> I t \<Longrightarrow> m t = (r, u) \<Longrightarrow> R t u \<and> I u \<and> (\<forall>v. R u v \<longrightarrow> I v \<longrightarrow> Q r v)"
  shows "guar R I Q (act m) s"
  using assms by (auto simp: act_def) (metis prod.collapse)+

lemma guar_act_opt:
  assumes "\<And>t r u. R s t \<Longrightarrow> I t \<Longrightarrow> m t = Some (r, u) \<Longrightarrow> R t u \<and> I u \<and> (\<forall>v. R u v \<longrightarrow> I v \<longrightarrow> Q r v)"
  shows "guar R I Q (act_opt m) s"
  unfolding act_opt_def guar.simps
proof (intro allI impI)
  fix t assume t: "R s t" "I t"
  show "R t (case m t of None \<Rightarrow> t | Some (r, u) \<Rightarrow> u) \<and> I (case m t of None \<Rightarrow> t | Some (r, u) \<Rightarrow> u) \<and>
      guar R I Q (case m t of None \<Rightarrow> Hang | Some (r, u) \<Rightarrow> Done r) (case m t of None \<Rightarrow> t | Some (r, u) \<Rightarrow> u)"
    using assms [OF t] t rely_refl by (cases "m t") auto
qed

text \<open>Sequencing: the rest is judged in the state the first part returns in.\<close>

lemma guar_bind_co:
  assumes "guar R I (\<lambda>r t. case r of Inl e \<Rightarrow> Q (Inl e) t | Inr x \<Rightarrow> guar R I Q (f x) t) c s" and "I s"
  shows "guar R I Q (bind_co c f) s"
  using assms
proof (induction c arbitrary: s)
  case (Done r)
  then have "case r of Inl e \<Rightarrow> True | Inr x \<Rightarrow> guar R I Q (f x) s"
    using rely_refl by (auto split: sum.split)
  with Done show ?case by (auto split: sum.splits)
qed auto

lemma guar_seq_co:
  assumes "guar R I (\<lambda>r t. case r of Inl e \<Rightarrow> Q (Inl e) t | Inr x \<Rightarrow> guar R I Q d t) c s" and "I s"
  shows "guar R I Q (seq_co c d) s"
  unfolding seq_co_def by (rule guar_bind_co [OF assms])

lemma guar_catch_co:
  assumes "guar R I (\<lambda>r t. case r of Inl e \<Rightarrow> guar R I Q (h e) t | Inr x \<Rightarrow> Q (Inr x) t) c s" and "I s"
  shows "guar R I Q (catch_co c h) s"
  using assms
proof (induction c arbitrary: s)
  case (Done r)
  then have "case r of Inl e \<Rightarrow> guar R I Q (h e) s | Inr x \<Rightarrow> True"
    using rely_refl by (auto split: sum.split)
  with Done show ?case by (auto split: sum.splits)
qed auto

end

text \<open>An action and what follows it, where a failure ends the coroutine.\<close>

context rely_guarantee
begin

lemma guar_bind_act:
  assumes "I s" and fail: "\<And>e v. Q (Inl e) v"
    and step: "\<And>t r u. R s t \<Longrightarrow> I t \<Longrightarrow> m t = (r, u) \<Longrightarrow> R t u \<and> I u"
    and rest: "\<And>t x u v. R s t \<Longrightarrow> I t \<Longrightarrow> m t = (Inr x, u) \<Longrightarrow> R u v \<Longrightarrow> I v \<Longrightarrow> guar R I Q (f x) v"
  shows "guar R I Q (bind_co (act m) f) s"
proof (rule guar_bind_co [OF guar_act assms(1)])
  fix t r u
  assume t: "R s t" "I t" "m t = (r, u)"
  then show "R t u \<and> I u \<and> (\<forall>v. R u v \<longrightarrow> I v \<longrightarrow>
      (case r of Inl e \<Rightarrow> Q (Inl e) v | Inr x \<Rightarrow> guar R I Q (f x) v))"
    using step [OF t] rest [OF t(1,2)] fail by (cases r) auto
qed

lemma guar_bind_act_opt:
  assumes "I s" and fail: "\<And>e v. Q (Inl e) v"
    and step: "\<And>t r u. R s t \<Longrightarrow> I t \<Longrightarrow> m t = Some (r, u) \<Longrightarrow> R t u \<and> I u"
    and rest: "\<And>t x u v. R s t \<Longrightarrow> I t \<Longrightarrow> m t = Some (Inr x, u) \<Longrightarrow> R u v \<Longrightarrow> I v \<Longrightarrow> guar R I Q (f x) v"
  shows "guar R I Q (bind_co (act_opt m) f) s"
proof (rule guar_bind_co [OF guar_act_opt assms(1)])
  fix t r u
  assume t: "R s t" "I t" "m t = Some (r, u)"
  then show "R t u \<and> I u \<and> (\<forall>v. R u v \<longrightarrow> I v \<longrightarrow>
      (case r of Inl e \<Rightarrow> Q (Inl e) v | Inr x \<Rightarrow> guar R I Q (f x) v))"
    using step [OF t] rest [OF t(1,2)] fail by (cases r) auto
qed

lemmas guar_seq_act = guar_bind_act [where f = "\<lambda>_. d" for d, folded seq_co_def]
lemmas guar_seq_act_opt = guar_bind_act_opt [where f = "\<lambda>_. d" for d, folded seq_co_def]

end

text \<open>The relation the services keep: bots and their readiness stay, and the log only grows.\<close>

definition rely :: "'w sys \<Rightarrow> 'w sys \<Rightarrow> bool" where
  "rely s t \<longleftrightarrow> (\<exists>ms. s_log t = s_log s @ ms) \<and>
     bot_ids (s_db s) \<subseteq> bot_ids (s_db t) \<and> ready_ids (s_db s) \<subseteq> ready_ids (s_db t)"

lemma rely_refl: "rely s s"
  by (simp add: rely_def)

lemma rely_trans: "rely s t \<Longrightarrow> rely t u \<Longrightarrow> rely s u"
  unfolding rely_def by (elim conjE exE) (intro conjI, auto)

lemma grows_rely: "grows s t \<Longrightarrow> rely s t"
  by (simp add: grows_def rely_def)

end
