(* ===== verification/Transition.thy ===== *)
theory Transition
  imports Main
begin

text \<open>
  Transition systems with an invariant, the interface every step relation of the development is an
  instance of: what the initial states satisfy and every step keeps holds in every reachable state.
\<close>

locale transition_system =
  fixes initial :: "'s \<Rightarrow> bool" and step :: "'s \<Rightarrow> 's \<Rightarrow> bool" and inv :: "'s \<Rightarrow> bool"
  assumes initial_inv: "initial s \<Longrightarrow> inv s"
    and step_inv: "inv s \<Longrightarrow> step s t \<Longrightarrow> inv t"
begin

definition reachable :: "'s \<Rightarrow> bool" where
  "reachable s \<longleftrightarrow> (\<exists>s0. initial s0 \<and> step\<^sup>*\<^sup>* s0 s)"

lemma steps_inv: "step\<^sup>*\<^sup>* s t \<Longrightarrow> inv s \<Longrightarrow> inv t"
  by (induction rule: rtranclp_induct) (auto intro: step_inv)

lemma reachable_inv: "reachable s \<Longrightarrow> inv s"
  unfolding reachable_def using steps_inv initial_inv by blast

lemma reachable_initial: "initial s \<Longrightarrow> reachable s"
  unfolding reachable_def by blast

lemma reachable_step: "reachable s \<Longrightarrow> step s t \<Longrightarrow> reachable t"
  unfolding reachable_def by (meson rtranclp.rtrancl_into_rtrancl)

lemma reachable_induct:
  assumes "reachable s" and "\<And>s. initial s \<Longrightarrow> P s"
    and "\<And>s t. inv s \<Longrightarrow> P s \<Longrightarrow> step s t \<Longrightarrow> P t"
  shows "P s"
proof -
  obtain s0 where s0: "initial s0" and steps: "step\<^sup>*\<^sup>* s0 s"
    using assms(1) by (auto simp: reachable_def)
  from steps have "inv s \<and> P s"
  proof (induction rule: rtranclp_induct)
    case base
    then show ?case using s0 initial_inv assms(2) by blast
  next
    case (step y z)
    then show ?case using step_inv assms(3) by blast
  qed
  then show ?thesis ..
qed

end

end
