(* ===== verification/Submit.thy ===== *)
theory Submit
  imports System
begin

text \<open>
  \<open>web/submit.py\<close>: the submission of a bot, from the uploaded bytes to the response page with
  its ownership cookie. \<open>ast.parse\<close> and the clock are arguments; the page is the message it
  shows and the cookie it sets.
\<close>

section \<open>Validation\<close>

definition NAME_MISSING :: string where
  "NAME_MISSING = ''Your bot must start with a docstring containing '' @ [CHR 0x27] @
     ''name: <name>'' @ [CHR 0x27] @ ''.''"

definition name_reserved :: "string \<Rightarrow> string" where
  "name_reserved bot_name =
     ''Bot name '' @ [CHR 0x27] @ bot_name @ [CHR 0x27] @ '' ends in '' @ [CHR 0x27] @ ''V<digits>'' @
     [CHR 0x27] @ '', which is reserved for auto-versioning. Pick a different name.''"

definition validate_bot_name :: "string option \<Rightarrow> string option" where
  "validate_bot_name bot_name =
     (case bot_name of
        None \<Rightarrow> Some NAME_MISSING
      | Some n \<Rightarrow>
          if n = [] then Some NAME_MISSING
          else if reserved_version_suffix n then Some (name_reserved n)
          else None)"

definition RUNTIME_INVALID :: string where
  "RUNTIME_INVALID = ''Invalid runtime in docstring. Use '' @ [CHR 0x27] @ ''language: python-3.13'' @
     [CHR 0x27] @ '' or '' @ [CHR 0x27] @ ''python: 3.13'' @ [CHR 0x27] @ ''.''"

definition validate_runtime_key :: "string option \<Rightarrow> string option" where
  "validate_runtime_key key = (if key = None then Some RUNTIME_INVALID else None)"

section \<open>Ownership and persistence\<close>

definition name_taken :: "string \<Rightarrow> string" where
  "name_taken bot_name = [CHR 0x27] @ bot_name @ [CHR 0x27] @ '' is already taken by someone else.''"

text \<open>\<open>(owner_token, error)\<close>\<close>

definition resolve_owner_token ::
  "'w outside \<Rightarrow> string \<Rightarrow> json \<Rightarrow> ('w, string option \<times> string option) prog"
where
  "resolve_owner_token W bot_name owned =
     bindP (db_query (owner_token bot_name)) (\<lambda>existing.
       case existing of
         Some token \<Rightarrow>
           if token \<noteq> [] then
             bindP (lift_res (json_get owned bot_name)) (\<lambda>mine.
               if mine \<noteq> JStr token then ret (None, Some (name_taken bot_name))
               else ret (Some token, None))
           else bindP (token_hex W 32) (\<lambda>t. ret (Some t, None))
       | None \<Rightarrow> bindP (token_hex W 32) (\<lambda>t. ret (Some t, None)))"

definition persist_bot ::
  "'w outside \<Rightarrow> string \<Rightarrow> string \<Rightarrow> string \<Rightarrow> string \<Rightarrow> ('w, string \<times> int) prog"
where
  "persist_bot W bot_name token key source_bytes s =
     bindP (db_read (next_version bot_name)) (\<lambda>version.
       (let name = versioned_name bot_name version
        in bindP (db_write (create_bot bot_name name version token
                     (python_version_from_runtime_key key) key (Some source_bytes)
                     (o_now W (s_world s))))
             (\<lambda>b. ret (name, b_id b)))) s"

section \<open>The response\<close>

record SubmitPage =
  sp_error :: "string option"
  sp_success :: "string option"
  sp_cookie :: "(string \<times> string) option"

definition error_page :: "string \<Rightarrow> SubmitPage" where
  "error_page err = \<lparr>sp_error = Some err, sp_success = None, sp_cookie = None\<rparr>"

text \<open>\<open>owned[name] = token\<close>; a value that is not a dict does not support it.\<close>

definition json_set :: "json \<Rightarrow> string \<Rightarrow> json \<Rightarrow> json res" where
  "json_set v k x = (case v of JObj kvs \<Rightarrow> Inr (JObj (AList.update k x kvs)) | _ \<Rightarrow> Inl TypeError)"

definition submitted :: "string \<Rightarrow> string" where
  "submitted name = [CHR 0x27] @ name @ [CHR 0x27] @ '' submitted successfully!''"

definition success_response :: "string \<Rightarrow> json \<Rightarrow> string \<Rightarrow> string \<Rightarrow> SubmitPage res" where
  "success_response name owned token bot_name =
     bindE (json_set owned bot_name (JStr token)) (\<lambda>owned'.
       Inr \<lparr>sp_error = None, sp_success = Some (submitted name),
            sp_cookie = Some (''ttt_owned_bots'', encode_cookie owned')\<rparr>)"

section \<open>The handler\<close>

text \<open>From the runtime key on: ownership, the new row, the build message, the event.\<close>

definition submit_bot ::
  "'w outside \<Rightarrow> string \<Rightarrow> string \<Rightarrow> string \<Rightarrow> json \<Rightarrow> ('w, SubmitPage) prog"
where
  "submit_bot W bot_name key source_bytes owned =
     bindP (resolve_owner_token W bot_name owned) (\<lambda>resolved.
       case resolved of
         (_, Some err) \<Rightarrow> ret (error_page err)
       | (None, None) \<Rightarrow> raise (OtherError ''AssertionError'')
       | (Some token, None) \<Rightarrow>
           bindP (persist_bot W bot_name token key source_bytes) (\<lambda>(name, new_bot_id).
           seqP (enqueue_build_pod W \<lparr>bp_bot_id = new_bot_id, bp_runtime_key = key\<rparr>)
          (seqP (publish_event W EVENT_BOT_UPLOADED [(''versioned_name'', JStr name)])
                (lift_res (success_response name owned token bot_name)))))"

definition handle_submission ::
  "'w outside \<Rightarrow> ast_parser \<Rightarrow> string \<Rightarrow> string option \<Rightarrow> ('w, SubmitPage) prog"
where
  "handle_submission W ast_parse source_bytes cookie =
     (let source = utf8_decode source_bytes
      in bindP (lift_res (extract_bot_name ast_parse source)) (\<lambda>bot_name.
         case validate_bot_name bot_name of
           Some err \<Rightarrow> ret (error_page err)
         | None \<Rightarrow>
             bindP (lift_res (extract_runtime_key ast_parse source)) (\<lambda>runtime_key.
               case validate_runtime_key runtime_key of
                 Some err \<Rightarrow> ret (error_page err)
               | None \<Rightarrow>
                   (case (bot_name, runtime_key) of
                      (Some n, Some key) \<Rightarrow> submit_bot W n key source_bytes (parse_cookie cookie)
                    | _ \<Rightarrow> raise (OtherError ''AssertionError'')))))"

section \<open>What a submission does\<close>

lemma pg_text_runtime:
  assumes "is_runtime k"
  shows "pg_text k \<and> pg_text (python_version_from_runtime_key k) \<and> k \<noteq> []"
proof -
  have "k \<in> set (map fst RUNTIMES)"
    using assms by (force simp: is_runtime_def map_of_eq_None_iff)
  moreover have "list_all (\<lambda>k. pg_text k \<and> pg_text (python_version_from_runtime_key k) \<and> k \<noteq> []) (map fst RUNTIMES)"
    by code_simp
  ultimately show ?thesis unfolding list_all_iff by blast
qed

lemma pg_text_versioned: "pg_text n \<Longrightarrow> pg_text (versioned_name n v)"
proof -
  have "CHR 0x00 \<notin> set (nat_str k)" for k using nat_str_digits by (auto simp: is_digit_def)
  then show "pg_text n \<Longrightarrow> pg_text (versioned_name n v)"
    by (auto simp: versioned_name_def pg_text_def int_str_def)
qed

lemma validate_bot_name_None:
  "validate_bot_name n = None \<Longrightarrow> \<exists>m. n = Some m \<and> m \<noteq> [] \<and> \<not> reserved_version_suffix m"
  by (auto simp: validate_bot_name_def split: option.splits if_splits)

lemma is_runtime_default: "is_runtime DEFAULT_RUNTIME_KEY"
  by (simp add: is_runtime_def RUNTIMES_def DEFAULT_RUNTIME_KEY_def)

lemma extract_runtime_key_runtime:
  assumes "extract_runtime_key p src = Inr (Some k)"
  shows "is_runtime k"
proof -
  obtain d where d: "docstring_of p src = Inr d"
    using assms by (cases "docstring_of p src") (auto simp: extract_runtime_key_def)
  obtain doc where doc: "d = Some doc"
    using assms d by (cases d) (auto simp: extract_runtime_key_def)
  obtain l v where lv: "find_runtime_fields (splitlines doc) None None = (l, v)" by force
  show ?thesis
    using assms is_runtime_default
    by (cases l; cases v) (simp_all add: extract_runtime_key_def d doc lv Let_def split: if_splits)
qed

text \<open>A bot is only added to a family nobody owns, or under the family's own token.\<close>

lemma resolve_owner_token_cases:
  assumes "resolve_owner_token W n owned s = (Inr (t, err), s1)"
  obtains (taken) tok where "owner_token n (s_db s) = Inr (Some tok)" "tok \<noteq> []" "t = None"
      "err = Some (name_taken n)" "s1 = s" "json_get owned n \<noteq> Inr (JStr tok)"
  | (mine) tok where "owner_token n (s_db s) = Inr (Some tok)" "t = Some tok" "err = None"
      "json_get owned n = Inr (JStr tok)" "s1 = s"
  | (fresh) "owner_token n (s_db s) \<in> {Inr None, Inr (Some [])}" "t = Some (o_token_hex W 32 (s_drawn s))"
      "err = None" "s1 = s\<lparr>s_drawn := s_drawn s + 1\<rparr>"
proof -
  obtain existing where e: "owner_token n (s_db s) = Inr existing"
    using assms by (cases "owner_token n (s_db s)") (auto simp: resolve_owner_token_def prog_simps)
  show ?thesis
  proof (cases "existing = None \<or> existing = Some []")
    case True
    with assms e show ?thesis
      by (auto simp: resolve_owner_token_def prog_simps intro: fresh)
  next
    case False
    then obtain tok where tok: "existing = Some tok" "tok \<noteq> []" by auto
    with assms e show ?thesis
      by (cases "json_get owned n")
        (auto simp: resolve_owner_token_def prog_simps split: if_splits intro: taken mine)
  qed
qed

text \<open>
  A successful insertion: the row, its version and its name.
\<close>

lemma persist_bot_Inr:
  assumes "persist_bot W n tok key src s = (Inr (name, i), s1)"
  obtains b where "name = versioned_name n (next_version n (s_db s))" "i = b_id b"
    "b = \<lparr>b_id = bots_seq (s_db s), b_base_name = n, b_versioned_name = name,
          b_version = next_version n (s_db s), b_owner_token = tok, b_source = Some src,
          b_python_version = python_version_from_runtime_key key, b_runtime_key = key,
          b_pod_name = None, b_pod_ready = False, b_submitted_at = o_now W (s_world s)\<rparr>"
    "s1 = s\<lparr>s_db := (s_db s)\<lparr>bots := bots (s_db s) @ [b], bots_seq := bots_seq (s_db s) + 1\<rparr>\<rparr>"
  using assms by (auto simp: persist_bot_def create_bot_def prog_simps split: if_splits intro: that)

lemma persist_bot_db:
  assumes "persist_bot W n tok key src s = (r, s1)" and "db_ok (s_db s)" and "names_ok (s_db s)"
    and "\<not> reserved_version_suffix n"
  shows "db_ok (s_db s1)" and "names_ok (s_db s1)" and "s_log s1 = s_log s"
proof -
  obtain c d where c: "create_bot n (versioned_name n (next_version n (s_db s))) (next_version n (s_db s))
      tok (python_version_from_runtime_key key) key (Some src) (o_now W (s_world s)) (s_db s) = (c, d)"
    by force
  with assms(1) have s1: "s1 = s\<lparr>s_db := d\<rparr>"
    by (cases c) (auto simp: persist_bot_def prog_simps)
  have d: "d = snd (create_bot n (versioned_name n (next_version n (s_db s))) (next_version n (s_db s))
      tok (python_version_from_runtime_key key) key (Some src) (o_now W (s_world s)) (s_db s))"
    by (simp only: c snd_conv)
  have "db_ok d" unfolding d using create_bot_ok [OF assms(2)] .
  moreover have "names_ok d" unfolding d
    by (rule create_bot_names_ok [OF assms(3) refl next_version_positive [OF assms(3)] assms(4)])
  ultimately show "db_ok (s_db s1)" "names_ok (s_db s1)" using s1 by simp_all
  show "s_log s1 = s_log s" using s1 by simp
qed

text \<open>
  What a submission leaves behind: nothing; or a failed insertion; or a new row of the family,
  with or without its build message.
\<close>

lemma resolve_owner_token_state:
  assumes "resolve_owner_token W n owned s = (r, s1)"
  shows "s_db s1 = s_db s \<and> s_log s1 = s_log s \<and> s_world s1 = s_world s \<and> s_events s1 = s_events s
    \<and> s_tried s1 = s_tried s \<and> s_taken s1 = s_taken s"
  using assms
  by (auto simp: resolve_owner_token_def prog_simps split: prod.splits sum.splits option.splits if_splits)

definition insert_version :: "'w outside \<Rightarrow> string \<Rightarrow> string \<Rightarrow> string \<Rightarrow> string \<Rightarrow> 'w sys \<Rightarrow> Bot res \<times> db" where
  "insert_version W n tok key src s =
     create_bot n (versioned_name n (next_version n (s_db s))) (next_version n (s_db s)) tok
       (python_version_from_runtime_key key) key (Some src) (o_now W (s_world s)) (s_db s)"

lemma persist_bot_eq:
  "persist_bot W n tok key src s =
     (case insert_version W n tok key src s of
        (Inl e, d) \<Rightarrow> (Inl e, s\<lparr>s_db := d\<rparr>)
      | (Inr b, d) \<Rightarrow> (Inr (versioned_name n (next_version n (s_db s)), b_id b), s\<lparr>s_db := d\<rparr>))"
  by (simp add: persist_bot_def insert_version_def prog_simps split: prod.split sum.split)

lemma submit_bot_cases:
  assumes "submit_bot W n key src owned s = (r, s1)"
  obtains (nothing) "s_db s1 = s_db s" "s_log s1 = s_log s"
  | (failed) s0 tok e d where "s_db s0 = s_db s" "s_world s0 = s_world s"
      "insert_version W n tok key src s0 = (Inl e, d)" "s_db s1 = d" "s_log s1 = s_log s"
  | (inserted) s0 tok b d ms where "s_db s0 = s_db s" "s_world s0 = s_world s"
      "insert_version W n tok key src s0 = (Inr b, d)" "s_db s1 = d"
      "ms = [] \<or> ms = [(BUILD_POD_QUEUE, dump_build (o_pydantic W) \<lparr>bp_bot_id = b_id b, bp_runtime_key = key\<rparr>)]"
      "s_log s1 = s_log s @ ms" "o_broker W = (\<lambda>_. None) \<longrightarrow> ms \<noteq> []"
proof -
  obtain rr s0 where rr: "resolve_owner_token W n owned s = (rr, s0)" by force
  note s0 = resolve_owner_token_state [OF rr]
  consider (owner) tok where "rr = Inr (Some tok, None)" | (stop) "s1 = s0"
    using assms rr
    by (auto simp: submit_bot_def bindP_def ret_def raise_def split: sum.splits option.splits prod.splits)
  then show ?thesis
  proof cases
    case (owner tok)
    obtain c d where c: "insert_version W n tok key src s0 = (c, d)" by force
    show ?thesis
    proof (cases c)
      case (Inl e)
      have "s1 = s0\<lparr>s_db := d\<rparr>"
        using assms rr owner c Inl by (simp add: submit_bot_def bindP_def persist_bot_eq)
      with s0 c Inl show ?thesis by (intro failed [of s0 tok e d]) simp_all
    next
      case (Inr b)
      let ?msg = "\<lparr>bp_bot_id = b_id b, bp_runtime_key = key\<rparr>"
      let ?name = "versioned_name n (next_version n (s_db s0))"
      let ?rest = "seqP (enqueue_build_pod W ?msg)
          (seqP (publish_event W EVENT_BOT_UPLOADED [(''versioned_name'', JStr ?name)])
                (lift_res (success_response ?name owned tok n)))"
      have run: "?rest (s0\<lparr>s_db := d\<rparr>) = (r, s1)"
        using assms rr owner c Inr by (simp add: submit_bot_def bindP_def persist_bot_eq)
      have "s_db s1 = d \<and> (\<exists>ms. s_log s1 = s_log s0 @ ms \<and>
          (ms = [] \<or> ms = [(BUILD_POD_QUEUE, dump_build (o_pydantic W) ?msg)]) \<and>
          (o_broker W = (\<lambda>_. None) \<longrightarrow> ms \<noteq> []))"
        using run by (auto simp: enqueue_build_pod_def publish_event_def prog_simps split: option.splits)
      then obtain ms where "s_db s1 = d" "s_log s1 = s_log s0 @ ms"
        "ms = [] \<or> ms = [(BUILD_POD_QUEUE, dump_build (o_pydantic W) ?msg)]" "o_broker W = (\<lambda>_. None) \<longrightarrow> ms \<noteq> []"
        by blast
      with s0 c Inr show ?thesis by (intro inserted [of s0 tok b d ms]) simp_all
    qed
  next
    case stop
    with s0 have "s_db s1 = s_db s" "s_log s1 = s_log s" by simp_all
    then show ?thesis by (rule nothing)
  qed
qed

lemma handle_submission_cases:
  assumes "handle_submission W p src cookie s = (r, s1)"
  obtains (rejected) "s1 = s" "\<forall>page. r = Inr page \<longrightarrow> sp_error page \<noteq> None"
  | (accepted) n key where "n \<noteq> []" "\<not> reserved_version_suffix n" "is_runtime key"
      "extract_bot_name p (utf8_decode src) = Inr (Some n)"
      "submit_bot W n key src (parse_cookie cookie) s = (r, s1)"
proof (cases "extract_bot_name p (utf8_decode src)")
  case (Inl e)
  with assms show ?thesis
    by (intro rejected) (auto simp: handle_submission_def prog_simps)
next
  case (Inr bn)
  show ?thesis
  proof (cases "validate_bot_name bn")
    case (Some err)
    with assms Inr show ?thesis
      by (intro rejected) (auto simp: handle_submission_def error_page_def prog_simps)
  next
    case None
    then obtain n where n: "bn = Some n" "n \<noteq> []" "\<not> reserved_version_suffix n"
      using validate_bot_name_None by blast
    show ?thesis
    proof (cases "extract_runtime_key p (utf8_decode src)")
      case (Inl e)
      with assms Inr None show ?thesis
        by (intro rejected) (auto simp: handle_submission_def prog_simps)
    next
      case rk: (Inr rk)
      show ?thesis
      proof (cases rk)
        case None
        with rk assms Inr \<open>validate_bot_name bn = None\<close> show ?thesis
          by (intro rejected) (auto simp: handle_submission_def prog_simps validate_runtime_key_def
              error_page_def)
      next
        case (Some key)
        with rk assms Inr \<open>validate_bot_name bn = None\<close> n
        have "submit_bot W n key src (parse_cookie cookie) s = (r, s1)"
          by (simp add: handle_submission_def bindP_def lift_res_def Let_def validate_runtime_key_def)
        with n Inr rk Some show ?thesis
          using extract_runtime_key_runtime by (intro accepted [of n key]) simp_all
      qed
    qed
  qed
qed

section \<open>Successful submissions\<close>

lemma submit_bot_success:
  assumes "submit_bot W n key src owned s = (Inr page, t)" and "sp_error page = None"
  obtains tok s0 b d where "resolve_owner_token W n owned s = (Inr (Some tok, None), s0)"
    "insert_version W n tok key src s0 = (Inr b, d)" "s_db t = d"
    "s_log t = s_log s @ [(BUILD_POD_QUEUE, dump_build (o_pydantic W) \<lparr>bp_bot_id = b_id b, bp_runtime_key = key\<rparr>)]"
    "success_response (versioned_name n (next_version n (s_db s))) owned tok n = Inr page"
proof -
  obtain rr s0 where rr: "resolve_owner_token W n owned s = (rr, s0)" by force
  note s0 = resolve_owner_token_state [OF rr]
  obtain tok where tok: "rr = Inr (Some tok, None)"
    using assms rr
    by (auto simp: submit_bot_def bindP_def ret_def raise_def error_page_def
        split: sum.splits option.splits prod.splits)
  obtain c d where c: "insert_version W n tok key src s0 = (c, d)" by force
  obtain b where b: "c = Inr b"
    using assms(1) rr tok c by (cases c) (simp_all add: submit_bot_def bindP_def persist_bot_eq)
  let ?msg = "\<lparr>bp_bot_id = b_id b, bp_runtime_key = key\<rparr>"
  let ?name = "versioned_name n (next_version n (s_db s0))"
  have run: "seqP (enqueue_build_pod W ?msg)
          (seqP (publish_event W EVENT_BOT_UPLOADED [(''versioned_name'', JStr ?name)])
                (lift_res (success_response ?name owned tok n))) (s0\<lparr>s_db := d\<rparr>) = (Inr page, t)"
    using assms(1) rr tok c b by (simp add: submit_bot_def bindP_def persist_bot_eq)
  then have "s_db t = d \<and> s_log t = s_log s0 @ [(BUILD_POD_QUEUE, dump_build (o_pydantic W) ?msg)] \<and>
      success_response ?name owned tok n = Inr page"
    by (auto simp: enqueue_build_pod_def publish_event_def prog_simps split: option.splits)
  with rr tok c b s0 show ?thesis by (intro that [of tok s0 b d]) simp_all
qed

lemma insert_version_Inr:
  assumes "insert_version W n tok key src s = (Inr b, d)"
  shows "bots d = bots (s_db s) @ [b]" and "b_base_name b = n"
    and "b_version b = next_version n (s_db s)"
    and "b_versioned_name b = versioned_name n (next_version n (s_db s))"
    and "b_versioned_name b \<notin> set (map b_versioned_name (bots (s_db s)))"
    and "b_source b = Some src" and "b_owner_token b = tok" and "\<not> b_pod_ready b"
  using assms by (auto simp: insert_version_def create_bot_def Let_def split: if_splits)

lemma owner_token_append:
  "owner_token n (d\<lparr>bots := bots d @ [b]\<rparr>) =
     (case owner_token n d of
        Inr None \<Rightarrow> Inr (if b_base_name b = n then Some (b_owner_token b) else None)
      | r \<Rightarrow> r)"
  by (cases "filter (\<lambda>b. b_base_name b = n) (bots d)") (simp_all add: owner_token_def)

lemma owner_token_bots: "bots d = bots d' \<Longrightarrow> owner_token n d = owner_token n d'"
  by (simp add: owner_token_def)

lemma wf_json_update:
  assumes "wf_json (JObj kvs)"
  shows "wf_json (JObj (AList.update k (JStr x) kvs))"
proof -
  have "kv = (k, JStr x) \<or> kv \<in> set kvs" if "kv \<in> set (AList.update k (JStr x) kvs)" for kv
    using that by (induction kvs) (auto split: if_splits)
  then have "wf_json (snd kv)" if "kv \<in> set (AList.update k (JStr x) kvs)" for kv
    using that assms by fastforce
  with assms show ?thesis by (simp add: distinct_update)
qed

lemma success_response_cookie:
  assumes "success_response name owned tok n = Inr page" and "wf_json owned"
  obtains v where "sp_cookie page = Some (''ttt_owned_bots'', v)"
    and "json_get (parse_cookie (Some v)) n = Inr (JStr tok)"
    and "\<And>k. k \<noteq> n \<Longrightarrow> json_get (parse_cookie (Some v)) k = json_get owned k"
proof -
  obtain kvs where kvs: "owned = JObj kvs"
    using assms(1) by (cases owned) (auto simp: success_response_def json_set_def)
  let ?o = "JObj (AList.update n (JStr tok) kvs)"
  have "wf_json ?o"
    using assms(2) unfolding kvs by (rule wf_json_update)
  then have "parse_cookie (Some (encode_cookie ?o)) = ?o" by (rule parse_encode_cookie)
  moreover have "sp_cookie page = Some (''ttt_owned_bots'', encode_cookie ?o)"
    using assms(1) by (auto simp: success_response_def json_set_def kvs)
  ultimately show ?thesis
    by (intro that [of "encode_cookie ?o"]) (simp_all add: json_get_def kvs update_conv')
qed

section \<open>Properties\<close>

text \<open>C19: nobody adds a version to somebody else's family: when the family has an owner and the
  cookie does not hold the owner's token, the submission changes neither the tables nor the
  queues.\<close>

theorem foreign_submission_changes_nothing:
  assumes "handle_submission W p src cookie s = (r, t)"
    and "extract_bot_name p (utf8_decode src) = Inr (Some n)"
    and "owner_token n (s_db s) = Inr (Some tok)" and "tok \<noteq> []"
    and "json_get (parse_cookie cookie) n \<noteq> Inr (JStr tok)"
  shows "s_db t = s_db s \<and> s_log t = s_log s"
  using assms(1)
proof (cases rule: handle_submission_cases)
  case (accepted m key)
  then have m: "m = n" using assms(2) by simp
  from accepted(5) show ?thesis
  proof -
    obtain rr s0 where rr: "resolve_owner_token W n (parse_cookie cookie) s = (rr, s0)" by force
    have "s1 = s0" if "submit_bot W n key src (parse_cookie cookie) s = (q, s1)" for q s1
      using that rr assms(3-5)
      by (cases "json_get (parse_cookie cookie) n")
        (auto simp: submit_bot_def resolve_owner_token_def prog_simps split: if_splits)
    then have "t = s0" using accepted(5) m by blast
    then show ?thesis using resolve_owner_token_state [OF rr] by simp
  qed
qed simp

text \<open>C20: a successful submission adds exactly one row, the next version of its family under a name
  not yet taken, with the submitted bytes, not ready; and asks for its pod with one message.\<close>

theorem submission_adds_the_next_version:
  assumes "handle_submission W p src cookie s = (Inr page, t)" and "sp_error page = None"
  shows "\<exists>n key b. extract_bot_name p (utf8_decode src) = Inr (Some n) \<and>
    \<not> reserved_version_suffix n \<and> is_runtime key \<and>
    bots (s_db t) = bots (s_db s) @ [b] \<and> b_base_name b = n \<and>
    b_version b = next_version n (s_db s) \<and>
    b_versioned_name b = versioned_name n (b_version b) \<and>
    b_versioned_name b \<notin> set (map b_versioned_name (bots (s_db s))) \<and>
    b_source b = Some src \<and> \<not> b_pod_ready b \<and>
    s_log t = s_log s @
      [(BUILD_POD_QUEUE, dump_build (o_pydantic W) \<lparr>bp_bot_id = b_id b, bp_runtime_key = key\<rparr>)]"
  using assms(1)
proof (cases rule: handle_submission_cases)
  case rejected
  with assms(2) show ?thesis by blast
next
  case (accepted n key)
  from accepted(5) assms(2) show ?thesis
  proof (rule submit_bot_success)
    fix tok s0 b d
    assume "resolve_owner_token W n (parse_cookie cookie) s = (Inr (Some tok, None), s0)"
      and ins: "insert_version W n tok key src s0 = (Inr b, d)" and t: "s_db t = d"
      "s_log t = s_log s @ [(BUILD_POD_QUEUE, dump_build (o_pydantic W) \<lparr>bp_bot_id = b_id b, bp_runtime_key = key\<rparr>)]"
    then have "s_db s0 = s_db s" using resolve_owner_token_state by blast
    with insert_version_Inr [OF ins] accepted t show ?thesis
      by (intro exI [of _ n] exI [of _ key] exI [of _ b]) simp
  qed
qed

text \<open>C21: whoever submitted a bot can submit its next version: the cookie a successful submission
  sets is accepted as proof of ownership in the state it leaves, and still holds every other
  token it held before.\<close>

theorem owner_can_resubmit:
  assumes "handle_submission W p src cookie s = (Inr page, t)" and "sp_error page = None"
    and "wf_json (parse_cookie cookie)"
  shows "\<exists>n v tok t'. extract_bot_name p (utf8_decode src) = Inr (Some n) \<and>
    sp_cookie page = Some (''ttt_owned_bots'', v) \<and>
    resolve_owner_token W n (parse_cookie (Some v)) t = (Inr (Some tok, None), t') \<and>
    (\<forall>k. k \<noteq> n \<longrightarrow> json_get (parse_cookie (Some v)) k = json_get (parse_cookie cookie) k)"
  using assms(1)
proof (cases rule: handle_submission_cases)
  case rejected
  with assms(2) show ?thesis by blast
next
  case (accepted n key)
  from accepted(5) assms(2) show ?thesis
  proof (rule submit_bot_success)
    fix tok s0 b d
    assume res: "resolve_owner_token W n (parse_cookie cookie) s = (Inr (Some tok, None), s0)"
      and ins: "insert_version W n tok key src s0 = (Inr b, d)" and t: "s_db t = d"
      and page: "success_response (versioned_name n (next_version n (s_db s))) (parse_cookie cookie) tok n = Inr page"
    obtain v where v: "sp_cookie page = Some (''ttt_owned_bots'', v)"
      "json_get (parse_cookie (Some v)) n = Inr (JStr tok)"
      "\<And>k. k \<noteq> n \<Longrightarrow> json_get (parse_cookie (Some v)) k = json_get (parse_cookie cookie) k"
      using success_response_cookie [OF page assms(3)] by metis
    have s0: "s_db s0 = s_db s" using resolve_owner_token_state [OF res] by simp
    have "bots d = bots ((s_db s)\<lparr>bots := bots (s_db s) @ [b]\<rparr>)"
      using insert_version_Inr(1) [OF ins] s0 by simp
    then have owner: "owner_token n d =
        (case owner_token n (s_db s) of
           Inr None \<Rightarrow> Inr (Some (b_owner_token b)) | r \<Rightarrow> r)"
      using owner_token_bots [of d "(s_db s)\<lparr>bots := bots (s_db s) @ [b]\<rparr>" n] owner_token_append [of n "s_db s" b]
        insert_version_Inr(2) [OF ins]
      by (simp split: sum.split option.split)
    have "owner_token n d \<in> {Inr (Some tok), Inr (Some [])}"
      using res
    proof (cases rule: resolve_owner_token_cases)
      case (taken tok')
      then show ?thesis by simp
    next
      case (mine tok')
      with owner show ?thesis by simp
    next
      case fresh
      with owner insert_version_Inr(7) [OF ins] show ?thesis by auto
    qed
    then have "\<exists>tok' t'. resolve_owner_token W n (parse_cookie (Some v)) t = (Inr (Some tok', None), t')"
      using v(2) t by (auto simp: resolve_owner_token_def prog_simps)
    with v accepted(4) show ?thesis by blast
  qed
qed

text \<open>In a consistent database the name of the next version is free, so that inserting it never
  violates a constraint: only a text with a NUL character is refused.\<close>

theorem next_version_never_conflicts:
  assumes "names_ok (s_db s)" and "\<not> reserved_version_suffix n"
    and "persist_bot W n tok key src s = (Inl e, t)"
  shows "e = DataError \<and> s_db t = s_db s"
proof -
  have "fst (insert_version W n tok key src s) \<noteq> Inl IntegrityError"
    using next_name_fresh [OF assms(1,2)]
    by (auto simp: insert_version_def create_bot_def Let_def)
  with assms(3) show ?thesis
    by (auto simp: persist_bot_eq insert_version_def create_bot_def Let_def split: if_splits)
qed

end
