(* ===== verification/Scheduler.thy ===== *)
theory Scheduler
  imports System
begin

text \<open>
  \<open>match_scheduler/main.py\<close>: when a bot's pod is ready, one match in each role against every
  ready bot, and one against itself. The specification is \<open>pairings\<close>; the theorem about the
  loop says that what it sends is a prefix of the pairings, all of them unless the broker
  fails.
\<close>

section \<open>The handler\<close>

definition ondeck_message :: "int \<Rightarrow> int \<Rightarrow> string \<Rightarrow> MatchOndeck" where
  "ondeck_message x y cid = \<lparr>mo_bot_x_id = x, mo_bot_o_id = y, mo_correlation_id = cid\<rparr>"

text \<open>Drawing the correlation id and publishing one message.\<close>

definition publish_ondeck :: "'w outside \<Rightarrow> int \<Rightarrow> int \<Rightarrow> ('w, unit) prog" where
  "publish_ondeck W x y =
     bindP (token_hex W 16) (\<lambda>cid.
       publish W MATCH_ONDECK_QUEUE (dump_ondeck (o_pydantic W) (ondeck_message x y cid)))"

fun enqueue_matches :: "'w outside \<Rightarrow> int \<Rightarrow> Bot list \<Rightarrow> nat \<Rightarrow> ('w, nat) prog" where
  "enqueue_matches W bot_id [] n = ret n"
| "enqueue_matches W bot_id (other # others) n =
     seqP (publish_ondeck W bot_id (b_id other))
       (if b_id other \<noteq> bot_id
        then seqP (publish_ondeck W (b_id other) bot_id)
               (enqueue_matches W bot_id others (n + 1 + 1))
        else enqueue_matches W bot_id others (n + 1))"

definition handle_pod_ready_message :: "'w outside \<Rightarrow> string \<Rightarrow> ('w, unit) prog" where
  "handle_pod_ready_message W body =
     (case validate_ready (o_pydantic W) body of
        None \<Rightarrow> ret ()
      | Some msg \<Rightarrow>
          bindP (db_read ready_bots) (\<lambda>rs.
          seqP (enqueue_matches W (pr_bot_id msg) rs 0) (ret ())))"

section \<open>Specification\<close>

fun pairings :: "int \<Rightarrow> int list \<Rightarrow> (int \<times> int) list" where
  "pairings i [] = []"
| "pairings i (j # js) = (i, j) # (if j \<noteq> i then [(j, i)] else []) @ pairings i js"

text \<open>The messages of a list of pairings, with the tokens drawn from number \<open>k\<close> on.\<close>

fun ondeck_bodies :: "'w outside \<Rightarrow> nat \<Rightarrow> (int \<times> int) list \<Rightarrow> (string \<times> string) list" where
  "ondeck_bodies W k [] = []"
| "ondeck_bodies W k ((x, y) # ps) =
     (MATCH_ONDECK_QUEUE, dump_ondeck (o_pydantic W) (ondeck_message x y (o_token_hex W 16 k))) #
     ondeck_bodies W (Suc k) ps"

lemma length_ondeck_bodies [simp]: "length (ondeck_bodies W k ps) = length ps"
  by (induction W k ps rule: ondeck_bodies.induct) simp_all

lemma set_pairings: "set (pairings i js) = {(i, j) | j. j \<in> set js} \<union> {(j, i) | j. j \<in> set js}"
  by (induction i js rule: pairings.induct) auto

lemma distinct_pairings: "distinct js \<Longrightarrow> distinct (pairings i js)"
  by (induction i js rule: pairings.induct) (auto simp: set_pairings)

lemma length_pairings:
  "distinct js \<Longrightarrow> length (pairings i js) = 2 * length js - (if i \<in> set js then 1 else 0)"
proof (induction i js rule: pairings.induct)
  case (2 i j js)
  then show ?case by (cases js) auto
qed simp

section \<open>What is sent\<close>

lemma publish_ondeck_cases:
  obtains (ok) "o_broker W (s_tried s) = None"
    "publish_ondeck W x y s =
       (Inr (), s\<lparr>s_drawn := s_drawn s + 1, s_tried := s_tried s + 1,
                  s_log := s_log s @ ondeck_bodies W (s_drawn s) [(x, y)]\<rparr>)"
  | (failed) e where "o_broker W (s_tried s) = Some e"
    "publish_ondeck W x y s = (Inl e, s\<lparr>s_drawn := s_drawn s + 1, s_tried := s_tried s + 1\<rparr>)"
  by (cases "o_broker W (s_tried s)")
    (auto simp: publish_ondeck_def prog_simps intro: that)

text \<open>Sending the pairings one by one, counting.\<close>

fun send_all :: "'w outside \<Rightarrow> (int \<times> int) list \<Rightarrow> nat \<Rightarrow> ('w, nat) prog" where
  "send_all W [] n = ret n"
| "send_all W ((x, y) # ps) n = seqP (publish_ondeck W x y) (send_all W ps (n + 1))"

lemma enqueue_matches_send_all:
  "enqueue_matches W i bs n = send_all W (pairings i (map b_id bs)) n"
  by (induction W i bs n rule: enqueue_matches.induct) simp_all

text \<open>The state after \<open>k\<close> of the messages went out and \<open>k + d\<close> were tried.\<close>

definition sent :: "'w outside \<Rightarrow> (int \<times> int) list \<Rightarrow> nat \<Rightarrow> nat \<Rightarrow> 'w sys \<Rightarrow> 'w sys" where
  "sent W ps k d s = s\<lparr>s_drawn := s_drawn s + k + d, s_tried := s_tried s + k + d,
     s_log := s_log s @ take k (ondeck_bodies W (s_drawn s) ps)\<rparr>"

lemma sent_sel [simp]:
  "s_db (sent W ps k d s) = s_db s" "s_events (sent W ps k d s) = s_events s"
  "s_log (sent W ps k d s) = s_log s @ take k (ondeck_bodies W (s_drawn s) ps)"
  by (simp_all add: sent_def)

lemma send_all_result:
  "(\<forall>j<length ps. o_broker W (s_tried s + j) = None) \<and>
     send_all W ps n s = (Inr (n + length ps), sent W ps (length ps) 0 s) \<or>
   (\<exists>k<length ps. \<exists>e. o_broker W (s_tried s + k) = Some e \<and>
     (\<forall>j<k. o_broker W (s_tried s + j) = None) \<and> send_all W ps n s = (Inl e, sent W ps k 1 s))"
proof (induction ps arbitrary: n s)
  case Nil
  then show ?case by (simp add: ret_def sent_def)
next
  case (Cons p ps)
  obtain x y where p: "p = (x, y)" by (cases p)
  show ?case
  proof (cases rule: publish_ondeck_cases [of W s x y])
    case ok
    let ?s1 = "s\<lparr>s_drawn := s_drawn s + 1, s_tried := s_tried s + 1,
                  s_log := s_log s @ ondeck_bodies W (s_drawn s) [(x, y)]\<rparr>"
    have run: "send_all W (p # ps) n s = send_all W ps (n + 1) ?s1"
      using seqP_run [where m = "publish_ondeck W x y" and s = s, OF ok(2)] p by simp
    have next_state: "sent W ps k d ?s1 = sent W (p # ps) (Suc k) d s" for k d
      by (simp add: sent_def p)
    from Cons.IH [where n = "n + 1" and s = ?s1] show ?thesis
    proof (elim disjE exE conjE)
      assume "\<forall>j<length ps. o_broker W (s_tried ?s1 + j) = None"
        and "send_all W ps (n + 1) ?s1 = (Inr (n + 1 + length ps), sent W ps (length ps) 0 ?s1)"
      then have "(\<forall>j<length (p # ps). o_broker W (s_tried s + j) = None) \<and>
        send_all W (p # ps) n s = (Inr (n + length (p # ps)), sent W (p # ps) (length (p # ps)) 0 s)"
        using ok(1) run next_state by (auto simp: less_Suc_eq_0_disj)
      then show ?thesis by blast
    next
      fix k e
      assume "k < length ps" and "o_broker W (s_tried ?s1 + k) = Some e"
        and "\<forall>j<k. o_broker W (s_tried ?s1 + j) = None"
        and "send_all W ps (n + 1) ?s1 = (Inl e, sent W ps k 1 ?s1)"
      then have "Suc k < length (p # ps) \<and> o_broker W (s_tried s + Suc k) = Some e \<and>
        (\<forall>j<Suc k. o_broker W (s_tried s + j) = None) \<and>
        send_all W (p # ps) n s = (Inl e, sent W (p # ps) (Suc k) 1 s)"
        using ok(1) run next_state by (auto simp: less_Suc_eq_0_disj)
      then show ?thesis by blast
    qed
  next
    case (failed e)
    then have "0 < length (p # ps) \<and> o_broker W (s_tried s + 0) = Some e \<and>
        (\<forall>j<0. o_broker W (s_tried s + j) = None) \<and>
        send_all W (p # ps) n s = (Inl e, sent W (p # ps) 0 1 s)"
      using seqP_fail [where m = "publish_ondeck W x y" and s = s, OF failed(2)] p by (simp add: sent_def)
    then show ?thesis by blast
  qed
qed

text \<open>The handler on a message of its own kind.\<close>

lemma handle_pod_ready_message_run:
  assumes "pydantic_ok (o_pydantic W)"
  shows "handle_pod_ready_message W (dump_ready (o_pydantic W) \<lparr>pr_bot_id = i\<rparr>) s =
    (case send_all W (pairings i (map b_id (ready_bots (s_db s)))) 0 s of
       (Inl e, s1) \<Rightarrow> (Inl e, s1) | (Inr _, s1) \<Rightarrow> (Inr (), s1))"
  by (simp add: handle_pod_ready_message_def pydantic_okD [OF assms] enqueue_matches_send_all
      bindP_def seqP_def db_read_def ret_def split: prod.split sum.split)

lemma handle_pod_ready_message_bad:
  "validate_ready (o_pydantic W) body = None \<Longrightarrow> handle_pod_ready_message W body s = (Inr (), s)"
  by (simp add: handle_pod_ready_message_def ret_def)

section \<open>Properties\<close>

text \<open>Told that a ready bot's pod is up, and with a working broker, the scheduler publishes one
  match for every ordered pair of ready bots the bot is in, each exactly once: twice the number
  of ready bots less one; nothing else of the state it reads changes.\<close>

theorem schedule_exactly_the_pairings:
  assumes "pydantic_ok (o_pydantic W)" and "o_broker W = (\<lambda>_. None)" and "db_ok (s_db s)"
    and "i \<in> ready_ids (s_db s)"
  shows "\<exists>t ps. handle_pod_ready_message W (dump_ready (o_pydantic W) \<lparr>pr_bot_id = i\<rparr>) s = (Inr (), t) \<and>
    s_log t = s_log s @ ondeck_bodies W (s_drawn s) ps \<and> s_db t = s_db s \<and> distinct ps \<and>
    set ps = {(x, y). x \<in> ready_ids (s_db s) \<and> y \<in> ready_ids (s_db s) \<and> (x = i \<or> y = i)} \<and>
    length ps = 2 * length (ready_bots (s_db s)) - 1"
proof -
  let ?js = "map b_id (ready_bots (s_db s))"
  let ?ps = "pairings i ?js"
  have d: "distinct ?js"
    using db_okD(1) [OF assms(3)] by (simp add: ready_bots_def distinct_map_filter)
  have i: "i \<in> set ?js" using assms(4) by (simp add: ready_ids_def)
  have "send_all W ?ps 0 s = (Inr (length ?ps), sent W ?ps (length ?ps) 0 s)"
    using send_all_result [of ?ps W s 0] assms(2) by auto
  then have "handle_pod_ready_message W (dump_ready (o_pydantic W) \<lparr>pr_bot_id = i\<rparr>) s =
      (Inr (), sent W ?ps (length ?ps) 0 s)"
    by (simp add: handle_pod_ready_message_run [OF assms(1)])
  moreover have "set ?ps = {(x, y). x \<in> ready_ids (s_db s) \<and> y \<in> ready_ids (s_db s) \<and> (x = i \<or> y = i)}"
    using assms(4) by (auto simp: set_pairings ready_ids_def)
  moreover have "length ?ps = 2 * length (ready_bots (s_db s)) - 1"
    using length_pairings [OF d, of i] i by simp
  ultimately show ?thesis
    using distinct_pairings [OF d, of i] by (intro exI [of _ "sent W ?ps (length ?ps) 0 s"] exI [of _ ?ps]) simp
qed

text \<open>When the broker fails, the scheduler has published a beginning of the pairings in order and
  raises the broker's exception; the tables are untouched.\<close>

theorem schedule_failure_is_a_prefix:
  assumes "pydantic_ok (o_pydantic W)"
    and "handle_pod_ready_message W (dump_ready (o_pydantic W) \<lparr>pr_bot_id = i\<rparr>) s = (Inl e, t)"
  shows "\<exists>k < length (pairings i (map b_id (ready_bots (s_db s)))).
    s_log t = s_log s @ take k (ondeck_bodies W (s_drawn s) (pairings i (map b_id (ready_bots (s_db s))))) \<and>
    o_broker W (s_tried s + k) = Some e \<and> s_db t = s_db s"
proof -
  let ?ps = "pairings i (map b_id (ready_bots (s_db s)))"
  obtain r where r: "send_all W ?ps 0 s = (r, t)" "r = Inl e"
    using assms(2) by (auto simp: handle_pod_ready_message_run [OF assms(1)] split: prod.splits sum.splits)
  with send_all_result [of ?ps W s 0] obtain k where "k < length ?ps" "o_broker W (s_tried s + k) = Some e"
    "t = sent W ?ps k 1 s"
    by auto
  then show ?thesis by (intro exI [of _ k]) simp
qed

end
