(* ===== verification/MatchRunner.thy ===== *)
theory MatchRunner
  imports Pods
begin

text \<open>
  \<open>dispatcher/match_runner.py\<close>: one turn (\<open>play_turn\<close>) and the game loop
  (\<open>run_match_from_pods\<close>), over the outside world of \<open>Pods\<close>. The arguments that only reach
  the log are dropped. The specification side is \<open>transcript_from\<close>: what a list of recorded
  moves and a result must look like to be a tic-tac-toe game played by the rules.
\<close>

section \<open>One turn\<close>

record Turn =
  t_player :: string
  t_symbol :: string
  t_pod_ip :: string

definition forfeit_label :: "string \<Rightarrow> MatchOutcome" where
  "forfeit_label player = (if player = ''x'' then X_FORFEIT else O_FORFEIT)"

text \<open>A turn gives \<open>(new_board, None)\<close> or \<open>(None, forfeit_error)\<close>.\<close>

type_synonym turn_result = "board option \<times> json"

definition forfeit :: "json \<Rightarrow> turn_result" where
  "forfeit err = (None, err)"

text \<open>\<open>parse_board\<close> of a value that need not be a string: only a string has \<open>strip\<close>.\<close>

definition parse_board_value :: "json \<Rightarrow> board option res" where
  "parse_board_value v = (case v of JStr s \<Rightarrow> Inr (parse_board s) | _ \<Rightarrow> Inl AttributeError)"

definition value_repr :: "json \<Rightarrow> string" where
  "value_repr v = (case v of JStr s \<Rightarrow> py_repr s | _ \<Rightarrow> json_dumps v)"

definition judge_response :: "board \<Rightarrow> string \<Rightarrow> TurnResponse \<Rightarrow> turn_result res" where
  "judge_response board symbol response =
     (let err = tr_error response; new_board_text = tr_board response
      in if truthy err \<or> \<not> truthy new_board_text
           then Inr (forfeit (if truthy err then err else JStr ''no output''))
         else bindE (parse_board_value new_board_text) (\<lambda>parsed.
           case parsed of
             None \<Rightarrow> Inr (forfeit (JStr (''invalid output: unparseable board: '' @
                                         value_repr new_board_text)))
           | Some new_board \<Rightarrow>
               bindE (validate_move board new_board symbol) (\<lambda>move_error.
                 case move_error of
                   Some m \<Rightarrow> if m \<noteq> [] then Inr (forfeit (JStr m)) else Inr (Some new_board, JNull)
                 | None \<Rightarrow> Inr (Some new_board, JNull))))"

text \<open>\<open>except URLError as exc\<close>: the only class of exception a turn turns into a forfeit.\<close>

definition catch_url_error :: "turn_result res \<Rightarrow> turn_result res" where
  "catch_url_error r =
     (case r of
        Inl (URLError msg) \<Rightarrow> Inr (forfeit (JStr (''HTTP error: '' @ msg)))
      | _ \<Rightarrow> r)"

definition play_turn ::
  "'w env \<Rightarrow> string \<Rightarrow> string \<Rightarrow> board \<Rightarrow> int \<Rightarrow> 'w \<Rightarrow> turn_result res \<times> 'w"
where
  "play_turn E symbol ip board timeout w =
     (case request_turn E ip symbol (board_to_str board) timeout w of
        (r, w1) \<Rightarrow> (catch_url_error (bindE r (judge_response board symbol)), w1))"

section \<open>The game loop\<close>

definition TURN_TIMEOUT :: int where "TURN_TIMEOUT = 10000"

text \<open>\<open>enumerate(itertools.islice(itertools.cycle(turns), 9), start=1)\<close>\<close>

definition turn_schedule :: "Turn \<Rightarrow> Turn \<Rightarrow> (nat \<times> Turn) list" where
  "turn_schedule tx t_o = zip [1..<10] (take 9 (concat (replicate 5 [tx, t_o])))"

text \<open>
  The loop; falling off its end is Python's implicit \<open>return None\<close>. A turn without a board
  and without an error would make \<open>board_to_str(None)\<close> raise.
\<close>

fun play_loop ::
  "'w env \<Rightarrow> int \<Rightarrow> (nat \<times> Turn) list \<Rightarrow> board \<Rightarrow> Move list \<Rightarrow> 'w \<Rightarrow> MatchResult option res \<times> 'w"
where
  "play_loop E timeout [] board moves w = (Inr None, w)"
| "play_loop E timeout ((n, turn) # turns) board moves w =
     (case play_turn E (t_symbol turn) (t_pod_ip turn) board timeout w of
        (Inl e, w1) \<Rightarrow> (Inl e, w1)
      | (Inr (new_board, forfeit_error), w1) \<Rightarrow>
          if forfeit_error \<noteq> JNull then
            (Inr (Some \<lparr>mr_result = forfeit_label (t_player turn),
               mr_moves = moves @ [\<lparr>mv_number = n, mv_player = t_player turn,
                 mv_board = board_to_str board, mv_error = forfeit_error\<rparr>]\<rparr>), w1)
          else
            (case new_board of
               None \<Rightarrow> (Inl TypeError, w1)
             | Some b \<Rightarrow>
                 (let moves' = moves @ [\<lparr>mv_number = n, mv_player = t_player turn,
                                         mv_board = board_to_str b, mv_error = JNull\<rparr>]
                  in case check_winner b of
                       Inl e \<Rightarrow> (Inl e, w1)
                     | Inr (Some outcome) \<Rightarrow>
                         (Inr (Some \<lparr>mr_result = outcome, mr_moves = moves'\<rparr>), w1)
                     | Inr None \<Rightarrow> play_loop E timeout turns b moves' w1)))"

definition run_match_from_pods ::
  "'w env \<Rightarrow> string \<Rightarrow> string \<Rightarrow> int \<Rightarrow> 'w \<Rightarrow> MatchResult option res \<times> 'w"
where
  "run_match_from_pods E pod_name_x pod_name_o turn_timeout w =
     (case get_pod_ip E pod_name_x w of
        (Inl e, w1) \<Rightarrow> (Inl e, w1)
      | (Inr ip_x, w1) \<Rightarrow>
          (case get_pod_ip E pod_name_o w1 of
             (Inl e, w2) \<Rightarrow> (Inl e, w2)
           | (Inr ip_o, w2) \<Rightarrow>
               play_loop E turn_timeout
                 (turn_schedule \<lparr>t_player = ''x'', t_symbol = ''X'', t_pod_ip = ip_x\<rparr>
                                \<lparr>t_player = ''o'', t_symbol = ''O'', t_pod_ip = ip_o\<rparr>)
                 EMPTY_BOARD [] w2))"

section \<open>Specification\<close>

definition player_of :: "nat \<Rightarrow> string" where
  "player_of n = (if odd n then ''x'' else ''o'')"

definition symbol_of :: "nat \<Rightarrow> string" where
  "symbol_of n = (if odd n then ''X'' else ''O'')"

definition game_outcome :: "board \<Rightarrow> MatchOutcome option" where
  "game_outcome b =
     (if has_line b ''X'' then Some X_WINS
      else if has_line b ''O'' then Some O_WINS
      else if is_full b then Some CAT
      else None)"

text \<open>
  From turn \<open>n\<close> on board \<open>b\<close>: every move is numbered, made by the player whose turn it is,
  legal from the board before it, and the last one; or the game goes on because nobody has
  won and the board is not full. A forfeit ends the game for the player who moved last and
  records the board unchanged.
\<close>

fun transcript_from :: "nat \<Rightarrow> board \<Rightarrow> Move list \<Rightarrow> MatchOutcome \<Rightarrow> bool" where
  "transcript_from n b [] r = False"
| "transcript_from n b (m # ms) r =
     (n \<le> 9 \<and> mv_number m = n \<and> mv_player m = player_of n \<and>
      (if mv_error m \<noteq> JNull then
         ms = [] \<and> mv_board m = board_to_str b \<and> r = forfeit_label (player_of n)
       else
         (\<exists>b'. mv_board m = board_to_str b' \<and> wf_board b' \<and> legal_move b b' (symbol_of n) \<and>
           (case game_outcome b' of
              Some w \<Rightarrow> ms = [] \<and> r = w
            | None \<Rightarrow> transcript_from (Suc n) b' ms r))))"

text \<open>The boards a game played by the rules can reach, with the number of the turn to come.\<close>

inductive in_play :: "nat \<Rightarrow> board \<Rightarrow> bool" where
  start: "in_play 1 EMPTY_BOARD"
| move: "in_play n b \<Longrightarrow> legal_move b b' (symbol_of n) \<Longrightarrow> game_outcome b' = None \<Longrightarrow>
     in_play (Suc n) b'"

section \<open>Turns\<close>

lemma symbol_of_cases: "symbol_of n = ''X'' \<or> symbol_of n = ''O''"
  by (simp add: symbol_of_def)

lemma symbol_of_mem [simp]: "symbol_of n \<in> {''X'', ''O''}" "symbol_of n \<noteq> ''.''"
  by (simp_all add: symbol_of_def)

lemma validate_move_msg:
  assumes "validate_move old new s = Inr (Some m)"
  shows "m \<noteq> []"
proof -
  obtain changes where "(case changes of
       [] \<Rightarrow> Inr (Some ''no move made'')
     | (r, c, old, new) # rest \<Rightarrow>
         if length changes > 1
           then Inr (Some (nat_str (length changes) @ '' cells changed, expected 1''))
         else if old \<noteq> ''.''
           then Inr (Some (''cell ('' @ nat_str r @ '','' @ nat_str c @ '') was already occupied''))
         else if new \<noteq> s
           then Inr (Some (''placed wrong symbol '' @ [CHR 0x27] @ new @ [CHR 0x27] @
                           '', expected '' @ [CHR 0x27] @ s @ [CHR 0x27]))
         else Inr None) = (Inr (Some m) :: string option res)"
    using assms unfolding validate_move_def bindE_eq_Inr by blast
  then show ?thesis by (cases changes) (auto split: prod.splits if_splits)
qed

text \<open>A turn that gives a board made a legal move on it.\<close>

lemma judge_response_board:
  assumes "judge_response board s r = Inr (Some b, err)" and "wf_board board" and "s \<in> {''X'', ''O''}"
  shows "err = JNull \<and> wf_board b \<and> legal_move board b s"
proof -
  obtain t me where "parse_board t = Some b" and me: "validate_move board b s = Inr me"
      and "\<And>m. me = Some m \<Longrightarrow> m = []" and "err = JNull"
    using assms(1)
    by (auto simp: judge_response_def Let_def forfeit_def parse_board_value_def res_simps
        split: if_splits option.splits json.splits)
  moreover from this have "validate_move board b s = Inr None"
    using validate_move_msg [of board b s] by (cases me) blast+
  ultimately show ?thesis
    using assms parse_board_wf validate_move_legal [of board b s] by auto
qed

text \<open>A text is judged by the board it reads as: accepted when the move is legal, a forfeit otherwise.\<close>

lemma judge_response_text:
  assumes "wf_board b" and "s \<in> {''X'', ''O''}"
  shows "\<exists>e. e \<noteq> JNull \<and> judge_response b s \<lparr>tr_board = JStr t, tr_error = JNull\<rparr> =
    (if \<exists>b'. parse_board t = Some b' \<and> legal_move b b' s then Inr (parse_board t, JNull) else Inr (None, e))"
proof (cases "parse_board t")
  case None
  then show ?thesis
    by (intro exI [of _ "if t = [] then JStr ''no output'' else JStr (''invalid output: unparseable board: '' @ py_repr t)"])
      (simp add: judge_response_def forfeit_def parse_board_value_def value_repr_def)
next
  case (Some b')
  then have t: "t \<noteq> []" by (auto simp: parse_board_def)
  have legal: "validate_move b b' s = Inr None \<longleftrightarrow> legal_move b b' s"
    using validate_move_legal [OF assms(1) parse_board_wf [OF Some], of s] assms(2) by auto
  obtain me where me: "validate_move b b' s = Inr me"
    using validate_move_wf [OF assms(1) parse_board_wf [OF Some]] by blast
  show ?thesis
  proof (cases me)
    case None
    with me legal Some t show ?thesis
      by (intro exI [of _ "JStr []"]) (simp add: judge_response_def parse_board_value_def)
  next
    case (Some m)
    with me have "m \<noteq> []" using validate_move_msg by blast
    moreover have "\<not> legal_move b b' s" using me legal Some by simp
    ultimately show ?thesis
      using me Some t \<open>parse_board t = Some b'\<close>
      by (intro exI [of _ "JStr m"]) (simp add: judge_response_def parse_board_value_def forfeit_def)
  qed
qed

text \<open>A turn that gives no board gives an error that is not \<open>None\<close>.\<close>

lemma judge_response_forfeit:
  "judge_response board s r = Inr (None, err) \<Longrightarrow> err \<noteq> JNull"
  by (auto simp: judge_response_def Let_def forfeit_def res_simps split: if_splits option.splits)

lemma play_turn_board:
  assumes "play_turn E s ip board timeout w = (Inr (Some b, err), w1)"
    and "wf_board board" and "s \<in> {''X'', ''O''}"
  shows "err = JNull \<and> wf_board b \<and> legal_move board b s"
  using assms judge_response_board [of board s _ b err]
  by (auto simp: play_turn_def catch_url_error_def forfeit_def res_simps
      split: prod.splits sum.splits py_exc.splits)

lemma play_turn_forfeit:
  "play_turn E s ip board timeout w = (Inr (None, err), w1) \<Longrightarrow> err \<noteq> JNull"
  using judge_response_forfeit
  by (auto simp: play_turn_def catch_url_error_def forfeit_def res_simps
      split: prod.splits sum.splits py_exc.splits)

section \<open>The rules\<close>

text \<open>A move cannot complete a line of the other player's symbol.\<close>

lemma has_line_other:
  assumes "wf_board b" and "legal_move b b' s" and "t \<noteq> s" and "has_line b' t"
  shows "has_line b t"
proof -
  obtain r c where rc: "r < 3" "c < 3" "b' = place b r c s"
    using assms(2) by (auto simp: legal_move_def)
  have cell: "b' ! i ! j = t \<Longrightarrow> i < 3 \<Longrightarrow> j < 3 \<Longrightarrow> b ! i ! j = t" for i j
    using rc assms(1,3) by (simp add: place_nth wf_boardD split: if_splits)
  from assms(4) consider (row) i where "i < 3" "\<forall>j<3. b' ! i ! j = t"
    | (column) j where "j < 3" "\<forall>i<3. b' ! i ! j = t"
    | (diagonal) "\<forall>i<3. b' ! i ! i = t" | (antidiagonal) "\<forall>i<3. b' ! i ! (2 - i) = t"
    unfolding has_line_def by blast
  then show ?thesis
  proof cases
    case row
    then have "\<forall>j<3. b ! i ! j = t" by (simp add: cell)
    with row show ?thesis unfolding has_line_def by blast
  next
    case column
    then have "\<forall>i<3. b ! i ! j = t" by (simp add: cell)
    with column show ?thesis unfolding has_line_def by blast
  next
    case diagonal
    then show ?thesis unfolding has_line_def by (simp add: cell)
  next
    case antidiagonal
    then show ?thesis unfolding has_line_def by (simp add: cell)
  qed
qed

lemma check_winner_game_outcome:
  assumes "wf_board b" and "\<not> (has_line b ''X'' \<and> has_line b ''O'')"
  shows "check_winner b = Inr (game_outcome b)"
  using assms check_winner_line [of b] check_winner_no_line [of b]
  by (cases "has_line b ''X'' \<or> has_line b ''O''") (auto simp: game_outcome_def)

lemma game_outcome_None:
  "game_outcome b = None \<longleftrightarrow> \<not> has_line b ''X'' \<and> \<not> has_line b ''O'' \<and> \<not> is_full b"
  by (auto simp: game_outcome_def)

lemma in_play_wf: "in_play n b \<Longrightarrow> wf_board b"
  by (induction rule: in_play.induct) (use symbol_of_mem wf_legal_move in auto)

lemma game_outcome_EMPTY_BOARD: "game_outcome EMPTY_BOARD = None"
  by code_simp

lemma in_play_None: "in_play n b \<Longrightarrow> game_outcome b = None"
  by (induction rule: in_play.induct) (simp_all add: game_outcome_EMPTY_BOARD)

text \<open>Every turn uses up one empty cell.\<close>

lemma in_play_empty: "in_play n b \<Longrightarrow> pieces b ''.'' + n = 10"
proof (induction rule: in_play.induct)
  case start
  then show ?case by (simp add: pieces_EMPTY_BOARD)
next
  case (move n b b')
  then have "pieces b ''.'' = Suc (pieces b' ''.'')"
    by (intro legal_move_pieces(1) [of b b' "symbol_of n"]) (auto simp: in_play_wf)
  with move show ?case by simp
qed

text \<open>After a legal move in a game in play, at most the mover has a line.\<close>

lemma in_play_step:
  assumes "in_play n b" and "legal_move b b' (symbol_of n)"
  shows "wf_board b'" and "check_winner b' = Inr (game_outcome b')"
    and "pieces b' ''.'' + n = 9"
proof -
  have wf: "wf_board b" using in_play_wf assms(1) .
  show wf': "wf_board b'" using wf_legal_move [OF wf _ assms(2)] symbol_of_mem by simp
  have none: "\<not> has_line b ''X''" "\<not> has_line b ''O''"
    using in_play_None [OF assms(1)] by (simp_all add: game_outcome_None)
  have "\<not> (has_line b' ''X'' \<and> has_line b' ''O'')"
    using has_line_other [OF wf assms(2), of "''X''"] has_line_other [OF wf assms(2), of "''O''"] none
    by (cases "odd n") (auto simp: symbol_of_def)
  then show "check_winner b' = Inr (game_outcome b')"
    by (rule check_winner_game_outcome [OF wf'])
  show "pieces b' ''.'' + n = 9"
    using legal_move_pieces(1) [OF wf assms(2)] in_play_empty [OF assms(1)] by simp
qed

section \<open>The loop plays by the rules\<close>

text \<open>What the schedule says: turn \<open>n\<close> is played by \<open>player_of n\<close> with \<open>symbol_of n\<close>.\<close>

fun schedule_ok :: "nat \<Rightarrow> (nat \<times> Turn) list \<Rightarrow> bool" where
  "schedule_ok n [] \<longleftrightarrow> n = 10"
| "schedule_ok n ((k, turn) # ts) \<longleftrightarrow> k = n \<and> n \<le> 9 \<and> t_player turn = player_of n \<and>
     t_symbol turn = symbol_of n \<and> schedule_ok (Suc n) ts"

lemma turn_schedule_eq:
  "turn_schedule tx t_o = [(1, tx), (2, t_o), (3, tx), (4, t_o), (5, tx), (6, t_o), (7, tx), (8, t_o), (9, tx)]"
proof -
  have "[1..<10] = [1, 2, 3, 4, 5, 6, 7, 8, 9 :: nat]" by code_simp
  moreover have "take 9 (concat (replicate 5 [tx, t_o])) = [tx, t_o, tx, t_o, tx, t_o, tx, t_o, tx]"
    by (simp add: numeral_eq_Suc)
  ultimately show ?thesis by (simp only: turn_schedule_def zip_Cons_Cons zip_Nil)
qed

lemma turn_schedule_ok:
  "schedule_ok 1 (turn_schedule \<lparr>t_player = ''x'', t_symbol = ''X'', t_pod_ip = ip_x\<rparr>
                                \<lparr>t_player = ''o'', t_symbol = ''O'', t_pod_ip = ip_o\<rparr>)"
  by (simp add: turn_schedule_eq player_of_def symbol_of_def)

lemma play_loop_transcript:
  assumes "play_loop E timeout ts b moves w = (Inr res, w1)" and "schedule_ok n ts"
    and "in_play n b"
  shows "\<exists>ms r. res = Some \<lparr>mr_result = r, mr_moves = moves @ ms\<rparr> \<and> transcript_from n b ms r"
  using assms
proof (induction ts arbitrary: n b moves w)
  case Nil
  then have "pieces b ''.'' = 0" using in_play_empty [of n b] by simp
  then have "is_full b" by (simp add: is_full_pieces)
  with in_play_None [OF Nil(3)] show ?case by (simp add: game_outcome_None)
next
  case (Cons kt ts)
  obtain k turn where kt: "kt = (k, turn)" by (cases kt)
  with Cons.prems(2) have k: "k = n" "n \<le> 9" "t_player turn = player_of n"
    "t_symbol turn = symbol_of n" "schedule_ok (Suc n) ts"
    by auto
  have wf: "wf_board b" using in_play_wf Cons.prems(3) .
  obtain tr w2 where turn: "play_turn E (t_symbol turn) (t_pod_ip turn) b timeout w = (tr, w2)"
    by force
  with Cons.prems(1) kt obtain nb err where tr: "tr = Inr (nb, err)"
    by (cases tr) auto
  show ?case
  proof (cases nb)
    case None
    have "err \<noteq> JNull" using play_turn_forfeit [OF turn [unfolded tr None]] .
    let ?m = "\<lparr>mv_number = n, mv_player = player_of n, mv_board = board_to_str b, mv_error = err\<rparr>"
    have "res = Some \<lparr>mr_result = forfeit_label (player_of n), mr_moves = moves @ [?m]\<rparr>"
      using Cons.prems(1) kt turn tr k None \<open>err \<noteq> JNull\<close> by simp
    moreover have "transcript_from n b [?m] (forfeit_label (player_of n))"
      using \<open>err \<noteq> JNull\<close> k(2) by simp
    ultimately show ?thesis by blast
  next
    case (Some b')
    then have b': "err = JNull" "wf_board b'" "legal_move b b' (symbol_of n)"
      using play_turn_board [OF turn [unfolded tr Some] wf] k(4) symbol_of_cases [of n] by simp_all
    note step = in_play_step [OF Cons.prems(3) b'(3)]
    let ?m = "\<lparr>mv_number = n, mv_player = player_of n, mv_board = board_to_str b', mv_error = JNull\<rparr>"
    show ?thesis
    proof (cases "game_outcome b'")
      case None
      then have "in_play (Suc n) b'" using in_play.move Cons.prems(3) b'(3) by blast
      moreover from Cons.prems(1) kt turn tr Some b'(1) step(2) None k
      have "play_loop E timeout ts b' (moves @ [?m]) w2 = (Inr res, w1)"
        by simp
      ultimately obtain ms r
        where "res = Some \<lparr>mr_result = r, mr_moves = (moves @ [?m]) @ ms\<rparr>"
          and ms: "transcript_from (Suc n) b' ms r"
        using Cons.IH k(5) by blast
      then have "res = Some \<lparr>mr_result = r, mr_moves = moves @ (?m # ms)\<rparr>" by simp
      moreover have "transcript_from n b (?m # ms) r"
        using None b' k ms by auto
      ultimately show ?thesis by blast
    next
      case (Some outcome)
      with Cons.prems(1) kt turn tr \<open>nb = Some b'\<close> b'(1) step(2) k
      have "res = Some \<lparr>mr_result = outcome, mr_moves = moves @ [?m]\<rparr>" by simp
      moreover have "transcript_from n b [?m] outcome"
        using Some b' k by auto
      ultimately show ?thesis by blast
    qed
  qed
qed

lemma run_match_transcript:
  assumes "run_match_from_pods E px po timeout w = (Inr res, w1)"
  shows "\<exists>ms r. res = Some \<lparr>mr_result = r, mr_moves = ms\<rparr> \<and> transcript_from 1 EMPTY_BOARD ms r"
proof -
  from assms obtain ip_x ip_o w2 where
    "play_loop E timeout (turn_schedule \<lparr>t_player = ''x'', t_symbol = ''X'', t_pod_ip = ip_x\<rparr>
       \<lparr>t_player = ''o'', t_symbol = ''O'', t_pod_ip = ip_o\<rparr>) EMPTY_BOARD [] w2 = (Inr res, w1)"
    by (auto simp: run_match_from_pods_def split: prod.splits sum.splits)
  from play_loop_transcript [OF this turn_schedule_ok in_play.start] show ?thesis by simp
qed

section \<open>What a transcript says about the result\<close>

lemma in_play_outcome:
  assumes "in_play n b" and "legal_move b b' (symbol_of n)" and "game_outcome b' = Some r"
  shows "(r = X_WINS \<longrightarrow> odd n) \<and> (r = O_WINS \<longrightarrow> even n) \<and> (r = CAT \<longrightarrow> n = 9) \<and>
         r \<noteq> X_FORFEIT \<and> r \<noteq> O_FORFEIT"
proof -
  have wf: "wf_board b" using in_play_wf assms(1) .
  have none: "\<not> has_line b ''X''" "\<not> has_line b ''O''"
    using in_play_None [OF assms(1)] by (simp_all add: game_outcome_None)
  have x: "odd n" if "has_line b' ''X''"
    using has_line_other [OF wf assms(2) _ that] none by (cases "odd n") (auto simp: symbol_of_def)
  have o: "even n" if "has_line b' ''O''"
    using has_line_other [OF wf assms(2) _ that] none by (cases "odd n") (auto simp: symbol_of_def)
  have c: "n = 9" if "is_full b'"
    using in_play_step(3) [OF assms(1,2)] that by (simp add: is_full_pieces)
  show ?thesis
    using assms(3) x o c by (auto simp: game_outcome_def split: if_splits)
qed

definition result_fits :: "nat \<Rightarrow> json \<Rightarrow> MatchOutcome \<Rightarrow> bool" where
  "result_fits n err r \<longleftrightarrow>
     (if err \<noteq> JNull then r = forfeit_label (player_of n)
      else (r = X_WINS \<and> odd n) \<or> (r = O_WINS \<and> even n) \<or> (r = CAT \<and> n = 9))"

lemma in_play_result_fits:
  assumes "in_play n b" and "legal_move b b' (symbol_of n)" and "game_outcome b' = Some r"
  shows "result_fits n JNull r"
  using in_play_outcome [OF assms] by (cases r) (auto simp: result_fits_def)

lemma transcript_shape:
  assumes "transcript_from n b ms r" and "in_play n b"
  shows "ms \<noteq> [] \<and> length ms + n \<le> 10 \<and>
    map (\<lambda>m. (mv_number m, mv_player m)) ms = map (\<lambda>k. (k, player_of k)) [n..<n + length ms] \<and>
    (\<forall>m \<in> set (butlast ms). mv_error m = JNull) \<and>
    result_fits (n + length ms - 1) (mv_error (last ms)) r"
  using assms
proof (induction ms arbitrary: n b)
  case (Cons m ms)
  have m: "n \<le> 9" "mv_number m = n" "mv_player m = player_of n" using Cons.prems(1) by simp_all
  show ?case
  proof (cases "mv_error m = JNull")
    case False
    with Cons.prems m show ?thesis by (simp add: result_fits_def)
  next
    case True
    with Cons.prems obtain b' where b': "legal_move b b' (symbol_of n)"
      and rest: "case game_outcome b' of Some w \<Rightarrow> ms = [] \<and> r = w | None \<Rightarrow> transcript_from (Suc n) b' ms r"
      by auto
    show ?thesis
    proof (cases "game_outcome b'")
      case None
      then have "in_play (Suc n) b'" using in_play.move [OF Cons.prems(2) b'] by simp
      with Cons.IH [of "Suc n" b'] rest None m True show ?thesis
        by (simp add: upt_conv_Cons del: upt_Suc)
    next
      case (Some w)
      with in_play_result_fits [OF Cons.prems(2) b'] rest m True show ?thesis by simp
    qed
  qed
qed simp

text \<open>The numbers of the moves increase.\<close>

lemma transcript_sorted:
  assumes "transcript_from 1 EMPTY_BOARD ms r"
  shows "sorted (map mv_number ms)"
proof -
  have "map fst (map (\<lambda>m. (mv_number m, mv_player m)) ms) = map fst (map (\<lambda>k. (k, player_of k)) [1..<1 + length ms])"
    using transcript_shape [OF assms in_play.start] by simp
  then have "map mv_number ms = [1..<1 + length ms]" by (simp add: o_def del: upt_Suc)
  then show ?thesis by (simp del: upt_Suc)
qed

section \<open>Errors of a turn\<close>

lemma play_turn_url_error:
  assumes "urlopen E (turn_request ip s (board_to_str b)) t w = (Inl e, w1)"
  shows "play_turn E s ip b t w =
    (case e of URLError msg \<Rightarrow> (Inr (None, JStr (''HTTP error: '' @ msg)), w1) | _ \<Rightarrow> (Inl e, w1))"
  using assms by (cases e) (simp_all add: play_turn_def request_turn_def catch_url_error_def forfeit_def)

end
