(* ===== verification/Base64.thy ===== *)
theory Base64
  imports Prelude
begin

text \<open>
  \<open>base64.b64encode\<close> and \<open>base64.b64decode\<close>: how a bot's source travels from the database
  (\<open>dispatcher/pod_builder.py\<close>) into the environment of its pod
  (\<open>bot-runner-images/python/turn_server.py\<close>). Bytes are characters. Decoding skips characters
  outside the alphabet, as Python does by default.
\<close>

definition b64_alphabet :: string where
  "b64_alphabet = ''ABCDEFGHIJKLMNOPQRSTUVWXYZ'' @ ''abcdefghijklmnopqrstuvwxyz'' @
     ''0123456789'' @ ''+/''"

definition b64_char :: "nat \<Rightarrow> char" where
  "b64_char n = b64_alphabet ! n"

fun index_of :: "char \<Rightarrow> string \<Rightarrow> nat option" where
  "index_of c [] = None"
| "index_of c (d # ds) = (if c = d then Some 0 else map_option Suc (index_of c ds))"

definition b64_val :: "char \<Rightarrow> nat option" where
  "b64_val c = index_of c b64_alphabet"

abbreviation byte :: "char \<Rightarrow> nat" where "byte \<equiv> of_char"

fun b64encode :: "string \<Rightarrow> string" where
  "b64encode [] = []"
| "b64encode [a] =
     [b64_char (byte a div 4), b64_char (byte a mod 4 * 16), CHR ''='', CHR ''='']"
| "b64encode [a, b] =
     [b64_char (byte a div 4), b64_char (byte a mod 4 * 16 + byte b div 16),
      b64_char (byte b mod 16 * 4), CHR ''='']"
| "b64encode (a # b # c # cs) =
     b64_char (byte a div 4) # b64_char (byte a mod 4 * 16 + byte b div 16) #
     b64_char (byte b mod 16 * 4 + byte c div 64) # b64_char (byte c mod 64) # b64encode cs"

text \<open>
  The decoder's scan: the position in the group of four, the bits left over, and the padding
  seen since the last value. Padding from the third place on that completes the group ends the
  data; other padding is skipped. \<open>None\<close> is \<open>binascii.Error\<close>: the data ends inside a group.
\<close>

fun b64_scan :: "nat \<Rightarrow> nat \<Rightarrow> nat \<Rightarrow> string \<Rightarrow> string option" where
  "b64_scan quad_pos left pads [] = (if quad_pos = 0 then Some [] else None)"
| "b64_scan quad_pos left pads (c # cs) =
     (if c = CHR ''='' then
        (if 2 \<le> quad_pos
         then (if 4 \<le> quad_pos + (pads + 1) then Some [] else b64_scan quad_pos left (pads + 1) cs)
         else b64_scan quad_pos left pads cs)
      else
        (case b64_val c of
           None \<Rightarrow> b64_scan quad_pos left pads cs
         | Some v \<Rightarrow>
             if quad_pos = 0 then b64_scan 1 v 0 cs
             else if quad_pos = 1 then
               map_option ((#) (char_of (left * 4 + v div 16))) (b64_scan 2 (v mod 16) 0 cs)
             else if quad_pos = 2 then
               map_option ((#) (char_of (left * 16 + v div 4))) (b64_scan 3 (v mod 4) 0 cs)
             else map_option ((#) (char_of (left * 64 + v))) (b64_scan 0 0 0 cs)))"

definition b64decode :: "string \<Rightarrow> string option" where
  "b64decode s = b64_scan 0 0 0 s"

section \<open>The round trip\<close>

lemma length_alphabet: "length b64_alphabet = 64"
  by (simp add: b64_alphabet_def)

lemma index_of_nth: "distinct ds \<Longrightarrow> n < length ds \<Longrightarrow> index_of (ds ! n) ds = Some n"
proof (induction ds arbitrary: n)
  case (Cons d ds)
  then show ?case by (cases n) auto
qed simp

lemma distinct_alphabet: "distinct b64_alphabet"
  by (simp add: b64_alphabet_def)

lemma b64_val_char [simp]: "n < 64 \<Longrightarrow> b64_val (b64_char n) = Some n"
  by (simp add: b64_val_def b64_char_def index_of_nth distinct_alphabet length_alphabet)

lemma b64_val_pad [simp]: "b64_val (CHR ''='') = None"
  by (simp add: b64_val_def b64_alphabet_def)

text \<open>The four values of a group are in range and put the three bytes together again.\<close>

lemma group_bounds:
  fixes x y z :: nat
  assumes "x < 256" and "y < 256" and "z < 256"
  shows "x div 4 < 64" and "x mod 4 * 16 + y div 16 < 64" and "y mod 16 * 4 + z div 64 < 64"
    and "z mod 64 < 64" and "x mod 4 * 16 < 64" and "y mod 16 * 4 < 64"
  using assms by linarith+

lemma group_join:
  fixes y :: nat
  assumes "y < 256"
  shows "y div 16 div 16 = 0" and "y div 16 mod 16 * 16 + y mod 16 = y"
    and "y div 64 div 4 = 0" and "y div 64 mod 4 * 64 + y mod 64 = y"
proof -
  have q: "y div 16 < 16" "y div 64 < 4" using assms by linarith+
  then show "y div 16 div 16 = 0" "y div 64 div 4 = 0" by simp_all
  show "y div 16 mod 16 * 16 + y mod 16 = y" "y div 64 mod 4 * 64 + y mod 64 = y"
    using q by simp_all
qed

lemmas b64_bytes [simp] =
  group_bounds [of "byte a" "byte b" "byte c" for a b c, OF nat_of_char_less_256 nat_of_char_less_256 nat_of_char_less_256]
lemmas b64_join [simp] = group_join [of "byte a" for a, OF nat_of_char_less_256]

lemma b64_char_not_pad [simp]: "n < 64 \<Longrightarrow> b64_char n \<noteq> CHR ''=''"
  using b64_val_char b64_val_pad by (metis option.distinct(1))

lemma b64decode_encode: "b64decode (b64encode s) = Some s"
  unfolding b64decode_def by (induction s rule: b64encode.induct) simp_all

lemma b64encode_Nil: "b64encode s = [] \<longleftrightarrow> s = []"
  by (cases s rule: b64encode.cases) simp_all

end
