(* ===== verification/PodBuilder.thy ===== *)
theory PodBuilder
  imports System Base64
begin

text \<open>
  \<open>dispatcher/pod_builder.py\<close>: building the pod of a submitted bot. The two waits may not
  return, so the steps from the wait on are partial: \<open>None\<close> is a handler that never ends.
  \<open>POD_TIMEOUT\<close> comes from the environment and is an argument (milliseconds).
\<close>

section \<open>The handler\<close>

text \<open>\<open>_fetch_bot_and_runtime\<close>\<close>

definition fetch_bot_and_runtime :: "BuildPodMessage \<Rightarrow> ('w, (Bot \<times> Runtime) option) prog" where
  "fetch_bot_and_runtime msg =
     (case map_of RUNTIMES (bp_runtime_key msg) of
        None \<Rightarrow> ret None
      | Some runtime \<Rightarrow>
          bindP (db_query (by_ids [bp_bot_id msg])) (\<lambda>bot_map.
            case bot_map (bp_bot_id msg) of
              None \<Rightarrow> ret None
            | Some b \<Rightarrow> ret (Some (b, runtime))))"

text \<open>\<open>_build_and_wait\<close>, on a thread of the executor.\<close>

definition build_and_wait ::
  "'w env \<Rightarrow> int \<Rightarrow> string \<Rightarrow> string \<Rightarrow> string \<Rightarrow> int \<Rightarrow> 'w \<Rightarrow> (unit res \<times> 'w) option"
where
  "build_and_wait E pod_timeout pname img source_b64 bot_id w =
     (case create_namespaced_pod E ''bots'' (build_bot_pod_manifest pname img source_b64 bot_id) w of
        (Inl e, w1) \<Rightarrow> Some (Inl e, w1)
      | (Inr _, w1) \<Rightarrow>
          (case wait_for_pod_ready E pname pod_timeout w1 of
             None \<Rightarrow> None
           | Some (Inl e, w2) \<Rightarrow> Some (Inl e, w2)
           | Some (Inr _, w2) \<Rightarrow>
               (case get_pod_ip E pname w2 of
                  (Inl e, w3) \<Rightarrow> Some (Inl e, w3)
                | (Inr ip, w3) \<Rightarrow> wait_for_http_ready E ip pod_timeout w3)))"

definition bot_source_b64 :: "Bot \<Rightarrow> string" where
  "bot_source_b64 b = b64encode (case b_source b of None \<Rightarrow> [] | Some src \<Rightarrow> src)"

definition register_and_notify :: "'w outside \<Rightarrow> Bot \<Rightarrow> ('w, unit) prog" where
  "register_and_notify W b =
     seqP (db_write (\<lambda>d. (Inr (), set_pod_ready (b_id b) (pod_name (b_id b)) d)))
       (publish W POD_READY_QUEUE (dump_ready (o_pydantic W) \<lparr>pr_bot_id = b_id b\<rparr>))"

definition build_register_and_notify ::
  "'w outside \<Rightarrow> int \<Rightarrow> Bot \<Rightarrow> Runtime \<Rightarrow> 'w sys \<Rightarrow> (unit res \<times> 'w sys) option"
where
  "build_register_and_notify W pod_timeout b runtime s =
     (case build_and_wait (o_env W) pod_timeout (pod_name (b_id b)) (rt_image runtime)
             (bot_source_b64 b) (b_id b) (s_world s) of
        None \<Rightarrow> None
      | Some (Inl e, w) \<Rightarrow> Some (Inl e, s\<lparr>s_world := w\<rparr>)
      | Some (Inr _, w) \<Rightarrow> Some (register_and_notify W b (s\<lparr>s_world := w\<rparr>)))"

definition handle_build_pod_message ::
  "'w outside \<Rightarrow> int \<Rightarrow> string \<Rightarrow> 'w sys \<Rightarrow> (unit res \<times> 'w sys) option"
where
  "handle_build_pod_message W pod_timeout body s =
     (case parse_amqp_message (validate_build (o_pydantic W)) body of
        None \<Rightarrow> Some (ret () s)
      | Some msg \<Rightarrow>
          (case fetch_bot_and_runtime msg s of
             (Inl e, s1) \<Rightarrow> Some (Inl e, s1)
           | (Inr None, s1) \<Rightarrow> Some (Inr (), s1)
           | (Inr (Some (b, runtime)), s1) \<Rightarrow> build_register_and_notify W pod_timeout b runtime s1))"

section \<open>Looking up the bot\<close>

lemma by_ids_lookup:
  assumes "db_ok db" and "by_ids ids db = Inr f" and "i \<in> set ids"
  shows "by_id i db = Inr (f i)"
proof -
  let ?bs = "filter (\<lambda>b. b_id b \<in> set ids) (bots db)"
  have d: "distinct (map b_id ?bs)" using db_okD(1) [OF assms(1)] by (simp add: distinct_map_filter)
  have keys: "map fst (map (\<lambda>b. (b_id b, b)) ?bs) = map b_id ?bs" by simp
  have all: "list_all pg_int4 ids" and f: "f = map_of (rev (map (\<lambda>b. (b_id b, b)) ?bs))"
    using assms(2) by (simp_all add: by_ids_def split: if_splits)
  have M: "f i = map_of (map (\<lambda>b. (b_id b, b)) ?bs) i"
    unfolding f
    by (subst map_of_inject_set [THEN iffD2, of "rev xs" xs for xs])
      (use d in \<open>simp_all only: keys rev_map [symmetric] distinct_rev set_rev\<close>)
  show ?thesis
  proof (cases rule: by_id_cases [OF assms(1), of i])
    case (1 b)
    then have "(i, b) \<in> set (map (\<lambda>b. (b_id b, b)) ?bs)" using assms(3) by auto
    then have "map_of (map (\<lambda>b. (b_id b, b)) ?bs) i = Some b"
      by (rule map_of_is_SomeI [rotated]) (use d in \<open>simp only: keys\<close>)
    with M 1 show ?thesis by simp
  next
    case 2
    then have "map_of (map (\<lambda>b. (b_id b, b)) ?bs) i = None"
      by (auto simp: map_of_eq_None_iff bot_ids_def)
    with M 2 show ?thesis by simp
  next
    case 3
    with all assms(3) show ?thesis by (auto simp: list_all_iff)
  qed
qed

lemma by_ids_known:
  assumes "db_ok db" and "set ids \<subseteq> bot_ids db"
  shows "\<exists>f. by_ids ids db = Inr f"
  using db_ok_int4(1) [OF assms(1)] assms(2) by (auto simp: by_ids_def list_all_iff)

lemma by_ids_bot:
  assumes "db_ok db" and "by_ids ids db = Inr f" and "b \<in> set (bots db)" and "b_id b \<in> set ids"
  shows "f (b_id b) = Some b"
  using by_ids_lookup [OF assms(1,2,4)] by_id_bot [OF assms(1,3)] by simp

lemma by_ids_Some:
  assumes "by_ids ids db = Inr f" and "f i = Some b"
  shows "b \<in> set (bots db)" and "b_id b = i"
proof -
  have "f = map_of (rev (map (\<lambda>b. (b_id b, b)) (filter (\<lambda>b. b_id b \<in> set ids) (bots db))))"
    using assms(1) by (simp add: by_ids_def split: if_splits)
  with map_of_SomeD [OF assms(2) [unfolded this]] show "b \<in> set (bots db)" "b_id b = i" by auto
qed

lemma fetch_bot_and_runtime_cases:
  obtains (failed) e where "fetch_bot_and_runtime msg s = (Inl e, s)"
  | (unknown) "fetch_bot_and_runtime msg s = (Inr None, s)"
  | (found) b runtime where "fetch_bot_and_runtime msg s = (Inr (Some (b, runtime)), s)"
      "b \<in> set (bots (s_db s))" "b_id b = bp_bot_id msg" "map_of RUNTIMES (bp_runtime_key msg) = Some runtime"
proof (cases "map_of RUNTIMES (bp_runtime_key msg)")
  case None
  then show ?thesis by (intro unknown) (simp add: fetch_bot_and_runtime_def ret_def)
next
  case (Some runtime)
  show ?thesis
  proof (cases "by_ids [bp_bot_id msg] (s_db s)")
    case (Inl e)
    with Some show ?thesis by (intro failed [of e]) (simp add: fetch_bot_and_runtime_def prog_simps)
  next
    case (Inr f)
    show ?thesis
    proof (cases "f (bp_bot_id msg)")
      case None
      with Some Inr show ?thesis by (intro unknown) (simp add: fetch_bot_and_runtime_def prog_simps)
    next
      case b: (Some b)
      with Some Inr by_ids_Some [OF Inr b] show ?thesis
        by (intro found [of b runtime]) (simp_all add: fetch_bot_and_runtime_def prog_simps)
    qed
  qed
qed

section \<open>When the handler ends\<close>

text \<open>With calls that return in time it ends in time: two waits, each over its deadline by one turn.\<close>

lemma build_and_wait_elapsed:
  assumes P: "prompt_env E clk lat" and t: "0 \<le> pod_timeout"
  shows "\<exists>r w'. build_and_wait E pod_timeout pname img src i w = Some (r, w') \<and>
    clk w' \<le> clk w + 2 * pod_timeout + 2 * POLL_INTERVAL + 10 * lat"
proof -
  obtain c w1 where c: "create_namespaced_pod E ''bots'' (build_bot_pod_manifest pname img src i) w = (c, w1)" by force
  obtain r w2 where r: "wait_for_pod_ready E pname pod_timeout w1 = Some (r, w2)"
    "clk w2 \<le> clk w1 + pod_timeout + POLL_INTERVAL + 4 * lat"
    using wait_for_pod_ready_elapsed [OF P t] by blast
  obtain g w3 where g: "get_pod_ip E pname w2 = (g, w3)" by force
  have ip: "clk w3 \<le> clk w2 + lat"
  proof -
    obtain x v where "read_namespaced_pod E pname NAMESPACE w2 = (x, v)" by force
    with prompt_envD(3) [OF P this] g show ?thesis
      by (auto simp: get_pod_ip_def split: sum.splits option.splits if_splits)
  qed
  have bound: "clk w1 \<le> clk w + lat" "0 \<le> lat" "0 \<le> POLL_INTERVAL"
    using prompt_envD(2,6) [OF P] c by (auto simp: POLL_INTERVAL_def)
  show ?thesis
  proof (cases "\<exists>ip. c = Inr () \<and> r = Inr () \<and> g = Inr ip")
    case True
    then obtain a where a: "c = Inr ()" "r = Inr ()" "g = Inr a" by blast
    obtain x w4 where "wait_for_http_ready E a pod_timeout w3 = Some (x, w4)"
      "clk w4 \<le> clk w3 + pod_timeout + POLL_INTERVAL + 4 * lat"
      using wait_for_http_ready_elapsed [OF P t] by blast
    with a c r g ip bound show ?thesis by (simp add: build_and_wait_def)
  next
    case False
    with c r g ip bound t show ?thesis
      by (cases c; cases r; cases g) (simp_all add: build_and_wait_def)
  qed
qed

lemma handle_build_pod_message_elapsed:
  assumes P: "prompt_env (o_env W) clk lat" and t: "0 \<le> pod_timeout"
  shows "\<exists>r s1. handle_build_pod_message W pod_timeout body s = Some (r, s1) \<and>
    clk (s_world s1) \<le> clk (s_world s) + 2 * pod_timeout + 2 * POLL_INTERVAL + 10 * lat"
proof -
  have here: "clk (s_world s) \<le> clk (s_world s) + 2 * pod_timeout + 2 * POLL_INTERVAL + 10 * lat"
    using t prompt_envD(6) [OF P] by (simp add: POLL_INTERVAL_def)
  show ?thesis
  proof (cases "validate_build (o_pydantic W) body")
    case None
    with here show ?thesis by (simp add: handle_build_pod_message_def parse_amqp_message_def ret_def)
  next
    case (Some msg)
    show ?thesis
    proof (cases rule: fetch_bot_and_runtime_cases [of msg s])
      case (found b runtime)
      obtain x w where "build_and_wait (o_env W) pod_timeout (pod_name (b_id b)) (rt_image runtime)
          (bot_source_b64 b) (b_id b) (s_world s) = Some (x, w)"
        "clk w \<le> clk (s_world s) + 2 * pod_timeout + 2 * POLL_INTERVAL + 10 * lat"
        using build_and_wait_elapsed [OF P t] by blast
      with Some found(1) show ?thesis
        by (cases x) (auto simp: handle_build_pod_message_def parse_amqp_message_def
            build_register_and_notify_def register_and_notify_def prog_simps split: option.split)
    qed (use Some here in \<open>simp_all add: handle_build_pod_message_def parse_amqp_message_def\<close>)
  qed
qed

text \<open>Without, it ends unless a health request does not return.\<close>

lemma wait_for_pod_ready_ends: "clock_ok E clk \<Longrightarrow> \<exists>r w'. wait_for_pod_ready E p t w = Some (r, w')"
  using pod_ready_loop_ends by (fastforce simp: wait_for_pod_ready_def split: prod.split)

lemma build_and_wait_None_iff:
  assumes C: "clock_ok E clk"
  shows "build_and_wait E pod_timeout pname img src i w = None \<longleftrightarrow>
    (\<exists>w1 w2 ip w3. create_namespaced_pod E ''bots'' (build_bot_pod_manifest pname img src i) w = (Inr (), w1) \<and>
       wait_for_pod_ready E pname pod_timeout w1 = Some (Inr (), w2) \<and> get_pod_ip E pname w2 = (Inr ip, w3) \<and>
       probe_hangs E ip (clk w3 + pod_timeout) (snd (monotonic E w3)))"
proof -
  obtain c w1 where c: "create_namespaced_pod E ''bots'' (build_bot_pod_manifest pname img src i) w = (c, w1)" by force
  obtain r w2 where r: "wait_for_pod_ready E pname pod_timeout w1 = Some (r, w2)"
    using wait_for_pod_ready_ends [OF C] by blast
  obtain g w3 where g: "get_pod_ip E pname w2 = (g, w3)" by force
  obtain now v where m: "monotonic E w3 = (now, v)" by force
  then have "now = clk w3" using clock_okD(1) [OF C] by blast
  with m have "wait_for_http_ready E ip pod_timeout w3 = None \<longleftrightarrow>
      probe_hangs E ip (clk w3 + pod_timeout) (snd (monotonic E w3))" for ip
    by (simp add: wait_for_http_ready_def http_ready_loop_None_iff [OF C])
  with c r g show ?thesis
    by (cases c; cases r; cases g) (simp_all add: build_and_wait_def)
qed

lemma handle_build_pod_message_None_iff:
  assumes C: "clock_ok (o_env W) clk"
  shows "handle_build_pod_message W pod_timeout body s = None \<longleftrightarrow>
    (\<exists>msg b runtime. validate_build (o_pydantic W) body = Some msg \<and>
       fetch_bot_and_runtime msg s = (Inr (Some (b, runtime)), s) \<and>
       build_and_wait (o_env W) pod_timeout (pod_name (b_id b)) (rt_image runtime)
         (bot_source_b64 b) (b_id b) (s_world s) = None)"
proof (cases "validate_build (o_pydantic W) body")
  case None
  then show ?thesis by (simp add: handle_build_pod_message_def parse_amqp_message_def ret_def)
next
  case (Some msg)
  show ?thesis
  proof (cases rule: fetch_bot_and_runtime_cases [of msg s])
    case (found b runtime)
    with Some show ?thesis
      by (auto simp: handle_build_pod_message_def parse_amqp_message_def build_register_and_notify_def
          split: option.splits sum.splits)
  qed (use Some in \<open>auto simp: handle_build_pod_message_def parse_amqp_message_def\<close>)
qed

section \<open>What it leaves behind\<close>

text \<open>
  The four ways it ends: nothing to do, the pod failed, the pod is up and the scheduler told,
  the pod is up and the broker failed to tell.
\<close>

lemma handle_build_pod_message_cases:
  assumes "handle_build_pod_message W pod_timeout body s = Some (r, s1)"
  obtains (ignored) "r = Inr ()" "s1 = s"
  | (build_failed) e w where "r = Inl e" "s1 = s\<lparr>s_world := w\<rparr>"
  | (ready) b w where "b \<in> set (bots (s_db s))" "r = Inr ()"
      "s1 = s\<lparr>s_world := w, s_db := set_pod_ready (b_id b) (pod_name (b_id b)) (s_db s),
              s_tried := s_tried s + 1,
              s_log := s_log s @ [(POD_READY_QUEUE, dump_ready (o_pydantic W) \<lparr>pr_bot_id = b_id b\<rparr>)]\<rparr>"
  | (broker_failed) b w e where "b \<in> set (bots (s_db s))" "r = Inl e"
      "s1 = s\<lparr>s_world := w, s_db := set_pod_ready (b_id b) (pod_name (b_id b)) (s_db s),
              s_tried := s_tried s + 1\<rparr>"
proof (cases "validate_build (o_pydantic W) body")
  case None
  with assms show ?thesis
    by (auto simp: handle_build_pod_message_def parse_amqp_message_def ret_def intro: ignored)
next
  case (Some msg)
  show ?thesis
  proof (cases rule: fetch_bot_and_runtime_cases [of msg s])
    case (failed e)
    with Some assms have "r = Inl e" "s1 = s"
      by (simp_all add: handle_build_pod_message_def parse_amqp_message_def)
    then show ?thesis using build_failed [of e "s_world s"] by simp
  next
    case unknown
    with Some assms show ?thesis
      by (auto simp: handle_build_pod_message_def parse_amqp_message_def intro: ignored)
  next
    case f: (found b runtime)
    note b = f(2)
    from f(1) Some assms have "build_register_and_notify W pod_timeout b runtime s = Some (r, s1)"
      by (simp add: handle_build_pod_message_def parse_amqp_message_def)
    with b show ?thesis
      by (auto simp: build_register_and_notify_def register_and_notify_def prog_simps
          split: option.splits sum.splits prod.splits
          intro: build_failed ready broker_failed)
  qed
qed

text \<open>The only message names the bot of the build message.\<close>

lemma handle_build_pod_message_sends:
  assumes "handle_build_pod_message W pod_timeout body s = Some (r, t)" and "s_log t \<noteq> s_log s"
  obtains msg where "validate_build (o_pydantic W) body = Some msg"
    and "s_log t = s_log s @ [(POD_READY_QUEUE, dump_ready (o_pydantic W) \<lparr>pr_bot_id = bp_bot_id msg\<rparr>)]"
proof -
  obtain msg where msg: "validate_build (o_pydantic W) body = Some msg"
    using assms by (cases "validate_build (o_pydantic W) body")
      (auto simp: handle_build_pod_message_def parse_amqp_message_def ret_def)
  obtain b runtime where f: "fetch_bot_and_runtime msg s = (Inr (Some (b, runtime)), s)"
    and b: "b_id b = bp_bot_id msg"
    using assms msg by (cases rule: fetch_bot_and_runtime_cases [of msg s])
      (auto simp: handle_build_pod_message_def parse_amqp_message_def)
  with assms msg have "s_log t =
      s_log s @ [(POD_READY_QUEUE, dump_ready (o_pydantic W) \<lparr>pr_bot_id = bp_bot_id msg\<rparr>)]"
    by (auto simp: handle_build_pod_message_def parse_amqp_message_def
        build_register_and_notify_def register_and_notify_def prog_simps
        split: option.splits sum.splits prod.splits)
  with msg show ?thesis by (rule that)
qed

text \<open>The tables change only when the pod came up.\<close>

lemma handle_build_pod_message_changed:
  assumes "handle_build_pod_message W pod_timeout body s = Some (r, t)" and "s_db t \<noteq> s_db s"
  obtains msg b runtime w where "validate_build (o_pydantic W) body = Some msg"
    and "b \<in> set (bots (s_db s))" and "b_id b = bp_bot_id msg"
    and "map_of RUNTIMES (bp_runtime_key msg) = Some runtime"
    and "build_and_wait (o_env W) pod_timeout (pod_name (b_id b)) (rt_image runtime)
        (bot_source_b64 b) (b_id b) (s_world s) = Some (Inr (), w)"
    and "s_db t = set_pod_ready (b_id b) (pod_name (b_id b)) (s_db s)" and "s_world t = w"
proof -
  obtain msg where msg: "validate_build (o_pydantic W) body = Some msg"
    using assms by (cases "validate_build (o_pydantic W) body")
      (auto simp: handle_build_pod_message_def parse_amqp_message_def ret_def)
  obtain b runtime where f: "fetch_bot_and_runtime msg s = (Inr (Some (b, runtime)), s)"
    and b: "b \<in> set (bots (s_db s))" "b_id b = bp_bot_id msg" "map_of RUNTIMES (bp_runtime_key msg) = Some runtime"
    using assms msg by (cases rule: fetch_bot_and_runtime_cases [of msg s])
      (auto simp: handle_build_pod_message_def parse_amqp_message_def)
  have run: "build_register_and_notify W pod_timeout b runtime s = Some (r, t)"
    using assms(1) msg f by (simp add: handle_build_pod_message_def parse_amqp_message_def)
  then obtain x w where x: "build_and_wait (o_env W) pod_timeout (pod_name (b_id b)) (rt_image runtime)
        (bot_source_b64 b) (b_id b) (s_world s) = Some (x, w)"
    by (auto simp: build_register_and_notify_def split: option.splits)
  have ok: "x = Inr ()"
    using run x assms(2) by (cases x) (auto simp: build_register_and_notify_def)
  have "s_db t = set_pod_ready (b_id b) (pod_name (b_id b)) (s_db s)" "s_world t = w"
    using run x ok by (auto simp: build_register_and_notify_def register_and_notify_def prog_simps
        split: option.splits)
  with msg b x ok show ?thesis by (intro that [of msg b runtime w]) simp_all
qed

text \<open>What has happened in the cluster when the build returns without an exception.\<close>

lemma build_and_wait_success:
  assumes "build_and_wait E pod_timeout pname img src i w = Some (Inr (), w')"
  shows "\<exists>w1 u pod w2 pod' ip w3 v answer.
    create_namespaced_pod E ''bots'' (build_bot_pod_manifest pname img src i) w = (Inr (), w1) \<and>
    (poll_call E)\<^sup>*\<^sup>* w1 u \<and> read_namespaced_pod E pname NAMESPACE u = (Inr pod, w2) \<and>
    phase pod = Some ''Running'' \<and> (\<exists>rest. container_statuses pod = Some (True # rest)) \<and>
    read_namespaced_pod E pname NAMESPACE w2 = (Inr pod', w3) \<and> pod_ip pod' = Some ip \<and> ip \<noteq> [] \<and>
    (poll_call E)\<^sup>*\<^sup>* w3 v \<and> urlopen_blocking E (health_request ip) v = Some (Inr answer, w')"
proof -
  obtain w1 where c: "create_namespaced_pod E ''bots'' (build_bot_pod_manifest pname img src i) w = (Inr (), w1)"
    using assms by (auto simp: build_and_wait_def split: prod.splits sum.splits)
  obtain w2 where r: "wait_for_pod_ready E pname pod_timeout w1 = Some (Inr (), w2)"
    using assms c by (auto simp: build_and_wait_def split: option.splits prod.splits sum.splits)
  obtain ip w3 where g: "get_pod_ip E pname w2 = (Inr ip, w3)"
    and h: "wait_for_http_ready E ip pod_timeout w3 = Some (Inr (), w')"
    using assms c r by (auto simp: build_and_wait_def split: prod.splits sum.splits)
  obtain u pod where "(poll_call E)\<^sup>*\<^sup>* w1 u" "read_namespaced_pod E pname NAMESPACE u = (Inr pod, w2)"
    "phase pod = Some ''Running''" "\<exists>rest. container_statuses pod = Some (True # rest)"
    by (rule wait_for_pod_ready_success [OF r])
  moreover obtain pod' where "read_namespaced_pod E pname NAMESPACE w2 = (Inr pod', w3)" "pod_ip pod' = Some ip" "ip \<noteq> []"
    by (rule get_pod_ip_success [OF g])
  moreover obtain v answer where "(poll_call E)\<^sup>*\<^sup>* w3 v" "urlopen_blocking E (health_request ip) v = Some (Inr answer, w')"
    by (rule wait_for_http_ready_success [OF h])
  ultimately show ?thesis using c by blast
qed

end
