(* ===== verification/OndeckHandler.thy ===== *)
theory OndeckHandler
  imports System MatchRunner PodBuilder
begin

text \<open>
  \<open>dispatcher/ondeck_handler.py\<close>: playing one scheduled match and recording it. Publishing the
  result to the dashboards is best effort; every other exception leaves the handler.
\<close>

section \<open>The handler\<close>

definition fetch_match_bots :: "int \<Rightarrow> int \<Rightarrow> ('w, (string \<times> string) option) prog" where
  "fetch_match_bots x y =
     bindP (db_query (by_ids [x, y])) (\<lambda>bot_map.
       case (bot_map x, bot_map y) of
         (Some bx, Some bo) \<Rightarrow>
           (case (b_pod_name bx, b_pod_name bo) of
              (Some px, Some po) \<Rightarrow> ret (Some (px, po))
            | _ \<Rightarrow> ret None)
       | _ \<Rightarrow> ret None)"

definition publish_match_finished :: "'w outside \<Rightarrow> MatchOutcome \<Rightarrow> ('w, unit) prog" where
  "publish_match_finished W result =
     publish_fanout W (event_body EVENT_MATCH_FINISHED [(''result'', JStr (outcome_value result))])"

text \<open>A match without a result would raise \<open>AttributeError\<close> when it is recorded.\<close>

definition record_result ::
  "'w outside \<Rightarrow> MatchOndeck \<Rightarrow> MatchResult option \<Rightarrow> ('w, MatchResult) prog"
where
  "record_result W msg result s =
     (case result of
        None \<Rightarrow> raise AttributeError s
      | Some r \<Rightarrow>
          seqP (db_write (record_match (mo_bot_x_id msg) (mo_bot_o_id msg) r
                            (mo_correlation_id msg) (o_now W (s_world s))))
            (ret r) s)"

definition handle_match_ondeck :: "'w outside \<Rightarrow> string \<Rightarrow> ('w, unit) prog" where
  "handle_match_ondeck W body =
     (case validate_ondeck (o_pydantic W) body of
        None \<Rightarrow> ret ()
      | Some msg \<Rightarrow>
          bindP (fetch_match_bots (mo_bot_x_id msg) (mo_bot_o_id msg)) (\<lambda>bots_result.
            case bots_result of
              None \<Rightarrow> ret ()
            | Some (px, po) \<Rightarrow>
                bindP (in_world (run_match_from_pods (o_env W) px po TURN_TIMEOUT)) (\<lambda>result.
                bindP (record_result W msg result) (\<lambda>r.
                  catch (publish_match_finished W (mr_result r)) (\<lambda>_. ret ())))))"

section \<open>How it ends\<close>

lemma fetch_match_bots_run:
  assumes "db_ok (s_db s)" and "bx \<in> set (bots (s_db s))" and "bo \<in> set (bots (s_db s))"
    and "b_pod_name bx = Some px" and "b_pod_name bo = Some po"
  shows "fetch_match_bots (b_id bx) (b_id bo) s = (Inr (Some (px, po)), s)"
proof -
  have "set [b_id bx, b_id bo] \<subseteq> bot_ids (s_db s)" using assms(2,3) by (simp add: bot_ids_def)
  then obtain f where f: "by_ids [b_id bx, b_id bo] (s_db s) = Inr f" using by_ids_known [OF assms(1)] by blast
  have "f (b_id bx) = Some bx" "f (b_id bo) = Some bo"
    using by_ids_bot [OF assms(1) f assms(2)] by_ids_bot [OF assms(1) f assms(3)] by simp_all
  with assms(4,5) f show ?thesis by (simp add: fetch_match_bots_def prog_simps)
qed

lemma fetch_match_bots_state: "snd (fetch_match_bots x y s) = s"
  by (auto simp: fetch_match_bots_def prog_simps split: option.split prod.split sum.split)

text \<open>
  After the handler either the database holds one more match, played by the rules, with its
  moves, or nothing but the match sequence has changed.
\<close>

lemma handle_match_ondeck_cases:
  assumes "handle_match_ondeck W body s = (r, s1)"
  obtains (ignored) "r = Inr ()" "s1 = s"
  | (match_failed) e w where "r = Inl e" "s1 = s\<lparr>s_world := w\<rparr>"
  | (record_failed) e msg mr w d where "r = Inl e" "validate_ondeck (o_pydantic W) body = Some msg"
      "record_match (mo_bot_x_id msg) (mo_bot_o_id msg) mr (mo_correlation_id msg) (o_now W w) (s_db s) = (Inl e, d)"
      "s1 = s\<lparr>s_world := w, s_db := d\<rparr>"
  | (recorded) msg mr w d where "r = Inr ()" "validate_ondeck (o_pydantic W) body = Some msg"
      "transcript_from 1 EMPTY_BOARD (mr_moves mr) (mr_result mr)"
      "record_match (mo_bot_x_id msg) (mo_bot_o_id msg) mr (mo_correlation_id msg) (o_now W w) (s_db s) = (Inr (), d)"
      "s_db s1 = d" "s_log s1 = s_log s" "s_world s1 = w"
proof (cases "validate_ondeck (o_pydantic W) body")
  case None
  with assms show ?thesis by (auto simp: handle_match_ondeck_def ret_def intro: ignored)
next
  case (Some msg)
  obtain fr where fr: "fetch_match_bots (mo_bot_x_id msg) (mo_bot_o_id msg) s = (fr, s)"
    by (metis fetch_match_bots_state prod.collapse)
  show ?thesis
  proof (cases fr)
    case (Inl e)
    with Some fr assms have "r = Inl e" "s1 = s" by (simp_all add: handle_match_ondeck_def bindP_def)
    then show ?thesis using match_failed [of e "s_world s"] by simp
  next
    case fetched: (Inr br)
    note br = fr [unfolded fetched]
    show ?thesis
    proof (cases br)
      case None
      with Some br assms show ?thesis
        by (auto simp: handle_match_ondeck_def bindP_def ret_def intro: ignored)
    next
      case (Some pp)
      obtain px po where pp: "pp = (px, po)" by (cases pp)
      obtain res w where run: "run_match_from_pods (o_env W) px po TURN_TIMEOUT (s_world s) = (res, w)"
        by force
      show ?thesis
      proof (cases res)
        case (Inl e)
        with \<open>validate_ondeck (o_pydantic W) body = Some msg\<close> br \<open>br = Some pp\<close> pp run assms
        show ?thesis
          by (auto simp: handle_match_ondeck_def bindP_def in_world_def intro: match_failed)
      next
        case (Inr opt)
        then obtain mr where mr: "opt = Some mr" "transcript_from 1 EMPTY_BOARD (mr_moves mr) (mr_result mr)"
          using run_match_transcript run by fastforce
        obtain rr d where rec: "record_match (mo_bot_x_id msg) (mo_bot_o_id msg) mr
            (mo_correlation_id msg) (o_now W w) (s_db s) = (rr, d)"
          by force
        show ?thesis
        proof (cases rr)
          case (Inl e)
          with \<open>validate_ondeck (o_pydantic W) body = Some msg\<close> br \<open>br = Some pp\<close> pp run assms mr(1)
            \<open>res = Inr opt\<close> rec
          show ?thesis
            by (auto simp: handle_match_ondeck_def record_result_def prog_simps intro: record_failed)
        next
          case (Inr u)
          with \<open>validate_ondeck (o_pydantic W) body = Some msg\<close> br \<open>br = Some pp\<close> pp run assms mr
            \<open>res = Inr opt\<close> rec
          show ?thesis
            by (auto simp: handle_match_ondeck_def record_result_def publish_match_finished_def prog_simps
                split: option.splits intro!: recorded)
        qed
      qed
    qed
  qed
qed

end
