(* ===== verification/Pipeline.thy ===== *)
theory Pipeline
  imports Transition Submit Scheduler OndeckHandler
begin

text \<open>
  The services together: a step relation whose steps are a submission, one message handled by
  the pod builder, the scheduler or the match runner, and the outside world moving by itself,
  in any order. \<open>pipe_ok\<close> is the invariant that ties the tables to the messages; the facts
  about reachable states rest on the interpretation of \<open>transition_system\<close>.
\<close>


section \<open>Steps\<close>

inductive pipe_step ::
  "'w outside \<Rightarrow> ast_parser \<Rightarrow> int \<Rightarrow> 'w sys \<Rightarrow> 'w sys \<Rightarrow> bool"
  for W :: "'w outside" and ast_parse :: ast_parser and pod_timeout :: int
where
  submit: "handle_submission W ast_parse src cookie s = (p, t) \<Longrightarrow> pipe_step W ast_parse pod_timeout s t"
| build: "take_one BUILD_POD_QUEUE s = Some (body, s1) \<Longrightarrow>
     handle_build_pod_message W pod_timeout body s1 = Some (r, t) \<Longrightarrow>
     pipe_step W ast_parse pod_timeout s t"
| schedule: "take_one POD_READY_QUEUE s = Some (body, s1) \<Longrightarrow>
     handle_pod_ready_message W body s1 = (r, t) \<Longrightarrow> pipe_step W ast_parse pod_timeout s t"
| ondeck: "take_one MATCH_ONDECK_QUEUE s = Some (body, s1) \<Longrightarrow>
     handle_match_ondeck W body s1 = (r, t) \<Longrightarrow> pipe_step W ast_parse pod_timeout s t"
| outside: "pipe_step W ast_parse pod_timeout s (s\<lparr>s_world := w\<rparr>)"

inductive_cases pipe_stepE: "pipe_step W ast_parse pod_timeout s t"

definition start_state :: "'w outside \<Rightarrow> 'w sys \<Rightarrow> bool" where
  "start_state W s \<longleftrightarrow> pydantic_ok (o_pydantic W) \<and> s_db s = empty_db \<and> s_log s = [] \<and>
     s_taken s = (\<lambda>_. 0)"

section \<open>The invariant\<close>

text \<open>A ready bot has its pod, and no other bot has one.\<close>

definition pods_ok :: "db \<Rightarrow> bool" where
  "pods_ok d \<longleftrightarrow> (\<forall>b \<in> set (bots d).
     b_pod_name b = (if b_pod_ready b then Some (pod_name (b_id b)) else None))"

text \<open>The columns of the moves of a match, and the game they must be.\<close>

definition stored_moves :: "db \<Rightarrow> int \<Rightarrow> (int \<times> int \<times> string \<times> string option) list" where
  "stored_moves d mid =
     map (\<lambda>v. (v_move_number v, v_bot_id v, v_board_state v, v_error v))
       (filter (\<lambda>v. v_match_id v = mid) (moves d))"

definition move_columns :: "int \<Rightarrow> int \<Rightarrow> Move \<Rightarrow> int \<times> int \<times> string \<times> string option" where
  "move_columns x y mv =
     (int (mv_number mv), if mv_player mv = ''x'' then x else y, mv_board mv,
      case mv_error mv of JStr s \<Rightarrow> Some s | _ \<Rightarrow> None)"

definition legal_match :: "db \<Rightarrow> Match \<Rightarrow> bool" where
  "legal_match d m \<longleftrightarrow>
     (\<exists>mvs r. transcript_from 1 EMPTY_BOARD mvs r \<and> m_result m = outcome_value r \<and>
        m_winner_id m = rightful_winner (m_bot_x_id m) (m_bot_o_id m) r \<and>
        stored_moves d (m_id m) = map (move_columns (m_bot_x_id m) (m_bot_o_id m)) mvs)"

text \<open>What a message of each queue says, which must be true of the tables.\<close>

definition msg_ok :: "'w outside \<Rightarrow> db \<Rightarrow> string \<times> string \<Rightarrow> bool" where
  "msg_ok W d m \<longleftrightarrow>
     (\<exists>i key. m = (BUILD_POD_QUEUE, dump_build (o_pydantic W) \<lparr>bp_bot_id = i, bp_runtime_key = key\<rparr>) \<and>
        i \<in> bot_ids d \<and> is_runtime key) \<or>
     (\<exists>i. m = (POD_READY_QUEUE, dump_ready (o_pydantic W) \<lparr>pr_bot_id = i\<rparr>) \<and> i \<in> ready_ids d) \<or>
     (\<exists>x y cid. m = (MATCH_ONDECK_QUEUE, dump_ondeck (o_pydantic W) (ondeck_message x y cid)) \<and>
        x \<in> ready_ids d \<and> y \<in> ready_ids d)"

definition pipe_ok :: "'w outside \<Rightarrow> 'w sys \<Rightarrow> bool" where
  "pipe_ok W s \<longleftrightarrow>
     pydantic_ok (o_pydantic W) \<and> db_ok (s_db s) \<and> names_ok (s_db s) \<and> pods_ok (s_db s) \<and>
     (\<forall>m \<in> set (s_log s). msg_ok W (s_db s) m) \<and>
     (\<forall>m \<in> set (matches (s_db s)). m_bot_x_id m \<in> ready_ids (s_db s) \<and>
        m_bot_o_id m \<in> ready_ids (s_db s) \<and> legal_match (s_db s) m)"

lemma msg_ok_mono:
  "msg_ok W d m \<Longrightarrow> bot_ids d \<subseteq> bot_ids d' \<Longrightarrow> ready_ids d \<subseteq> ready_ids d' \<Longrightarrow> msg_ok W d' m"
  unfolding msg_ok_def by blast

lemma msg_ok_ondeck:
  "x \<in> ready_ids d \<Longrightarrow> y \<in> ready_ids d \<Longrightarrow>
     msg_ok W d (MATCH_ONDECK_QUEUE, dump_ondeck (o_pydantic W) (ondeck_message x y cid))"
  unfolding msg_ok_def by blast

lemma start_state_ok: "start_state W s \<Longrightarrow> pipe_ok W s"
  by (simp add: start_state_def pipe_ok_def names_ok_def pods_ok_def empty_db_def db_ok_def seqs_ok_def columns_ok_def)

lemma pipe_ok_world:
  assumes "pipe_ok W s" and "s_db t = s_db s" and "s_log t = s_log s"
  shows "pipe_ok W t"
  using assms by (simp add: pipe_ok_def)

lemma pipe_ok_taken: "pipe_ok W s \<Longrightarrow> take_one q s = Some (b, s1) \<Longrightarrow> pipe_ok W s1"
  using take_one_Some(2) [of q s b s1] by (simp add: pipe_ok_world)

lemma legal_match_same:
  "legal_match d m \<Longrightarrow> moves d' = moves d \<Longrightarrow> legal_match d' m"
  by (simp add: legal_match_def stored_moves_def)

text \<open>A state in which only bots were added or became ready.\<close>

lemma pipe_ok_bots:
  assumes ok: "pipe_ok W s"
    and d: "db_ok (s_db t)" "names_ok (s_db t)" "pods_ok (s_db t)"
    and m: "matches (s_db t) = matches (s_db s)" "moves (s_db t) = moves (s_db s)"
    and ids: "bot_ids (s_db s) \<subseteq> bot_ids (s_db t)" "ready_ids (s_db s) \<subseteq> ready_ids (s_db t)"
    and log: "s_log t = s_log s @ ms" "\<forall>m \<in> set ms. msg_ok W (s_db t) m"
  shows "pipe_ok W t"
  using ok d m log ids msg_ok_mono [OF _ ids, of W] legal_match_same [OF _ m(2)]
  unfolding pipe_ok_def by (auto simp: m log(1))

section \<open>Every step keeps it\<close>

lemma insert_version_ok:
  assumes "db_ok (s_db s)" and "names_ok (s_db s)" and "pods_ok (s_db s)"
    and "\<not> reserved_version_suffix n" and "insert_version W n tok key src s = (r, d)"
  shows "db_ok d" and "names_ok d" and "pods_ok d" and "matches d = matches (s_db s)"
    and "moves d = moves (s_db s)" and "bot_ids (s_db s) \<subseteq> bot_ids d"
    and "ready_ids (s_db s) \<subseteq> ready_ids d"
    and "r = Inr b \<Longrightarrow> b_id b \<in> bot_ids d"
proof -
  have d: "d = snd (insert_version W n tok key src s)" and r: "r = fst (insert_version W n tok key src s)"
    using assms(5) by simp_all
  show "db_ok d" "names_ok d"
    unfolding d insert_version_def using create_bot_ok [OF assms(1)]
      create_bot_names_ok [OF assms(2) refl next_version_positive [OF assms(2)] assms(4)]
    by auto
  show "pods_ok d" "matches d = matches (s_db s)" "moves d = moves (s_db s)"
    using assms(3) by (auto simp: d insert_version_def create_bot_def Let_def pods_ok_def)
  show "bot_ids (s_db s) \<subseteq> bot_ids d" "ready_ids (s_db s) \<subseteq> ready_ids d"
    unfolding d insert_version_def using create_bot_grows by blast+
  show "r = Inr b \<Longrightarrow> b_id b \<in> bot_ids d"
    by (auto simp: d r insert_version_def create_bot_def Let_def bot_ids_def split: if_splits)
qed

lemma insert_version_world:
  "s_db s0 = s_db s \<Longrightarrow> s_world s0 = s_world s \<Longrightarrow>
     insert_version W n tok key src s0 = insert_version W n tok key src s"
  by (simp add: insert_version_def)

lemma submit_keeps_ok:
  assumes ok: "pipe_ok W s" and run: "handle_submission W p src cookie s = (r, t)"
  shows "pipe_ok W t"
  using run
proof (cases rule: handle_submission_cases)
  case rejected
  with ok show ?thesis by simp
next
  case (accepted n key)
  have inv: "db_ok (s_db s)" "names_ok (s_db s)" "pods_ok (s_db s)"
    using ok by (simp_all add: pipe_ok_def)
  from accepted(5) show ?thesis
  proof (cases rule: submit_bot_cases)
    case nothing
    with ok show ?thesis by (rule pipe_ok_world)
  next
    case (failed s0 tok e d)
    have "insert_version W n tok key src s = (Inl e, d)"
      using failed insert_version_world by metis
    note d = insert_version_ok [OF inv accepted(2) this]
    show ?thesis
      by (rule pipe_ok_bots [OF ok, where ms = "[]"]) (use failed d in simp_all)
  next
    case (inserted s0 tok b d ms)
    have "insert_version W n tok key src s = (Inr b, d)"
      using inserted insert_version_world by metis
    note d = insert_version_ok [OF inv accepted(2) this]
    have "\<forall>m \<in> set ms. msg_ok W d m"
      using inserted(5) d(8) [OF refl] accepted(3) by (auto simp: msg_ok_def)
    then show ?thesis
      by (intro pipe_ok_bots [OF ok, where ms = ms]) (use inserted d in simp_all)
  qed
qed

lemma set_pod_ready_pods_ok: "pods_ok d \<Longrightarrow> pods_ok (set_pod_ready i (pod_name i) d)"
  by (auto simp: pods_ok_def set_pod_ready_def mark_ready_def)

lemma build_keeps_ok:
  assumes ok: "pipe_ok W s" and run: "handle_build_pod_message W T body s = Some (r, t)"
  shows "pipe_ok W t"
proof -
  have inv: "db_ok (s_db s)" "names_ok (s_db s)" "pods_ok (s_db s)"
    using ok by (simp_all add: pipe_ok_def)
  have marked: "pipe_ok W u" if b: "b \<in> set (bots (s_db s))"
    and u: "s_db u = set_pod_ready (b_id b) (pod_name (b_id b)) (s_db s)" "s_log u = s_log s @ ms"
      "ms = [] \<or> ms = [(POD_READY_QUEUE, dump_ready (o_pydantic W) \<lparr>pr_bot_id = b_id b\<rparr>)]"
    for b u ms
  proof (rule pipe_ok_bots [OF ok, where ms = ms])
    have "b_id b \<in> bot_ids (s_db s)" using b by (simp add: bot_ids_def)
    then have "b_id b \<in> ready_ids (s_db u)" by (simp add: u(1) ready_ids_set_pod_ready)
    then show "\<forall>m \<in> set ms. msg_ok W (s_db u) m"
      using u(3) by (auto simp: msg_ok_def)
  qed (use inv u set_pod_ready_grows in
      \<open>simp_all add: set_pod_ready_ok set_pod_ready_names_ok set_pod_ready_pods_ok, simp_all add: set_pod_ready_def\<close>)
  from run show ?thesis
  proof (cases rule: handle_build_pod_message_cases)
    case ignored
    with ok show ?thesis by simp
  next
    case build_failed
    with ok show ?thesis by (auto intro: pipe_ok_world)
  next
    case (ready b w)
    then show ?thesis
      by (intro marked [of b t "[(POD_READY_QUEUE, dump_ready (o_pydantic W) \<lparr>pr_bot_id = b_id b\<rparr>)]"])
        simp_all
  next
    case (broker_failed b w e)
    then show ?thesis by (intro marked [of b t "[]"]) simp_all
  qed
qed

lemma send_all_keeps_ok:
  assumes ok: "pipe_ok W s" and run: "send_all W ps n s = (r, t)"
    and ps: "\<forall>(x, y) \<in> set ps. x \<in> ready_ids (s_db s) \<and> y \<in> ready_ids (s_db s)"
  shows "pipe_ok W t"
proof -
  have "msg_ok W (s_db s) m" if "m \<in> set (ondeck_bodies W k ps)" for m k
    using that ps by (induction W k ps rule: ondeck_bodies.induct) (auto intro: msg_ok_ondeck)
  then have msgs: "\<forall>m \<in> set (take k (ondeck_bodies W (s_drawn s) ps)). msg_ok W (s_db s) m" for k
    using in_set_takeD by fastforce
  have "pipe_ok W (sent W ps k d s)" for k d
    by (rule pipe_ok_bots [OF ok, where ms = "take k (ondeck_bodies W (s_drawn s) ps)"])
      (use ok msgs in \<open>auto simp: pipe_ok_def\<close>)
  with send_all_result [of ps W s n] run show ?thesis by auto
qed

lemma schedule_keeps_ok:
  assumes ok: "pipe_ok W s" and taken: "take_one POD_READY_QUEUE s = Some (body, s1)"
    and run: "handle_pod_ready_message W body s1 = (r, t)"
  shows "pipe_ok W t"
proof -
  have P: "pydantic_ok (o_pydantic W)" using ok by (simp add: pipe_ok_def)
  have s1: "pipe_ok W s1" "s_db s1 = s_db s"
    using pipe_ok_taken [OF ok taken] take_one_Some(2) [OF taken] by simp_all
  have "msg_ok W (s_db s) (POD_READY_QUEUE, body)"
    using ok take_one_Some(1) [OF taken] by (simp add: pipe_ok_def)
  then obtain i where i: "body = dump_ready (o_pydantic W) \<lparr>pr_bot_id = i\<rparr>" "i \<in> ready_ids (s_db s)"
    by (auto simp: msg_ok_def)
  let ?ps = "pairings i (map b_id (ready_bots (s_db s)))"
  obtain r' where "send_all W ?ps 0 s1 = (r', t)"
    using run handle_pod_ready_message_run [OF P, of i s1] i(1) s1(2)
    by (auto split: prod.splits sum.splits)
  moreover have "\<forall>(x, y) \<in> set ?ps. x \<in> ready_ids (s_db s1) \<and> y \<in> ready_ids (s_db s1)"
    using i(2) s1(2) by (auto simp: set_pairings ready_ids_def)
  ultimately show ?thesis using send_all_keeps_ok s1(1) by blast
qed

lemma move_rows_columns:
  assumes "move_rows seq mid x y mvs = Inr rows"
  shows "map (\<lambda>v. (v_move_number v, v_bot_id v, v_board_state v, v_error v)) rows =
    map (move_columns x y) mvs"
  using assms
proof (induction mvs arbitrary: seq rows)
  case (Cons mv mvs)
  from Cons.prems obtain e rest where e: "error_column (mv_error mv) = Inr e"
    and rest: "move_rows (seq + 1) mid x y mvs = Inr rest"
    and rows: "rows = \<lparr>v_id = seq, v_match_id = mid, v_move_number = int (mv_number mv),
              v_bot_id = (if mv_player mv = ''x'' then x else y),
              v_board_state = mv_board mv, v_error = e\<rparr> # rest"
    by (auto simp: res_simps)
  have "e = (case mv_error mv of JStr s \<Rightarrow> Some s | _ \<Rightarrow> None)"
    using e by (auto simp: error_column_def split: json.splits if_splits)
  with rows Cons.IH [OF rest] show ?case by (simp add: move_columns_def)
qed simp

text \<open>A recorded match is legal, and the moves of the earlier ones are untouched.\<close>

lemma record_legal_match:
  assumes ok: "db_ok d" and rec: "record_match x y mr cid now d = (Inr u, d1)"
    and game: "transcript_from 1 EMPTY_BOARD (mr_moves mr) (mr_result mr)"
  shows "legal_match d1 (recorded x y mr cid now d)"
    and "m \<in> set (matches d) \<Longrightarrow> legal_match d m \<Longrightarrow> legal_match d1 m"
proof -
  obtain rows where rows: "move_rows (moves_seq d) (matches_seq d) x y (mr_moves mr) = Inr rows"
    and moves: "moves d1 = moves d @ rows"
    using record_match_tables(3) [OF rec] by blast
  have new: "\<forall>v \<in> set rows. v_match_id v = matches_seq d" using move_rows_keys(3) [OF rows] by blast
  have old: "v_match_id v \<noteq> matches_seq d" if "v \<in> set (moves d)" for v
    using db_okD(12) [OF ok that] db_okD(6) [OF ok] by fastforce
  have "filter (\<lambda>v. v_match_id v = matches_seq d) (moves d1) = rows"
    using new old by (simp add: moves filter_empty_conv)
  then have "stored_moves d1 (matches_seq d) = map (move_columns x y) (mr_moves mr)"
    by (simp add: stored_moves_def move_rows_columns [OF rows])
  with game show "legal_match d1 (recorded x y mr cid now d)"
    unfolding legal_match_def by (intro exI [of _ "mr_moves mr"] exI [of _ "mr_result mr"]) (simp add: winner_of_rightful)
  assume m: "m \<in> set (matches d)"
  have "filter (\<lambda>v. v_match_id v = m_id m) rows = []"
    using new db_okD(6) [OF ok m] by (auto simp: filter_empty_conv)
  then have "stored_moves d1 (m_id m) = stored_moves d (m_id m)"
    by (simp add: stored_moves_def moves)
  then show "legal_match d m \<Longrightarrow> legal_match d1 m" by (simp add: legal_match_def)
qed

lemma pipe_ok_record:
  assumes ok: "pipe_ok W s" and xy: "x \<in> ready_ids (s_db s)" "y \<in> ready_ids (s_db s)"
    and rec: "record_match x y mr cid now (s_db s) = (Inr u, s_db t)"
    and game: "transcript_from 1 EMPTY_BOARD (mr_moves mr) (mr_result mr)"
    and log: "s_log t = s_log s"
  shows "pipe_ok W t"
proof -
  have d: "db_ok (s_db s)" using ok by (simp add: pipe_ok_def)
  note tables = record_match_tables [OF rec]
  have ids: "bot_ids (s_db t) = bot_ids (s_db s)" "ready_ids (s_db t) = ready_ids (s_db s)"
    by (simp_all add: bot_ids_def ready_ids_def ready_bots_def tables(1))
  have "db_ok (s_db t)" using record_match_ok [OF d] rec by (metis snd_conv)
  moreover have "msg_ok W (s_db t) m" if "m \<in> set (s_log s)" for m
    using ok that by (simp add: pipe_ok_def msg_ok_mono [of W "s_db s"] ids)
  moreover have "m_bot_x_id m \<in> ready_ids (s_db s) \<and> m_bot_o_id m \<in> ready_ids (s_db s) \<and>
      legal_match (s_db t) m" if "m \<in> set (matches (s_db s))" for m
    using ok that record_legal_match(2) [OF d rec game that] by (simp add: pipe_ok_def)
  moreover have "legal_match (s_db t) (recorded x y mr cid now (s_db s))"
    using record_legal_match(1) [OF d rec game] .
  moreover have "pydantic_ok (o_pydantic W)" "names_ok (s_db t)" "pods_ok (s_db t)"
    using ok by (simp_all add: pipe_ok_def names_ok_def pods_ok_def tables(1))
  ultimately show ?thesis
    unfolding pipe_ok_def ids log tables(2) using xy by (simp add: ball_Un)
qed

lemma pipe_ok_sequence:
  assumes ok: "pipe_ok W s" and "record_match x y mr cid now (s_db s) = (Inl e, s_db t)"
    and "s_log t = s_log s"
  shows "pipe_ok W t"
proof -
  have same: "bots (s_db t) = bots (s_db s)" "matches (s_db t) = matches (s_db s)"
    "moves (s_db t) = moves (s_db s)"
    using record_match_Inl_tables [OF assms(2)] by simp_all
  have ids: "bot_ids (s_db t) = bot_ids (s_db s)" "ready_ids (s_db t) = ready_ids (s_db s)"
    by (simp_all add: bot_ids_def ready_ids_def ready_bots_def same(1))
  have "db_ok (s_db t)"
    using ok record_match_ok [of "s_db s"] assms(2) unfolding pipe_ok_def by (metis snd_conv)
  then show ?thesis
    by (intro pipe_ok_bots [OF ok, where ms = "[]"])
      (use ok assms(3) same ids in \<open>simp_all add: pipe_ok_def names_ok_def pods_ok_def\<close>)
qed

lemma ondeck_keeps_ok:
  assumes ok: "pipe_ok W s" and taken: "take_one MATCH_ONDECK_QUEUE s = Some (body, s1)"
    and run: "handle_match_ondeck W body s1 = (r, t)"
  shows "pipe_ok W t"
proof -
  have P: "pydantic_ok (o_pydantic W)" using ok by (simp add: pipe_ok_def)
  have s1: "pipe_ok W s1" "s_db s1 = s_db s"
    using pipe_ok_taken [OF ok taken] take_one_Some(2) [OF taken] by simp_all
  have "msg_ok W (s_db s) (MATCH_ONDECK_QUEUE, body)"
    using ok take_one_Some(1) [OF taken] by (simp add: pipe_ok_def)
  then obtain x y cid where msg: "body = dump_ondeck (o_pydantic W) (ondeck_message x y cid)"
    "x \<in> ready_ids (s_db s)" "y \<in> ready_ids (s_db s)"
    by (auto simp: msg_ok_def)
  have valid: "validate_ondeck (o_pydantic W) body = Some (ondeck_message x y cid)"
    by (simp add: msg(1) pydantic_okD [OF P])
  from run show ?thesis
  proof (cases rule: handle_match_ondeck_cases)
    case ignored
    with s1 show ?thesis by simp
  next
    case (match_failed e w)
    with s1 show ?thesis by (auto intro: pipe_ok_world)
  next
    case (record_failed e msg mr w d)
    then show ?thesis using s1 by (intro pipe_ok_sequence [OF s1(1)]) simp_all
  next
    case (recorded m mr w d)
    have "m = ondeck_message x y cid" using recorded(2) valid by simp
    with recorded s1 msg show ?thesis
      by (intro pipe_ok_record [OF s1(1), of x y mr]) (simp_all add: ondeck_message_def)
  qed
qed

lemma pipe_step_ok: "pipe_ok W s \<Longrightarrow> pipe_step W p T s t \<Longrightarrow> pipe_ok W t"
proof (elim pipe_stepE)
  show "pipe_ok W s \<Longrightarrow> handle_submission W p src cookie s = (r, t) \<Longrightarrow> pipe_ok W t" for src cookie r
    by (rule submit_keeps_ok)
  show "pipe_ok W s \<Longrightarrow> take_one BUILD_POD_QUEUE s = Some (body, s1) \<Longrightarrow>
      handle_build_pod_message W T body s1 = Some (r, t) \<Longrightarrow> pipe_ok W t" for body s1 r
    by (rule build_keeps_ok [OF pipe_ok_taken])
  show "pipe_ok W s \<Longrightarrow> take_one POD_READY_QUEUE s = Some (body, s1) \<Longrightarrow>
      handle_pod_ready_message W body s1 = (r, t) \<Longrightarrow> pipe_ok W t" for body s1 r
    by (rule schedule_keeps_ok)
  show "pipe_ok W s \<Longrightarrow> take_one MATCH_ONDECK_QUEUE s = Some (body, s1) \<Longrightarrow>
      handle_match_ondeck W body s1 = (r, t) \<Longrightarrow> pipe_ok W t" for body s1 r
    by (rule ondeck_keeps_ok)
  show "pipe_ok W s \<Longrightarrow> t = s\<lparr>s_world := w\<rparr> \<Longrightarrow> pipe_ok W t" for w
    by (rule pipe_ok_world) simp_all
qed

interpretation pipeline: transition_system "start_state W" "pipe_step W p T" "pipe_ok W" for W p T
  by unfold_locales (use start_state_ok pipe_step_ok in blast)+

section \<open>Handlers only add\<close>

lemma grows_resolve_owner_token: "keeps grows (resolve_owner_token W n owned)"
  unfolding resolve_owner_token_def
  by (intro grows_rules) (auto split: option.split intro!: grows_rules)

lemma grows_persist_bot: "keeps grows (persist_bot W n tok key src)"
  unfolding keeps_def
proof
  fix s
  obtain c d where c: "insert_version W n tok key src s = (c, d)" by force
  have "bot_ids (s_db s) \<subseteq> bot_ids d \<and> ready_ids (s_db s) \<subseteq> ready_ids d"
    using c create_bot_grows unfolding insert_version_def by (metis snd_conv)
  then show "grows s (snd (persist_bot W n tok key src s))"
    by (cases c) (simp_all add: persist_bot_eq c grows_def)
qed

lemma grows_enqueue_build_pod: "keeps grows (enqueue_build_pod W msg)"
  unfolding enqueue_build_pod_def by (rule keeps_grows_publish)

lemma grows_publish_event: "keeps grows (publish_event W t details)"
  unfolding publish_event_def by (rule keeps_grows_publish_fanout)

lemma grows_handle_submission: "keeps grows (handle_submission W p src cookie)"
proof -
  have "keeps grows (submit_bot W n key src owned)" for n key owned
    unfolding submit_bot_def
    by (intro grows_rules grows_resolve_owner_token)
      (auto split: prod.split option.split
        intro!: grows_rules grows_persist_bot grows_enqueue_build_pod grows_publish_event)
  then show ?thesis
    unfolding handle_submission_def Let_def
    by (intro grows_rules) (auto split: option.split intro!: grows_rules)
qed

lemma grows_publish_ondeck: "keeps grows (publish_ondeck W x y)"
  unfolding publish_ondeck_def by (intro grows_rules)

lemma grows_enqueue_matches: "keeps grows (enqueue_matches W i bs n)"
  by (induction W i bs n rule: enqueue_matches.induct)
    (auto intro!: grows_rules grows_publish_ondeck)

lemma grows_handle_pod_ready_message: "keeps grows (handle_pod_ready_message W body)"
  unfolding handle_pod_ready_message_def
  by (auto split: option.split intro!: grows_rules grows_enqueue_matches)

lemma grows_handle_match_ondeck: "keeps grows (handle_match_ondeck W body)"
proof -
  have "keeps grows (record_result W msg r)" for msg r
    unfolding keeps_def
  proof
    fix s
    show "grows s (snd (record_result W msg r s))"
      using record_match_grows
      by (cases r) (auto simp: record_result_def prog_simps grows_def split: sum.split prod.split,
        (metis snd_conv subsetD)+)
  qed
  moreover have "keeps grows (fetch_match_bots x y)" for x y
    unfolding fetch_match_bots_def
    by (intro grows_rules) (auto split: option.split intro!: grows_rules)
  ultimately show ?thesis
    unfolding handle_match_ondeck_def publish_match_finished_def
    by (auto split: option.split intro!: grows_rules)
qed

lemma grows_handle_build_pod_message:
  assumes "handle_build_pod_message W T body s = Some (r, t)"
  shows "grows s t"
  using assms set_pod_ready_grows
  by (cases rule: handle_build_pod_message_cases) (auto simp: grows_def)

section \<open>Every pair is scheduled\<close>

definition handled_ready :: "'w outside \<Rightarrow> 'w sys \<Rightarrow> int \<Rightarrow> bool" where
  "handled_ready W s i \<longleftrightarrow> (\<exists>k < s_taken s POD_READY_QUEUE. k < length (sent_to POD_READY_QUEUE s) \<and>
     sent_to POD_READY_QUEUE s ! k = dump_ready (o_pydantic W) \<lparr>pr_bot_id = i\<rparr>)"

definition scheduled :: "'w outside \<Rightarrow> 'w sys \<Rightarrow> int \<Rightarrow> int \<Rightarrow> bool" where
  "scheduled W s x y \<longleftrightarrow>
     (\<exists>cid. dump_ondeck (o_pydantic W) (ondeck_message x y cid) \<in> set (sent_to MATCH_ONDECK_QUEUE s))"

lemma scheduled_grows: "scheduled W s x y \<Longrightarrow> grows s t \<Longrightarrow> scheduled W t x y"
  using sent_to_grows [of s t MATCH_ONDECK_QUEUE] by (auto simp: scheduled_def)

lemma scheduled_taken: "take_one q s = Some (b, s1) \<Longrightarrow> scheduled W s1 x y \<longleftrightarrow> scheduled W s x y"
  using take_one_Some(2) [of q s b s1] by (simp add: scheduled_def sent_to_def)

definition cursors_ok :: "'w sys \<Rightarrow> bool" where
  "cursors_ok s \<longleftrightarrow> (\<forall>q. s_taken s q \<le> length (sent_to q s))"

lemma cursors_ok_grows: "cursors_ok s \<Longrightarrow> grows s t \<Longrightarrow> cursors_ok t"
  unfolding cursors_ok_def
proof
  fix q
  assume "\<forall>q. s_taken s q \<le> length (sent_to q s)" and g: "grows s t"
  then have "s_taken s q \<le> length (sent_to q s)" by blast
  moreover obtain ms where "sent_to q t = sent_to q s @ ms" using sent_to_grows [OF g] by blast
  ultimately show "s_taken t q \<le> length (sent_to q t)" using g by (simp add: grows_def)
qed

lemma cursors_ok_taken: "cursors_ok s \<Longrightarrow> take_one q s = Some (b, s1) \<Longrightarrow> cursors_ok s1"
  using take_one_Some(2,4) [of q s b s1] by (simp add: cursors_ok_def sent_to_def)

lemma handled_ready_grows:
  assumes "grows s t" and "cursors_ok s" and "handled_ready W t i"
  shows "handled_ready W s i"
proof -
  obtain ms where ms: "sent_to POD_READY_QUEUE t = sent_to POD_READY_QUEUE s @ ms"
    using sent_to_grows [OF assms(1)] by blast
  have taken: "s_taken t = s_taken s" using assms(1) by (simp add: grows_def)
  from assms(3) obtain k where k: "k < s_taken s POD_READY_QUEUE"
    "sent_to POD_READY_QUEUE t ! k = dump_ready (o_pydantic W) \<lparr>pr_bot_id = i\<rparr>"
    by (auto simp: handled_ready_def taken)
  then have "k < length (sent_to POD_READY_QUEUE s)"
    using assms(2) by (meson cursors_ok_def less_le_trans)
  with k ms show ?thesis by (auto simp: handled_ready_def nth_append)
qed

lemma handled_ready_taken_other:
  "take_one q s = Some (b, s1) \<Longrightarrow> q \<noteq> POD_READY_QUEUE \<Longrightarrow> handled_ready W s1 i \<longleftrightarrow> handled_ready W s i"
  using take_one_Some(2) [of q s b s1] by (simp add: handled_ready_def sent_to_def)

lemma handled_ready_taken:
  assumes "take_one POD_READY_QUEUE s = Some (b, s1)" and "handled_ready W s1 j"
  shows "handled_ready W s j \<or> b = dump_ready (o_pydantic W) \<lparr>pr_bot_id = j\<rparr>"
  using assms(2) take_one_Some(2,3) [OF assms(1)]
  by (auto simp: handled_ready_def sent_to_def less_Suc_eq)

lemma handled_ready_ready:
  assumes "pipe_ok W s" and "handled_ready W s i"
  shows "i \<in> ready_ids (s_db s)"
proof -
  from assms(2) have "dump_ready (o_pydantic W) \<lparr>pr_bot_id = i\<rparr> \<in> set (sent_to POD_READY_QUEUE s)"
    unfolding handled_ready_def by (metis nth_mem)
  then have "msg_ok W (s_db s) (POD_READY_QUEUE, dump_ready (o_pydantic W) \<lparr>pr_bot_id = i\<rparr>)"
    using assms(1) by (auto simp: sent_to_def pipe_ok_def)
  then obtain j where "dump_ready (o_pydantic W) \<lparr>pr_bot_id = i\<rparr> = dump_ready (o_pydantic W) \<lparr>pr_bot_id = j\<rparr>"
    and j: "j \<in> ready_ids (s_db s)"
    by (auto simp: msg_ok_def)
  then have "Some \<lparr>pr_bot_id = i\<rparr> = Some \<lparr>pr_bot_id = j\<rparr>"
    using assms(1) unfolding pipe_ok_def by (metis pydantic_okD(2))
  with j show ?thesis by simp
qed

text \<open>With a working broker the scheduler pairs the bot with every ready bot, both ways.\<close>

lemma schedule_pairs:
  assumes P: "pydantic_ok (o_pydantic W)" and broker: "o_broker W = (\<lambda>_. None)"
    and run: "handle_pod_ready_message W (dump_ready (o_pydantic W) \<lparr>pr_bot_id = i\<rparr>) s = (r, t)"
    and j: "j \<in> ready_ids (s_db s)"
  shows "scheduled W t i j" and "scheduled W t j i"
proof -
  let ?ps = "pairings i (map b_id (ready_bots (s_db s)))"
  have "send_all W ?ps 0 s = (Inr (length ?ps), sent W ?ps (length ?ps) 0 s)"
    using send_all_result [of ?ps W s 0] broker by auto
  then have t: "t = sent W ?ps (length ?ps) 0 s"
    using run handle_pod_ready_message_run [OF P, of i s] by simp
  have body: "\<exists>cid. (MATCH_ONDECK_QUEUE, dump_ondeck (o_pydantic W) (ondeck_message x y cid)) \<in>
      set (ondeck_bodies W k ps)" if "(x, y) \<in> set ps" for x y k ps
    using that by (induction W k ps rule: ondeck_bodies.induct) auto
  have all: "scheduled W t x y" if "(x, y) \<in> set ?ps" for x y
    using body [OF that, of "s_drawn s"] by (force simp: scheduled_def sent_to_def t)
  have "j \<in> set (map b_id (ready_bots (s_db s)))" using j by (simp add: ready_ids_def)
  then have "(i, j) \<in> set ?ps" "(j, i) \<in> set ?ps" by (auto simp: set_pairings)
  then show "scheduled W t i j" "scheduled W t j i" using all by blast+
qed

definition all_paired :: "'w outside \<Rightarrow> 'w sys \<Rightarrow> bool" where
  "all_paired W s \<longleftrightarrow>
     cursors_ok s \<and> (\<forall>i j. handled_ready W s i \<longrightarrow> handled_ready W s j \<longrightarrow> scheduled W s i j)"

lemma all_paired_grows:
  assumes "all_paired W s" and "grows s t"
  shows "all_paired W t"
  using assms scheduled_grows [OF _ assms(2)] handled_ready_grows [OF assms(2)] cursors_ok_grows
  unfolding all_paired_def by blast

lemma all_paired_taken_other:
  assumes "all_paired W s" and "take_one q s = Some (b, s1)" and "q \<noteq> POD_READY_QUEUE"
  shows "all_paired W s1"
  using assms(1) cursors_ok_taken [OF _ assms(2)]
  by (simp add: all_paired_def scheduled_taken [OF assms(2)] handled_ready_taken_other [OF assms(2,3)])

lemma all_paired_schedule:
  assumes ok: "pipe_ok W s" and broker: "o_broker W = (\<lambda>_. None)" and paired: "all_paired W s"
    and taken: "take_one POD_READY_QUEUE s = Some (body, s1)"
    and run: "handle_pod_ready_message W body s1 = (r, t)"
  shows "all_paired W t"
proof -
  have P: "pydantic_ok (o_pydantic W)" using ok by (simp add: pipe_ok_def)
  have db: "s_db s1 = s_db s" using take_one_Some(2) [OF taken] by simp
  have g: "grows s1 t" using grows_handle_pod_ready_message run by (rule keepsD)
  have c: "cursors_ok s1" using paired cursors_ok_taken taken by (auto simp: all_paired_def)
  have "msg_ok W (s_db s) (POD_READY_QUEUE, body)"
    using ok take_one_Some(1) [OF taken] by (simp add: pipe_ok_def)
  then obtain i where i: "body = dump_ready (o_pydantic W) \<lparr>pr_bot_id = i\<rparr>" "i \<in> ready_ids (s_db s)"
    by (auto simp: msg_ok_def)
  have new: "scheduled W t i j \<and> scheduled W t j i" if "j \<in> ready_ids (s_db s)" for j
    using schedule_pairs [OF P broker run [unfolded i(1)]] that db by simp
  have handled: "handled_ready W s j \<or> j = i" if "handled_ready W t j" for j
  proof -
    have "handled_ready W s j \<or> body = dump_ready (o_pydantic W) \<lparr>pr_bot_id = j\<rparr>"
      using handled_ready_grows [OF g c that] handled_ready_taken [OF taken] by blast
    moreover have "j = i" if "body = dump_ready (o_pydantic W) \<lparr>pr_bot_id = j\<rparr>"
    proof -
      have "Some \<lparr>pr_bot_id = j\<rparr> = Some \<lparr>pr_bot_id = i\<rparr>"
        using that i(1) pydantic_okD(2) [OF P] by metis
      then show ?thesis by simp
    qed
    ultimately show ?thesis by blast
  qed
  have old: "scheduled W t j k" if "handled_ready W s j" "handled_ready W s k" for j k
    using paired that scheduled_grows [OF _ g] scheduled_taken [OF taken] by (auto simp: all_paired_def)
  show ?thesis
    unfolding all_paired_def
    using cursors_ok_grows [OF c g] handled new old handled_ready_ready [OF ok] i(2) by metis
qed

lemma reachable_all_paired:
  assumes "pipeline.reachable W p T s" and broker: "o_broker W = (\<lambda>_. None)"
  shows "all_paired W s"
  using assms(1)
proof (rule pipeline.reachable_induct)
  show "start_state W s \<Longrightarrow> all_paired W s" for s :: "'a sys"
    by (simp add: start_state_def all_paired_def cursors_ok_def handled_ready_def)
  fix s t :: "'a sys"
  assume ok: "pipe_ok W s" and paired: "all_paired W s" and "pipe_step W p T s t"
  from this(3) show "all_paired W t"
  proof (cases rule: pipe_step.cases)
    case (submit src cookie r)
    with paired show ?thesis using grows_handle_submission keepsD all_paired_grows by metis
  next
    case (build body s1 r)
    with all_paired_taken_other [OF paired] show ?thesis
      using grows_handle_build_pod_message all_paired_grows by (metis queue_names_distinct(1))
  next
    case (schedule body s1 r)
    then show ?thesis by (intro all_paired_schedule [OF ok broker paired])
  next
    case (ondeck body s1 r)
    with all_paired_taken_other [OF paired] show ?thesis
      using grows_handle_match_ondeck keepsD all_paired_grows by (metis queue_names_distinct(6))
  next
    case (outside w)
    have "grows s t" by (simp add: grows_def outside)
    with paired show ?thesis by (rule all_paired_grows)
  qed
qed

section \<open>Reachable states\<close>

definition reachable_state :: "'w outside \<Rightarrow> ast_parser \<Rightarrow> int \<Rightarrow> 'w sys \<Rightarrow> bool" where
  "reachable_state W p T s \<longleftrightarrow> (\<exists>s0. start_state W s0 \<and> (pipe_step W p T)\<^sup>*\<^sup>* s0 s)"

lemma reachable_state_eq: "reachable_state W p T s \<longleftrightarrow> pipeline.reachable W p T s"
  by (simp add: reachable_state_def pipeline.reachable_def)

lemma reachable_state_ok: "reachable_state W p T s \<Longrightarrow> pipe_ok W s"
  unfolding reachable_state_eq by (rule pipeline.reachable_inv)

text \<open>A message taken from the queue of matches names two ready bots, whose pods are found.\<close>

lemma ondeck_message_found:
  assumes ok: "pipe_ok W s" and taken: "take_one MATCH_ONDECK_QUEUE s = Some (body, s1)"
  obtains x y cid where "validate_ondeck (o_pydantic W) body = Some (ondeck_message x y cid)"
    and "x \<in> ready_ids (s_db s)" and "y \<in> ready_ids (s_db s)"
    and "fetch_match_bots x y s1 = (Inr (Some (pod_name x, pod_name y)), s1)"
proof -
  have P: "pydantic_ok (o_pydantic W)" using ok by (simp add: pipe_ok_def)
  have s1: "s_db s1 = s_db s" using take_one_Some(2) [OF taken] by simp
  have "msg_ok W (s_db s) (MATCH_ONDECK_QUEUE, body)"
    using ok take_one_Some(1) [OF taken] by (simp add: pipe_ok_def)
  then obtain x y cid where body: "body = dump_ondeck (o_pydantic W) (ondeck_message x y cid)"
    and xy: "x \<in> ready_ids (s_db s)" "y \<in> ready_ids (s_db s)"
    by (auto simp: msg_ok_def)
  obtain bx bo where b: "bx \<in> set (bots (s_db s))" "b_id bx = x" "b_pod_ready bx"
      "bo \<in> set (bots (s_db s))" "b_id bo = y" "b_pod_ready bo"
    using xy by (auto simp: ready_ids_eq)
  with ok have "b_pod_name bx = Some (pod_name x)" "b_pod_name bo = Some (pod_name y)"
    by (auto simp: pipe_ok_def pods_ok_def)
  then have "fetch_match_bots x y s1 = (Inr (Some (pod_name x, pod_name y)), s1)"
    using fetch_match_bots_run [of s1 bx bo] ok s1 b by (simp add: pipe_ok_def)
  with body xy show ?thesis
    by (intro that [of x y cid]) (simp_all add: pydantic_okD [OF P])
qed

lemma handle_match_ondeck_adds:
  assumes ok: "pipe_ok W s" and taken: "take_one MATCH_ONDECK_QUEUE s = Some (body, s1)"
    and run: "handle_match_ondeck W body s1 = (r, t)"
  shows "(r = Inr () \<and> (\<exists>m. matches (s_db t) = matches (s_db s) @ [m])) \<or>
    (\<exists>e. r = Inl e \<and> matches (s_db t) = matches (s_db s) \<and> moves (s_db t) = moves (s_db s))"
proof -
  have s1: "s_db s1 = s_db s" using take_one_Some(2) [OF taken] by simp
  obtain x y cid where msg: "validate_ondeck (o_pydantic W) body = Some (ondeck_message x y cid)"
    and found: "fetch_match_bots x y s1 = (Inr (Some (pod_name x, pod_name y)), s1)"
    using ondeck_message_found [OF ok taken] by metis
  obtain res w where m: "run_match_from_pods (o_env W) (pod_name x) (pod_name y) TURN_TIMEOUT (s_world s1) = (res, w)"
    by force
  have run': "bindP (in_world (run_match_from_pods (o_env W) (pod_name x) (pod_name y) TURN_TIMEOUT))
      (\<lambda>result. bindP (record_result W (ondeck_message x y cid) result) (\<lambda>r.
                  catch (publish_match_finished W (mr_result r)) (\<lambda>_. ret ()))) s1 = (r, t)"
    using run msg found
    by (simp add: handle_match_ondeck_def ondeck_message_def bindP_def)
  show ?thesis
  proof (cases res)
    case (Inl e)
    then have "r = Inl e" "t = s1\<lparr>s_world := w\<rparr>" using run' m by (simp_all add: bindP_def in_world_def)
    with s1 show ?thesis by simp
  next
    case (Inr opt)
    then obtain mr where mr: "opt = Some mr" using run_match_transcript m by fastforce
    obtain q d where rec: "record_match x y mr cid (o_now W w) (s_db s1) = (q, d)" by force
    show ?thesis
    proof (cases q)
      case (Inl e)
      then have "r = Inl e" "s_db t = d"
        using run' m Inr mr rec by (auto simp: record_result_def ondeck_message_def prog_simps)
      with record_match_Inl_tables [OF rec [unfolded Inl]] s1 show ?thesis by auto
    next
      case q: (Inr u)
      then have "r = Inr ()" "s_db t = d"
        using run' m Inr mr rec
        by (auto simp: record_result_def publish_match_finished_def ondeck_message_def prog_simps
            split: option.splits)
      with record_match_tables(2) [OF rec [unfolded q]] s1 show ?thesis by auto
    qed
  qed
qed

end
