(* ===== verification/StartUp.thy ===== *)
theory StartUp
  imports Pipeline
begin

text \<open>
  The services on a broker that starts empty, and services that die. Each \<open>run\<close> function and the
  connection of \<open>messaging/rabbitmq.py\<close> declare queues; a message published under a name no queue
  has is dropped by the broker without an error. \<open>site_step\<close> adds starts and drops to the steps
  of \<open>Pipeline\<close>, \<open>crash_step\<close> a service that dies in a handler, whose message comes back.
\<close>

section \<open>What a service asks of its channel\<close>

datatype channel_op = SetQos nat | DeclareQueue string | DeclareExchange string | Consume string

text \<open>\<open>RabbitMQBrokerConnection.consume_queue\<close> and \<open>serve_rpc\<close>, up to the handling of messages.\<close>

definition consume_queue :: "string \<Rightarrow> channel_op list" where
  "consume_queue queue_name = [SetQos 1, DeclareQueue queue_name, Consume queue_name]"

definition serve_rpc :: "string \<Rightarrow> channel_op list" where
  "serve_rpc queue_name = [SetQos 1, DeclareQueue queue_name, Consume queue_name]"

definition ensure_connected :: "bool \<Rightarrow> channel_op list" where
  "ensure_connected connected =
     (if connected then [] else [DeclareQueue BUILD_POD_QUEUE, DeclareExchange EVENTS_EXCHANGE])"

text \<open>
  The \<open>run\<close> functions: a declaration, then \<open>gather\<close>, which interleaves the consumer with the
  server of the health echo.
\<close>

definition pod_builder_run :: "channel_op list set" where
  "pod_builder_run = (#) (DeclareQueue BUILD_POD_QUEUE) `
     shuffles [Consume BUILD_POD_QUEUE] (serve_rpc ''health.dispatcher.pod-builder'')"

definition ondeck_handler_run :: "channel_op list set" where
  "ondeck_handler_run = (#) (DeclareQueue MATCH_ONDECK_QUEUE) `
     shuffles [Consume MATCH_ONDECK_QUEUE] (serve_rpc ''health.dispatcher.ondeck-handler'')"

definition match_scheduler_run :: "channel_op list set" where
  "match_scheduler_run = (#) (DeclareQueue POD_READY_QUEUE) `
     shuffles [Consume POD_READY_QUEUE] (serve_rpc ''health.match-scheduler'')"

definition start_ups :: "channel_op list set" where
  "start_ups = pod_builder_run \<union> ondeck_handler_run \<union> match_scheduler_run"

text \<open>The queues of the broker after some requests.\<close>

fun on_broker :: "channel_op \<Rightarrow> string set \<Rightarrow> string set" where
  "on_broker (DeclareQueue q) Q = insert q Q"
| "on_broker _ Q = Q"

definition run_ops :: "channel_op list \<Rightarrow> string set \<Rightarrow> string set" where
  "run_ops ops Q = fold on_broker ops Q"

lemma on_broker_eq: "on_broker x Q = Q \<union> {q. DeclareQueue q = x}"
  by (cases x) auto

lemma run_ops_eq: "run_ops ops Q = Q \<union> {q. DeclareQueue q \<in> set ops}"
  unfolding run_ops_def by (induction ops arbitrary: Q) (auto simp: on_broker_eq)

lemma run_ops_ensure_connected: "run_ops (ensure_connected False) Q = insert BUILD_POD_QUEUE Q"
  by (auto simp: run_ops_eq ensure_connected_def)

text \<open>What each service declares: the queue it reads, not the queue it publishes to.\<close>

lemma declared_by_start_up:
  "ops \<in> pod_builder_run \<Longrightarrow> run_ops ops Q = {BUILD_POD_QUEUE, ''health.dispatcher.pod-builder''} \<union> Q"
  "ops \<in> ondeck_handler_run \<Longrightarrow> run_ops ops Q = {MATCH_ONDECK_QUEUE, ''health.dispatcher.ondeck-handler''} \<union> Q"
  "ops \<in> match_scheduler_run \<Longrightarrow> run_ops ops Q = {POD_READY_QUEUE, ''health.match-scheduler''} \<union> Q"
  by (auto simp: run_ops_eq pod_builder_run_def ondeck_handler_run_def match_scheduler_run_def serve_rpc_def
      set_shuffles)

section \<open>Steps\<close>

text \<open>What became of the messages a handler published: those for a queue there is are in the log.\<close>

definition routed :: "string set \<Rightarrow> 'w sys \<Rightarrow> 'w sys \<Rightarrow> 'w sys" where
  "routed Q s t =
     t\<lparr>s_log := s_log s @ filter (\<lambda>m. fst m \<in> Q) (drop (length (s_log s)) (s_log t))\<rparr>"

inductive handles :: "'w outside \<Rightarrow> int \<Rightarrow> string \<Rightarrow> string \<Rightarrow> 'w sys \<Rightarrow> 'w sys \<Rightarrow> bool"
  for W :: "'w outside" and pod_timeout :: int
where
  build: "handle_build_pod_message W pod_timeout body s = Some (r, t) \<Longrightarrow>
     handles W pod_timeout BUILD_POD_QUEUE body s t"
| schedule: "handle_pod_ready_message W body s = (r, t) \<Longrightarrow> handles W pod_timeout POD_READY_QUEUE body s t"
| ondeck: "handle_match_ondeck W body s = (r, t) \<Longrightarrow> handles W pod_timeout MATCH_ONDECK_QUEUE body s t"

inductive_cases handlesE: "handles W T q body s t"

text \<open>
  A start may be cut short. The web application connects before its first message; to declare its
  queue again later would change nothing.
\<close>

inductive site_step ::
  "'w outside \<Rightarrow> ast_parser \<Rightarrow> int \<Rightarrow> string set \<times> 'w sys \<Rightarrow> string set \<times> 'w sys \<Rightarrow> bool"
  for W :: "'w outside" and ast_parse :: ast_parser and pod_timeout :: int
where
  start: "ops \<in> start_ups \<Longrightarrow> site_step W ast_parse pod_timeout (Q, s) (run_ops (take n ops) Q, s)"
| connect: "site_step W ast_parse pod_timeout (Q, s) (run_ops (take n (ensure_connected False)) Q, s)"
| submit: "handle_submission W ast_parse src cookie s = (p, t) \<Longrightarrow>
     Q' = (if s_log t = s_log s then Q else run_ops (ensure_connected False) Q) \<Longrightarrow>
     site_step W ast_parse pod_timeout (Q, s) (Q', routed Q' s t)"
| handle: "take_one q s = Some (body, s1) \<Longrightarrow> handles W pod_timeout q body s1 t \<Longrightarrow>
     site_step W ast_parse pod_timeout (Q, s) (Q, routed Q s1 t)"
| outside: "site_step W ast_parse pod_timeout (Q, s) (Q, s\<lparr>s_world := w\<rparr>)"

inductive_cases site_stepE: "site_step W p T x y"

text \<open>
  A service that dies leaves what a run leaves in which the outside failed where it died. The
  broker has no acknowledgement and keeps the message at its place.
\<close>

definition dies_like :: "'w outside \<Rightarrow> 'w outside \<Rightarrow> bool" where
  "dies_like W W' \<longleftrightarrow>
     o_pydantic W' = o_pydantic W \<and> o_token_hex W' = o_token_hex W \<and> o_now W' = o_now W"

inductive crash_step ::
  "'w outside \<Rightarrow> ast_parser \<Rightarrow> int \<Rightarrow> string set \<times> 'w sys \<Rightarrow> string set \<times> 'w sys \<Rightarrow> bool"
  for W :: "'w outside" and ast_parse :: ast_parser and pod_timeout :: int
where
  web: "dies_like W W' \<Longrightarrow> handle_submission W' ast_parse src cookie s = (p, t) \<Longrightarrow>
     Q' = (if s_log t = s_log s then Q else run_ops (ensure_connected False) Q) \<Longrightarrow>
     crash_step W ast_parse pod_timeout (Q, s) (Q', routed Q' s t)"
| worker: "dies_like W W' \<Longrightarrow> take_one q s = Some (body, s1) \<Longrightarrow> handles W' pod_timeout q body s1 t \<Longrightarrow>
     crash_step W ast_parse pod_timeout (Q, s) (Q, (routed Q s1 t)\<lparr>s_taken := s_taken s\<rparr>)"

inductive_cases crash_stepE: "crash_step W p T x y"

lemma dies_like_refl: "dies_like W W"
  by (simp add: dies_like_def)

section \<open>The loop of a service\<close>

text \<open>
  \<open>consume()\<close>, for at most \<open>n\<close> messages: the loop waits on an empty queue, and an exception leaves
  \<open>message.process()\<close>, which rejects the message, then the loop, \<open>gather\<close> and \<open>run\<close>.
\<close>

fun consume ::
  "nat \<Rightarrow> string \<Rightarrow> (string \<Rightarrow> 'w sys \<Rightarrow> (unit res \<times> 'w sys) option) \<Rightarrow> 'w sys \<Rightarrow> (unit res \<times> 'w sys) option"
where
  "consume 0 q handler s = Some (Inr (), s)"
| "consume (Suc n) q handler s =
     (case take_one q s of
        None \<Rightarrow> Some (Inr (), s)
      | Some (body, s1) \<Rightarrow>
          (case handler body s1 of
             None \<Rightarrow> None
           | Some (Inl e, t) \<Rightarrow> Some (Inl e, t)
           | Some (Inr _, t) \<Rightarrow> consume n q handler t))"

definition pod_builder_consume :: "'w outside \<Rightarrow> int \<Rightarrow> nat \<Rightarrow> 'w sys \<Rightarrow> (unit res \<times> 'w sys) option" where
  "pod_builder_consume W pod_timeout n = consume n BUILD_POD_QUEUE (handle_build_pod_message W pod_timeout)"

definition match_scheduler_consume :: "'w outside \<Rightarrow> nat \<Rightarrow> 'w sys \<Rightarrow> (unit res \<times> 'w sys) option" where
  "match_scheduler_consume W n =
     consume n POD_READY_QUEUE (\<lambda>body s. Some (handle_pod_ready_message W body s))"

definition ondeck_handler_consume :: "'w outside \<Rightarrow> nat \<Rightarrow> 'w sys \<Rightarrow> (unit res \<times> 'w sys) option" where
  "ondeck_handler_consume W n =
     consume n MATCH_ONDECK_QUEUE (\<lambda>body s. Some (handle_match_ondeck W body s))"

lemma consume_steps:
  assumes "consume n q handler s = Some (r, t)"
    and "\<And>body s s1 r t. take_one q s = Some (body, s1) \<Longrightarrow> handler body s1 = Some (r, t) \<Longrightarrow> pipe_step W p T s t"
  shows "(pipe_step W p T)\<^sup>*\<^sup>* s t"
  using assms(1)
proof (induction n arbitrary: s)
  case (Suc n)
  show ?case
  proof (cases "take_one q s")
    case None
    with Suc.prems show ?thesis by simp
  next
    case (Some bs)
    then obtain body s1 where taken: "take_one q s = Some (body, s1)" by (cases bs) simp
    with Suc.prems obtain c u where h: "handler body s1 = Some (c, u)"
      by (auto split: option.splits)
    have step: "pipe_step W p T s u" by (rule assms(2) [OF taken h])
    show ?thesis
    proof (cases c)
      case (Inl e)
      then have "t = u" using Suc.prems taken h by simp
      with step show ?thesis by blast
    next
      case (Inr x)
      then have "consume n q handler u = Some (r, t)" using Suc.prems taken h by simp
      with Suc.IH step show ?thesis by (meson converse_rtranclp_into_rtranclp)
    qed
  qed
qed simp

text \<open>The loops make steps of the pipeline, and a handler that raises ends its service.\<close>

lemma service_steps:
  "pod_builder_consume W T n s = Some (r, t) \<Longrightarrow> (pipe_step W p T)\<^sup>*\<^sup>* s t"
  "match_scheduler_consume W n s = Some (r, t) \<Longrightarrow> (pipe_step W p T)\<^sup>*\<^sup>* s t"
  "ondeck_handler_consume W n s = Some (r, t) \<Longrightarrow> (pipe_step W p T)\<^sup>*\<^sup>* s t"
  unfolding pod_builder_consume_def match_scheduler_consume_def ondeck_handler_consume_def
  by (erule consume_steps, auto intro: pipe_step.intros)+

lemma consume_raises:
  "take_one q s = Some (body, s1) \<Longrightarrow> handler body s1 = Some (Inl e, t) \<Longrightarrow>
     consume (Suc n) q handler s = Some (Inl e, t)"
  by simp

section \<open>The invariant of the pipeline\<close>

lemma handles_pipe_step:
  "take_one q s = Some (body, s1) \<Longrightarrow> handles W T q body s1 t \<Longrightarrow> pipe_step W p T s t"
  by (erule handlesE) (auto intro: pipe_step.intros)

lemma handles_grows: "handles W T q body s t \<Longrightarrow> grows s t"
  by (erule handlesE)
    (auto intro: grows_handle_build_pod_message keepsD [OF grows_handle_pod_ready_message]
      keepsD [OF grows_handle_match_ondeck])

lemma routed_sel [simp]:
  "s_db (routed Q s t) = s_db t" "s_taken (routed Q s t) = s_taken t"
  by (simp_all add: routed_def)

lemma routed_log: "s_log t = s_log s @ ms \<Longrightarrow> s_log (routed Q s t) = s_log s @ filter (\<lambda>m. fst m \<in> Q) ms"
  by (simp add: routed_def)

lemma routed_grows: "grows s t \<Longrightarrow> grows s (routed Q s t)"
  by (auto simp: grows_def routed_def)

text \<open>The invariant does not mind messages that are missing, or read again.\<close>

lemma pipe_ok_fewer:
  assumes "pipe_ok W t" and "s_db u = s_db t" and "set (s_log u) \<subseteq> set (s_log t)"
  shows "pipe_ok W u"
  using assms by (auto simp: pipe_ok_def)

lemma pipe_ok_routed:
  assumes "pipe_ok W t" and "grows s t"
  shows "pipe_ok W (routed Q s t)"
proof (rule pipe_ok_fewer [OF assms(1)])
  obtain ms where "s_log t = s_log s @ ms" using assms(2) by (auto simp: grows_def)
  then show "set (s_log (routed Q s t)) \<subseteq> set (s_log t)" by (auto simp: routed_log)
qed simp

lemma pipe_ok_dies_like: "dies_like W W' \<Longrightarrow> pipe_ok W' = pipe_ok W"
  by (simp add: fun_eq_iff pipe_ok_def msg_ok_def dies_like_def)

lemma submission_routed_ok:
  assumes "pipe_ok W s" and "handle_submission W p src cookie s = (r, t)"
  shows "pipe_ok W (routed Q s t)"
  using submit_keeps_ok [OF assms] keepsD [OF grows_handle_submission assms(2)] by (rule pipe_ok_routed)

lemma handles_routed_ok:
  assumes "pipe_ok W s" and "take_one q s = Some (body, s1)" and "handles W T q body s1 t"
  shows "pipe_ok W (routed Q s1 t)"
  using pipe_step_ok [OF assms(1) handles_pipe_step [OF assms(2,3)]] handles_grows [OF assms(3)]
  by (rule pipe_ok_routed)

lemma site_step_ok: "site_step W p T x y \<Longrightarrow> pipe_ok W (snd x) \<Longrightarrow> pipe_ok W (snd y)"
  by (erule site_stepE) (auto intro: submission_routed_ok handles_routed_ok pipe_ok_world)

lemma crash_step_ok:
  assumes "crash_step W p T x y" and "pipe_ok W (snd x)"
  shows "pipe_ok W (snd y)"
  using assms(1)
proof (cases rule: crash_step.cases)
  case (web W' src cookie s r t Q' Q)
  then show ?thesis
    using assms(2) submission_routed_ok [OF _ web(4)] by (simp add: pipe_ok_dies_like [OF web(3)])
next
  case (worker W' q s body s1 t Q)
  then have "pipe_ok W (routed Q s1 t)"
    using assms(2) handles_routed_ok [OF _ worker(4,5)] by (simp add: pipe_ok_dies_like [OF worker(3)])
  then have "pipe_ok W ((routed Q s1 t)\<lparr>s_taken := s_taken s\<rparr>)"
    by (rule pipe_ok_fewer) simp_all
  then show ?thesis by (simp add: worker)
qed

definition empty_site :: "'w outside \<Rightarrow> string set \<times> 'w sys \<Rightarrow> bool" where
  "empty_site W x \<longleftrightarrow> fst x = {} \<and> start_state W (snd x)"

interpretation crashing: transition_system "empty_site W" "\<lambda>x y. site_step W p T x y \<or> crash_step W p T x y"
    "\<lambda>x. pipe_ok W (snd x)" for W p T
  by unfold_locales (auto simp: empty_site_def start_state_ok dest: site_step_ok crash_step_ok)

definition crash_reachable :: "'w outside \<Rightarrow> ast_parser \<Rightarrow> int \<Rightarrow> string set \<times> 'w sys \<Rightarrow> bool" where
  "crash_reachable W p T x \<longleftrightarrow>
     (\<exists>x0. empty_site W x0 \<and> (\<lambda>x y. site_step W p T x y \<or> crash_step W p T x y)\<^sup>*\<^sup>* x0 x)"

lemma crash_reachable_ok: "crash_reachable W p T x \<Longrightarrow> pipe_ok W (snd x)"
  using crashing.reachable_inv unfolding crash_reachable_def crashing.reachable_def by blast

section \<open>Once every queue is there\<close>

definition pipeline_queues :: "string set" where
  "pipeline_queues = {BUILD_POD_QUEUE, POD_READY_QUEUE, MATCH_ONDECK_QUEUE}"

lemma all_services_declare:
  assumes "ops_b \<in> pod_builder_run" and "ops_o \<in> ondeck_handler_run" and "ops_s \<in> match_scheduler_run"
  shows "pipeline_queues \<subseteq> run_ops (ops_b @ ops_o @ ops_s) Q"
  using declared_by_start_up(1) [OF assms(1), of Q] declared_by_start_up(2) [OF assms(2), of Q]
    declared_by_start_up(3) [OF assms(3), of Q]
  by (auto simp: run_ops_eq pipeline_queues_def)

lemma msg_ok_queue: "msg_ok W d m \<Longrightarrow> fst m \<in> pipeline_queues"
  by (auto simp: msg_ok_def pipeline_queues_def)

lemma routed_all:
  assumes "pipe_ok W t" and "grows s t" and "pipeline_queues \<subseteq> Q"
  shows "routed Q s t = t"
proof -
  obtain ms where ms: "s_log t = s_log s @ ms" using assms(2) by (auto simp: grows_def)
  have "\<forall>m \<in> set ms. fst m \<in> Q"
    using assms(1,3) msg_ok_queue ms by (fastforce simp: pipe_ok_def)
  then have "s_log (routed Q s t) = s_log t" by (simp add: routed_log [OF ms] ms)
  then show ?thesis by (simp add: routed_def)
qed

lemma site_step_pipe_step:
  assumes step: "site_step W p T (Q, s) (Q', t)" and ok: "pipe_ok W s" and Q: "pipeline_queues \<subseteq> Q"
  shows "pipeline_queues \<subseteq> Q'" and "t = s \<or> pipe_step W p T s t"
proof -
  from step have "pipeline_queues \<subseteq> Q' \<and> (t = s \<or> pipe_step W p T s t)"
  proof (cases rule: site_step.cases)
    case (submit src cookie r u)
    then have "pipeline_queues \<subseteq> Q'" using Q by (auto simp: run_ops_eq)
    moreover from this have "t = u"
      using routed_all [OF submit_keeps_ok [OF ok] keepsD [OF grows_handle_submission]] submit by metis
    ultimately show ?thesis using submit pipe_step.submit by metis
  next
    case (handle q body s1 u)
    have "pipe_step W p T s u" using handle(3,4) by (rule handles_pipe_step)
    moreover from this have "t = u"
      using routed_all [OF pipe_step_ok [OF ok] handles_grows Q] handle by metis
    ultimately show ?thesis using handle Q by simp
  next
    case (outside w)
    then show ?thesis using Q by (simp add: pipe_step.outside)
  qed (use Q in \<open>auto simp: run_ops_eq\<close>)
  then show "pipeline_queues \<subseteq> Q'" "t = s \<or> pipe_step W p T s t" by simp_all
qed

lemma pipe_step_site_step:
  assumes step: "pipe_step W p T s t" and ok: "pipe_ok W s" and Q: "pipeline_queues \<subseteq> Q"
  shows "\<exists>Q'. site_step W p T (Q, s) (Q', t)"
proof -
  have ok_t: "pipe_ok W t" by (rule pipe_step_ok [OF ok step])
  have work: "site_step W p T (Q, s) (Q, t)" if "take_one q s = Some (body, s1)" "handles W T q body s1 t" for q body s1
    using site_step.handle [OF that, where Q = Q] routed_all [OF ok_t handles_grows [OF that(2)] Q] by simp
  from step show ?thesis
  proof (cases rule: pipe_step.cases)
    case (submit src cookie r)
    let ?Q' = "if s_log t = s_log s then Q else run_ops (ensure_connected False) Q"
    have "pipeline_queues \<subseteq> ?Q'" using Q by (auto simp: run_ops_eq)
    then have "routed ?Q' s t = t"
      by (rule routed_all [OF ok_t keepsD [OF grows_handle_submission submit]])
    with site_step.submit [OF submit refl, where Q = Q] show ?thesis by metis
  next
    case (outside w)
    then show ?thesis by (intro exI) (simp, rule site_step.outside)
  next
    case (build body s1 r)
    show ?thesis by (rule exI, rule work [OF build(1) handles.build [OF build(2)]])
  next
    case (schedule body s1 r)
    show ?thesis by (rule exI, rule work [OF schedule(1) handles.schedule [OF schedule(2)]])
  next
    case (ondeck body s1 r)
    show ?thesis by (rule exI, rule work [OF ondeck(1) handles.ondeck [OF ondeck(2)]])
  qed
qed

text \<open>A step of the site is then a step of the pipeline, or a start.\<close>

lemma site_step_iff:
  assumes "pipe_ok W s" and "pipeline_queues \<subseteq> Q"
  shows "(\<exists>Q'. site_step W p T (Q, s) (Q', t)) \<longleftrightarrow> t = s \<or> pipe_step W p T s t"
proof
  show "\<exists>Q'. site_step W p T (Q, s) (Q', t) \<Longrightarrow> t = s \<or> pipe_step W p T s t"
    using site_step_pipe_step(2) [OF _ assms] by blast
  show "t = s \<or> pipe_step W p T s t \<Longrightarrow> \<exists>Q'. site_step W p T (Q, s) (Q', t)"
    using site_step.connect pipe_step_site_step [OF _ assms] by blast
qed

lemma reachable_state_step: "reachable_state W p T s \<Longrightarrow> pipe_step W p T s t \<Longrightarrow> reachable_state W p T t"
  unfolding reachable_state_eq by (rule pipeline.reachable_step)

lemma site_steps_reachable:
  assumes "(site_step W p T)\<^sup>*\<^sup>* (Q, s) (Q', t)" and "reachable_state W p T s" and "pipeline_queues \<subseteq> Q"
  shows "reachable_state W p T t \<and> pipeline_queues \<subseteq> Q'"
  using assms(1)
proof (induction rule: rtranclp_induct2)
  case refl
  with assms show ?case by simp
next
  case (step Q1 u Q2 v)
  then have "pipe_ok W u" using reachable_state_ok by blast
  with site_step_pipe_step [OF step(2)] step(3) reachable_state_step show ?case by metis
qed

section \<open>A pod that is ready before the scheduler was ever up\<close>

text \<open>The bots of the build messages, and of those not yet taken.\<close>

definition builds :: "'w outside \<Rightarrow> 'w sys \<Rightarrow> int list" where
  "builds W s = map (\<lambda>body. bp_bot_id (the (validate_build (o_pydantic W) body))) (sent_to BUILD_POD_QUEUE s)"

definition waiting_builds :: "'w outside \<Rightarrow> 'w sys \<Rightarrow> int list" where
  "waiting_builds W s = drop (s_taken s BUILD_POD_QUEUE) (builds W s)"

lemma builds_bots:
  assumes "pipe_ok W s"
  shows "set (builds W s) \<subseteq> bot_ids (s_db s)"
  using assms by (auto simp: builds_def sent_to_def pipe_ok_def msg_ok_def pydantic_okD)

text \<open>A handler of a worker sends no build message; a submission sends one, for the bot it adds.\<close>

lemma build_messages:
  assumes "handle_build_pod_message W T body s = Some (r, t)"
  obtains "s_log t = s_log s"
  | i key where "validate_build (o_pydantic W) body = Some \<lparr>bp_bot_id = i, bp_runtime_key = key\<rparr>"
      and "s_log t = s_log s @ [(POD_READY_QUEUE, dump_ready (o_pydantic W) \<lparr>pr_bot_id = i\<rparr>)]"
  using handle_build_pod_message_sends [OF assms] by (metis BuildPodMessage.surjective old.unit.exhaust)

lemma schedule_messages:
  assumes ok: "pipe_ok W s" and taken: "take_one POD_READY_QUEUE s = Some (body, s1)"
    and run: "handle_pod_ready_message W body s1 = (r, t)"
  obtains i ms where "body = dump_ready (o_pydantic W) \<lparr>pr_bot_id = i\<rparr>" and "s_log t = s_log s @ ms"
    and "\<And>m. m \<in> set ms \<Longrightarrow>
      \<exists>x y cid. i \<in> {x, y} \<and> m = (MATCH_ONDECK_QUEUE, dump_ondeck (o_pydantic W) (ondeck_message x y cid))"
proof -
  have P: "pydantic_ok (o_pydantic W)" using ok by (simp add: pipe_ok_def)
  have s1: "s_db s1 = s_db s" "s_log s1 = s_log s" using take_one_Some(2) [OF taken] by simp_all
  have "msg_ok W (s_db s) (POD_READY_QUEUE, body)"
    using ok take_one_Some(1) [OF taken] by (simp add: pipe_ok_def)
  then obtain i where i: "body = dump_ready (o_pydantic W) \<lparr>pr_bot_id = i\<rparr>"
    by (auto simp: msg_ok_def)
  let ?ps = "pairings i (map b_id (ready_bots (s_db s)))"
  obtain r' where "send_all W ?ps 0 s1 = (r', t)"
    using run handle_pod_ready_message_run [OF P, of i s1] i s1(1) by (auto split: prod.splits sum.splits)
  then obtain k e where t: "t = sent W ?ps k e s1"
    using send_all_result [of ?ps W s1 0] by auto
  have body: "\<exists>x y cid. (x, y) \<in> set ps \<and>
      m = (MATCH_ONDECK_QUEUE, dump_ondeck (o_pydantic W) (ondeck_message x y cid))"
    if "m \<in> set (ondeck_bodies W n ps)" for m n ps
    using that by (induction W n ps rule: ondeck_bodies.induct) auto
  show ?thesis
  proof (rule that [OF i])
    show "s_log t = s_log s @ take k (ondeck_bodies W (s_drawn s1) ?ps)" by (simp add: t s1)
    fix m
    assume "m \<in> set (take k (ondeck_bodies W (s_drawn s1) ?ps))"
    then obtain x y cid where "(x, y) \<in> set ?ps"
      "m = (MATCH_ONDECK_QUEUE, dump_ondeck (o_pydantic W) (ondeck_message x y cid))"
      using body in_set_takeD by metis
    moreover from this(1) have "i \<in> {x, y}" by (auto simp: set_pairings)
    ultimately show "\<exists>x y cid. i \<in> {x, y} \<and>
        m = (MATCH_ONDECK_QUEUE, dump_ondeck (o_pydantic W) (ondeck_message x y cid))" by blast
  qed
qed

lemma ondeck_messages: "handle_match_ondeck W body s = (r, t) \<Longrightarrow> s_log t = s_log s"
  by (erule handle_match_ondeck_cases) simp_all

lemma submission_messages:
  assumes ok: "pipe_ok W s" and run: "handle_submission W p src cookie s = (r, t)"
  obtains "s_log t = s_log s"
  | i key where "i \<notin> bot_ids (s_db s)" and "s_log t =
      s_log s @ [(BUILD_POD_QUEUE, dump_build (o_pydantic W) \<lparr>bp_bot_id = i, bp_runtime_key = key\<rparr>)]"
  using run
proof (cases rule: handle_submission_cases)
  case rejected
  then show ?thesis by (intro that(1)) simp
next
  case (accepted n key)
  from accepted(5) show ?thesis
  proof (cases rule: submit_bot_cases)
    case (inserted s0 tok b d ms)
    have "b_id b = bots_seq (s_db s)"
      using inserted(1,3) by (auto simp: insert_version_def create_bot_def Let_def split: if_splits)
    moreover have "bots_seq (s_db s) \<notin> bot_ids (s_db s)"
      using ok db_okD(5) by (fastforce simp: pipe_ok_def bot_ids_def)
    ultimately show ?thesis using inserted(5,6) that by auto
  qed (use that in auto)
qed

lemma sent_to_append:
  "s_log t = s_log s @ ms \<Longrightarrow> sent_to q t = sent_to q s @ map snd (filter (\<lambda>m. fst m = q) ms)"
  by (simp add: sent_to_def)

lemma sent_to_msg: "body \<in> set (sent_to q s) \<longleftrightarrow> (q, body) \<in> set (s_log s)"
  by (force simp: sent_to_def)

lemma builds_same: "s_log t = s_log s \<Longrightarrow> builds W t = builds W s"
  by (simp add: builds_def sent_to_def)

lemma builds_append:
  "s_log t = s_log s @ ms \<Longrightarrow> builds W t = builds W s @
     map (\<lambda>m. bp_bot_id (the (validate_build (o_pydantic W) (snd m)))) (filter (\<lambda>m. fst m = BUILD_POD_QUEUE) ms)"
  by (simp add: builds_def sent_to_append [of t s ms])

lemma builds_no_new:
  "s_log t = s_log s @ ms \<Longrightarrow> \<forall>m \<in> set ms. fst m \<noteq> BUILD_POD_QUEUE \<Longrightarrow> builds W t = builds W s"
  by (simp add: builds_append filter_empty_conv)

text \<open>Whatever became of its messages, a worker has sent no build.\<close>

lemma worker_log:
  assumes ok: "pipe_ok W s" and taken: "take_one q s = Some (body, s1)" and run: "handles W T q body s1 t"
  obtains ms where "s_log (routed Q s1 t) = s_log s @ ms" and "\<forall>m \<in> set ms. fst m \<noteq> BUILD_POD_QUEUE"
proof -
  have s1: "s_log s1 = s_log s" using take_one_Some(2) [OF taken] by simp
  obtain ms where ms: "s_log t = s_log s1 @ ms" "\<forall>m \<in> set ms. fst m \<noteq> BUILD_POD_QUEUE"
    using run
  proof (cases rule: handles.cases)
    case (build r)
    show ?thesis
    proof (rule build_messages [OF build(2)])
      show "s_log t = s_log s1 \<Longrightarrow> ?thesis" by (rule that [of "[]"]) simp_all
      show "s_log t = s_log s1 @ [(POD_READY_QUEUE, dump_ready (o_pydantic W) \<lparr>pr_bot_id = i\<rparr>)] \<Longrightarrow> ?thesis" for i
        by (rule that [of "[(POD_READY_QUEUE, dump_ready (o_pydantic W) \<lparr>pr_bot_id = i\<rparr>)]"]) simp_all
    qed
  next
    case (schedule r)
    obtain i ms where "s_log t = s_log s @ ms" and "\<And>m. m \<in> set ms \<Longrightarrow>
        \<exists>x y cid. i \<in> {x, y} \<and> m = (MATCH_ONDECK_QUEUE, dump_ondeck (o_pydantic W) (ondeck_message x y cid))"
      using schedule_messages [OF ok taken [unfolded schedule(1)] schedule(2)] by metis
    then show ?thesis using s1 by (intro that [of ms]) fastforce+
  next
    case (ondeck r)
    then show ?thesis using ondeck_messages [OF ondeck(2)] by (intro that [of "[]"]) simp_all
  qed
  then show ?thesis
    by (intro that [of "filter (\<lambda>m. fst m \<in> Q) ms"]) (simp_all add: routed_log s1)
qed

lemma submission_builds:
  assumes ok: "pipe_ok W s" and run: "handle_submission W p src cookie s = (r, t)"
  obtains "builds W (routed Q s t) = builds W s"
  | i where "i \<notin> bot_ids (s_db s)" and "builds W (routed Q s t) = builds W s @ [i]"
  using ok run
proof (cases rule: submission_messages)
  case 1
  then show ?thesis by (intro that(1) builds_same) (simp add: routed_log [where ms = "[]"])
next
  case (2 i key)
  note log = routed_log [OF 2(2), of Q]
  show ?thesis
  proof (cases "BUILD_POD_QUEUE \<in> Q")
    case True
    with ok show ?thesis
      by (intro that(2) [OF 2(1)]) (simp add: builds_append [OF log] pipe_ok_def pydantic_okD)
  next
    case False
    then show ?thesis by (intro that(1) builds_same) (simp add: log)
  qed
qed

lemma site_step_builds:
  assumes step: "site_step W p T (Q, s) (Q', t)" and ok: "pipe_ok W s" and d: "distinct (builds W s)"
  shows "distinct (builds W t)"
  using step
proof (cases rule: site_step.cases)
  case (submit src cookie r u)
  show ?thesis
    using ok submit(2)
  proof (cases rule: submission_builds [where Q = Q'])
    case 1
    with d submit show ?thesis by simp
  next
    case (2 i)
    with d builds_bots [OF ok] submit show ?thesis by auto
  qed
next
  case (handle q body s1 u)
  with worker_log [OF ok handle(3,4), where Q = Q] builds_no_new d show ?thesis by metis
next
  case (outside w)
  then have "builds W t = builds W s" by (intro builds_same) simp
  with d show ?thesis by simp
qed (use d in simp_all)

definition site_ok :: "'w outside \<Rightarrow> string set \<times> 'w sys \<Rightarrow> bool" where
  "site_ok W x \<longleftrightarrow> pipe_ok W (snd x) \<and> distinct (builds W (snd x))"

interpretation starting: transition_system "empty_site W" "site_step W p T" "site_ok W" for W p T
proof
  show "empty_site W x \<Longrightarrow> site_ok W x" for x :: "string set \<times> 'a sys"
    by (auto simp: empty_site_def site_ok_def start_state_ok)
      (simp add: start_state_def builds_def sent_to_def)
  show "site_ok W x \<Longrightarrow> site_step W p T x y \<Longrightarrow> site_ok W y" for x y :: "string set \<times> 'a sys"
    using site_step_ok [of W p T x y] site_step_builds [of W p T "fst x" "snd x" "fst y" "snd y"]
    by (simp add: site_ok_def)
qed

definition site_reachable :: "'w outside \<Rightarrow> ast_parser \<Rightarrow> int \<Rightarrow> string set \<times> 'w sys \<Rightarrow> bool" where
  "site_reachable W p T x \<longleftrightarrow> (\<exists>x0. empty_site W x0 \<and> (site_step W p T)\<^sup>*\<^sup>* x0 x)"

lemma site_reachable_ok: "site_reachable W p T x \<Longrightarrow> site_ok W x"
  using starting.reachable_inv unfolding site_reachable_def starting.reachable_def by blast

text \<open>A ready bot that no message leads to, and that has no match with itself.\<close>

definition overlooked :: "'w outside \<Rightarrow> int \<Rightarrow> 'w sys \<Rightarrow> bool" where
  "overlooked W i s \<longleftrightarrow> i \<in> ready_ids (s_db s) \<and> i \<notin> set (waiting_builds W s) \<and>
     dump_ready (o_pydantic W) \<lparr>pr_bot_id = i\<rparr> \<notin> set (sent_to POD_READY_QUEUE s) \<and> \<not> scheduled W s i i"

definition points_to :: "'w outside \<Rightarrow> int \<Rightarrow> string \<times> string \<Rightarrow> bool" where
  "points_to W i m \<longleftrightarrow>
     fst m = BUILD_POD_QUEUE \<and> bp_bot_id (the (validate_build (o_pydantic W) (snd m))) = i \<or>
     m = (POD_READY_QUEUE, dump_ready (o_pydantic W) \<lparr>pr_bot_id = i\<rparr>) \<or>
     (\<exists>cid. m = (MATCH_ONDECK_QUEUE, dump_ondeck (o_pydantic W) (ondeck_message i i cid)))"

lemma overlooked_grows:
  assumes "overlooked W i s" and "grows s t" and "s_log t = s_log s @ ms"
    and "\<forall>m \<in> set ms. \<not> points_to W i m"
  shows "overlooked W i t"
proof -
  have taken: "s_taken t = s_taken s" using assms(2) by (simp add: grows_def)
  have "i \<notin> set (waiting_builds W t)"
    using assms(1,4) in_set_dropD
    by (fastforce simp: overlooked_def waiting_builds_def builds_append [OF assms(3)] taken points_to_def)
  moreover have "dump_ready (o_pydantic W) \<lparr>pr_bot_id = i\<rparr> \<notin> set (sent_to POD_READY_QUEUE t)"
    using assms(1,4) by (auto simp: overlooked_def sent_to_msg assms(3) points_to_def)
  moreover have "\<not> scheduled W t i i"
    using assms(1,4) by (auto simp: overlooked_def scheduled_def sent_to_msg assms(3) points_to_def)
  ultimately show ?thesis using assms(1,2) by (auto simp: overlooked_def grows_def)
qed

lemma overlooked_taken:
  assumes "overlooked W i s" and "take_one q s = Some (body, s1)"
  shows "overlooked W i s1"
proof -
  note s1 = take_one_Some(2) [OF assms(2)]
  have "set (waiting_builds W s1) \<subseteq> set (waiting_builds W s)"
  proof -
    have "builds W s1 = builds W s" by (rule builds_same) (simp add: s1)
    then show ?thesis by (simp add: waiting_builds_def s1 set_drop_subset_set_drop)
  qed
  with assms(1) show ?thesis by (auto simp: overlooked_def s1 scheduled_def sent_to_def)
qed

lemma routed_not_pointing:
  assumes "overlooked W i s" and "grows s t" and "s_log t = s_log s @ ms"
    and "\<forall>m \<in> set ms. \<not> points_to W i m"
  shows "overlooked W i (routed Q s t)"
  by (rule overlooked_grows [OF assms(1) routed_grows [OF assms(2)] routed_log [OF assms(3)]])
    (use assms(4) in auto)

lemma pydantic_inj:
  assumes "pydantic_ok P"
  shows "dump_ready P a = dump_ready P b \<Longrightarrow> a = b" and "dump_ondeck P c = dump_ondeck P d \<Longrightarrow> c = d"
  using pydantic_okD [OF assms] by (metis option.inject)+

text \<open>The message a worker took does not point to the bot, so none it sends does.\<close>

lemma worker_not_pointing:
  assumes ok: "pipe_ok W s" and o: "overlooked W i s" and taken: "take_one q s = Some (body, s1)"
    and run: "handles W T q body s1 t"
  obtains ms where "s_log t = s_log s1 @ ms" and "\<forall>m \<in> set ms. \<not> points_to W i m"
  using run
proof (cases rule: handles.cases)
  case (build r)
  from build(2) show ?thesis
  proof (cases rule: build_messages)
    case 1
    then show ?thesis by (intro that [of "[]"]) simp_all
  next
    case (2 j key)
    have "j = builds W s ! s_taken s BUILD_POD_QUEUE" "s_taken s BUILD_POD_QUEUE < length (builds W s)"
      using take_one_Some(3,4) [OF taken] build(1) 2(1) by (simp_all add: builds_def)
    then have "j \<in> set (waiting_builds W s)"
      unfolding waiting_builds_def by (metis Cons_nth_drop_Suc list.set_intros(1))
    then have "j \<noteq> i" using o by (auto simp: overlooked_def)
    then show ?thesis
      using 2(2) ok pydantic_inj(1) [of "o_pydantic W"]
      by (intro that [of "[(POD_READY_QUEUE, dump_ready (o_pydantic W) \<lparr>pr_bot_id = j\<rparr>)]"])
        (auto simp: points_to_def pipe_ok_def)
  qed
next
  case (schedule r)
  obtain j ms where j: "body = dump_ready (o_pydantic W) \<lparr>pr_bot_id = j\<rparr>" and log: "s_log t = s_log s @ ms"
    and ms: "\<And>m. m \<in> set ms \<Longrightarrow>
      \<exists>x y cid. j \<in> {x, y} \<and> m = (MATCH_ONDECK_QUEUE, dump_ondeck (o_pydantic W) (ondeck_message x y cid))"
    using schedule_messages [OF ok taken [unfolded schedule(1)] schedule(2)] by metis
  have "body \<in> set (sent_to POD_READY_QUEUE s)"
    using take_one_Some(1) [OF taken] schedule(1) by (simp add: sent_to_msg)
  then have "j \<noteq> i" using o j by (auto simp: overlooked_def)
  have "\<not> points_to W i m" if "m \<in> set ms" for m
  proof -
    obtain x y cid where "j \<in> {x, y}" "m = (MATCH_ONDECK_QUEUE, dump_ondeck (o_pydantic W) (ondeck_message x y cid))"
      using ms \<open>m \<in> set ms\<close> by metis
    then show ?thesis
      using \<open>j \<noteq> i\<close> ok pydantic_inj(2) [of "o_pydantic W" "ondeck_message x y cid"]
      by (auto simp: points_to_def pipe_ok_def ondeck_message_def)
  qed
  with log show ?thesis using take_one_Some(2) [OF taken] by (intro that [of ms]) simp_all
next
  case (ondeck r)
  then show ?thesis using ondeck_messages [OF ondeck(2)] by (intro that [of "[]"]) simp_all
qed

lemma overlooked_step:
  assumes step: "site_step W p T (Q, s) (Q', t)" and ok: "pipe_ok W s" and o: "overlooked W i s"
  shows "overlooked W i t"
  using step
proof (cases rule: site_step.cases)
  case (submit src cookie r u)
  note grown = keepsD [OF grows_handle_submission submit(2)]
  have P: "pydantic_ok (o_pydantic W)" using ok by (simp add: pipe_ok_def)
  have "i \<in> bot_ids (s_db s)" using o ready_ids_bots by (auto simp: overlooked_def)
  from ok submit(2) show ?thesis
  proof (cases rule: submission_messages)
    case 1
    then show ?thesis
      unfolding submit(1) by (intro routed_not_pointing [OF o grown, where ms = "[]"]) simp_all
  next
    case (2 j key)
    then show ?thesis
      unfolding submit(1) using \<open>i \<in> bot_ids (s_db s)\<close>
      by (intro routed_not_pointing [OF o grown 2(2)]) (auto simp: points_to_def pydantic_okD [OF P])
  qed
next
  case (handle q body s1 u)
  obtain ms where "s_log u = s_log s1 @ ms" "\<forall>m \<in> set ms. \<not> points_to W i m"
    using worker_not_pointing [OF ok o handle(3,4)] by metis
  then show ?thesis
    unfolding handle(2) by (rule routed_not_pointing [OF overlooked_taken [OF o handle(3)] handles_grows [OF handle(4)]])
next
  case (outside w)
  then show ?thesis using o by (intro overlooked_grows [OF o, where ms = "[]"]) (simp_all add: grows_def)
qed (use o in simp_all)

lemma overlooked_start:
  assumes ok: "pipe_ok W s" and d: "distinct (builds W s)" and Q: "POD_READY_QUEUE \<notin> Q"
    and taken: "take_one BUILD_POD_QUEUE s = Some (body, s1)"
    and run: "handle_build_pod_message W T body s1 = Some (r, t)"
    and i: "i \<in> ready_ids (s_db t)" "i \<notin> ready_ids (s_db s)"
  shows "overlooked W i (routed Q s1 t)"
proof -
  note s1 = take_one_Some(2) [OF taken]
  have P: "pydantic_ok (o_pydantic W)" using ok by (simp add: pipe_ok_def)
  from i have "s_db t \<noteq> s_db s1" by (auto simp: s1)
  from handle_build_pod_message_changed [OF run this] obtain msg b
    where msg: "validate_build (o_pydantic W) body = Some msg" and b: "b \<in> set (bots (s_db s1))"
      "b_id b = bp_bot_id msg" and t: "s_db t = set_pod_ready (b_id b) (pod_name (b_id b)) (s_db s1)"
    by metis
  have "b_id b \<in> bot_ids (s_db s1)" using b(1) by (simp add: bot_ids_def)
  then have "ready_ids (s_db t) = insert (b_id b) (ready_ids (s_db s))"
    by (simp add: t ready_ids_set_pod_ready s1)
  then have "i = bp_bot_id msg" using i b(2) by auto
  then have "builds W s ! s_taken s BUILD_POD_QUEUE = i" "s_taken s BUILD_POD_QUEUE < length (builds W s)"
    using take_one_Some(3,4) [OF taken] msg by (simp_all add: builds_def)
  then have gone: "i \<notin> set (drop (Suc (s_taken s BUILD_POD_QUEUE)) (builds W s))"
    using d by (metis Cons_nth_drop_Suc distinct.simps(2) distinct_drop)
  have "s_log (routed Q s1 t) = s_log s1"
    using run
  proof (cases rule: build_messages)
    case 1
    then show ?thesis by (simp add: routed_log [where ms = "[]"])
  next
    case (2 j key)
    then show ?thesis using routed_log [OF 2(2), of Q] by (simp add: Q)
  qed
  then have log: "s_log (routed Q s1 t) = s_log s" by (simp add: s1)
  have "s_taken t = s_taken s1" using grows_handle_build_pod_message [OF run] by (simp add: grows_def)
  then have "s_taken t BUILD_POD_QUEUE = Suc (s_taken s BUILD_POD_QUEUE)" by (simp add: s1)
  with gone have "i \<notin> set (waiting_builds W (routed Q s1 t))"
    by (simp add: waiting_builds_def builds_same [OF log])
  moreover have "dump_ready (o_pydantic W) \<lparr>pr_bot_id = i\<rparr> \<notin> set (sent_to POD_READY_QUEUE (routed Q s1 t))"
  proof
    assume "dump_ready (o_pydantic W) \<lparr>pr_bot_id = i\<rparr> \<in> set (sent_to POD_READY_QUEUE (routed Q s1 t))"
    then have "msg_ok W (s_db s) (POD_READY_QUEUE, dump_ready (o_pydantic W) \<lparr>pr_bot_id = i\<rparr>)"
      using ok by (simp add: sent_to_msg log pipe_ok_def)
    with i(2) pydantic_inj(1) [OF P] show False by (auto simp: msg_ok_def)
  qed
  moreover have "\<not> scheduled W (routed Q s1 t) i i"
  proof
    assume "scheduled W (routed Q s1 t) i i"
    then obtain cid where "(MATCH_ONDECK_QUEUE, dump_ondeck (o_pydantic W) (ondeck_message i i cid)) \<in> set (s_log s)"
      by (auto simp: scheduled_def sent_to_msg log)
    then have "msg_ok W (s_db s) (MATCH_ONDECK_QUEUE, dump_ondeck (o_pydantic W) (ondeck_message i i cid))"
      using ok by (auto simp: pipe_ok_def)
    with i(2) show False
      using pydantic_inj(2) [OF P, of "ondeck_message i i cid"] by (auto simp: msg_ok_def ondeck_message_def)
  qed
  ultimately show ?thesis using i(1) by (simp add: overlooked_def)
qed

section \<open>A match whose acknowledgement is lost\<close>

lemma recorded_correlation: "m_correlation_id (recorded x y result cid now db) = Some cid"
  by (simp add: recorded_def)

text \<open>A match is recorded under the correlation id of its message.\<close>

lemma ondeck_records:
  assumes ok: "pipe_ok W s" and taken: "take_one MATCH_ONDECK_QUEUE s = Some (body, s1)"
    and run: "handle_match_ondeck W body s1 = (Inr (), t)"
  obtains msg m where "validate_ondeck (o_pydantic W) body = Some msg"
    and "matches (s_db t) = matches (s_db s) @ [m]" and "m_id m = matches_seq (s_db s)"
    and "m_bot_x_id m = mo_bot_x_id msg" and "m_bot_o_id m = mo_bot_o_id msg"
    and "m_correlation_id m = Some (mo_correlation_id msg)"
    and "matches_seq (s_db t) = matches_seq (s_db s) + 1"
proof -
  have s1: "s_db s1 = s_db s" using take_one_Some(2) [OF taken] by simp
  have "matches (s_db t) \<noteq> matches (s_db s)"
    using handle_match_ondeck_adds [OF ok taken run] by auto
  with run show ?thesis
  proof (cases rule: handle_match_ondeck_cases)
    case (recorded msg mr w d)
    note tables = record_match_tables [OF recorded(4) [unfolded s1]]
    have "matches_seq d = matches_seq (s_db s) + 1"
      using recorded(4) s1 by (auto elim: record_match_Inr)
    then show ?thesis
      using recorded(5) tables(2)
      by (intro that [OF recorded(2), of "DbStats.recorded (mo_bot_x_id msg) (mo_bot_o_id msg) mr
          (mo_correlation_id msg) (o_now W w) (s_db s)"])
        (simp_all add: recorded_correlation)
  qed (use s1 in auto)
qed

lemma unacknowledged_ondeck:
  assumes "take_one MATCH_ONDECK_QUEUE s = Some (body, s1)"
    and "handle_match_ondeck W body s1 = (r, t)"
  shows "crash_step W p T (Q, s) (Q, t\<lparr>s_taken := s_taken s\<rparr>)"
    and "waiting MATCH_ONDECK_QUEUE (t\<lparr>s_taken := s_taken s\<rparr>) = waiting MATCH_ONDECK_QUEUE s"
proof -
  have s1: "s_log s1 = s_log s" using take_one_Some(2) [OF assms(1)] by simp
  note log = ondeck_messages [OF assms(2)]
  have "routed Q s1 t = t" using log by (simp add: routed_def)
  with crash_step.worker [OF dies_like_refl assms(1) handles.ondeck [OF assms(2)], where Q = Q]
  show "crash_step W p T (Q, s) (Q, t\<lparr>s_taken := s_taken s\<rparr>)" by simp
  show "waiting MATCH_ONDECK_QUEUE (t\<lparr>s_taken := s_taken s\<rparr>) = waiting MATCH_ONDECK_QUEUE s"
    using log s1 by (simp add: waiting_def sent_to_def)
qed

section \<open>The pipeline's states are states of the site\<close>

lemma some_start_ups:
  "[DeclareQueue BUILD_POD_QUEUE, Consume BUILD_POD_QUEUE] @ serve_rpc ''health.dispatcher.pod-builder'' \<in> pod_builder_run"
  "[DeclareQueue MATCH_ONDECK_QUEUE, Consume MATCH_ONDECK_QUEUE] @ serve_rpc ''health.dispatcher.ondeck-handler'' \<in> ondeck_handler_run"
  "[DeclareQueue POD_READY_QUEUE, Consume POD_READY_QUEUE] @ serve_rpc ''health.match-scheduler'' \<in> match_scheduler_run"
proof -
  have "x # ys \<in> shuffles [x] ys" for x :: channel_op and ys
    by (cases ys) auto
  then show "[DeclareQueue BUILD_POD_QUEUE, Consume BUILD_POD_QUEUE] @ serve_rpc ''health.dispatcher.pod-builder'' \<in> pod_builder_run"
    "[DeclareQueue MATCH_ONDECK_QUEUE, Consume MATCH_ONDECK_QUEUE] @ serve_rpc ''health.dispatcher.ondeck-handler'' \<in> ondeck_handler_run"
    "[DeclareQueue POD_READY_QUEUE, Consume POD_READY_QUEUE] @ serve_rpc ''health.match-scheduler'' \<in> match_scheduler_run"
    unfolding pod_builder_run_def ondeck_handler_run_def match_scheduler_run_def by simp_all
qed

lemma site_start_up:
  assumes "ops \<in> start_ups"
  shows "site_step W p T (Q, s) (run_ops ops Q, s)"
  using site_step.start [OF assms, where n = "length ops"] by simp

lemma site_all_started:
  assumes "empty_site W ({}, s)"
  shows "\<exists>Q. pipeline_queues \<subseteq> Q \<and> site_reachable W p T (Q, s)"
proof -
  obtain b k m where ops: "b \<in> pod_builder_run" "k \<in> ondeck_handler_run" "m \<in> match_scheduler_run"
    using some_start_ups by blast
  have "(site_step W p T)\<^sup>*\<^sup>* ({}, s) (run_ops m (run_ops k (run_ops b {})), s)"
    using site_start_up ops unfolding start_ups_def
    by (meson UnI1 UnI2 converse_rtranclp_into_rtranclp rtranclp.rtrancl_refl)
  moreover have "run_ops m (run_ops k (run_ops b {})) = run_ops (b @ k @ m) {}"
    by (simp add: run_ops_def)
  ultimately show ?thesis
    using assms all_services_declare [OF ops] unfolding site_reachable_def by metis
qed

lemma reachable_state_site:
  assumes "reachable_state W p T s"
  shows "\<exists>Q. pipeline_queues \<subseteq> Q \<and> site_reachable W p T (Q, s)"
proof -
  obtain s0 where s0: "start_state W s0" and steps: "(pipe_step W p T)\<^sup>*\<^sup>* s0 s"
    using assms by (auto simp: reachable_state_def)
  from steps show ?thesis
  proof (induction rule: rtranclp_induct)
    case base
    with s0 show ?case by (intro site_all_started) (simp add: empty_site_def)
  next
    case (step u v)
    then obtain Q where Q: "pipeline_queues \<subseteq> Q" "site_reachable W p T (Q, u)" by blast
    have ok: "pipe_ok W u" using site_reachable_ok [OF Q(2)] by (simp add: site_ok_def)
    obtain Q' where "site_step W p T (Q, u) (Q', v)"
      using pipe_step_site_step [OF step(2) ok Q(1)] by blast
    moreover from this have "pipeline_queues \<subseteq> Q'" by (rule site_step_pipe_step(1) [OF _ ok Q(1)])
    ultimately show ?case
      using Q(2) unfolding site_reachable_def by (meson rtranclp.rtrancl_into_rtrancl)
  qed
qed

lemma site_reachable_crash: "site_reachable W p T x \<Longrightarrow> crash_reachable W p T x"
  unfolding site_reachable_def crash_reachable_def
proof (elim exE conjE)
  fix x0
  assume x0: "empty_site W x0" and "(site_step W p T)\<^sup>*\<^sup>* x0 x"
  from this(2) have "(\<lambda>x y. site_step W p T x y \<or> crash_step W p T x y)\<^sup>*\<^sup>* x0 x"
    by (rule rtranclp_mono [THEN predicate2D, rotated]) blast
  with x0 show "\<exists>x0. empty_site W x0 \<and> (\<lambda>x y. site_step W p T x y \<or> crash_step W p T x y)\<^sup>*\<^sup>* x0 x" by blast
qed

section \<open>Properties\<close>

text \<open>C7: once the three services have started, the broker loses nothing: from a run in which each has
  declared its queue, the services make exactly the steps of the pipeline, whose queues are never
  missing, so that what holds of its reachable states holds of the site.\<close>

theorem declared_queues_lose_nothing:
  assumes "ops_b \<in> pod_builder_run" and "ops_o \<in> ondeck_handler_run" and "ops_s \<in> match_scheduler_run"
    and "start_state W s0"
    and "(site_step W p T)\<^sup>*\<^sup>* (run_ops (ops_b @ ops_o @ ops_s) {}, s0) (Q, s)"
  shows "reachable_state W p T s \<and>
    (\<forall>t. (\<exists>Q'. site_step W p T (Q, s) (Q', t)) \<longleftrightarrow> t = s \<or> pipe_step W p T s t)"
proof -
  have "reachable_state W p T s0" using assms(4) by (auto simp: reachable_state_def)
  from site_steps_reachable [OF assms(5) this all_services_declare [OF assms(1-3)]]
  have reach: "reachable_state W p T s" "pipeline_queues \<subseteq> Q" by simp_all
  show ?thesis using site_step_iff [OF reachable_state_ok [OF reach(1)] reach(2)] reach(1) by blast
qed

text \<open>C9: a pod that is ready before the scheduler has ever started is lost: the bot is marked ready, the
  message that says so is dropped because its queue does not exist, and whatever happens after,
  the bot is never paired with itself; its only matches are those of bots that come after it.\<close>

theorem early_pod_is_never_paired:
  assumes "site_reachable W p T (Q, s)" and "POD_READY_QUEUE \<notin> Q"
    and "take_one BUILD_POD_QUEUE s = Some (body, s1)"
    and "handle_build_pod_message W T body s1 = Some (r, t)"
    and "i \<in> ready_ids (s_db t)" and "i \<notin> ready_ids (s_db s)"
    and "(site_step W p T)\<^sup>*\<^sup>* (Q, routed Q s1 t) (Q', u)"
  shows "i \<in> ready_ids (s_db u) \<and>
    dump_ready (o_pydantic W) \<lparr>pr_bot_id = i\<rparr> \<notin> set (sent_to POD_READY_QUEUE u) \<and> \<not> scheduled W u i i"
proof -
  have ok: "pipe_ok W s" and d: "distinct (builds W s)"
    using site_reachable_ok [OF assms(1)] by (simp_all add: site_ok_def)
  have o: "overlooked W i (routed Q s1 t)" using overlooked_start [OF ok d assms(2-6)] .
  have ok1: "pipe_ok W (routed Q s1 t)"
    by (rule handles_routed_ok [OF ok assms(3) handles.build [OF assms(4)]])
  from assms(7) have "overlooked W i u \<and> pipe_ok W u"
  proof (induction rule: rtranclp_induct2)
    case refl
    with o ok1 show ?case by blast
  next
    case (step Q1 v Q2 w)
    then show ?case using overlooked_step [OF step(2)] site_step_ok [OF step(2)] by simp
  qed
  then show ?thesis by (simp add: overlooked_def)
qed

text \<open>Whatever dies and is redelivered, and whatever the broker drops, no match is stored that was
  not played by the rules between two bots whose pods became ready, with the moves, the result
  and the winner of that game.\<close>

lemma crashes_keep_matches_legal:
  assumes "crash_reachable W p T (Q, s)" and "m \<in> set (matches (s_db s))"
  shows "m_bot_x_id m \<in> ready_ids (s_db s) \<and> m_bot_o_id m \<in> ready_ids (s_db s) \<and> legal_match (s_db s) m"
  using crash_reachable_ok [OF assms(1)] assms(2) by (simp add: pipe_ok_def)

text \<open>C10: playing a match is not idempotent: when the handler dies after it stored the match and before it
  acknowledged, the message is delivered again and a second match with the same correlation id
  is stored beside the first.\<close>

theorem redelivered_match_is_stored_twice:
  assumes "crash_reachable W p T (Q, s)"
    and "take_one MATCH_ONDECK_QUEUE s = Some (body, s1)" and "handle_match_ondeck W body s1 = (Inr (), t)"
    and "u = t\<lparr>s_taken := s_taken s\<rparr>"
    and "take_one MATCH_ONDECK_QUEUE u = Some (body', u1)" and "handle_match_ondeck W body' u1 = (Inr (), v)"
  shows "crash_step W p T (Q, s) (Q, u) \<and> body' = body \<and>
    (\<exists>m1 m2. matches (s_db v) = matches (s_db s) @ [m1, m2] \<and> m_id m1 \<noteq> m_id m2 \<and>
       m_correlation_id m1 = m_correlation_id m2 \<and>
       m_bot_x_id m1 = m_bot_x_id m2 \<and> m_bot_o_id m1 = m_bot_o_id m2)"
proof -
  have ok: "pipe_ok W s" using crash_reachable_ok [OF assms(1)] by simp
  have crash: "crash_step W p T (Q, s) (Q, u)" "waiting MATCH_ONDECK_QUEUE u = waiting MATCH_ONDECK_QUEUE s"
    unfolding assms(4) by (rule unacknowledged_ondeck [OF assms(2,3)])+
  have ok_u: "pipe_ok W u" using crash_step_ok [OF crash(1)] ok by simp
  have body: "body' = body"
    using take_one_Some(5) [OF assms(2)] take_one_Some(5) [OF assms(5)] crash(2) by simp
  have u: "s_db u = s_db t" by (simp add: assms(4))
  obtain msg m1 where 1: "validate_ondeck (o_pydantic W) body = Some msg"
    "matches (s_db t) = matches (s_db s) @ [m1]" "m_id m1 = matches_seq (s_db s)"
    "m_bot_x_id m1 = mo_bot_x_id msg" "m_bot_o_id m1 = mo_bot_o_id msg"
    "m_correlation_id m1 = Some (mo_correlation_id msg)" "matches_seq (s_db t) = matches_seq (s_db s) + 1"
    using ondeck_records [OF ok assms(2,3)] by metis
  obtain msg' m2 where 2: "validate_ondeck (o_pydantic W) body' = Some msg'"
    "matches (s_db v) = matches (s_db u) @ [m2]" "m_id m2 = matches_seq (s_db u)"
    "m_bot_x_id m2 = mo_bot_x_id msg'" "m_bot_o_id m2 = mo_bot_o_id msg'"
    "m_correlation_id m2 = Some (mo_correlation_id msg')"
    using ondeck_records [OF ok_u assms(5,6)] by metis
  have "msg' = msg" using 1(1) 2(1) body by simp
  with 1 2 u crash(1) body show ?thesis by (intro conjI exI [of _ m1] exI [of _ m2]) simp_all
qed

end
