(* ===== verification/Schema.thy ===== *)
theory Schema
  imports DbStats Submit
begin

text \<open>
  The schema as data: the migration of \<open>alembic/versions\<close>, the classes of \<open>entities/*/model.py\<close>
  as SQLAlchemy reads them, \<open>alembic/env.py\<close> with the interpolation of \<open>configparser\<close> its URL goes
  through, and the dropping of the tables in \<open>scripts/reset_db.py\<close>. DDL is transactional, as in
  PostgreSQL: a failure leaves the schema as it was.
\<close>

section \<open>Tables\<close>

datatype sql_type = Integer | String | LargeBinary | Boolean | DateTime

text \<open>\<open>server_default\<close>: a string literal, or an SQL expression.\<close>

datatype sql_default = Literal string | Expression string

record column =
  c_name :: string
  c_type :: sql_type
  c_nullable :: bool
  c_server_default :: "sql_default option"

datatype table_constraint =
    PrimaryKey "string list"
  | UniqueKey "string list"
  | ForeignKey string string string
  | CheckIn string string "string list"

record table =
  t_name :: string
  t_columns :: "column list"
  t_constraints :: "table_constraint list"

definition Column :: "string \<Rightarrow> sql_type \<Rightarrow> bool \<Rightarrow> column" where
  "Column name ty nullable = \<lparr>c_name = name, c_type = ty, c_nullable = nullable, c_server_default = None\<rparr>"

section \<open>The migration\<close>

datatype operation = CreateTable table | DropTable string

definition revision :: string where
  "revision = ''c6ce93889b8c''"

definition down_revision :: "string option" where
  "down_revision = None"

definition bots_table :: table where
  "bots_table = \<lparr>t_name = ''bots'',
     t_columns =
      [Column ''id'' Integer False,
       Column ''base_name'' String False,
       Column ''versioned_name'' String False,
       (Column ''version'' Integer False)\<lparr>c_server_default := Some (Literal ''1'')\<rparr>,
       Column ''owner_token'' String False,
       Column ''source'' LargeBinary True,
       (Column ''python_version'' String False)\<lparr>c_server_default := Some (Literal ''3'')\<rparr>,
       (Column ''runtime_key'' String False)\<lparr>c_server_default := Some (Literal ''python-3.14'')\<rparr>,
       Column ''pod_name'' String True,
       (Column ''pod_ready'' Boolean False)\<lparr>c_server_default := Some (Literal ''false'')\<rparr>,
       (Column ''submitted_at'' DateTime False)\<lparr>c_server_default := Some (Expression ''CURRENT_TIMESTAMP'')\<rparr>],
     t_constraints = [PrimaryKey [''id''], UniqueKey [''versioned_name'']]\<rparr>"

definition RESULTS :: "string list" where
  "RESULTS = [''x_wins'', ''o_wins'', ''cat'', ''x_forfeit'', ''o_forfeit'']"

definition matches_table :: table where
  "matches_table = \<lparr>t_name = ''matches'',
     t_columns =
      [Column ''id'' Integer False,
       Column ''bot_x_id'' Integer False,
       Column ''bot_o_id'' Integer False,
       Column ''winner_id'' Integer True,
       Column ''result'' String False,
       Column ''correlation_id'' String True,
       (Column ''played_at'' DateTime False)\<lparr>c_server_default := Some (Expression ''CURRENT_TIMESTAMP'')\<rparr>],
     t_constraints =
      [CheckIn ''ck_matches_result'' ''result'' RESULTS,
       ForeignKey ''bot_o_id'' ''bots'' ''id'',
       ForeignKey ''bot_x_id'' ''bots'' ''id'',
       ForeignKey ''winner_id'' ''bots'' ''id'',
       PrimaryKey [''id'']]\<rparr>"

definition moves_table :: table where
  "moves_table = \<lparr>t_name = ''moves'',
     t_columns =
      [Column ''id'' Integer False,
       Column ''match_id'' Integer False,
       Column ''move_number'' Integer False,
       Column ''bot_id'' Integer False,
       Column ''board_state'' String False,
       Column ''error'' String True],
     t_constraints =
      [ForeignKey ''bot_id'' ''bots'' ''id'',
       ForeignKey ''match_id'' ''matches'' ''id'',
       PrimaryKey [''id'']]\<rparr>"

definition upgrade :: "operation list" where
  "upgrade = [CreateTable bots_table, CreateTable matches_table, CreateTable moves_table]"

definition downgrade :: "operation list" where
  "downgrade = [DropTable ''moves'', DropTable ''matches'', DropTable ''bots'']"

section \<open>The models\<close>

datatype py_type = PyInt | PyStr | PyBytes | PyBool | PyDatetime

text \<open>\<open>name: Mapped[type] = mapped_column(...)\<close>, or \<open>Mapped[type | None]\<close>.\<close>

record mapped =
  a_name :: string
  a_type :: py_type
  a_optional :: bool
  a_primary_key :: bool
  a_unique :: bool
  a_foreign_key :: "(string \<times> string) option"
  a_server_default :: "sql_default option"

definition Mapped :: "string \<Rightarrow> py_type \<Rightarrow> mapped" where
  "Mapped name ty = \<lparr>a_name = name, a_type = ty, a_optional = False, a_primary_key = False, a_unique = False,
     a_foreign_key = None, a_server_default = None\<rparr>"

definition Optional :: "string \<Rightarrow> py_type \<Rightarrow> mapped" where
  "Optional name ty = (Mapped name ty)\<lparr>a_optional := True\<rparr>"

fun sql_type_of :: "py_type \<Rightarrow> sql_type" where
  "sql_type_of PyInt = Integer"
| "sql_type_of PyStr = String"
| "sql_type_of PyBytes = LargeBinary"
| "sql_type_of PyBool = Boolean"
| "sql_type_of PyDatetime = DateTime"

definition mapped_to_column :: "mapped \<Rightarrow> column" where
  "mapped_to_column a = \<lparr>c_name = a_name a, c_type = sql_type_of (a_type a), c_nullable = a_optional a,
     c_server_default = a_server_default a\<rparr>"

definition declared_table :: "string \<Rightarrow> mapped list \<Rightarrow> table_constraint list \<Rightarrow> table" where
  "declared_table tablename attributes table_args = \<lparr>t_name = tablename,
     t_columns = map mapped_to_column attributes,
     t_constraints = table_args @ [PrimaryKey (map a_name (filter a_primary_key attributes))] @
       map (\<lambda>a. UniqueKey [a_name a]) (filter a_unique attributes) @
       concat (map (\<lambda>a. case a_foreign_key a of None \<Rightarrow> [] | Some (t, c) \<Rightarrow> [ForeignKey (a_name a) t c]) attributes)\<rparr>"

definition bot_model :: table where
  "bot_model = declared_table ''bots''
     [(Mapped ''id'' PyInt)\<lparr>a_primary_key := True\<rparr>,
      Mapped ''base_name'' PyStr,
      (Mapped ''versioned_name'' PyStr)\<lparr>a_unique := True\<rparr>,
      (Mapped ''version'' PyInt)\<lparr>a_server_default := Some (Literal ''1'')\<rparr>,
      Mapped ''owner_token'' PyStr,
      Optional ''source'' PyBytes,
      (Mapped ''python_version'' PyStr)\<lparr>a_server_default := Some (Literal ''3'')\<rparr>,
      (Mapped ''runtime_key'' PyStr)\<lparr>a_server_default :=
         Some (Literal ([CHR 0x27] @ ''python-3.14'' @ [CHR 0x27]))\<rparr>,
      Optional ''pod_name'' PyStr,
      (Mapped ''pod_ready'' PyBool)\<lparr>a_server_default := Some (Literal ''false'')\<rparr>,
      (Mapped ''submitted_at'' PyDatetime)\<lparr>a_server_default := Some (Expression ''CURRENT_TIMESTAMP'')\<rparr>] []"

definition match_model :: table where
  "match_model = declared_table ''matches''
     [(Mapped ''id'' PyInt)\<lparr>a_primary_key := True\<rparr>,
      (Mapped ''bot_x_id'' PyInt)\<lparr>a_foreign_key := Some (''bots'', ''id'')\<rparr>,
      (Mapped ''bot_o_id'' PyInt)\<lparr>a_foreign_key := Some (''bots'', ''id'')\<rparr>,
      (Optional ''winner_id'' PyInt)\<lparr>a_foreign_key := Some (''bots'', ''id'')\<rparr>,
      Mapped ''result'' PyStr,
      Optional ''correlation_id'' PyStr,
      (Mapped ''played_at'' PyDatetime)\<lparr>a_server_default := Some (Expression ''CURRENT_TIMESTAMP'')\<rparr>]
     [CheckIn ''ck_matches_result'' ''result'' RESULTS]"

definition move_model :: table where
  "move_model = declared_table ''moves''
     [(Mapped ''id'' PyInt)\<lparr>a_primary_key := True\<rparr>,
      (Mapped ''match_id'' PyInt)\<lparr>a_foreign_key := Some (''matches'', ''id'')\<rparr>,
      Mapped ''move_number'' PyInt,
      (Mapped ''bot_id'' PyInt)\<lparr>a_foreign_key := Some (''bots'', ''id'')\<rparr>,
      Mapped ''board_state'' PyStr,
      Optional ''error'' PyStr] []"

text \<open>\<open>Base.metadata.sorted_tables\<close>: a table after those it refers to.\<close>

definition metadata :: "table list" where
  "metadata = [bot_model, match_model, move_model]"

section \<open>Running operations\<close>

definition refers_to :: "string \<Rightarrow> table \<Rightarrow> bool" where
  "refers_to name t \<longleftrightarrow> t_name t \<noteq> name \<and>
     list_ex (\<lambda>c. case c of ForeignKey _ target _ \<Rightarrow> target = name | _ \<Rightarrow> False) (t_constraints t)"

definition targets_exist :: "table \<Rightarrow> string list \<Rightarrow> bool" where
  "targets_exist t names \<longleftrightarrow>
     list_all (\<lambda>c. case c of ForeignKey _ target _ \<Rightarrow> target = t_name t \<or> target \<in> set names | _ \<Rightarrow> True)
       (t_constraints t)"

fun run_operation :: "operation \<Rightarrow> table list \<Rightarrow> table list res" where
  "run_operation (CreateTable t) ts =
     (if t_name t \<in> set (map t_name ts) then Inl (OtherError ''DuplicateTableError'')
      else if \<not> targets_exist t (map t_name ts) then Inl (OtherError ''UndefinedTableError'')
      else Inr (ts @ [t]))"
| "run_operation (DropTable name) ts =
     (if name \<notin> set (map t_name ts) then Inl (OtherError ''UndefinedTableError'')
      else if list_ex (refers_to name) ts then Inl (OtherError ''DependentObjectsStillExistError'')
      else Inr (filter (\<lambda>t. t_name t \<noteq> name) ts))"

fun run_operations :: "operation list \<Rightarrow> table list \<Rightarrow> table list res" where
  "run_operations [] ts = Inr ts"
| "run_operations (x # xs) ts = bindE (run_operation x ts) (run_operations xs)"

record database =
  d_tables :: "table list"
  d_version :: "string option"

text \<open>\<open>alembic upgrade head\<close> and \<open>alembic downgrade base\<close>, with the only revision there is.\<close>

definition upgrade_head :: "database \<Rightarrow> unit res \<times> database" where
  "upgrade_head d =
     (if d_version d = Some revision then (Inr (), d)
      else if d_version d \<noteq> down_revision then (Inl (OtherError ''CommandError''), d)
      else (case run_operations upgrade (d_tables d) of
              Inl e \<Rightarrow> (Inl e, d)
            | Inr ts \<Rightarrow> (Inr (), \<lparr>d_tables = ts, d_version = Some revision\<rparr>)))"

definition downgrade_base :: "database \<Rightarrow> unit res \<times> database" where
  "downgrade_base d =
     (if d_version d = None then (Inr (), d)
      else if d_version d \<noteq> Some revision then (Inl (OtherError ''CommandError''), d)
      else (case run_operations downgrade (d_tables d) of
              Inl e \<Rightarrow> (Inl e, d)
            | Inr ts \<Rightarrow> (Inr (), \<lparr>d_tables = ts, d_version = down_revision\<rparr>)))"

text \<open>\<open>_drop_all_tables\<close>: \<open>metadata.drop_all\<close> drops those that are there, dependents first.\<close>

definition drop_all_tables :: "database \<Rightarrow> unit res \<times> database" where
  "drop_all_tables d =
     (case run_operations (map DropTable (filter (\<lambda>n. n \<in> set (map t_name (d_tables d))) (rev (map t_name metadata))))
             (d_tables d) of
        Inl e \<Rightarrow> (Inl e, d)
      | Inr ts \<Rightarrow> (Inr (), \<lparr>d_tables = ts, d_version = None\<rparr>))"

section \<open>Dropping and creating\<close>

definition our_names :: "string list" where
  "our_names = [''moves'', ''matches'', ''bots'']"

text \<open>Another program's table: not one of ours, and without a reference to one of ours.\<close>

definition unrelated :: "table \<Rightarrow> bool" where
  "unrelated t \<longleftrightarrow> t_name t \<notin> set our_names \<and> list_all (\<lambda>n. \<not> refers_to n t) our_names"

definition ours :: "table \<Rightarrow> bool" where
  "ours t \<longleftrightarrow> t \<in> set (metadata @ [bots_table, matches_table, moves_table])"

fun droppable :: "string list \<Rightarrow> table list \<Rightarrow> bool" where
  "droppable [] ts = True"
| "droppable (n # ns) ts \<longleftrightarrow> (\<forall>t \<in> set ts. \<not> refers_to n t) \<and> droppable ns (filter (\<lambda>t. t_name t \<noteq> n) ts)"

lemma run_drop:
  assumes "\<forall>t \<in> set ts. \<not> refers_to n t"
  shows "run_operation (DropTable n) ts =
    (if n \<in> t_name ` set ts then Inr (filter (\<lambda>t. t_name t \<noteq> n) ts) else Inl (OtherError ''UndefinedTableError''))"
proof -
  have "\<not> list_ex (refers_to n) ts" using assms by (auto simp: list_ex_iff)
  then show ?thesis by simp
qed

lemma run_drops:
  assumes "droppable ns ts" and "distinct ns"
  shows "run_operations (map DropTable (filter (\<lambda>n. n \<in> t_name ` set ts) ns)) ts =
    Inr (filter (\<lambda>t. t_name t \<notin> set ns) ts)"
  using assms
proof (induction ns arbitrary: ts)
  case (Cons n ns)
  let ?ts = "filter (\<lambda>t. t_name t \<noteq> n) ts"
  have names: "filter (\<lambda>m. m \<in> t_name ` set ts) ns = filter (\<lambda>m. m \<in> t_name ` set ?ts) ns"
    using Cons.prems(2) by (intro filter_cong) auto
  have rest: "run_operations (map DropTable (filter (\<lambda>m. m \<in> t_name ` set ts) ns)) ?ts =
      Inr (filter (\<lambda>t. t_name t \<notin> set ns) ?ts)"
    unfolding names using Cons.prems by (intro Cons.IH) auto
  have both: "filter (\<lambda>t. t_name t \<notin> set ns) ?ts = filter (\<lambda>t. t_name t \<notin> set (n # ns)) ts"
    by (simp add: conj_commute)
  show ?case
  proof (cases "n \<in> t_name ` set ts")
    case True
    then have "run_operation (DropTable n) ts = Inr ?ts"
      using Cons.prems(1) by (subst run_drop) auto
    with True rest both show ?thesis by (simp del: run_operation.simps)
  next
    case False
    then have "?ts = ts" by (auto intro!: filter_True)
    with False rest both show ?thesis by simp
  qed
qed simp

lemma our_references:
  assumes "ours t"
  shows "refers_to ''moves'' t = False" "refers_to ''matches'' t \<longrightarrow> t_name t = ''moves''"
    "refers_to ''bots'' t \<longrightarrow> t_name t \<in> {''moves'', ''matches''}" "t_name t \<in> set our_names"
  using assms
  by (auto simp: ours_def metadata_def bot_model_def match_model_def move_model_def declared_table_def
      bots_table_def matches_table_def moves_table_def refers_to_def Mapped_def Optional_def our_names_def)

lemma our_names_droppable:
  assumes "\<forall>t \<in> set ts. ours t \<or> unrelated t"
  shows "droppable our_names ts"
  using assms our_references by (fastforce simp: our_names_def unrelated_def)

lemma unrelated_kept:
  assumes "\<forall>t \<in> set ts. ours t \<or> unrelated t"
  shows "filter (\<lambda>t. t_name t \<notin> set our_names) ts = filter unrelated ts"
  using assms our_references(4) by (intro filter_cong) (auto simp: unrelated_def)

lemma metadata_names: "rev (map t_name metadata) = our_names"
  by (simp add: metadata_def bot_model_def match_model_def move_model_def declared_table_def our_names_def)

lemma drop_all_tables_drops:
  assumes "\<forall>t \<in> set (d_tables d). ours t \<or> unrelated t"
  shows "drop_all_tables d = (Inr (), \<lparr>d_tables = filter unrelated (d_tables d), d_version = None\<rparr>)"
  using run_drops [OF our_names_droppable [OF assms]] unrelated_kept [OF assms]
  by (simp add: drop_all_tables_def metadata_names our_names_def)

lemma run_upgrade:
  assumes "\<forall>t \<in> set ts. t_name t \<notin> set our_names"
  shows "run_operations upgrade ts = Inr (ts @ [bots_table, matches_table, moves_table])"
proof -
  have "''bots'' \<notin> t_name ` set ts" "''matches'' \<notin> t_name ` set ts" "''moves'' \<notin> t_name ` set ts"
    using assms by (auto simp: our_names_def)
  then show ?thesis
    by (simp add: upgrade_def bots_table_def matches_table_def moves_table_def targets_exist_def)
qed

text \<open>The downgrade of the migration undoes its upgrade: on a database that has not been migrated
  and holds only other programs' tables, both succeed and the database is as before.\<close>

theorem downgrade_undoes_upgrade:
  assumes "d_version d = None" and "\<forall>t \<in> set (d_tables d). unrelated t"
  shows "fst (upgrade_head d) = Inr () \<and> downgrade_base (snd (upgrade_head d)) = (Inr (), d)"
proof -
  let ?ts = "d_tables d @ [bots_table, matches_table, moves_table]"
  have up: "upgrade_head d = (Inr (), \<lparr>d_tables = ?ts, d_version = Some revision\<rparr>)"
    using run_upgrade [of "d_tables d"] assms
    by (simp add: upgrade_head_def down_revision_def revision_def unrelated_def)
  have mixed: "\<forall>t \<in> set ?ts. ours t \<or> unrelated t" using assms(2) by (simp add: ours_def)
  have drops: "downgrade = map DropTable our_names" by (simp add: downgrade_def our_names_def)
  have here: "filter (\<lambda>n. n \<in> t_name ` set ?ts) our_names = our_names"
    by (simp add: our_names_def bots_table_def matches_table_def moves_table_def)
  have "filter (\<lambda>t. t_name t \<notin> set our_names) ?ts = d_tables d"
    using assms(2) by (auto simp: unrelated_def our_names_def bots_table_def matches_table_def moves_table_def
        intro!: filter_True)
  then have "run_operations downgrade ?ts = Inr (d_tables d)"
    using run_drops [OF our_names_droppable [OF mixed]] unfolding here drops by (simp add: our_names_def)
  then show ?thesis
    using assms(1) by (simp add: up downgrade_base_def down_revision_def revision_def)
qed

definition foreign_table :: table where
  "foreign_table = \<lparr>t_name = ''spatial_ref_sys'', t_columns = [Column ''srid'' Integer False],
     t_constraints = [PrimaryKey [''srid'']]\<rparr>"

theorem downgrade_undoes_upgrade_witness:
  "downgrade_base (snd (upgrade_head \<lparr>d_tables = [foreign_table], d_version = None\<rparr>)) =
     (Inr (), \<lparr>d_tables = [foreign_table], d_version = None\<rparr>)"
  using downgrade_undoes_upgrade [of "\<lparr>d_tables = [foreign_table], d_version = None\<rparr>"]
  by (simp add: unrelated_def our_names_def foreign_table_def refers_to_def)

lemma reset_rebuilds:
  assumes "\<forall>t \<in> set (d_tables d). ours t \<or> unrelated t"
  shows "upgrade_head (snd (drop_all_tables d)) =
    (Inr (), \<lparr>d_tables = filter unrelated (d_tables d) @ [bots_table, matches_table, moves_table],
       d_version = Some revision\<rparr>)"
  using run_upgrade [of "filter unrelated (d_tables d)"]
  by (simp add: drop_all_tables_drops [OF assms] upgrade_head_def down_revision_def unrelated_def)

section \<open>The models against the migration\<close>

definition without_default :: "string \<Rightarrow> table \<Rightarrow> column list" where
  "without_default name t = map (\<lambda>c. if c_name c = name then c\<lparr>c_server_default := None\<rparr> else c) (t_columns t)"

definition default_of :: "string \<Rightarrow> table \<Rightarrow> sql_default option" where
  "default_of name t = Option.bind (find (\<lambda>c. c_name c = name) (t_columns t)) c_server_default"

text \<open>C29: The models and the migration declare the same tables in the same order: the same columns with
  the same types, nullability and defaults, and the same keys, references and checks. The one
  difference is the default of \<open>bots.runtime_key\<close>: the migration's is a runtime of the program, the
  model's has quotes inside the string and is none.\<close>

theorem models_match_the_migration:
  "run_operations upgrade [] = Inr [bots_table, matches_table, moves_table] \<and>
   map t_name metadata = map t_name [bots_table, matches_table, moves_table] \<and>
   map t_columns [match_model, move_model] = map t_columns [matches_table, moves_table] \<and>
   without_default ''runtime_key'' bot_model = without_default ''runtime_key'' bots_table \<and>
   map (set \<circ> t_constraints) metadata = map (set \<circ> t_constraints) [bots_table, matches_table, moves_table] \<and>
   (\<exists>k. default_of ''runtime_key'' bots_table = Some (Literal k) \<and> is_runtime k) \<and>
   (\<exists>k. default_of ''runtime_key'' bot_model = Some (Literal k) \<and> \<not> is_runtime k)"
proof (intro conjI)
  show "run_operations upgrade [] = Inr [bots_table, matches_table, moves_table]"
    using run_upgrade [of "[]"] by simp
  show "map t_name metadata = map t_name [bots_table, matches_table, moves_table]"
    "map t_columns [match_model, move_model] = map t_columns [matches_table, moves_table]"
    "without_default ''runtime_key'' bot_model = without_default ''runtime_key'' bots_table"
    by code_simp+
  show "map (set \<circ> t_constraints) metadata = map (set \<circ> t_constraints) [bots_table, matches_table, moves_table]"
    by (auto simp: metadata_def bot_model_def match_model_def move_model_def declared_table_def Mapped_def
        Optional_def bots_table_def matches_table_def moves_table_def)
  have "default_of ''runtime_key'' bots_table = Some (Literal ''python-3.14'') \<and> is_runtime ''python-3.14''"
    by (simp add: default_of_def bots_table_def Column_def is_runtime_def RUNTIMES_def)
  then show "\<exists>k. default_of ''runtime_key'' bots_table = Some (Literal k) \<and> is_runtime k" by blast
  let ?k = "CHR 0x27 # ''python-3.14'' @ [CHR 0x27]"
  have "default_of ''runtime_key'' bot_model = Some (Literal ?k) \<and> \<not> is_runtime ?k"
    by (simp add: default_of_def bot_model_def declared_table_def mapped_to_column_def Mapped_def Optional_def
        is_runtime_def RUNTIMES_def)
  then show "\<exists>k. default_of ''runtime_key'' bot_model = Some (Literal k) \<and> \<not> is_runtime k" by blast
qed

end
