(* ===== verification/PyJson.thy ===== *)
theory PyJson
  imports Json
begin

text \<open>
  What Python does with a value \<open>json.loads\<close> made, beyond \<open>get\<close>: iterating over it, subscripting it
  with a string, \<open>get\<close> with a default, and its text. An operation the value does not support
  raises; \<open>str\<close> of a number with a fraction is its lexeme.
\<close>

section \<open>Operations\<close>

definition json_iter :: "json \<Rightarrow> json list res" where
  "json_iter v = (case v of
     JArr vs \<Rightarrow> Inr vs
   | JObj kvs \<Rightarrow> Inr (map (\<lambda>kv. JStr (fst kv)) kvs)
   | JStr s \<Rightarrow> Inr (map (\<lambda>c. JStr [c]) s)
   | _ \<Rightarrow> Inl TypeError)"

definition get_default :: "json \<Rightarrow> string \<Rightarrow> json \<Rightarrow> json res" where
  "get_default v k d = (case v of
     JObj kvs \<Rightarrow> Inr (case map_of kvs k of Some x \<Rightarrow> x | None \<Rightarrow> d)
   | _ \<Rightarrow> Inl AttributeError)"

text \<open>\<open>value[key]\<close>\<close>

definition json_item :: "json \<Rightarrow> string \<Rightarrow> json res" where
  "json_item v k = (case v of
     JObj kvs \<Rightarrow> (case map_of kvs k of Some x \<Rightarrow> Inr x | None \<Rightarrow> Inl KeyError)
   | _ \<Rightarrow> Inl TypeError)"

section \<open>Values as text\<close>

fun py_repr_json :: "json \<Rightarrow> string" where
  "py_repr_json JNull = ''None''"
| "py_repr_json (JBool b) = (if b then ''True'' else ''False'')"
| "py_repr_json (JInt i) = int_str i"
| "py_repr_json (JFloat s) = s"
| "py_repr_json (JStr s) = py_repr s"
| "py_repr_json (JArr vs) = ''['' @ join '', '' (map py_repr_json vs) @ '']''"
| "py_repr_json (JObj kvs) =
     ''{'' @ join '', '' (map (\<lambda>(k, v). py_repr k @ '': '' @ py_repr_json v) kvs) @ ''}''"

definition py_str_json :: "json \<Rightarrow> string" where
  "py_str_json v = (case v of JStr s \<Rightarrow> s | _ \<Rightarrow> py_repr_json v)"

end
