(* ===== verification/ResetDb.thy ===== *)
theory ResetDb
  imports PyJson WebUtils Base64
begin

text \<open>
  \<open>scripts/reset_db.py\<close>: drop the tables, migrate, purge the broker's queues over its management API
  and delete the bot pods. The HTTP requests, the subprocesses and the dropping of the tables act on
  an opaque world; the environment variables of the script are the record \<open>settings\<close>.
\<close>

section \<open>The outside\<close>

text \<open>\<open>urlopen\<close>: an answer, an error status, no connection, a timeout, or another exception.\<close>

datatype http_answer =
    HttpOk string
  | HttpError nat string
  | Unreachable string
  | HttpTimeout string
  | HttpRaises py_exc

datatype process = Exited nat | FileNotFoundError | ProcessRaises py_exc

record 'w machine =
  x_http :: "string \<Rightarrow> string \<Rightarrow> string \<Rightarrow> 'w \<Rightarrow> http_answer \<times> 'w"
  x_run :: "string list \<Rightarrow> 'w \<Rightarrow> process \<times> 'w"
  x_drop_tables :: "'w \<Rightarrow> unit res \<times> 'w"

record settings =
  RABBITMQ_MGMT_URL :: string
  RABBITMQ_USER :: string
  RABBITMQ_PASS :: string

section \<open>The management API\<close>

definition queues_url :: "settings \<Rightarrow> string" where
  "queues_url S = RABBITMQ_MGMT_URL S @ ''/api/queues''"

definition list_queues :: "'w machine \<Rightarrow> settings \<Rightarrow> string \<Rightarrow> 'w \<Rightarrow> json option res \<times> 'w" where
  "list_queues X S auth_header w =
     (case x_http X ''GET'' (queues_url S) auth_header w of
        (HttpOk body, w1) \<Rightarrow>
          (case json_loads body of Some v \<Rightarrow> (Inr (Some v), w1) | None \<Rightarrow> (Inl JSONDecodeError, w1))
      | (HttpError code msg, w1) \<Rightarrow> (Inr None, w1)
      | (Unreachable msg, w1) \<Rightarrow> (Inr None, w1)
      | (HttpTimeout msg, w1) \<Rightarrow> (Inr None, w1)
      | (HttpRaises e, w1) \<Rightarrow> (Inl e, w1))"

definition purge_url :: "settings \<Rightarrow> string \<Rightarrow> string \<Rightarrow> string" where
  "purge_url S name vhost =
     RABBITMQ_MGMT_URL S @ ''/api/queues/'' @ url_quote vhost @ ''/'' @ url_quote name @ ''/contents''"

definition purge_queue :: "'w machine \<Rightarrow> settings \<Rightarrow> string \<Rightarrow> string \<Rightarrow> string \<Rightarrow> 'w \<Rightarrow> bool res \<times> 'w" where
  "purge_queue X S name vhost auth_header w =
     (case x_http X ''DELETE'' (purge_url S name vhost) auth_header w of
        (HttpOk body, w1) \<Rightarrow> (Inr True, w1)
      | (HttpError code msg, w1) \<Rightarrow> (Inr False, w1)
      | (Unreachable msg, w1) \<Rightarrow> (Inl (URLError msg), w1)
      | (HttpTimeout msg, w1) \<Rightarrow> (Inl (TimeoutError msg), w1)
      | (HttpRaises e, w1) \<Rightarrow> (Inl e, w1))"

text \<open>The loop over the queues the API listed, from the number purged so far.\<close>

fun purge_loop :: "'w machine \<Rightarrow> settings \<Rightarrow> string \<Rightarrow> nat \<Rightarrow> json list \<Rightarrow> 'w \<Rightarrow> nat res \<times> 'w" where
  "purge_loop X S auth purged [] w = (Inr purged, w)"
| "purge_loop X S auth purged (q # qs) w =
     (case json_item q ''name'' of
        Inl e \<Rightarrow> (Inl e, w)
      | Inr (JStr name) \<Rightarrow>
          if startswith name ''amq'' then purge_loop X S auth purged qs w
          else
            (case json_item q ''vhost'' of
               Inl e \<Rightarrow> (Inl e, w)
             | Inr (JStr vhost) \<Rightarrow>
                 (case purge_queue X S name vhost auth w of
                    (Inl e, w1) \<Rightarrow> (Inl e, w1)
                  | (Inr ok, w1) \<Rightarrow> purge_loop X S auth (if ok then purged + 1 else purged) qs w1)
             | Inr _ \<Rightarrow> (Inl TypeError, w))
      | Inr _ \<Rightarrow> (Inl AttributeError, w))"

definition auth_header :: "settings \<Rightarrow> string" where
  "auth_header S = ''Basic '' @
     b64encode (concat (map utf8_char (RABBITMQ_USER S @ '':'' @ RABBITMQ_PASS S)))"

text \<open>The number of queues purged; \<open>None\<close> when the API is not reachable.\<close>

definition purge_rabbitmq_queues :: "'w machine \<Rightarrow> settings \<Rightarrow> 'w \<Rightarrow> nat option res \<times> 'w" where
  "purge_rabbitmq_queues X S w =
     (case list_queues X S (auth_header S) w of
        (Inl e, w1) \<Rightarrow> (Inl e, w1)
      | (Inr None, w1) \<Rightarrow> (Inr None, w1)
      | (Inr (Some v), w1) \<Rightarrow>
          (case json_iter v of
             Inl e \<Rightarrow> (Inl e, w1)
           | Inr qs \<Rightarrow>
               (case purge_loop X S (auth_header S) 0 qs w1 of
                  (Inl e, w2) \<Rightarrow> (Inl e, w2)
                | (Inr n, w2) \<Rightarrow> (Inr (Some n), w2))))"

section \<open>The pods and the database\<close>

definition delete_bot_pods :: "'w machine \<Rightarrow> 'w \<Rightarrow> unit res \<times> 'w" where
  "delete_bot_pods X w =
     (case x_run X [''kubectl'', ''delete'', ''pods'', ''--all'', ''-n'', ''bots''] w of
        (ProcessRaises e, w1) \<Rightarrow> (Inl e, w1)
      | (_, w1) \<Rightarrow> (Inr (), w1))"

text \<open>\<open>subprocess.run(["alembic", "upgrade", "head"], check=True)\<close>\<close>

definition migrate :: "'w machine \<Rightarrow> 'w \<Rightarrow> unit res \<times> 'w" where
  "migrate X w =
     (case x_run X [''alembic'', ''upgrade'', ''head''] w of
        (Exited code, w1) \<Rightarrow> (if code = 0 then Inr () else Inl (OtherError ''CalledProcessError''), w1)
      | (FileNotFoundError, w1) \<Rightarrow> (Inl (OtherError ''FileNotFoundError''), w1)
      | (ProcessRaises e, w1) \<Rightarrow> (Inl e, w1))"

definition reset_main :: "'w machine \<Rightarrow> settings \<Rightarrow> 'w \<Rightarrow> unit res \<times> 'w" where
  "reset_main X S w =
     (case x_drop_tables X w of
        (Inl e, w1) \<Rightarrow> (Inl e, w1)
      | (Inr _, w1) \<Rightarrow>
          (case migrate X w1 of
             (Inl e, w2) \<Rightarrow> (Inl e, w2)
           | (Inr _, w2) \<Rightarrow>
               (case purge_rabbitmq_queues X S w2 of
                  (Inl e, w3) \<Rightarrow> (Inl e, w3)
                | (Inr _, w3) \<Rightarrow> delete_bot_pods X w3)))"

section \<open>The requests of a purge\<close>

lemma quote_no_slash: "CHR ''/'' \<notin> set (url_quote s)"
proof -
  have "CHR ''/'' \<noteq> upper_hex d" if "d < 16" for d
  proof -
    have "list_all (\<lambda>d. CHR ''/'' \<noteq> upper_hex d) [0..<16]" by code_simp
    then show ?thesis using that by (simp add: list_all_iff)
  qed
  moreover have "of_char c div 16 < (16::nat)" for c by (rule less_mult_imp_div_less) simp
  moreover have "of_char c mod 16 < (16::nat)" for c :: char by simp
  moreover have "\<not> unreserved (CHR ''/'')" by (simp add: unreserved_def)
  ultimately have "CHR ''/'' \<notin> set (quote_byte c)" for c
    by (auto simp: quote_byte_def)
  then show ?thesis by (auto simp: url_quote_def)
qed

lemma append_sep_inject: "c \<notin> set a \<Longrightarrow> c \<notin> set b \<Longrightarrow> a @ c # x = b @ c # y \<longleftrightarrow> a = b \<and> x = y"
  by (induction a arbitrary: b) (case_tac b; auto)+

lemma purge_url_inject:
  assumes "list_all is_ascii (n1 @ v1 @ n2 @ v2)"
  shows "purge_url S n1 v1 = purge_url S n2 v2 \<longleftrightarrow> n1 = n2 \<and> v1 = v2"
proof
  assume "purge_url S n1 v1 = purge_url S n2 v2"
  then have "url_quote v1 @ CHR ''/'' # url_quote n1 @ ''/contents'' =
      url_quote v2 @ CHR ''/'' # url_quote n2 @ ''/contents''"
    by (simp add: purge_url_def)
  then have "url_quote v1 = url_quote v2" "url_quote n1 = url_quote n2"
    by (simp_all add: append_sep_inject quote_no_slash)
  then have "url_unquote (url_quote v1) = url_unquote (url_quote v2)" "url_unquote (url_quote n1) = url_unquote (url_quote n2)"
    by simp_all
  then show "n1 = n2 \<and> v1 = v2" using assms by (simp add: url_unquote_quote)
qed simp

text \<open>A queue as the API lists it.\<close>

definition lists_queue :: "json \<Rightarrow> string \<times> string \<Rightarrow> bool" where
  "lists_queue q nv \<longleftrightarrow> json_item q ''name'' = Inr (JStr (fst nv)) \<and> json_item q ''vhost'' = Inr (JStr (snd nv))"

definition stays :: "string \<times> string \<Rightarrow> bool" where
  "stays nv \<longleftrightarrow> startswith (fst nv) ''amq''"

text \<open>A machine that answers by the request and keeps a log of them.\<close>

definition logging :: "(string \<Rightarrow> string \<Rightarrow> http_answer) \<Rightarrow> (string \<times> string) list machine \<Rightarrow> bool" where
  "logging answer X \<longleftrightarrow> (\<forall>m u a w. x_http X m u a w = (answer m u, w @ [(m, u)]))"

lemma purge_loop_log:
  assumes "logging answer X" and "list_all2 lists_queue qs nvs"
    and "\<And>u. (\<exists>b. answer ''DELETE'' u = HttpOk b) \<or> (\<exists>c m. answer ''DELETE'' u = HttpError c m)"
  shows "\<exists>k. purge_loop X S auth n qs w =
    (Inr (n + k), w @ map (\<lambda>nv. (''DELETE'', purge_url S (fst nv) (snd nv))) (filter (\<lambda>nv. \<not> stays nv) nvs)) \<and>
    k = length (filter (\<lambda>nv. \<not> stays nv \<and> (\<exists>b. answer ''DELETE'' (purge_url S (fst nv) (snd nv)) = HttpOk b)) nvs)"
  using assms(2)
proof (induction qs nvs arbitrary: n w rule: list_all2_induct)
  case (Cons q qs nv nvs)
  show ?case
  proof (cases "stays nv")
    case True
    then show ?thesis using Cons by (simp add: lists_queue_def stays_def)
  next
    case False
    let ?u = "purge_url S (fst nv) (snd nv)"
    have "purge_queue X S (fst nv) (snd nv) auth w =
        (Inr (\<exists>b. answer ''DELETE'' ?u = HttpOk b), w @ [(''DELETE'', ?u)])"
      using assms(3) [of ?u] assms(1) by (auto simp: purge_queue_def logging_def)
    then have "purge_loop X S auth n (q # qs) w =
        purge_loop X S auth (if \<exists>b. answer ''DELETE'' ?u = HttpOk b then n + 1 else n) qs (w @ [(''DELETE'', ?u)])"
      using Cons.hyps(1) False by (simp add: lists_queue_def stays_def)
    then show ?thesis
      using Cons.IH [of "if \<exists>b. answer ''DELETE'' ?u = HttpOk b then n + 1 else n" "w @ [(''DELETE'', ?u)]"] False
      by simp
  qed
qed simp

text \<open>When the management API lists the queues and answers every request, purging asks it to empty
  each listed queue whose name does not start with \<open>amq\<close> exactly once, in the listed order, and
  nothing else; the address of the request determines queue and virtual host; and the number it
  reports is the number of requests that succeeded.\<close>

theorem purge_empties_the_listed_queues:
  assumes "logging answer X" and "answer ''GET'' (queues_url S) = HttpOk body"
    and "json_loads body = Some (JArr qs)" and "list_all2 lists_queue qs nvs"
    and "\<And>u. (\<exists>b. answer ''DELETE'' u = HttpOk b) \<or> (\<exists>c m. answer ''DELETE'' u = HttpError c m)"
  shows "\<exists>k. purge_rabbitmq_queues X S w =
      (Inr (Some k), w @ (''GET'', queues_url S) #
         map (\<lambda>nv. (''DELETE'', purge_url S (fst nv) (snd nv))) (filter (\<lambda>nv. \<not> startswith (fst nv) ''amq'') nvs)) \<and>
    k = length (filter (\<lambda>nv. \<not> startswith (fst nv) ''amq'' \<and>
          (\<exists>b. answer ''DELETE'' (purge_url S (fst nv) (snd nv)) = HttpOk b)) nvs) \<and>
    (\<forall>a b c d. list_all is_ascii (a @ b @ c @ d) \<longrightarrow>
      (purge_url S a b = purge_url S c d \<longleftrightarrow> a = c \<and> b = d))"
proof -
  have "list_queues X S (auth_header S) w = (Inr (Some (JArr qs)), w @ [(''GET'', queues_url S)])"
    using assms(1,2,3) by (simp add: list_queues_def logging_def)
  then show ?thesis
    using purge_loop_log [OF assms(1,4,5), of S "auth_header S" 0 "w @ [(''GET'', queues_url S)]"] purge_url_inject
    by (auto simp: purge_rabbitmq_queues_def json_iter_def stays_def)
qed

definition demo_queue :: "string \<Rightarrow> json" where
  "demo_queue name = JObj [(''name'', JStr name), (''vhost'', JStr ''/'')]"

definition demo_listing :: string where
  "demo_listing = json_dumps (JArr [demo_queue ''amq.gen-1'', demo_queue ''matches.build''])"

definition demo_settings :: settings where
  "demo_settings = \<lparr>RABBITMQ_MGMT_URL = ''http://mq'', RABBITMQ_USER = ''guest'', RABBITMQ_PASS = ''guest''\<rparr>"

definition demo_answer :: "string \<Rightarrow> string \<Rightarrow> http_answer" where
  "demo_answer m u = (if m = ''GET'' then HttpOk demo_listing else HttpOk [])"

definition demo_machine :: "(string \<times> string) list machine" where
  "demo_machine = \<lparr>x_http = (\<lambda>m u a w. (demo_answer m u, w @ [(m, u)])),
     x_run = (\<lambda>_ w. (Exited 0, w)), x_drop_tables = (\<lambda>w. (Inr (), w))\<rparr>"

theorem purge_empties_the_listed_queues_witness:
  "purge_rabbitmq_queues demo_machine demo_settings [] =
     (Inr (Some 1), [(''GET'', ''http://mq/api/queues''),
       (''DELETE'', ''http://mq/api/queues/%2F/matches.build/contents'')])"
proof -
  have "purge_url demo_settings ''matches.build'' ''/'' = ''http://mq/api/queues/%2F/matches.build/contents''"
    by code_simp
  moreover have "json_loads demo_listing = Some (JArr [demo_queue ''amq.gen-1'', demo_queue ''matches.build''])"
    unfolding demo_listing_def by (rule json_loads_dumps) (simp add: demo_queue_def)
  moreover have "logging demo_answer demo_machine" by (simp add: logging_def demo_machine_def)
  ultimately show ?thesis
    using purge_empties_the_listed_queues [of demo_answer demo_machine demo_settings demo_listing
        "[demo_queue ''amq.gen-1'', demo_queue ''matches.build'']"
        "[(''amq.gen-1'', ''/''), (''matches.build'', ''/'')]" "[]"]
    by (simp add: demo_answer_def lists_queue_def demo_queue_def json_item_def queues_url_def demo_settings_def)
qed

end
