(* ===== verification/Health.thy ===== *)
theory Health
  imports PyJson WebUtils Messaging
begin

text \<open>
  The health checks of \<open>messaging/health.py\<close>: the probes of the database and the broker, the echo
  handler every worker serves, the probe that calls it, and the route that runs the probes. A probe
  acts on an opaque world through the operations of a record: a session with its \<open>SELECT 1\<close>, the
  broker's connection, channel, passive declaration and remote call, and the nonce.
\<close>

section \<open>Probes\<close>

type_synonym ('w, 'a) io = "'w \<Rightarrow> 'a res \<times> 'w"

record 'w broker =
  b_select1 :: "('w, unit) io"
  b_connect :: "('w, nat) io"
  b_channel :: "nat \<Rightarrow> ('w, nat) io"
  b_declare :: "nat \<Rightarrow> string \<Rightarrow> ('w, unit) io"
  b_rpc_client :: "nat \<Rightarrow> ('w, nat) io"
  b_call :: "nat \<Rightarrow> string \<Rightarrow> string \<Rightarrow> ('w, string) io"
  b_close :: "nat \<Rightarrow> ('w, unit) io"
  b_nonce :: "'w \<Rightarrow> string \<times> 'w"
  b_repr :: "py_exc \<Rightarrow> string"

definition bindIO :: "('w, 'a) io \<Rightarrow> ('a \<Rightarrow> ('w, 'b) io) \<Rightarrow> ('w, 'b) io" where
  "bindIO m f w = (case m w of (Inl e, w1) \<Rightarrow> (Inl e, w1) | (Inr x, w1) \<Rightarrow> f x w1)"

definition returnIO :: "'a \<Rightarrow> ('w, 'a) io" where
  "returnIO x w = (Inr x, w)"

text \<open>A status and its reason, \<open>("ok", None)\<close> or \<open>("down", reason)\<close>.\<close>

type_synonym probe_result = "string \<times> string option"
type_synonym 'w health_check = "('w, probe_result) io"

definition up :: probe_result where "up = (''ok'', None)"
definition down :: "string \<Rightarrow> probe_result" where "down reason = (''down'', Some reason)"

text \<open>\<open>except Exception as e: return "down", repr(e)\<close>\<close>

definition down_on_error :: "'w broker \<Rightarrow> ('w, probe_result) io \<Rightarrow> 'w health_check" where
  "down_on_error B m w = (case m w of (Inl e, w1) \<Rightarrow> (Inr (down (b_repr B e)), w1) | r \<Rightarrow> r)"

text \<open>
  \<open>try: connection = connect(); m; except ...; finally: if connection is not None: close()\<close>.
  An exception of \<open>close\<close> replaces the result.
\<close>

definition with_connection :: "'w broker \<Rightarrow> (nat \<Rightarrow> ('w, probe_result) io) \<Rightarrow> 'w health_check" where
  "with_connection B m w =
     (case b_connect B w of
        (Inl e, w1) \<Rightarrow> (Inr (down (b_repr B e)), w1)
      | (Inr connection, w1) \<Rightarrow>
          (case down_on_error B (m connection) w1 of
             (r, w2) \<Rightarrow> bindIO (b_close B connection) (\<lambda>_ w3. (r, w3)) w2))"

definition db_check :: "'w broker \<Rightarrow> 'w health_check" where
  "db_check B = down_on_error B (bindIO (b_select1 B) (\<lambda>_. returnIO up))"

definition broker_check :: "'w broker \<Rightarrow> string \<Rightarrow> 'w health_check" where
  "broker_check B queue_name =
     with_connection B (\<lambda>connection.
       bindIO (b_channel B connection) (\<lambda>channel.
       bindIO (b_declare B channel queue_name) (\<lambda>_. returnIO up)))"

section \<open>Strict UTF-8\<close>

text \<open>\<open>bytes.decode()\<close> raises on a text that is not UTF-8; the ranges are those of the standard.\<close>

definition byte_in :: "nat \<Rightarrow> nat \<Rightarrow> char \<Rightarrow> bool" where
  "byte_in lo hi c \<longleftrightarrow> lo \<le> of_char c \<and> of_char c \<le> hi"

fun utf8_tail :: "(nat \<times> nat) list \<Rightarrow> string \<Rightarrow> string option" where
  "utf8_tail [] cs = Some cs"
| "utf8_tail ((lo, hi) # rs) (c # cs) = (if byte_in lo hi c then utf8_tail rs cs else None)"
| "utf8_tail (r # rs) [] = None"

definition utf8_ranges :: "char \<Rightarrow> (nat \<times> nat) list option" where
  "utf8_ranges c =
     (if byte_in 0 127 c then Some []
      else if byte_in 194 223 c then Some [(128, 191)]
      else if byte_in 224 224 c then Some [(160, 191), (128, 191)]
      else if byte_in 237 237 c then Some [(128, 159), (128, 191)]
      else if byte_in 225 239 c then Some [(128, 191), (128, 191)]
      else if byte_in 240 240 c then Some [(144, 191), (128, 191), (128, 191)]
      else if byte_in 241 243 c then Some [(128, 191), (128, 191), (128, 191)]
      else if byte_in 244 244 c then Some [(128, 143), (128, 191), (128, 191)]
      else None)"

lemma utf8_tail_length: "utf8_tail rs cs = Some ds \<Longrightarrow> length ds \<le> length cs"
  by (induction rs cs rule: utf8_tail.induct) (auto split: if_splits)

function utf8_valid :: "string \<Rightarrow> bool" where
  "utf8_valid [] = True"
| "utf8_valid (c # cs) =
     (case utf8_ranges c of
        None \<Rightarrow> False
      | Some rs \<Rightarrow> (case utf8_tail rs cs of None \<Rightarrow> False | Some ds \<Rightarrow> utf8_valid ds))"
  by pat_completeness auto
termination
  by (relation "measure length") (auto dest: utf8_tail_length)

definition bytes_decode :: "string \<Rightarrow> string res" where
  "bytes_decode bs = (if utf8_valid bs then Inr (utf8_decode bs) else Inl (OtherError ''UnicodeDecodeError''))"

definition loads_bytes :: "string \<Rightarrow> json res" where
  "loads_bytes bs = bindE (bytes_decode bs)
     (\<lambda>text. case json_loads text of Some v \<Rightarrow> Inr v | None \<Rightarrow> Inl JSONDecodeError)"

section \<open>The echo handler of a worker\<close>

definition publish_queue_field :: "'w broker \<Rightarrow> nat \<Rightarrow> string \<Rightarrow> ('w, string) io" where
  "publish_queue_field B channel queue w =
     (case b_declare B channel queue w of
        (Inr _, w1) \<Rightarrow> (Inr ''ok'', w1)
      | (Inl e, w1) \<Rightarrow> (Inr (''down: '' @ b_repr B e), w1))"

definition field_text :: "probe_result \<Rightarrow> string" where
  "field_text r = (if fst r = ''ok'' then ''ok''
     else ''down: '' @ (case snd r of Some reason \<Rightarrow> reason | None \<Rightarrow> ''None''))"

definition make_health_echo_handler :: "'w broker \<Rightarrow> nat \<Rightarrow> string \<Rightarrow> string \<Rightarrow> ('w, string) io" where
  "make_health_echo_handler B channel publish_queue_name payload =
     bindIO (db_check B) (\<lambda>db.
     bindIO (publish_queue_field B channel publish_queue_name) (\<lambda>queue_field w.
       (bindE (bytes_decode payload) (\<lambda>echo.
          Inr (json_dumps (JObj [(''echo'', JStr echo), (''db'', JStr (field_text db)),
            (''publish_queue'', JStr queue_field)]))), w)))"

section \<open>The probe of a worker\<close>

fun first_failing :: "(string \<times> json) list \<Rightarrow> probe_result" where
  "first_failing [] = up"
| "first_failing ((field, v) # rest) =
     (if field = ''echo'' then first_failing rest
      else if v \<noteq> JStr ''ok'' then down (field @ '': '' @ py_str_json v)
      else first_failing rest)"

definition judge_echo :: "string \<Rightarrow> json \<Rightarrow> probe_result res" where
  "judge_echo nonce reply =
     bindE (json_get reply ''echo'') (\<lambda>echo.
       if echo \<noteq> JStr nonce then Inr (down (''echo mismatch (got '' @ py_repr_json echo @ '')''))
       else (case reply of JObj kvs \<Rightarrow> Inr (first_failing kvs) | _ \<Rightarrow> Inl AttributeError))"

definition worker_echo_check :: "'w broker \<Rightarrow> string \<Rightarrow> 'w health_check" where
  "worker_echo_check B rpc_queue w =
     (case b_nonce B w of (nonce, w0) \<Rightarrow>
        with_connection B (\<lambda>connection.
          bindIO (b_channel B connection) (\<lambda>channel.
          bindIO (b_rpc_client B channel) (\<lambda>client.
          bindIO (b_call B client rpc_queue nonce) (\<lambda>reply_bytes w1.
            (bindE (loads_bytes reply_bytes) (judge_echo nonce), w1))))) w0)"

section \<open>The route\<close>

fun run_checks :: "(string \<times> 'w health_check) list \<Rightarrow> ('w, (string \<times> string) list) io" where
  "run_checks [] w = (Inr [], w)"
| "run_checks ((name, check) # rest) w =
     bindIO check (\<lambda>r. bindIO (run_checks rest) (\<lambda>results. returnIO ((name, field_text r) # results))) w"

text \<open>\<open>GET /health\<close>: the status code and the body.\<close>

definition health :: "(string \<times> 'w health_check) list \<Rightarrow> ('w, nat \<times> (string \<times> string) list) io" where
  "health checks = bindIO (run_checks checks) (\<lambda>results.
     returnIO (if \<exists>v \<in> set (map snd results). v \<noteq> ''ok'' then 503 else 200, results))"

definition web_checks :: "'w broker \<Rightarrow> (string \<times> 'w health_check) list" where
  "web_checks B = [(''db'', db_check B), (''broker'', broker_check B BUILD_POD_QUEUE)]"

definition scheduler_checks :: "'w broker \<Rightarrow> (string \<times> 'w health_check) list" where
  "scheduler_checks B = [(''match_scheduler'', worker_echo_check B ''health.match-scheduler'')]"

definition dispatcher_checks :: "'w broker \<Rightarrow> (string \<times> 'w health_check) list" where
  "dispatcher_checks B =
     [(''pod_builder'', worker_echo_check B ''health.dispatcher.pod-builder''),
      (''ondeck_handler'', worker_echo_check B ''health.dispatcher.ondeck-handler'')]"

text \<open>The handlers the workers serve on those queues, each on the channel its consumer uses.\<close>

definition scheduler_echo :: "'w broker \<Rightarrow> nat \<Rightarrow> string \<Rightarrow> ('w, string) io" where
  "scheduler_echo B channel = make_health_echo_handler B channel MATCH_ONDECK_QUEUE"

definition pod_builder_echo :: "'w broker \<Rightarrow> nat \<Rightarrow> string \<Rightarrow> ('w, string) io" where
  "pod_builder_echo B channel = make_health_echo_handler B channel POD_READY_QUEUE"

definition ondeck_echo :: "'w broker \<Rightarrow> nat \<Rightarrow> string \<Rightarrow> ('w, string) io" where
  "ondeck_echo B channel = make_health_echo_handler B channel MATCH_ONDECK_QUEUE"

section \<open>ASCII texts\<close>

lemma is_ascii_byte: "is_ascii c \<longleftrightarrow> byte_in 0 127 c"
  by (auto simp: is_ascii_def byte_in_def)

lemma utf8_valid_ascii: "list_all is_ascii s \<Longrightarrow> utf8_valid s"
  by (induction s) (simp_all add: is_ascii_byte utf8_ranges_def)

lemma bytes_decode_ascii: "list_all is_ascii s \<Longrightarrow> bytes_decode s = Inr s"
  by (simp add: bytes_decode_def utf8_valid_ascii utf8_decode_ascii)

section \<open>What the gateway sees of a worker\<close>

text \<open>
  A worker is up for a probe: every call of the probe succeeds, closing the connection included, the
  reply is an object that echoes the nonce of this probe, and all its other fields are ''ok''.
\<close>

definition all_ok :: "string \<Rightarrow> json \<Rightarrow> bool" where
  "all_ok nonce reply \<longleftrightarrow>
     (\<exists>kvs. reply = JObj kvs \<and> map_of kvs ''echo'' = Some (JStr nonce) \<and>
        (\<forall>(field, v) \<in> set kvs. field \<noteq> ''echo'' \<longrightarrow> v = JStr ''ok''))"

inductive answered :: "'w broker \<Rightarrow> string \<Rightarrow> 'w \<Rightarrow> string \<Rightarrow> nat \<Rightarrow> string \<Rightarrow> 'w \<Rightarrow> bool" for B queue where
  "b_nonce B w = (nonce, w0) \<Longrightarrow> b_connect B w0 = (Inr connection, w1) \<Longrightarrow>
   b_channel B connection w1 = (Inr channel, w2) \<Longrightarrow> b_rpc_client B channel w2 = (Inr client, w3) \<Longrightarrow>
   b_call B client queue nonce w3 = (Inr reply, w4) \<Longrightarrow> answered B queue w nonce connection reply w4"

definition worker_up :: "'w broker \<Rightarrow> string \<Rightarrow> 'w \<Rightarrow> 'w \<Rightarrow> bool" where
  "worker_up B queue w w' \<longleftrightarrow>
     (\<exists>nonce connection reply v w1. answered B queue w nonce connection reply w1 \<and> loads_bytes reply = Inr v \<and>
        all_ok nonce v \<and> b_close B connection w1 = (Inr (), w'))"

text \<open>A worker is down, and why: the first call that failed, or what is wrong with the reply.\<close>

inductive worker_down :: "'w broker \<Rightarrow> string \<Rightarrow> 'w \<Rightarrow> string \<Rightarrow> bool" for B queue where
  connect: "b_nonce B w = (nonce, w0) \<Longrightarrow> b_connect B w0 = (Inl e, w1) \<Longrightarrow> worker_down B queue w (b_repr B e)"
| channel: "b_nonce B w = (nonce, w0) \<Longrightarrow> b_connect B w0 = (Inr connection, w1) \<Longrightarrow>
    b_channel B connection w1 = (Inl e, w2) \<Longrightarrow> worker_down B queue w (b_repr B e)"
| client: "b_nonce B w = (nonce, w0) \<Longrightarrow> b_connect B w0 = (Inr connection, w1) \<Longrightarrow>
    b_channel B connection w1 = (Inr ch, w2) \<Longrightarrow> b_rpc_client B ch w2 = (Inl e, w3) \<Longrightarrow>
    worker_down B queue w (b_repr B e)"
| call: "b_nonce B w = (nonce, w0) \<Longrightarrow> b_connect B w0 = (Inr connection, w1) \<Longrightarrow>
    b_channel B connection w1 = (Inr ch, w2) \<Longrightarrow> b_rpc_client B ch w2 = (Inr cl, w3) \<Longrightarrow>
    b_call B cl queue nonce w3 = (Inl e, w4) \<Longrightarrow> worker_down B queue w (b_repr B e)"
| unreadable: "answered B queue w nonce connection reply w1 \<Longrightarrow> loads_bytes reply = Inl e \<Longrightarrow>
    worker_down B queue w (b_repr B e)"
| no_object: "answered B queue w nonce connection reply w1 \<Longrightarrow> loads_bytes reply = Inr v \<Longrightarrow>
    (\<nexists>kvs. v = JObj kvs) \<Longrightarrow> worker_down B queue w (b_repr B AttributeError)"
| mismatch: "answered B queue w nonce connection reply w1 \<Longrightarrow> loads_bytes reply = Inr (JObj kvs) \<Longrightarrow>
    json_get (JObj kvs) ''echo'' = Inr echo \<Longrightarrow> echo \<noteq> JStr nonce \<Longrightarrow>
    worker_down B queue w (''echo mismatch (got '' @ py_repr_json echo @ '')'')"
| field: "answered B queue w nonce connection reply w1 \<Longrightarrow> loads_bytes reply = Inr (JObj (kvs @ (k, v) # rest)) \<Longrightarrow>
    json_get (JObj (kvs @ (k, v) # rest)) ''echo'' = Inr (JStr nonce) \<Longrightarrow> k \<noteq> ''echo'' \<Longrightarrow> v \<noteq> JStr ''ok'' \<Longrightarrow>
    (\<forall>(k', v') \<in> set kvs. k' \<noteq> ''echo'' \<longrightarrow> v' = JStr ''ok'') \<Longrightarrow>
    worker_down B queue w (k @ '': '' @ py_str_json v)"

lemma first_failing_cases:
  obtains "first_failing kvs = up" "\<forall>(k, v) \<in> set kvs. k \<noteq> ''echo'' \<longrightarrow> v = JStr ''ok''"
  | front k v rest where "kvs = front @ (k, v) # rest" "k \<noteq> ''echo''" "v \<noteq> JStr ''ok''"
      "\<forall>(k', v') \<in> set front. k' \<noteq> ''echo'' \<longrightarrow> v' = JStr ''ok''" "first_failing kvs = down (k @ '': '' @ py_str_json v)"
proof (induction kvs arbitrary: thesis)
  case Nil
  then show ?case by simp
next
  case (Cons p kvs)
  obtain k v where p: "p = (k, v)" by (cases p)
  show ?case
  proof (cases "k \<noteq> ''echo'' \<and> v \<noteq> JStr ''ok''")
    case True
    then show ?thesis using p by (intro Cons.prems(2) [of "[]" k v kvs]) simp_all
  next
    case False
    show ?thesis
    proof (rule Cons.IH)
      assume "first_failing kvs = up" "\<forall>(k, v) \<in> set kvs. k \<noteq> ''echo'' \<longrightarrow> v = JStr ''ok''"
      then show ?thesis using False p by (intro Cons.prems(1)) auto
    next
      fix front k' v' rest
      assume "kvs = front @ (k', v') # rest" "k' \<noteq> ''echo''" "v' \<noteq> JStr ''ok''"
        "\<forall>(k', v') \<in> set front. k' \<noteq> ''echo'' \<longrightarrow> v' = JStr ''ok''" "first_failing kvs = down (k' @ '': '' @ py_str_json v')"
      then show ?thesis using False p by (intro Cons.prems(2) [of "p # front" k' v' rest]) auto
    qed
  qed
qed

text \<open>The three ends of a probe: up, down with its reason, or an exception of closing.\<close>

lemma judged_reply:
  assumes ans: "answered B queue w nonce connection reply w1"
  shows "bindE (loads_bytes reply) (judge_echo nonce) = Inr up \<and> (\<exists>v. loads_bytes reply = Inr v \<and> all_ok nonce v) \<or>
    (\<exists>reason. worker_down B queue w reason \<and> \<not> (\<exists>v. loads_bytes reply = Inr v \<and> all_ok nonce v) \<and>
       (bindE (loads_bytes reply) (judge_echo nonce) = Inr (down reason) \<or>
        (\<exists>e. bindE (loads_bytes reply) (judge_echo nonce) = Inl e \<and> reason = b_repr B e)))"
proof (cases "loads_bytes reply")
  case (Inl e)
  with worker_down.unreadable [OF ans Inl] show ?thesis by auto
next
  case (Inr v)
  show ?thesis
  proof (cases "\<exists>kvs. v = JObj kvs")
    case False
    then have "json_get v ''echo'' = Inl AttributeError" by (cases v) (simp_all add: json_get_def)
    with Inr False worker_down.no_object [OF ans Inr False] show ?thesis
      by (auto simp: judge_echo_def all_ok_def)
  next
    case True
    then obtain kvs where kvs: "v = JObj kvs" ..
    obtain echo where echo: "json_get v ''echo'' = Inr echo"
      "echo = (case map_of kvs ''echo'' of Some x \<Rightarrow> x | None \<Rightarrow> JNull)"
      using kvs by (simp add: json_get_def)
    have same: "map_of kvs ''echo'' = Some (JStr nonce) \<longleftrightarrow> echo = JStr nonce"
      using echo(2) by (auto split: option.splits)
    show ?thesis
    proof (cases "echo = JStr nonce")
      case False
      from worker_down.mismatch [OF ans Inr [unfolded kvs] echo(1) [unfolded kvs] False] False same Inr kvs echo(1)
      show ?thesis by (auto simp: judge_echo_def all_ok_def)
    next
      case True
      then have judge: "bindE (loads_bytes reply) (judge_echo nonce) = Inr (first_failing kvs)"
        using Inr kvs echo(1) by (simp add: judge_echo_def)
      show ?thesis
      proof (cases rule: first_failing_cases [of kvs])
        case 1
        with judge Inr kvs same True show ?thesis by (simp add: all_ok_def)
      next
        case (2 front k x rest)
        have "worker_down B queue w (k @ '': '' @ py_str_json x)"
          by (rule worker_down.field [OF ans]) (use Inr kvs echo(1) True 2 in simp_all)
        moreover have "\<not> all_ok nonce v" using kvs 2 by (auto simp: all_ok_def)
        ultimately show ?thesis using judge Inr 2(5) by auto
      qed
    qed
  qed
qed

lemma answered_determ:
  "answered B queue w nonce connection reply w1 \<Longrightarrow> answered B queue w nonce' connection' reply' w1' \<Longrightarrow>
     nonce' = nonce \<and> connection' = connection \<and> reply' = reply \<and> w1' = w1"
  by (auto elim!: answered.cases)

lemma worker_up_answered:
  assumes "answered B queue w nonce connection reply w1"
  shows "worker_up B queue w w' \<longleftrightarrow>
    (\<exists>v. loads_bytes reply = Inr v \<and> all_ok nonce v) \<and> b_close B connection w1 = (Inr (), w')"
  unfolding worker_up_def using assms answered_determ [OF assms] by metis

lemma worker_echo_check_answered:
  assumes ans: "answered B queue w nonce connection reply w1"
  shows "worker_echo_check B queue w =
    bindIO (b_close B connection) (\<lambda>_ w3.
      (case bindE (loads_bytes reply) (judge_echo nonce) of Inr r \<Rightarrow> Inr r | Inl e \<Rightarrow> Inr (down (b_repr B e)), w3)) w1"
  using ans
  by cases (auto simp: worker_echo_check_def with_connection_def bindIO_def down_on_error_def split: sum.splits)

lemma probe_calls_cases:
  assumes n: "b_nonce B w = (nonce, w0)" and c: "b_connect B w0 = (Inr connection, w1)"
  obtains e v where "\<And>k. bindIO (b_channel B connection) (\<lambda>channel. bindIO (b_rpc_client B channel) (\<lambda>client.
      bindIO (b_call B client queue nonce) k)) w1 = (Inl e :: probe_result res, v)" "worker_down B queue w (b_repr B e)"
      "\<And>nonce' connection' reply v. \<not> answered B queue w nonce' connection' reply v"
  | reply v where "answered B queue w nonce connection reply v"
proof -
  obtain ch w2 where ch: "b_channel B connection w1 = (ch, w2)" by force
  show thesis
  proof (cases ch)
    case (Inl e)
    show thesis
      by (rule that(1) [of e w2])
        (use n c ch Inl in \<open>auto simp: bindIO_def intro: worker_down.channel elim!: answered.cases\<close>)
  next
    case (Inr channel)
    obtain cl w3 where cl: "b_rpc_client B channel w2 = (cl, w3)" by force
    show thesis
    proof (cases cl)
      case (Inl e)
      show thesis
        by (rule that(1) [of e w3])
          (use n c ch Inr cl Inl in \<open>auto simp: bindIO_def intro: worker_down.client elim!: answered.cases\<close>)
    next
      case client: (Inr client)
      obtain r w4 where r: "b_call B client queue nonce w3 = (r, w4)" by force
      show thesis
      proof (cases r)
        case (Inl e)
        show thesis
          by (rule that(1) [of e w4])
            (use n c ch Inr cl client r Inl in \<open>auto simp: bindIO_def intro: worker_down.call elim!: answered.cases\<close>)
      next
        case reply: (Inr reply)
        show thesis
          by (rule that(2) [of reply w4], rule answered.intros) (use n c ch Inr cl client r reply in simp_all)
      qed
    qed
  qed
qed

lemma worker_echo_check_cases:
  obtains (up) w' where "worker_echo_check B queue w = (Inr up, w')" "worker_up B queue w w'"
  | (down) reason w' where "worker_echo_check B queue w = (Inr (down reason), w')" "worker_down B queue w reason"
      "\<And>v. \<not> worker_up B queue w v"
  | (raised) e w' connection v where "worker_echo_check B queue w = (Inl e, w')" "b_close B connection v = (Inl e, w')"
proof -
  obtain nonce w0 where n: "b_nonce B w = (nonce, w0)" by force
  obtain c w1 where c: "b_connect B w0 = (c, w1)" by force
  show thesis
  proof (cases c)
    case (Inl e)
    show thesis
      by (rule down [of "b_repr B e" w1])
        (use n c Inl in \<open>auto simp: worker_echo_check_def with_connection_def worker_up_def
            intro: worker_down.connect elim!: answered.cases\<close>)
  next
    case (Inr connection)
    note connected = c [unfolded Inr]
    show thesis
    proof (rule probe_calls_cases [OF n connected, of queue])
      fix e v
      assume fails: "\<And>k. bindIO (b_channel B connection) (\<lambda>channel. bindIO (b_rpc_client B channel) (\<lambda>client.
          bindIO (b_call B client queue nonce) k)) w1 = (Inl e :: probe_result res, v)" "worker_down B queue w (b_repr B e)"
          "\<And>nonce' connection' reply v. \<not> answered B queue w nonce' connection' reply v"
      obtain x w' where x: "b_close B connection v = (x, w')" by force
      have probe: "worker_echo_check B queue w = (case x of Inl e' \<Rightarrow> (Inl e', w') | Inr _ \<Rightarrow> (Inr (down (b_repr B e)), w'))"
        using n connected fails(1) x
        by (simp add: worker_echo_check_def with_connection_def down_on_error_def bindIO_def [of "b_close B connection"])
      show thesis
      proof (cases x)
        case (Inl e')
        with probe x show ?thesis by (intro raised [of e' w' connection v]) simp_all
      next
        case closed: (Inr u)
        show ?thesis
          by (rule down [of "b_repr B e" w'])
            (use probe closed fails(2,3) in \<open>auto simp: worker_up_def\<close>)
      qed
    next
      fix reply v
      assume replies: "answered B queue w nonce connection reply v"
      obtain x w' where x: "b_close B connection v = (x, w')" by force
      note probe = worker_echo_check_answered [OF replies]
      show thesis
      proof (cases x)
        case (Inl e)
        with probe x show ?thesis by (intro raised [of e w' connection v]) (simp_all add: bindIO_def)
      next
        case closed: (Inr u)
        from judged_reply [OF replies] show ?thesis
        proof (elim disjE conjE exE)
          fix x1 assume "bindE (loads_bytes reply) (judge_echo nonce) = Inr up"
            "loads_bytes reply = Inr x1" "all_ok nonce x1"
          with probe x closed worker_up_answered [OF replies, of w'] show ?thesis
            by (intro up [of w']) (simp_all add: bindIO_def)
        next
          fix reason assume r: "worker_down B queue w reason" "\<not> (\<exists>v. loads_bytes reply = Inr v \<and> all_ok nonce v)"
            "bindE (loads_bytes reply) (judge_echo nonce) = Inr (down reason)"
          with probe x closed worker_up_answered [OF replies] show ?thesis
            by (intro down [of reason w']) (simp_all add: bindIO_def)
        next
          fix reason e assume r: "worker_down B queue w reason" "\<not> (\<exists>v. loads_bytes reply = Inr v \<and> all_ok nonce v)"
            "bindE (loads_bytes reply) (judge_echo nonce) = Inl e" "reason = b_repr B e"
          with probe x closed worker_up_answered [OF replies] show ?thesis
            by (intro down [of reason w']) (simp_all add: bindIO_def)
        qed
      qed
    qed
  qed
qed

text \<open>
  The reply of a worker's echo handler, by the outcome of its own session and of its own
  declaration: it echoes what it was sent, and names the part that is down.
\<close>

definition result_text :: "'w broker \<Rightarrow> unit res \<Rightarrow> string" where
  "result_text B r = (case r of Inr _ \<Rightarrow> ''ok'' | Inl e \<Rightarrow> ''down: '' @ b_repr B e)"

lemma db_check_run: "db_check B w = (Inr (case fst (b_select1 B w) of Inr _ \<Rightarrow> up | Inl e \<Rightarrow> down (b_repr B e)), snd (b_select1 B w))"
  by (auto simp: db_check_def down_on_error_def bindIO_def returnIO_def split: prod.splits sum.splits)

lemma publish_queue_field_run:
  "publish_queue_field B channel queue w =
     (Inr (result_text B (fst (b_declare B channel queue w))), snd (b_declare B channel queue w))"
  by (auto simp: publish_queue_field_def result_text_def split: prod.splits sum.splits)

lemma echo_handler_reply:
  assumes "list_all is_ascii nonce" and "b_select1 B w = (session, w1)" and "b_declare B channel queue w1 = (declared, w2)"
  shows "make_health_echo_handler B channel queue nonce w =
    (Inr (json_dumps (JObj [(''echo'', JStr nonce), (''db'', JStr (result_text B session)),
       (''publish_queue'', JStr (result_text B declared))])), w2)"
proof -
  have "field_text (case session of Inr _ \<Rightarrow> up | Inl e \<Rightarrow> down (b_repr B e)) = result_text B session"
    by (simp add: field_text_def up_def down_def result_text_def split: sum.splits)
  then show ?thesis
    using assms(2,3)
    by (simp add: make_health_echo_handler_def bindIO_def db_check_run publish_queue_field_run
        bytes_decode_ascii [OF assms(1)] del: json_dumps.simps)
qed

text \<open>So the gateway takes the reply for good exactly when both succeeded.\<close>

lemma echo_handler_all_ok:
  assumes "list_all is_ascii nonce" and "b_select1 B w = (session, w1)" and "b_declare B channel queue w1 = (declared, w2)"
    and "make_health_echo_handler B channel queue nonce w = (Inr reply, w3)"
  shows "(\<exists>v. loads_bytes reply = Inr v \<and> all_ok nonce v) \<longleftrightarrow> \<not> isl session \<and> \<not> isl declared"
proof -
  let ?v = "JObj [(''echo'', JStr nonce), (''db'', JStr (result_text B session)), (''publish_queue'', JStr (result_text B declared))]"
  have reply: "reply = json_dumps ?v" using echo_handler_reply [OF assms(1-3)] assms(4) by simp
  have "json_loads (json_dumps ?v) = Some ?v" by (rule json_loads_dumps) simp
  then have "loads_bytes reply = Inr ?v"
    unfolding reply by (simp add: loads_bytes_def bytes_decode_ascii ascii_json_dumps del: json_dumps.simps)
  then show ?thesis by (cases session; cases declared) (simp_all add: all_ok_def result_text_def)
qed

section \<open>The route\<close>

text \<open>What the route says of a worker: it is up, or it is down for a reason.\<close>

definition reported :: "'w broker \<Rightarrow> string \<Rightarrow> 'w \<Rightarrow> string \<Rightarrow> 'w \<Rightarrow> bool" where
  "reported B queue w text w' \<longleftrightarrow>
     text = ''ok'' \<and> worker_up B queue w w' \<or>
     (\<exists>reason. text = ''down: '' @ reason \<and> worker_down B queue w reason \<and> (\<forall>v. \<not> worker_up B queue w v))"

lemma worker_echo_check_reported:
  assumes "worker_echo_check B queue w = (r, w')"
  shows "case r of Inr p \<Rightarrow> reported B queue w (field_text p) w' | Inl e \<Rightarrow> \<exists>connection v. b_close B connection v = (Inl e, w')"
  by (cases rule: worker_echo_check_cases [of B queue w])
    (use assms in \<open>auto simp: reported_def field_text_def up_def down_def\<close>)

text \<open>C38: the health route of the dispatcher answers 200 exactly when both of its workers are up, over
  any broker: connecting, opening a channel, creating the client, calling the worker's queue and
  closing succeed, and the reply is an object that echoes the nonce of the probe and has ''ok'' in
  every other field. Otherwise it answers 503 and says of each worker that it is ok or why it is
  down: the exception of the call that failed, a reply that cannot be read, a nonce that is not
  echoed, or the first field that is not ok. It raises only what closing a connection raised.\<close>

theorem dispatcher_health_reports_the_workers:
  assumes "health (dispatcher_checks B) w = (r, w2)"
  shows "case r of
      Inr (code, results) \<Rightarrow>
        \<exists>w1 t1 t2. results = [(''pod_builder'', t1), (''ondeck_handler'', t2)] \<and>
          reported B ''health.dispatcher.pod-builder'' w t1 w1 \<and>
          reported B ''health.dispatcher.ondeck-handler'' w1 t2 w2 \<and>
          code = (if t1 = ''ok'' \<and> t2 = ''ok'' then 200 else 503)
    | Inl e \<Rightarrow> \<exists>connection v. b_close B connection v = (Inl e, w2)"
proof -
  let ?check = "worker_echo_check B"
  obtain r1 w1 where first: "?check ''health.dispatcher.pod-builder'' w = (r1, w1)" by force
  obtain r2 w3 where second: "?check ''health.dispatcher.ondeck-handler'' w1 = (r2, w3)" by force
  note R = worker_echo_check_reported [OF first] worker_echo_check_reported [OF second]
  have run: "health (dispatcher_checks B) w =
      (case r1 of Inl e \<Rightarrow> (Inl e, w1) | Inr p1 \<Rightarrow>
        (case r2 of Inl e \<Rightarrow> (Inl e, w3) | Inr p2 \<Rightarrow>
          (Inr (if field_text p1 = ''ok'' \<and> field_text p2 = ''ok'' then 200 else 503,
            [(''pod_builder'', field_text p1), (''ondeck_handler'', field_text p2)]), w3)))"
    using first second
    by (cases r1; cases r2) (auto simp: health_def dispatcher_checks_def bindIO_def returnIO_def)
  show ?thesis
  proof (cases "\<exists>p1 p2. r1 = Inr p1 \<and> r2 = Inr p2")
    case True
    then obtain p1 p2 where p: "r1 = Inr p1" "r2 = Inr p2" by blast
    with run assms have "r = Inr (if field_text p1 = ''ok'' \<and> field_text p2 = ''ok'' then 200 else 503,
        [(''pod_builder'', field_text p1), (''ondeck_handler'', field_text p2)])" "w2 = w3" by simp_all
    with R p show ?thesis
      by (simp only: sum.case prod.case) (intro exI [of _ w1] exI [of _ "field_text p1"] exI [of _ "field_text p2"] conjI refl)
  next
    case False
    with run R assms show ?thesis by (cases r1; cases r2) auto
  qed
qed

text \<open>A broker on which the pod builder answers and the ondeck handler echoes another nonce.\<close>

definition demo_broker :: "unit broker" where
  "demo_broker = \<lparr>b_select1 = returnIO (), b_connect = returnIO 0, b_channel = (\<lambda>_. returnIO 0),
     b_declare = (\<lambda>_ _. returnIO ()), b_rpc_client = (\<lambda>_. returnIO 0), b_call = (\<lambda>_ _ _ w. (Inl (TimeoutError []), w)),
     b_close = (\<lambda>_. returnIO ()), b_nonce = (\<lambda>w. (''00ff'', w)), b_repr = (\<lambda>_. ''TimeoutError()'')\<rparr>"

definition demo_net :: "unit broker" where
  "demo_net = demo_broker\<lparr>b_call := (\<lambda>_ queue nonce. if queue = ''health.dispatcher.pod-builder''
     then pod_builder_echo demo_broker 1 nonce else ondeck_echo demo_broker 2 ''beef'')\<rparr>"

theorem dispatcher_health_reports_the_workers_witness:
  "\<exists>t1 t2. fst (health (dispatcher_checks demo_net) ()) = Inr (503, [(''pod_builder'', t1), (''ondeck_handler'', t2)]) \<and>
     reported demo_net ''health.dispatcher.pod-builder'' () t1 () \<and> t1 = ''ok'' \<and>
     reported demo_net ''health.dispatcher.ondeck-handler'' () t2 () \<and> t2 \<noteq> ''ok''"
proof -
  obtain t1 t2 where run: "health (dispatcher_checks demo_net) () = (Inr (503, [(''pod_builder'', t1), (''ondeck_handler'', t2)]), ())"
    and t: "t1 = ''ok''" "t2 \<noteq> ''ok''"
    by (rule that [of "''ok''" "''down: echo mismatch (got '' @ py_repr ''beef'' @ '')''"]) (code_simp, simp_all)
  from dispatcher_health_reports_the_workers [OF run] t run show ?thesis by auto
qed

end
