(* ===== verification/Rpc.thy ===== *)
theory Rpc
  imports Transition
begin

text \<open>
  Remote calls over the broker: \<open>messaging/rpc_client.py\<close> and \<open>messaging/rpc_server.py\<close>. The
  client keeps a dict of pending calls by correlation id; a future is its state. The system
  around it is a step relation: calls start, requests wait in the queue of the server, are
  served, perhaps again after a redelivery, or expire; replies are delivered or lost; a call ends
  with its future's result, with a timeout, or, when the broker refuses the request, at once.
\<close>

section \<open>The client\<close>

datatype future = Waiting | Resolved string | Cancelled

record client =
  c_pending :: "string set"
  c_future :: "string \<Rightarrow> future option"

definition new_client :: client where
  "new_client = \<lparr>c_pending = {}, c_future = (\<lambda>_. None)\<rparr>"

text \<open>\<open>_on_reply\<close>: an unknown id is ignored; a known one is no longer pending.\<close>

definition on_reply :: "string \<Rightarrow> string \<Rightarrow> client \<Rightarrow> client" where
  "on_reply cid body c =
     (if cid \<in> c_pending c then
        (let c1 = c\<lparr>c_pending := c_pending c - {cid}\<rparr>
         in if c_future c cid = Some Waiting
              then c1\<lparr>c_future := (c_future c)(cid \<mapsto> Resolved body)\<rparr> else c1)
      else c)"

text \<open>
  \<open>call\<close>, up to the wait: the future is registered before the request is published, so a refused
  request leaves it registered.
\<close>

definition register_call :: "string \<Rightarrow> client \<Rightarrow> client" where
  "register_call cid c = c\<lparr>c_pending := insert cid (c_pending c), c_future := (c_future c)(cid \<mapsto> Waiting)\<rparr>"

text \<open>\<open>wait_for\<close> cancels the future it gives up on; \<open>except TimeoutError\<close> forgets it.\<close>

definition call_timeout :: "string \<Rightarrow> client \<Rightarrow> client" where
  "call_timeout cid c = c\<lparr>c_pending := c_pending c - {cid}, c_future := (c_future c)(cid \<mapsto> Cancelled)\<rparr>"

section \<open>The server\<close>

text \<open>
  \<open>on_message\<close>: the reply, if one was asked for; a handler that raises sends none.
\<close>

datatype request = Request (rq_cid: "string option") (rq_reply_to: "string option") (rq_payload: string)
datatype reply = Reply (rp_cid: "string option") (rp_body: string)

definition serve_message :: "string option \<Rightarrow> request \<Rightarrow> (string \<times> reply) list" where
  "serve_message response rq =
     (case response of
        None \<Rightarrow> []
      | Some body \<Rightarrow>
          (case rq_reply_to rq of
             Some q \<Rightarrow> if q \<noteq> [] then [(q, Reply (rq_cid rq) body)] else []
           | None \<Rightarrow> []))"

section \<open>Calls over the broker\<close>

datatype outcome = Returned string | TimedOut | Refused

record net =
  n_client :: client
  n_requests :: "request list"
  n_replies :: "reply list"
  n_called :: "string \<Rightarrow> string option"
  n_ended :: "string \<Rightarrow> outcome option"

definition idle :: net where
  "idle = \<lparr>n_client = new_client, n_requests = [], n_replies = [], n_called = (\<lambda>_. None), n_ended = (\<lambda>_. None)\<rparr>"

definition start_call :: "string \<Rightarrow> string \<Rightarrow> string \<Rightarrow> bool \<Rightarrow> net \<Rightarrow> net" where
  "start_call reply_queue cid payload published s =
     (let s1 = s\<lparr>n_client := register_call cid (n_client s), n_called := (n_called s)(cid \<mapsto> payload)\<rparr>
      in if published
           then s1\<lparr>n_requests := n_requests s @ [Request (Some cid) (Some reply_queue) payload]\<rparr>
         else s1\<lparr>n_ended := (n_ended s)(cid \<mapsto> Refused)\<rparr>)"

definition deliver_reply :: "reply \<Rightarrow> client \<Rightarrow> client" where
  "deliver_reply rp c = (case rp_cid rp of None \<Rightarrow> c | Some cid \<Rightarrow> on_reply cid (rp_body rp) c)"

text \<open>
  \<open>H payload body\<close>: the handler may answer \<open>payload\<close> with \<open>body\<close>. A correlation id is a fresh
  \<open>uuid4\<close>; the reply queue is the client's own.
\<close>

inductive rpc_step :: "string \<Rightarrow> (string \<Rightarrow> string \<Rightarrow> bool) \<Rightarrow> net \<Rightarrow> net \<Rightarrow> bool"
  for Q :: string and H :: "string \<Rightarrow> string \<Rightarrow> bool"
where
  call: "n_called s cid = None \<Longrightarrow> rpc_step Q H s (start_call Q cid payload published s)"
| serve: "rq \<in> set (n_requests s) \<Longrightarrow> (case response of None \<Rightarrow> True | Some body \<Rightarrow> H (rq_payload rq) body) \<Longrightarrow>
     set rest \<subseteq> set (n_requests s) \<Longrightarrow>
     rpc_step Q H s (s\<lparr>n_requests := rest,
       n_replies := n_replies s @ map snd (filter (\<lambda>m. fst m = Q) (serve_message response rq))\<rparr>)"
| expire: "set rest \<subseteq> set (n_requests s) \<Longrightarrow> rpc_step Q H s (s\<lparr>n_requests := rest\<rparr>)"
| deliver: "n_replies s = rp # rps \<Longrightarrow>
     rpc_step Q H s (s\<lparr>n_replies := rps, n_client := deliver_reply rp (n_client s)\<rparr>)"
| lose: "n_replies s = rp # rps \<Longrightarrow> rpc_step Q H s (s\<lparr>n_replies := rps\<rparr>)"
| finish: "c_future (n_client s) cid = Some (Resolved body) \<Longrightarrow> n_ended s cid = None \<Longrightarrow>
     rpc_step Q H s (s\<lparr>n_ended := (n_ended s)(cid \<mapsto> Returned body)\<rparr>)"
| timeout: "c_future (n_client s) cid = Some Waiting \<Longrightarrow> n_ended s cid = None \<Longrightarrow>
     rpc_step Q H s (s\<lparr>n_client := call_timeout cid (n_client s), n_ended := (n_ended s)(cid \<mapsto> TimedOut)\<rparr>)"

inductive_cases rpc_stepE: "rpc_step Q H s t"

section \<open>The invariant\<close>

text \<open>
  Requests carry the id and payload of a call the broker took, replies an answer to one; a resolved
  future holds such an answer; the pending ids are those whose future waits, which a call that was
  refused leaves waiting for good.
\<close>

definition answers :: "(string \<Rightarrow> string \<Rightarrow> bool) \<Rightarrow> net \<Rightarrow> string \<Rightarrow> string \<Rightarrow> bool" where
  "answers H s cid body \<longleftrightarrow>
     (\<exists>payload. n_called s cid = Some payload \<and> n_ended s cid \<noteq> Some Refused \<and> H payload body)"

definition rpc_ok :: "string \<Rightarrow> (string \<Rightarrow> string \<Rightarrow> bool) \<Rightarrow> net \<Rightarrow> bool" where
  "rpc_ok Q H s \<longleftrightarrow>
     (\<forall>rq \<in> set (n_requests s). \<exists>cid. rq_cid rq = Some cid \<and> n_called s cid = Some (rq_payload rq) \<and>
        n_ended s cid \<noteq> Some Refused) \<and>
     (\<forall>rp \<in> set (n_replies s). \<exists>cid. rp_cid rp = Some cid \<and> answers H s cid (rp_body rp)) \<and>
     (\<forall>cid body. c_future (n_client s) cid = Some (Resolved body) \<longrightarrow> answers H s cid body) \<and>
     (\<forall>cid body. n_ended s cid = Some (Returned body) \<longrightarrow> answers H s cid body) \<and>
     (\<forall>cid. cid \<in> c_pending (n_client s) \<longleftrightarrow> c_future (n_client s) cid = Some Waiting) \<and>
     (\<forall>cid. n_called s cid = None \<longrightarrow> c_future (n_client s) cid = None \<and> n_ended s cid = None) \<and>
     (\<forall>cid. c_future (n_client s) cid = Some Waiting \<longrightarrow> n_ended s cid \<in> {None, Some Refused}) \<and>
     (\<forall>cid. n_ended s cid = Some Refused \<longrightarrow> c_future (n_client s) cid = Some Waiting)"

lemma rpc_ok_idle: "rpc_ok Q H idle"
  by (simp add: rpc_ok_def idle_def new_client_def)

lemma answers_call:
  "n_called s cid = None \<Longrightarrow> answers H s k body \<Longrightarrow> answers H (start_call Q cid p b s) k body"
  by (auto simp: answers_def start_call_def Let_def)

lemma rpc_ok_call:
  assumes ok: "rpc_ok Q H s" and new: "n_called s cid = None"
  shows "rpc_ok Q H (start_call Q cid p b s)"
proof -
  let ?t = "start_call Q cid p b s"
  have fields: "n_called ?t = (n_called s)(cid \<mapsto> p)" "n_replies ?t = n_replies s"
    "n_client ?t = register_call cid (n_client s)"
    "n_requests ?t = n_requests s @ (if b then [Request (Some cid) (Some Q) p] else [])"
    "n_ended ?t = (if b then n_ended s else (n_ended s)(cid \<mapsto> Refused))"
    by (simp_all add: start_call_def Let_def)
  have kept: "answers H s k body \<Longrightarrow> answers H ?t k body" for k body
    by (rule answers_call [OF new])
  have fresh: "n_ended s cid = None" "c_future (n_client s) cid = None"
    using assms by (simp_all add: rpc_ok_def)
  have "\<exists>k. rq_cid rq = Some k \<and> n_called ?t k = Some (rq_payload rq) \<and> n_ended ?t k \<noteq> Some Refused" if "rq \<in> set (n_requests ?t)" for rq
  proof (cases "rq \<in> set (n_requests s)")
    case True
    then obtain k where "rq_cid rq = Some k" "n_called s k = Some (rq_payload rq)" "n_ended s k \<noteq> Some Refused"
      using ok by (auto simp: rpc_ok_def)
    then show ?thesis using new by (intro exI [of _ k]) (auto simp: fields)
  next
    case False
    then have "rq = Request (Some cid) (Some Q) p" "b" using that by (simp_all add: fields split: if_splits)
    then show ?thesis using fresh unfolding fields by simp
  qed
  moreover have "\<exists>k. rp_cid rp = Some k \<and> answers H ?t k (rp_body rp)" if "rp \<in> set (n_replies ?t)" for rp
    using that ok kept unfolding rpc_ok_def fields by blast
  moreover have "answers H ?t k body" if "c_future (n_client ?t) k = Some (Resolved body)" for k body
    using that ok kept by (auto simp: rpc_ok_def fields register_call_def split: if_splits)
  moreover have "answers H ?t k body" if "n_ended ?t k = Some (Returned body)" for k body
    using that ok kept by (auto simp: rpc_ok_def fields split: if_splits)
  ultimately show ?thesis
    using ok fresh unfolding rpc_ok_def by (simp add: fields register_call_def)
qed

lemma rpc_ok_deliver:
  assumes "rpc_ok Q H s" and "n_replies s = rp # rps"
  shows "rpc_ok Q H (s\<lparr>n_replies := rps, n_client := deliver_reply rp (n_client s)\<rparr>)"
proof -
  obtain cid where cid: "rp_cid rp = Some cid" "answers H s cid (rp_body rp)"
    using assms by (auto simp: rpc_ok_def)
  have pending: "cid \<in> c_pending (n_client s) \<longleftrightarrow> c_future (n_client s) cid = Some Waiting"
    using assms by (simp add: rpc_ok_def)
  show ?thesis
  proof (cases "cid \<in> c_pending (n_client s)")
    case True
    then have "deliver_reply rp (n_client s) = (n_client s)\<lparr>c_pending := c_pending (n_client s) - {cid},
        c_future := (c_future (n_client s))(cid \<mapsto> Resolved (rp_body rp))\<rparr>"
      using pending by (simp add: deliver_reply_def on_reply_def cid Let_def)
    then show ?thesis
      using assms cid True pending unfolding rpc_ok_def answers_def
      by (intro conjI allI ballI impI) (auto split: if_splits)
  next
    case False
    then have "deliver_reply rp (n_client s) = n_client s"
      by (simp add: deliver_reply_def on_reply_def cid)
    then show ?thesis
      using assms unfolding rpc_ok_def answers_def by (simp add: ball_Un)
  qed
qed

lemma answers_end:
  "n_ended s cid = None \<Longrightarrow> oc \<noteq> Refused \<Longrightarrow> answers H s k body \<Longrightarrow>
   answers H (s\<lparr>n_client := c, n_ended := (n_ended s)(cid \<mapsto> oc)\<rparr>) k body"
  by (auto simp: answers_def)

lemma rpc_ok_end:
  assumes ok: "rpc_ok Q H s" and live: "n_ended s cid = None" and oc: "oc \<noteq> Refused"
    and futures: "\<And>k. k \<noteq> cid \<Longrightarrow> c_future c k = c_future (n_client s) k"
    and ended: "\<exists>f. c_future c cid = Some f \<and> f \<noteq> Waiting \<and> (\<forall>body. f = Resolved body \<longrightarrow> answers H s cid body)"
    and returned: "\<And>body. oc = Returned body \<Longrightarrow> answers H s cid body"
    and known: "n_called s cid \<noteq> None"
    and pending: "\<And>k. k \<in> c_pending c \<longleftrightarrow> c_future c k = Some Waiting"
  shows "rpc_ok Q H (s\<lparr>n_client := c, n_ended := (n_ended s)(cid \<mapsto> oc)\<rparr>)"
proof -
  let ?t = "s\<lparr>n_client := c, n_ended := (n_ended s)(cid \<mapsto> oc)\<rparr>"
  have kept: "answers H s k body \<Longrightarrow> answers H ?t k body" for k body
    using live oc by (rule answers_end)
  have "\<exists>k. rq_cid rq = Some k \<and> n_called ?t k = Some (rq_payload rq) \<and> n_ended ?t k \<noteq> Some Refused"
    if request: "rq \<in> set (n_requests ?t)" for rq
  proof -
    obtain k where "rq_cid rq = Some k" "n_called s k = Some (rq_payload rq)" "n_ended s k \<noteq> Some Refused"
      using ok request by (auto simp: rpc_ok_def)
    then show ?thesis using oc by (intro exI [of _ k]) simp
  qed
  moreover have "\<exists>k. rp_cid rp = Some k \<and> answers H ?t k (rp_body rp)" if "rp \<in> set (n_replies ?t)" for rp
  proof -
    have "rp \<in> set (n_replies s)" using that by simp
    then show ?thesis using ok kept unfolding rpc_ok_def by blast
  qed
  moreover have "answers H ?t k body" if "c_future (n_client ?t) k = Some (Resolved body)" for k body
    using that ok kept ended futures [of k] by (cases "k = cid") (auto simp: rpc_ok_def)
  moreover have "answers H ?t k body" if "n_ended ?t k = Some (Returned body)" for k body
    using that ok kept returned by (cases "k = cid") (auto simp: rpc_ok_def)
  moreover have "n_called ?t k = None \<longrightarrow> c_future (n_client ?t) k = None \<and> n_ended ?t k = None" for k
    using ok known futures [of k] by (cases "k = cid") (auto simp: rpc_ok_def)
  moreover have "c_future (n_client ?t) k = Some Waiting \<longrightarrow> n_ended ?t k \<in> {None, Some Refused}" for k
    using ok ended futures [of k] by (cases "k = cid") (auto simp: rpc_ok_def)
  moreover have "n_ended ?t k = Some Refused \<longrightarrow> c_future (n_client ?t) k = Some Waiting" for k
    using ok oc futures [of k] by (cases "k = cid") (auto simp: rpc_ok_def)
  ultimately show ?thesis
    using pending unfolding rpc_ok_def by simp
qed

lemma rpc_ok_finish:
  assumes ok: "rpc_ok Q H s" and live: "n_ended s cid = None"
    and future: "c_future (n_client s) cid = Some (Resolved body)"
  shows "rpc_ok Q H (s\<lparr>n_ended := (n_ended s)(cid \<mapsto> Returned body)\<rparr>)"
proof -
  have "answers H s cid body" using ok future by (simp add: rpc_ok_def)
  moreover from this have "n_called s cid \<noteq> None" by (auto simp: answers_def)
  ultimately have "rpc_ok Q H (s\<lparr>n_client := n_client s, n_ended := (n_ended s)(cid \<mapsto> Returned body)\<rparr>)"
    using ok live future by (intro rpc_ok_end) (simp_all add: rpc_ok_def)
  then show ?thesis by simp
qed

lemma rpc_ok_timeout:
  assumes ok: "rpc_ok Q H s" and live: "n_ended s cid = None"
    and waiting: "c_future (n_client s) cid = Some Waiting"
  shows "rpc_ok Q H (s\<lparr>n_client := call_timeout cid (n_client s), n_ended := (n_ended s)(cid \<mapsto> TimedOut)\<rparr>)"
proof (rule rpc_ok_end [OF ok live])
  show "n_called s cid \<noteq> None" using ok waiting by (auto simp: rpc_ok_def)
qed (use ok in \<open>auto simp: call_timeout_def rpc_ok_def\<close>)

lemma rpc_ok_step:
  assumes "rpc_ok Q H s" and "rpc_step Q H s t"
  shows "rpc_ok Q H t"
  using assms(2)
proof (rule rpc_stepE)
  fix cid payload published
  assume "t = start_call Q cid payload published s" "n_called s cid = None"
  then show ?thesis using rpc_ok_call [OF assms(1)] by blast
next
  fix rq response rest
  assume t: "t = s\<lparr>n_requests := rest,
       n_replies := n_replies s @ map snd (filter (\<lambda>m. fst m = Q) (serve_message response rq))\<rparr>"
    and "rq \<in> set (n_requests s)" "case response of None \<Rightarrow> True | Some body \<Rightarrow> H (rq_payload rq) body"
    and "set rest \<subseteq> set (n_requests s)"
  moreover from this have "\<forall>rp \<in> set (map snd (filter (\<lambda>m. fst m = Q) (serve_message response rq))).
      \<exists>cid. rp_cid rp = Some cid \<and> answers H s cid (rp_body rp)"
    using assms(1) by (auto simp: serve_message_def rpc_ok_def answers_def split: option.splits if_splits)
  ultimately show ?thesis
    using assms(1) unfolding rpc_ok_def answers_def t by (simp add: ball_Un subset_iff)
next
  fix rest
  assume "t = s\<lparr>n_requests := rest\<rparr>" "set rest \<subseteq> set (n_requests s)"
  then show ?thesis using assms(1) unfolding rpc_ok_def answers_def by auto
next
  fix rp rps
  assume "t = s\<lparr>n_replies := rps, n_client := deliver_reply rp (n_client s)\<rparr>" "n_replies s = rp # rps"
  then show ?thesis using rpc_ok_deliver [OF assms(1)] by blast
next
  fix rp rps
  assume "t = s\<lparr>n_replies := rps\<rparr>" "n_replies s = rp # rps"
  then show ?thesis using assms(1) unfolding rpc_ok_def answers_def by auto
next
  fix cid body
  assume "t = s\<lparr>n_ended := (n_ended s)(cid \<mapsto> Returned body)\<rparr>"
    "c_future (n_client s) cid = Some (Resolved body)" "n_ended s cid = None"
  then show ?thesis using rpc_ok_finish [OF assms(1)] by blast
next
  fix cid
  assume "t = s\<lparr>n_client := call_timeout cid (n_client s), n_ended := (n_ended s)(cid \<mapsto> TimedOut)\<rparr>"
    "c_future (n_client s) cid = Some Waiting" "n_ended s cid = None"
  then show ?thesis using rpc_ok_timeout [OF assms(1)] by blast
qed

interpretation rpc: transition_system "\<lambda>s. s = idle" "rpc_step Q H" "rpc_ok Q H" for Q H
  by unfold_locales (use rpc_ok_idle rpc_ok_step in blast)+

definition rpc_reachable :: "string \<Rightarrow> (string \<Rightarrow> string \<Rightarrow> bool) \<Rightarrow> net \<Rightarrow> bool" where
  "rpc_reachable Q H s \<longleftrightarrow> (rpc_step Q H)\<^sup>*\<^sup>* idle s"

lemma rpc_reachable_ok: "rpc_reachable Q H s \<Longrightarrow> rpc_ok Q H s"
  using rpc.reachable_inv by (simp add: rpc_reachable_def rpc.reachable_def)

section \<open>What a caller relies on\<close>

text \<open>C39: however requests and replies are delayed, repeated or lost, a call that returns got an
  answer the server's handler gave to that call's own payload.\<close>

theorem call_returns_its_own_answer:
  assumes "rpc_reachable Q H s" and "n_ended s cid = Some (Returned body)"
  shows "\<exists>payload. n_called s cid = Some payload \<and> H payload body"
  using rpc_reachable_ok [OF assms(1)] assms(2) by (auto simp: rpc_ok_def answers_def)

text \<open>When every call has ended, what is left of the client's pending calls is exactly the calls
  the broker refused: the client never forgets those.\<close>

theorem pending_calls_left_are_refused:
  assumes "rpc_reachable Q H s" and "\<And>cid. n_called s cid \<noteq> None \<Longrightarrow> n_ended s cid \<noteq> None"
  shows "c_pending (n_client s) = {cid. n_ended s cid = Some Refused}"
proof -
  have ok: "rpc_ok Q H s" by (rule rpc_reachable_ok [OF assms(1)])
  have "cid \<in> c_pending (n_client s) \<longleftrightarrow> n_ended s cid = Some Refused" for cid
  proof
    assume "cid \<in> c_pending (n_client s)"
    then have waiting: "c_future (n_client s) cid = Some Waiting" using ok by (simp add: rpc_ok_def)
    then have "n_called s cid \<noteq> None" using ok by (auto simp: rpc_ok_def)
    then have "n_ended s cid \<noteq> None" by (rule assms(2))
    then show "n_ended s cid = Some Refused" using ok waiting by (auto simp: rpc_ok_def)
  next
    assume "n_ended s cid = Some Refused"
    then show "cid \<in> c_pending (n_client s)" using ok by (simp add: rpc_ok_def)
  qed
  then show ?thesis by blast
qed

text \<open>A call that is answered, and one that is refused.\<close>

definition echo :: "string \<Rightarrow> string \<Rightarrow> bool" where
  "echo payload body \<longleftrightarrow> body = payload"

definition after_call :: net where
  "after_call = start_call ''amq.gen'' ''a1'' ''ping'' True idle"

definition after_serve :: net where
  "after_serve = after_call\<lparr>n_requests := [], n_replies := n_replies after_call @
     map snd (filter (\<lambda>m. fst m = ''amq.gen'')
       (serve_message (Some ''ping'') (Request (Some ''a1'') (Some ''amq.gen'') ''ping'')))\<rparr>"

definition after_deliver :: net where
  "after_deliver = after_serve\<lparr>n_replies := [],
     n_client := deliver_reply (Reply (Some ''a1'') ''ping'') (n_client after_serve)\<rparr>"

definition after_finish :: net where
  "after_finish = after_deliver\<lparr>n_ended := (n_ended after_deliver)(''a1'' \<mapsto> Returned ''ping'')\<rparr>"

definition after_refusal :: net where
  "after_refusal = start_call ''amq.gen'' ''b2'' ''ping'' False after_finish"

lemmas rpc_run_defs = after_call_def after_serve_def after_deliver_def after_finish_def after_refusal_def
  start_call_def register_call_def deliver_reply_def on_reply_def serve_message_def idle_def
  new_client_def

lemma after_finish_reachable: "rpc_reachable ''amq.gen'' echo after_finish"
proof -
  have "rpc_step ''amq.gen'' echo idle after_call"
    unfolding after_call_def by (rule rpc_step.call) (simp add: idle_def)
  moreover have "rpc_step ''amq.gen'' echo after_call after_serve"
    unfolding after_serve_def
    by (rule rpc_step.serve) (simp_all add: rpc_run_defs echo_def)
  moreover have "rpc_step ''amq.gen'' echo after_serve after_deliver"
    unfolding after_deliver_def
    by (rule rpc_step.deliver) (simp add: rpc_run_defs)
  moreover have "rpc_step ''amq.gen'' echo after_deliver after_finish"
    unfolding after_finish_def
    by (rule rpc_step.finish) (simp_all add: rpc_run_defs)
  ultimately show ?thesis
    unfolding rpc_reachable_def by (meson rtranclp.rtrancl_refl rtranclp.rtrancl_into_rtrancl)
qed

lemma after_refusal_reachable: "rpc_reachable ''amq.gen'' echo after_refusal"
proof -
  have "rpc_step ''amq.gen'' echo after_finish after_refusal"
    unfolding after_refusal_def by (rule rpc_step.call) (simp add: rpc_run_defs)
  then show ?thesis
    using after_finish_reachable unfolding rpc_reachable_def by (rule rtranclp.rtrancl_into_rtrancl [rotated])
qed

lemma after_refusal_ended: "n_ended after_refusal = [''a1'' \<mapsto> Returned ''ping'', ''b2'' \<mapsto> Refused]"
  "n_called after_refusal = [''a1'' \<mapsto> ''ping'', ''b2'' \<mapsto> ''ping'']"
  by (simp_all add: rpc_run_defs fun_eq_iff)

theorem call_returns_its_own_answer_witness:
  "\<exists>payload. n_called after_finish ''a1'' = Some payload \<and> echo payload ''ping''"
  by (rule call_returns_its_own_answer [OF after_finish_reachable]) (simp add: after_finish_def)

theorem pending_calls_left_are_refused_witness: "c_pending (n_client after_refusal) = {''b2''}"
proof -
  have "c_pending (n_client after_refusal) = {cid. n_ended after_refusal cid = Some Refused}"
    by (rule pending_calls_left_are_refused [OF after_refusal_reachable])
      (simp add: after_refusal_ended split: if_splits)
  also have "\<dots> = {''b2''}" by (auto simp: after_refusal_ended)
  finally show ?thesis .
qed

end
