(* ===== verification/BrokerConnection.thy ===== *)
theory BrokerConnection
  imports Health BrokerClient StartUp Rpc
begin

text \<open>
  The broker-agnostic wrapper of \<open>messaging/connection.py\<close>: opening it (\<open>make_connection\<close> of
  \<open>messaging/client.py\<close>), its four methods, and \<open>RpcClient.create\<close>, over the calls of \<open>aio_pika\<close>,
  each of which may raise. \<open>recorder\<close> is the library that notes what it is asked: what the methods
  ask of it are the request lists of \<open>StartUp\<close>.
\<close>

section \<open>The wrapper\<close>

text \<open>A connection, a channel and a queue are numbers; an exclusive queue gets its name from the broker.\<close>

record 'w aio_pika =
  a_connect_robust :: "string \<Rightarrow> ('w, nat) io"
  a_channel :: "nat \<Rightarrow> ('w, nat) io"
  a_set_qos :: "nat \<Rightarrow> nat \<Rightarrow> ('w, unit) io"
  a_declare_queue :: "nat \<Rightarrow> string \<Rightarrow> ('w, string) io"
  a_declare_exclusive :: "nat \<Rightarrow> ('w, string) io"
  a_consume :: "nat \<Rightarrow> string \<Rightarrow> ('w, unit) io"
  a_close :: "nat \<Rightarrow> ('w, unit) io"

record RabbitMQBrokerConnection =
  bc_connection :: nat
  bc_channel :: nat

definition make_connection :: "'w aio_pika \<Rightarrow> environ \<Rightarrow> ('w, RabbitMQBrokerConnection) io" where
  "make_connection A environ =
     bindIO (a_connect_robust A (BROKER_URL environ)) (\<lambda>connection.
     bindIO (a_channel A connection) (\<lambda>channel.
       returnIO \<lparr>bc_connection = connection, bc_channel = channel\<rparr>))"

text \<open>\<open>RpcClient.create\<close>: a client with no pending call, its reply queue consumed from the start.\<close>

definition rpc_create :: "'w aio_pika \<Rightarrow> nat \<Rightarrow> ('w, string \<times> client) io" where
  "rpc_create A channel =
     bindIO (a_declare_exclusive A channel) (\<lambda>reply_queue.
     bindIO (a_consume A channel reply_queue) (\<lambda>_.
       returnIO (reply_queue, new_client)))"

definition make_rpc_client :: "'w aio_pika \<Rightarrow> RabbitMQBrokerConnection \<Rightarrow> ('w, string \<times> client) io" where
  "make_rpc_client A self = rpc_create A (bc_channel self)"

text \<open>\<open>consume_queue\<close>; \<open>serve_rpc\<close> asks the same of its channel, and then blocks.\<close>

definition consuming :: "'w aio_pika \<Rightarrow> nat \<Rightarrow> string \<Rightarrow> ('w, unit) io" where
  "consuming A channel queue_name =
     bindIO (a_set_qos A channel 1) (\<lambda>_.
     bindIO (a_declare_queue A channel queue_name) (\<lambda>queue.
       a_consume A channel queue))"

definition bc_consume_queue :: "'w aio_pika \<Rightarrow> RabbitMQBrokerConnection \<Rightarrow> string \<Rightarrow> ('w, unit) io" where
  "bc_consume_queue A self queue_name = consuming A (bc_channel self) queue_name"

definition bc_serve_rpc :: "'w aio_pika \<Rightarrow> RabbitMQBrokerConnection \<Rightarrow> string \<Rightarrow> ('w, unit) io" where
  "bc_serve_rpc A self queue_name = consuming A (bc_channel self) queue_name"

definition bc_close :: "'w aio_pika \<Rightarrow> RabbitMQBrokerConnection \<Rightarrow> ('w, unit) io" where
  "bc_close A self = a_close A (bc_connection self)"

section \<open>What they ask of the library\<close>

text \<open>
  The world of the recorder: the connections open, the requests of the channels, and the number of
  calls, of which \<open>fault\<close> says which raises what. A channel is named by its connection.
\<close>

record recording =
  r_open :: "nat list"
  r_urls :: "string list"
  r_requests :: "(nat \<times> channel_op) list"
  r_calls :: nat

definition lib_ask :: "faults \<Rightarrow> (recording \<Rightarrow> 'a \<times> recording) \<Rightarrow> (recording, 'a) io" where
  "lib_ask fault f w =
     (let w1 = w\<lparr>r_calls := r_calls w + 1\<rparr>
      in case fault (r_calls w) of Some e \<Rightarrow> (Inl e, w1) | None \<Rightarrow> (case f w1 of (x, w2) \<Rightarrow> (Inr x, w2)))"

definition asked :: "nat \<Rightarrow> channel_op \<Rightarrow> recording \<Rightarrow> recording" where
  "asked c x w = w\<lparr>r_requests := r_requests w @ [(c, x)]\<rparr>"

definition recorder :: "faults \<Rightarrow> (nat \<Rightarrow> string) \<Rightarrow> recording aio_pika" where
  "recorder fault reply_name =
     \<lparr>a_connect_robust = (\<lambda>url. lib_ask fault (\<lambda>w.
        (length (r_urls w), w\<lparr>r_urls := r_urls w @ [url], r_open := length (r_urls w) # r_open w\<rparr>))),
      a_channel = (\<lambda>c. lib_ask fault (\<lambda>w. (c, w))),
      a_set_qos = (\<lambda>c n. lib_ask fault (\<lambda>w. ((), asked c (SetQos n) w))),
      a_declare_queue = (\<lambda>c q. lib_ask fault (\<lambda>w. (q, asked c (DeclareQueue q) w))),
      a_declare_exclusive = (\<lambda>c. lib_ask fault (\<lambda>w.
        (reply_name (r_calls w), asked c (DeclareQueue (reply_name (r_calls w))) w))),
      a_consume = (\<lambda>c q. lib_ask fault (\<lambda>w. ((), asked c (Consume q) w))),
      a_close = (\<lambda>c. lib_ask fault (\<lambda>w. ((), w\<lparr>r_open := filter (\<lambda>d. d \<noteq> c) (r_open w)\<rparr>)))\<rparr>"

lemmas recorder_simps = bindIO_def returnIO_def recorder_def lib_ask_def asked_def Let_def

text \<open>The methods make the requests of \<open>StartUp\<close>, and a failure leaves a beginning of them.\<close>

lemma consuming_requests:
  assumes "consuming (recorder fault reply_name) c q w = (r, w')"
  shows "\<exists>n. r_requests w' = r_requests w @ map (Pair c) (take n (consume_queue q)) \<and>
    (r = Inr () \<longrightarrow> take n (consume_queue q) = consume_queue q) \<and> r_open w' = r_open w"
proof -
  let ?done = "\<lambda>n w'. r_requests w' = r_requests w @ map (Pair c) (take n (consume_queue q)) \<and> r_open w' = r_open w"
  have "(\<exists>e. r = Inl e) \<and> (?done 0 w' \<or> ?done 1 w' \<or> ?done 2 w') \<or> r = Inr () \<and> ?done 3 w'"
    using assms by (auto simp: consuming_def recorder_simps consume_queue_def split: option.splits)
  then obtain n where "?done n w'" "r = Inr () \<longrightarrow> n = 3" by blast
  then show ?thesis by (intro exI [of _ n]) (auto simp: consume_queue_def)
qed

theorem wrapper_methods_are_the_requests:
  "(\<exists>n. r_requests (snd (bc_consume_queue (recorder fault names) self q w)) =
     r_requests w @ map (Pair (bc_channel self)) (take n (consume_queue q))) \<and>
   (\<exists>n. r_requests (snd (bc_serve_rpc (recorder fault names) self q w)) =
     r_requests w @ map (Pair (bc_channel self)) (take n (serve_rpc q)))"
  using consuming_requests [of fault names "bc_channel self" q w]
  by (simp add: bc_consume_queue_def bc_serve_rpc_def serve_rpc_def consume_queue_def) (metis prod.collapse)

text \<open>
  Opening the wrapper when the channel cannot be opened leaves a connection no one holds: only a
  wrapper that was returned can be closed, which closes its connection.
\<close>

theorem make_connection_leaks_without_a_channel:
  "(fault (r_calls w) = None \<and> fault (r_calls w + 1) = Some e \<longrightarrow>
     (\<exists>w'. make_connection (recorder fault names) environ w = (Inl e, w') \<and>
        r_open w' = length (r_urls w) # r_open w)) \<and>
   (\<forall>self w1 w2. make_connection (recorder fault names) environ w = (Inr self, w1) \<longrightarrow>
      bc_close (recorder fault names) self w1 = (Inr (), w2) \<longrightarrow> bc_connection self \<notin> set (r_open w2))"
  by (auto simp: make_connection_def bc_close_def recorder_simps split: option.splits)

text \<open>A client of the wrapper starts with no pending call, and its reply queue is consumed on the channel.\<close>

theorem rpc_client_listens_before_it_calls:
  assumes "make_rpc_client (recorder fault names) self w = (Inr (reply_queue, c), w')"
  shows "c_pending c = {} \<and>
    r_requests w' = r_requests w @ [(bc_channel self, DeclareQueue reply_queue), (bc_channel self, Consume reply_queue)]"
  using assms by (auto simp: make_rpc_client_def rpc_create_def recorder_simps new_client_def split: option.splits)

end
