(* ===== verification/SchemaRows.thy ===== *)
theory SchemaRows
  imports Schema
begin

text \<open>
  Rows under the migrated schema: what PostgreSQL does with an \<open>INSERT\<close> into a table of
  \<open>Schema\<close>, given only its columns and constraints, and the proof that the writes of the
  repositories in \<open>Db\<close> are exactly these inserts.
\<close>

section \<open>Cells and rows\<close>

text \<open>\<open>Other\<close> is a Python value the driver has no encoding for under a column of this schema.\<close>

datatype sql_cell =
    Null
  | IntCell int
  | TextCell string
  | BytesCell string
  | BoolCell bool
  | TimeCell int
  | Other json

type_synonym row = "(string \<times> sql_cell) list"
type_synonym store = "string \<Rightarrow> row list"

definition cell_of :: "row \<Rightarrow> string \<Rightarrow> sql_cell" where
  "cell_of r c = (case map_of r c of Some v \<Rightarrow> v | None \<Rightarrow> Null)"

fun fits :: "sql_type \<Rightarrow> sql_cell \<Rightarrow> bool" where
  "fits _ Null = True"
| "fits Integer (IntCell i) = pg_int4 i"
| "fits String (TextCell s) = pg_text s"
| "fits LargeBinary (BytesCell s) = True"
| "fits Boolean (BoolCell b) = True"
| "fits DateTime (TimeCell t) = True"
| "fits _ _ = False"

section \<open>INSERT\<close>

fun default_cell :: "sql_type \<Rightarrow> int \<Rightarrow> sql_default \<Rightarrow> sql_cell" where
  "default_cell DateTime now (Expression e) = (if e = ''CURRENT_TIMESTAMP'' then TimeCell now else Null)"
| "default_cell String now (Literal s) = TextCell s"
| "default_cell Integer now (Literal s) = IntCell (int (nat_of_digits s))"
| "default_cell Boolean now (Literal s) = BoolCell (s = ''true'')"
| "default_cell _ now _ = Null"

text \<open>The row to store: the key from the sequence, the parameters, and the defaults of the rest.\<close>

definition complete :: "table \<Rightarrow> int \<Rightarrow> int \<Rightarrow> row \<Rightarrow> row" where
  "complete t seq now params =
     map (\<lambda>c. (c_name c,
       if c_name c = ''id'' then IntCell seq
       else (case map_of params (c_name c) of
               Some v \<Rightarrow> v
             | None \<Rightarrow> (case c_server_default c of Some d \<Rightarrow> default_cell (c_type c) now d | None \<Rightarrow> Null)))) (t_columns t)"

definition params_fit :: "table \<Rightarrow> row \<Rightarrow> bool" where
  "params_fit t params \<longleftrightarrow>
     list_all (\<lambda>(n, v). list_all (\<lambda>c. c_name c = n \<longrightarrow> fits (c_type c) v) (t_columns t)) params"

definition key_of :: "row \<Rightarrow> string list \<Rightarrow> sql_cell list" where
  "key_of r cs = map (cell_of r) cs"

fun allows :: "store \<Rightarrow> row list \<Rightarrow> row \<Rightarrow> table_constraint \<Rightarrow> bool" where
  "allows st rows r (PrimaryKey cs) \<longleftrightarrow> Null \<notin> set (key_of r cs) \<and> list_all (\<lambda>s. key_of s cs \<noteq> key_of r cs) rows"
| "allows st rows r (UniqueKey cs) \<longleftrightarrow> Null \<in> set (key_of r cs) \<or> list_all (\<lambda>s. key_of s cs \<noteq> key_of r cs) rows"
| "allows st rows r (ForeignKey c target tc) \<longleftrightarrow>
     cell_of r c = Null \<or> list_ex (\<lambda>s. cell_of s tc = cell_of r c) (st target)"
| "allows st rows r (CheckIn name c vs) \<longleftrightarrow>
     cell_of r c = Null \<or> list_ex (\<lambda>v. cell_of r c = TextCell v) vs"

definition row_allowed :: "store \<Rightarrow> table \<Rightarrow> row \<Rightarrow> bool" where
  "row_allowed st t r \<longleftrightarrow>
     list_all (\<lambda>c. c_nullable c \<or> cell_of r (c_name c) \<noteq> Null) (t_columns t) \<and>
     list_all (allows st (st (t_name t)) r) (t_constraints t)"

text \<open>
  One row: the driver encodes the parameters first, then the sequence moves on, then the
  constraints are checked. The answer, the sequence and the rows afterwards.
\<close>

definition sql_insert :: "table \<Rightarrow> int \<Rightarrow> row \<Rightarrow> int \<Rightarrow> store \<Rightarrow> unit res \<times> int \<times> store" where
  "sql_insert t now params seq st =
     (if \<not> params_fit t params \<or> \<not> pg_int4 seq then (Inl DataError, seq, st)
      else
        (let r = complete t seq now params
         in if row_allowed st t r then (Inr (), seq + 1, st(t_name t := st (t_name t) @ [r]))
            else (Inl IntegrityError, seq + 1, st)))"

fun insert_each :: "table \<Rightarrow> int \<Rightarrow> row list \<Rightarrow> int \<Rightarrow> store \<Rightarrow> unit res \<times> int \<times> store" where
  "insert_each t now [] seq st = (Inr (), seq, st)"
| "insert_each t now (p # ps) seq st =
     (case sql_insert t now p seq st of
        (Inl e, seq1, st1) \<Rightarrow> (Inl e, seq1, st1)
      | (Inr _, seq1, st1) \<Rightarrow> insert_each t now ps seq1 st1)"

text \<open>Many rows in one statement.\<close>

definition sql_insert_many :: "table \<Rightarrow> int \<Rightarrow> row list \<Rightarrow> int \<Rightarrow> store \<Rightarrow> unit res \<times> int \<times> store" where
  "sql_insert_many t now ps seq st =
     (if list_all (params_fit t) ps then insert_each t now ps seq st else (Inl DataError, seq, st))"

section \<open>The rows of the model\<close>

definition nullable :: "('a \<Rightarrow> sql_cell) \<Rightarrow> 'a option \<Rightarrow> sql_cell" where
  "nullable f x = (case x of None \<Rightarrow> Null | Some v \<Rightarrow> f v)"

definition bot_cells :: "Bot \<Rightarrow> row" where
  "bot_cells b =
     [(''id'', IntCell (b_id b)), (''base_name'', TextCell (b_base_name b)),
      (''versioned_name'', TextCell (b_versioned_name b)), (''version'', IntCell (b_version b)),
      (''owner_token'', TextCell (b_owner_token b)), (''source'', nullable BytesCell (b_source b)),
      (''python_version'', TextCell (b_python_version b)), (''runtime_key'', TextCell (b_runtime_key b)),
      (''pod_name'', nullable TextCell (b_pod_name b)), (''pod_ready'', BoolCell (b_pod_ready b)),
      (''submitted_at'', TimeCell (b_submitted_at b))]"

definition match_cells :: "Match \<Rightarrow> row" where
  "match_cells m =
     [(''id'', IntCell (m_id m)), (''bot_x_id'', IntCell (m_bot_x_id m)), (''bot_o_id'', IntCell (m_bot_o_id m)),
      (''winner_id'', nullable IntCell (m_winner_id m)), (''result'', TextCell (m_result m)),
      (''correlation_id'', nullable TextCell (m_correlation_id m)), (''played_at'', TimeCell (m_played_at m))]"

definition move_cells :: "MoveRow \<Rightarrow> row" where
  "move_cells v =
     [(''id'', IntCell (v_id v)), (''match_id'', IntCell (v_match_id v)), (''move_number'', IntCell (v_move_number v)),
      (''bot_id'', IntCell (v_bot_id v)), (''board_state'', TextCell (v_board_state v)),
      (''error'', nullable TextCell (v_error v))]"

definition store_of :: "db \<Rightarrow> store" where
  "store_of db = (\<lambda>_. [])
     (''bots'' := map bot_cells (bots db), ''matches'' := map match_cells (matches db),
      ''moves'' := map move_cells (moves db))"

section \<open>The statements of the repositories\<close>

text \<open>\<open>BotRepository.create\<close>: the attributes of the new \<open>Bot\<close>, with the defaults of its class.\<close>

definition bot_params :: "string \<Rightarrow> string \<Rightarrow> int \<Rightarrow> string \<Rightarrow> string \<Rightarrow> string \<Rightarrow> string option \<Rightarrow> row" where
  "bot_params base vname version token python_ver runtime_key src =
     [(''base_name'', TextCell base), (''versioned_name'', TextCell vname), (''version'', IntCell version),
      (''owner_token'', TextCell token), (''source'', nullable BytesCell src),
      (''python_version'', TextCell python_ver), (''runtime_key'', TextCell runtime_key),
      (''pod_name'', Null), (''pod_ready'', BoolCell False)]"

text \<open>\<open>MatchRepository.record\<close>: the match, and its moves.\<close>

definition match_params :: "int \<Rightarrow> int \<Rightarrow> MatchResult \<Rightarrow> string \<Rightarrow> row" where
  "match_params x y result cid =
     [(''bot_x_id'', IntCell x), (''bot_o_id'', IntCell y),
      (''winner_id'', nullable IntCell (winner_of x y (mr_result result))),
      (''result'', TextCell (outcome_value (mr_result result))), (''correlation_id'', TextCell cid)]"

definition error_cell :: "json \<Rightarrow> sql_cell" where
  "error_cell e = (case e of JNull \<Rightarrow> Null | JStr s \<Rightarrow> TextCell s | _ \<Rightarrow> Other e)"

definition move_params :: "int \<Rightarrow> int \<Rightarrow> int \<Rightarrow> Move \<Rightarrow> row" where
  "move_params mid x y mv =
     [(''match_id'', IntCell mid), (''move_number'', IntCell (int (mv_number mv))),
      (''bot_id'', IntCell (if mv_player mv = ''x'' then x else y)),
      (''board_state'', TextCell (mv_board mv)), (''error'', error_cell (mv_error mv))]"

text \<open>The transaction: a failure rolls the rows back, not the sequences.\<close>

definition sql_record ::
  "int \<Rightarrow> int \<Rightarrow> MatchResult \<Rightarrow> string \<Rightarrow> int \<Rightarrow> int \<Rightarrow> int \<Rightarrow> store \<Rightarrow> unit res \<times> int \<times> int \<times> store"
where
  "sql_record x y result cid now match_seq move_seq st =
     (case sql_insert matches_table now (match_params x y result cid) match_seq st of
        (Inl e, seq1, st1) \<Rightarrow> (Inl e, seq1, move_seq, st)
      | (Inr _, seq1, st1) \<Rightarrow>
          (case sql_insert_many moves_table now (map (move_params match_seq x y) (mr_moves result)) move_seq st1 of
             (Inl e, seq2, st2) \<Rightarrow> (Inl e, seq1, seq2, st)
           | (Inr _, seq2, st2) \<Rightarrow> (Inr (), seq1, seq2, st2)))"

section \<open>A bot\<close>

lemma cell_of_simps [simp]:
  "cell_of [] c = Null" "cell_of ((n, v) # r) c = (if n = c then v else cell_of r c)"
  by (simp_all add: cell_of_def)

lemma nullable_simps [simp]: "nullable f None = Null" "nullable f (Some v) = f v"
  by (simp_all add: nullable_def)

lemma store_of_tables [simp]:
  "store_of db ''bots'' = map bot_cells (bots db)" "store_of db ''matches'' = map match_cells (matches db)"
  "store_of db ''moves'' = map move_cells (moves db)"
  by (simp_all add: store_of_def)

lemma store_of_seqs [simp]:
  "store_of (db\<lparr>bots_seq := i\<rparr>) = store_of db" "store_of (db\<lparr>matches_seq := i\<rparr>) = store_of db"
  "store_of (db\<lparr>moves_seq := i\<rparr>) = store_of db"
  by (simp_all add: store_of_def)

lemma store_of_append:
  "(store_of db)(''bots'' := map bot_cells (bots db) @ [bot_cells b]) = store_of (db\<lparr>bots := bots db @ [b]\<rparr>)"
  "(store_of db)(''matches'' := map match_cells (matches db) @ [match_cells m]) =
     store_of (db\<lparr>matches := matches db @ [m]\<rparr>)"
  "(store_of db)(''moves'' := map move_cells (moves db) @ [move_cells v]) = store_of (db\<lparr>moves := moves db @ [v]\<rparr>)"
  by (auto simp: store_of_def fun_eq_iff)

lemma bot_params_fit:
  "params_fit bots_table (bot_params base vname version token pyv key src) \<longleftrightarrow>
     list_all pg_text [base, vname, token, pyv, key] \<and> pg_int4 version"
  by (cases src) (auto simp: params_fit_def bots_table_def bot_params_def Column_def)

lemma bot_complete:
  "complete bots_table i now (bot_params base vname version token pyv key src) =
     bot_cells \<lparr>b_id = i, b_base_name = base, b_versioned_name = vname, b_version = version, b_owner_token = token,
       b_source = src, b_python_version = pyv, b_runtime_key = key, b_pod_name = None, b_pod_ready = False,
       b_submitted_at = now\<rparr>"
  by (simp add: complete_def bots_table_def bot_params_def Column_def bot_cells_def)

lemma bot_allowed:
  "row_allowed (store_of db) bots_table (bot_cells b) \<longleftrightarrow>
     b_id b \<notin> b_id ` set (bots db) \<and> b_versioned_name b \<notin> b_versioned_name ` set (bots db)"
  by (cases "b_source b")
    (auto simp: row_allowed_def bots_table_def Column_def bot_cells_def key_of_def list_all_iff image_iff dest: sym)

lemma create_bot_inserts:
  assumes "db_ok db"
  shows "sql_insert bots_table now (bot_params base vname version token pyv key src) (bots_seq db) (store_of db) =
    (case create_bot base vname version token pyv key src now db of
       (r, db1) \<Rightarrow> (map_sum id (\<lambda>_. ()) r, bots_seq db1, store_of db1))"
proof -
  have "bots_seq db \<notin> b_id ` set (bots db)" using db_okD(5) [OF assms] by force
  moreover have "t_name bots_table = ''bots''" by (simp add: bots_table_def)
  ultimately show ?thesis
    by (auto simp: sql_insert_def create_bot_def Let_def bot_params_fit bot_complete bot_allowed
        store_of_append [symmetric])
qed

section \<open>A match\<close>

lemma outcome_value_pg: "pg_text (outcome_value r)"
  by (cases r) (simp_all add: pg_text_def)

lemma match_params_fit:
  "params_fit matches_table (match_params x y result cid) \<longleftrightarrow> pg_int4 x \<and> pg_int4 y \<and> pg_text cid"
  by (auto simp: params_fit_def matches_table_def match_params_def Column_def outcome_value_pg winner_of_def)

lemma match_complete:
  "complete matches_table i now (match_params x y result cid) =
     match_cells \<lparr>m_id = i, m_bot_x_id = x, m_bot_o_id = y, m_winner_id = winner_of x y (mr_result result),
       m_result = outcome_value (mr_result result), m_correlation_id = Some cid, m_played_at = now\<rparr>"
  by (simp add: complete_def matches_table_def match_params_def Column_def match_cells_def)

lemma bot_reference: "list_ex (\<lambda>s. cell_of s ''id'' = IntCell i) (map bot_cells bs) \<longleftrightarrow> i \<in> b_id ` set bs"
  by (auto simp: list_ex_iff bot_cells_def)

lemma match_reference: "list_ex (\<lambda>s. cell_of s ''id'' = IntCell i) (map match_cells ms) \<longleftrightarrow> i \<in> m_id ` set ms"
  by (auto simp: list_ex_iff match_cells_def)

lemma key_of_cells:
  "key_of (match_cells m) [''id''] = [IntCell (m_id m)]" "key_of (move_cells v) [''id''] = [IntCell (v_id v)]"
  by (simp_all add: key_of_def match_cells_def move_cells_def)

lemma fresh_key:
  "list_all (\<lambda>s. key_of s [''id''] \<noteq> [IntCell i]) (map match_cells ms) \<longleftrightarrow> i \<notin> m_id ` set ms"
  "list_all (\<lambda>s. key_of s [''id''] \<noteq> [IntCell i]) (map move_cells vs) \<longleftrightarrow> i \<notin> v_id ` set vs"
  by (auto simp: list_all_iff key_of_cells)

lemma match_allowed:
  assumes "m_winner_id m = winner_of (m_bot_x_id m) (m_bot_o_id m) r" and "m_result m = outcome_value r"
  shows "row_allowed (store_of db) matches_table (match_cells m) \<longleftrightarrow>
     m_id m \<notin> m_id ` set (matches db) \<and> {m_bot_x_id m, m_bot_o_id m} \<subseteq> bot_ids db"
proof -
  let ?r = "match_cells m"
  have cells: "cell_of ?r ''id'' = IntCell (m_id m)" "cell_of ?r ''bot_x_id'' = IntCell (m_bot_x_id m)"
    "cell_of ?r ''bot_o_id'' = IntCell (m_bot_o_id m)" "cell_of ?r ''winner_id'' = nullable IntCell (m_winner_id m)"
    "cell_of ?r ''result'' = TextCell (m_result m)" "cell_of ?r ''played_at'' = TimeCell (m_played_at m)"
    by (simp_all add: match_cells_def)
  have "list_ex (\<lambda>v. TextCell (m_result m) = TextCell v) RESULTS"
    unfolding assms(2) RESULTS_def by (cases r) simp_all
  then have "row_allowed (store_of db) matches_table ?r \<longleftrightarrow>
      m_bot_o_id m \<in> bot_ids db \<and> m_bot_x_id m \<in> bot_ids db \<and>
      (case m_winner_id m of None \<Rightarrow> True | Some w \<Rightarrow> w \<in> bot_ids db) \<and>
      m_id m \<notin> m_id ` set (matches db)"
    by (simp add: row_allowed_def matches_table_def Column_def cells bot_reference bot_ids_def
        key_of_cells fresh_key del: list.pred_map split: option.split)
  then show ?thesis using assms(1) by (auto simp: winner_of_def split: if_splits)
qed

section \<open>Its moves\<close>

definition storable_move :: "Move \<Rightarrow> bool" where
  "storable_move mv \<longleftrightarrow> pg_text (mv_board mv) \<and> mv_number mv < 2 ^ 31"

lemma move_params_fit:
  assumes "storable_move mv" and "pg_int4 mid" and "pg_int4 x" and "pg_int4 y"
  shows "params_fit moves_table (move_params mid x y mv) \<longleftrightarrow> (\<exists>e. error_column (mv_error mv) = Inr e)"
  using assms
  by (cases "mv_error mv")
    (auto simp: params_fit_def moves_table_def move_params_def Column_def storable_move_def error_cell_def
      error_column_def)

lemma move_complete:
  assumes "error_column (mv_error mv) = Inr e"
  shows "complete moves_table i now (move_params mid x y mv) =
    move_cells \<lparr>v_id = i, v_match_id = mid, v_move_number = int (mv_number mv),
      v_bot_id = (if mv_player mv = ''x'' then x else y), v_board_state = mv_board mv, v_error = e\<rparr>"
  using assms
  by (cases "mv_error mv")
    (auto simp: complete_def moves_table_def move_params_def Column_def move_cells_def error_cell_def
      error_column_def split: if_splits)

lemma move_allowed:
  "row_allowed (store_of db) moves_table (move_cells v) \<longleftrightarrow>
     v_id v \<notin> v_id ` set (moves db) \<and> v_bot_id v \<in> bot_ids db \<and> v_match_id v \<in> m_id ` set (matches db)"
proof -
  let ?r = "move_cells v"
  have cells: "cell_of ?r ''id'' = IntCell (v_id v)" "cell_of ?r ''match_id'' = IntCell (v_match_id v)"
    "cell_of ?r ''move_number'' = IntCell (v_move_number v)" "cell_of ?r ''bot_id'' = IntCell (v_bot_id v)"
    "cell_of ?r ''board_state'' = TextCell (v_board_state v)"
    by (simp_all add: move_cells_def)
  show ?thesis
    by (auto simp: row_allowed_def moves_table_def Column_def cells bot_reference match_reference
        key_of_cells fresh_key bot_ids_def simp del: list.pred_map)
qed

lemma insert_move:
  assumes "storable_move mv" and "error_column (mv_error mv) = Inr e" and "pg_int4 mid" "pg_int4 x" "pg_int4 y"
    and "{x, y} \<subseteq> bot_ids db" and "mid \<in> m_id ` set (matches db)" and "\<forall>v \<in> set (moves db). v_id v < seq"
  shows "sql_insert moves_table now (move_params mid x y mv) seq (store_of db) =
    (if pg_int4 seq then
       (Inr (), seq + 1, store_of (db\<lparr>moves := moves db @ [\<lparr>v_id = seq, v_match_id = mid,
          v_move_number = int (mv_number mv), v_bot_id = (if mv_player mv = ''x'' then x else y),
          v_board_state = mv_board mv, v_error = e\<rparr>]\<rparr>))
     else (Inl DataError, seq, store_of db))"
proof -
  have "seq \<notin> v_id ` set (moves db)" using assms(8) by force
  moreover have "t_name moves_table = ''moves''" by (simp add: moves_table_def)
  moreover have "params_fit moves_table (move_params mid x y mv)"
    using assms(2) move_params_fit [OF assms(1,3,4,5)] by blast
  ultimately show ?thesis
    using assms(6,7)
    by (simp add: sql_insert_def move_complete [OF assms(2)] move_allowed Let_def store_of_append [symmetric])
qed

lemma insert_each_moves:
  assumes "\<forall>mv \<in> set mvs. storable_move mv" and "pg_int4 mid" "pg_int4 x" "pg_int4 y"
    and "{x, y} \<subseteq> bot_ids db" and "mid \<in> m_id ` set (matches db)" and "\<forall>v \<in> set (moves db). v_id v < seq"
    and "1 \<le> seq" "seq \<le> 2 ^ 31" and "move_rows seq mid x y mvs = Inr rows"
  shows "\<exists>st. insert_each moves_table now (map (move_params mid x y) mvs) seq (store_of db) =
    (if seq + int (length rows) \<le> 2 ^ 31
     then (Inr (), seq + int (length rows), store_of (db\<lparr>moves := moves db @ rows\<rparr>))
     else (Inl DataError, 2 ^ 31, st))"
  using assms
proof (induction mvs arbitrary: seq db rows)
  case (Cons mv mvs)
  from Cons.prems(10) obtain e rest where e: "error_column (mv_error mv) = Inr e"
    and rest: "move_rows (seq + 1) mid x y mvs = Inr rest"
    and rows: "rows = \<lparr>v_id = seq, v_match_id = mid, v_move_number = int (mv_number mv),
              v_bot_id = (if mv_player mv = ''x'' then x else y),
              v_board_state = mv_board mv, v_error = e\<rparr> # rest" (is "_ = ?v # _")
    by (auto simp: res_simps)
  have mv: "storable_move mv" using Cons.prems(1) by simp
  note one = insert_move [OF mv e Cons.prems(2-7), of now]
  show ?case
  proof (cases "pg_int4 seq")
    case False
    then have last: "2 ^ 31 = seq" using Cons.prems(8,9) by (simp add: pg_int4_def)
    show ?thesis unfolding last using False by (simp add: one rows)
  next
    case True
    let ?db = "db\<lparr>moves := moves db @ [?v]\<rparr>"
    have "seq + 1 \<le> 2 ^ 31" using True by (simp add: pg_int4_def)
    moreover have "\<forall>v \<in> set (moves ?db). v_id v < seq + 1" using Cons.prems(7) by force
    ultimately obtain st where "insert_each moves_table now (map (move_params mid x y) mvs) (seq + 1) (store_of ?db) =
        (if seq + 1 + int (length rest) \<le> 2 ^ 31
         then (Inr (), seq + 1 + int (length rest), store_of (?db\<lparr>moves := moves ?db @ rest\<rparr>))
         else (Inl DataError, 2 ^ 31, st))"
      using Cons.IH [of ?db "seq + 1" rest] Cons.prems rest by (auto simp: bot_ids_def)
    with True show ?thesis by (simp add: one rows add.assoc)
  qed
qed (auto simp: store_of_def)

lemma move_rows_fit:
  assumes "\<forall>mv \<in> set mvs. storable_move mv" and "pg_int4 mid" "pg_int4 x" "pg_int4 y"
  shows "list_all (params_fit moves_table) (map (move_params mid x y) mvs) \<longleftrightarrow>
    (\<exists>rows. move_rows seq mid x y mvs = Inr rows)"
  using assms
proof (induction mvs arbitrary: seq)
  case (Cons mv mvs)
  then show ?case using move_params_fit [of mv mid x y] by (auto simp: res_simps)
qed simp

lemma move_rows_DataError: "move_rows seq mid x y mvs = Inl e \<Longrightarrow> e = DataError"
  by (induction mvs arbitrary: seq)
    (auto simp: res_simps error_column_def split: json.splits if_splits)

lemma record_match_inserts:
  assumes "db_ok db" and "\<forall>mv \<in> set (mr_moves result). storable_move mv"
  shows "sql_record x y result cid now (matches_seq db) (moves_seq db) (store_of db) =
    (case record_match x y result cid now db of
       (r, db1) \<Rightarrow> (r, matches_seq db1, moves_seq db1, store_of db1))"
proof -
  let ?seq = "matches_seq db"
  let ?m = "\<lparr>m_id = ?seq, m_bot_x_id = x, m_bot_o_id = y, m_winner_id = winner_of x y (mr_result result),
       m_result = outcome_value (mr_result result), m_correlation_id = Some cid, m_played_at = now\<rparr>"
  let ?db = "db\<lparr>matches := matches db @ [?m]\<rparr>"
  have fresh: "?seq \<notin> m_id ` set (matches db)" using db_okD(6) [OF assms(1)] by force
  have name: "t_name matches_table = ''matches''" by (simp add: matches_table_def)
  have insert: "sql_insert matches_table now (match_params x y result cid) ?seq (store_of db) =
      (if \<not> pg_text cid \<or> \<not> list_all pg_int4 [x, y, ?seq] then (Inl DataError, ?seq, store_of db)
       else if {x, y} \<subseteq> bot_ids db then (Inr (), ?seq + 1, store_of ?db)
       else (Inl IntegrityError, ?seq + 1, store_of db))"
    using fresh
    by (auto simp: sql_insert_def match_params_fit match_complete match_allowed [of ?m "mr_result result"] Let_def
        name store_of_append [symmetric])
  show ?thesis
  proof (cases "pg_text cid \<and> list_all pg_int4 [x, y, ?seq] \<and> {x, y} \<subseteq> bot_ids db")
    case False
    then show ?thesis by (auto simp: sql_record_def insert record_match_def Let_def bot_ids_def)
  next
    case True
    have seqs: "1 \<le> moves_seq db" "moves_seq db \<le> 2 ^ 31" "\<forall>v \<in> set (moves ?db). v_id v < moves_seq db"
      using assms(1) db_okD(7) [OF assms(1)] by (auto simp: db_ok_def seqs_ok_def)
    have fit: "list_all (params_fit moves_table) (map (move_params ?seq x y) (mr_moves result)) \<longleftrightarrow>
        (\<exists>rows. move_rows (moves_seq db) ?seq x y (mr_moves result) = Inr rows)"
      using True assms(2) by (intro move_rows_fit) auto
    show ?thesis
    proof (cases "move_rows (moves_seq db) ?seq x y (mr_moves result)")
      case (Inl e)
      then have "\<not> list_all (params_fit moves_table) (map (move_params ?seq x y) (mr_moves result))"
        unfolding fit by simp
      then show ?thesis
        using True Inl move_rows_DataError [OF Inl]
        by (simp add: sql_record_def insert sql_insert_many_def record_match_def Let_def bot_ids_def)
    next
      case (Inr rows)
      obtain st where "insert_each moves_table now (map (move_params ?seq x y) (mr_moves result)) (moves_seq db) (store_of ?db) =
          (if moves_seq db + int (length rows) \<le> 2 ^ 31
           then (Inr (), moves_seq db + int (length rows), store_of (?db\<lparr>moves := moves ?db @ rows\<rparr>))
           else (Inl DataError, 2 ^ 31, st))"
        using insert_each_moves [OF assms(2), of ?seq x y ?db "moves_seq db" rows now] True seqs Inr
        by (auto simp: bot_ids_def)
      moreover have "list_all (params_fit moves_table) (map (move_params ?seq x y) (mr_moves result))"
        unfolding fit using Inr by simp
      moreover have "store_of (?db\<lparr>moves := moves ?db @ rows\<rparr>) =
          store_of (db\<lparr>matches_seq := i, matches := matches db @ [?m], moves := moves db @ rows, moves_seq := j\<rparr>)" for i j
        by (simp add: store_of_def)
      ultimately show ?thesis
        using True Inr
        by (simp add: sql_record_def insert sql_insert_many_def record_match_def Let_def bot_ids_def)
    qed
  qed
qed

section \<open>The writes are the schema's\<close>

text \<open>C26: The two writes of the repositories are the inserts of the migrated schema: on a consistent
  database, creating a bot and recording a match (whose boards are text and whose move numbers fit)
  succeed, fail and leave rows and sequences exactly as PostgreSQL does when it knows nothing but the
  columns, types, defaults and constraints the migration declares.\<close>

theorem writes_follow_the_schema:
  assumes "db_ok db" and "\<forall>mv \<in> set (mr_moves result). storable_move mv"
  shows "sql_insert bots_table now (bot_params base vname version token pyv key src) (bots_seq db) (store_of db) =
      (case create_bot base vname version token pyv key src now db of
         (r, db1) \<Rightarrow> (map_sum id (\<lambda>_. ()) r, bots_seq db1, store_of db1)) \<and>
    sql_record x y result cid now (matches_seq db) (moves_seq db) (store_of db) =
      (case record_match x y result cid now db of
         (r, db1) \<Rightarrow> (r, matches_seq db1, moves_seq db1, store_of db1))"
  using create_bot_inserts [OF assms(1)] record_match_inserts [OF assms] by blast

definition demo_bots :: db where
  "demo_bots = snd (create_bot ''ann'' ''ann-v1'' 1 ''t'' ''3'' ''python-3.14'' None 0 empty_db)"

definition stored_result :: MatchResult where
  "stored_result = \<lparr>mr_result = O_FORFEIT,
     mr_moves = [\<lparr>mv_number = 1, mv_player = ''x'', mv_board = ''x........'', mv_error = JNull\<rparr>,
                 \<lparr>mv_number = 2, mv_player = ''o'', mv_board = ''x........'', mv_error = JStr ''boom''\<rparr>]\<rparr>"

theorem writes_follow_the_schema_witness:
  "fst (sql_insert bots_table 0 (bot_params ''bob'' ''ann-v1'' 1 ''u'' ''3'' ''python-3.14'' None)
      (bots_seq demo_bots) (store_of demo_bots)) = Inl IntegrityError \<and>
   fst (sql_record 1 1 stored_result ''c'' 0 (matches_seq demo_bots) (moves_seq demo_bots) (store_of demo_bots)) = Inr ()"
proof -
  have db: "demo_bots = \<lparr>bots = [\<lparr>b_id = 1, b_base_name = ''ann'', b_versioned_name = ''ann-v1'', b_version = 1,
      b_owner_token = ''t'', b_source = None, b_python_version = ''3'', b_runtime_key = ''python-3.14'',
      b_pod_name = None, b_pod_ready = False, b_submitted_at = 0\<rparr>], matches = [], moves = [],
      bots_seq = 2, matches_seq = 1, moves_seq = 1\<rparr>"
    by (simp add: demo_bots_def create_bot_def empty_db_def pg_text_def Let_def)
  have "fst (create_bot ''bob'' ''ann-v1'' 1 ''u'' ''3'' ''python-3.14'' None 0 demo_bots) = Inl IntegrityError"
    by (simp add: create_bot_def db pg_text_def Let_def)
  moreover have "fst (record_match 1 1 stored_result ''c'' 0 demo_bots) = Inr ()"
    by (simp add: record_match_def db stored_result_def pg_text_def error_column_def Let_def)
  moreover have "db_ok demo_bots" unfolding demo_bots_def by (rule create_bot_ok) simp
  moreover have "\<forall>mv \<in> set (mr_moves stored_result). storable_move mv"
    by (simp add: stored_result_def storable_move_def pg_text_def)
  ultimately show ?thesis
    using writes_follow_the_schema [of demo_bots stored_result 0 "''bob''" "''ann-v1''" 1 "''u''" "''3''"
        "''python-3.14''" None 1 1 "''c''"]
    by (simp split: prod.splits)
qed

end
