(* ===== verification/Interleaving.thy ===== *)
theory Interleaving
  imports Pipeline Coroutines
begin

text \<open>
  The services at the granularity of asyncio: every handler as a coroutine whose actions are the
  awaited operations (a transaction, a publish, a call on the executor), and a pool of tasks, one
  per running submission and one per consumer, whose actions interleave. A worker may be killed or
  cancelled at any \<open>await\<close>: its message goes back to the queue or is lost.
\<close>

section \<open>The handlers as coroutines\<close>

definition insert_row ::
  "'w outside \<Rightarrow> string \<Rightarrow> int \<Rightarrow> string \<Rightarrow> string \<Rightarrow> string \<Rightarrow> ('w, Bot) prog"
where
  "insert_row W bot_name version token key source_bytes s =
     db_write (create_bot bot_name (versioned_name bot_name version) version token
       (python_version_from_runtime_key key) key (Some source_bytes) (o_now W (s_world s))) s"

definition persist_co ::
  "'w outside \<Rightarrow> string \<Rightarrow> string \<Rightarrow> string \<Rightarrow> string \<Rightarrow> ('w sys, string \<times> int) coro"
where
  "persist_co W bot_name token key source_bytes =
     bind_co (act (db_read (next_version bot_name))) (\<lambda>version.
     bind_co (act (insert_row W bot_name version token key source_bytes)) (\<lambda>b.
       Done (Inr (versioned_name bot_name version, b_id b))))"

definition submit_bot_co ::
  "'w outside \<Rightarrow> string \<Rightarrow> string \<Rightarrow> string \<Rightarrow> json \<Rightarrow> ('w sys, SubmitPage) coro"
where
  "submit_bot_co W bot_name key source_bytes owned =
     bind_co (act (resolve_owner_token W bot_name owned)) (\<lambda>resolved.
       case resolved of
         (_, Some err) \<Rightarrow> Done (Inr (error_page err))
       | (None, None) \<Rightarrow> Done (Inl (OtherError ''AssertionError''))
       | (Some token, None) \<Rightarrow>
           bind_co (persist_co W bot_name token key source_bytes) (\<lambda>(name, new_bot_id).
           seq_co (act (enqueue_build_pod W \<lparr>bp_bot_id = new_bot_id, bp_runtime_key = key\<rparr>))
          (seq_co (act (publish_event W EVENT_BOT_UPLOADED [(''versioned_name'', JStr name)]))
                (Done (success_response name owned token bot_name)))))"

definition submission_co ::
  "'w outside \<Rightarrow> ast_parser \<Rightarrow> string \<Rightarrow> string option \<Rightarrow> ('w sys, SubmitPage) coro"
where
  "submission_co W ast_parse source_bytes cookie =
     (let source = utf8_decode source_bytes
      in bind_co (Done (extract_bot_name ast_parse source)) (\<lambda>bot_name.
         case validate_bot_name bot_name of
           Some err \<Rightarrow> Done (Inr (error_page err))
         | None \<Rightarrow>
             bind_co (Done (extract_runtime_key ast_parse source)) (\<lambda>runtime_key.
               case validate_runtime_key runtime_key of
                 Some err \<Rightarrow> Done (Inr (error_page err))
               | None \<Rightarrow>
                   (case (bot_name, runtime_key) of
                      (Some n, Some key) \<Rightarrow> submit_bot_co W n key source_bytes (parse_cookie cookie)
                    | _ \<Rightarrow> Done (Inl (OtherError ''AssertionError''))))))"

text \<open>The wait for the pod, on a thread of the executor; it may never return.\<close>

definition build_in_world ::
  "'w outside \<Rightarrow> int \<Rightarrow> Bot \<Rightarrow> Runtime \<Rightarrow> 'w sys \<Rightarrow> (unit res \<times> 'w sys) option"
where
  "build_in_world W pod_timeout b runtime s =
     map_option (\<lambda>(r, w). (r, s\<lparr>s_world := w\<rparr>))
       (build_and_wait (o_env W) pod_timeout (pod_name (b_id b)) (rt_image runtime)
          (bot_source_b64 b) (b_id b) (s_world s))"

definition build_co :: "'w outside \<Rightarrow> int \<Rightarrow> string \<Rightarrow> ('w sys, unit) coro" where
  "build_co W pod_timeout body =
     (case parse_amqp_message (validate_build (o_pydantic W)) body of
        None \<Rightarrow> Done (Inr ())
      | Some msg \<Rightarrow>
          bind_co (act (fetch_bot_and_runtime msg)) (\<lambda>found.
            case found of
              None \<Rightarrow> Done (Inr ())
            | Some (b, runtime) \<Rightarrow>
                seq_co (act_opt (build_in_world W pod_timeout b runtime))
               (seq_co (act (db_write (\<lambda>d. (Inr (), set_pod_ready (b_id b) (pod_name (b_id b)) d))))
                  (act (publish W POD_READY_QUEUE (dump_ready (o_pydantic W) \<lparr>pr_bot_id = b_id b\<rparr>))))))"

fun enqueue_co :: "'w outside \<Rightarrow> int \<Rightarrow> Bot list \<Rightarrow> nat \<Rightarrow> ('w sys, nat) coro" where
  "enqueue_co W bot_id [] n = Done (Inr n)"
| "enqueue_co W bot_id (other # others) n =
     seq_co (act (publish_ondeck W bot_id (b_id other)))
       (if b_id other \<noteq> bot_id
        then seq_co (act (publish_ondeck W (b_id other) bot_id))
               (enqueue_co W bot_id others (n + 1 + 1))
        else enqueue_co W bot_id others (n + 1))"

definition schedule_co :: "'w outside \<Rightarrow> string \<Rightarrow> ('w sys, unit) coro" where
  "schedule_co W body =
     (case validate_ready (o_pydantic W) body of
        None \<Rightarrow> Done (Inr ())
      | Some msg \<Rightarrow>
          bind_co (act (db_read ready_bots)) (\<lambda>rs.
          seq_co (enqueue_co W (pr_bot_id msg) rs 0) (Done (Inr ()))))"

definition ondeck_co :: "'w outside \<Rightarrow> string \<Rightarrow> ('w sys, unit) coro" where
  "ondeck_co W body =
     (case validate_ondeck (o_pydantic W) body of
        None \<Rightarrow> Done (Inr ())
      | Some msg \<Rightarrow>
          bind_co (act (fetch_match_bots (mo_bot_x_id msg) (mo_bot_o_id msg))) (\<lambda>bots_result.
            case bots_result of
              None \<Rightarrow> Done (Inr ())
            | Some (px, po) \<Rightarrow>
                bind_co (act (in_world (run_match_from_pods (o_env W) px po TURN_TIMEOUT))) (\<lambda>result.
                bind_co (act (record_result W msg result)) (\<lambda>r.
                  catch_co (act (publish_match_finished W (mr_result r))) (\<lambda>_. Done (Inr ()))))))"

section \<open>Alone they are the handlers\<close>

lemma implements_option [implements_intros]:
  "implements c m \<Longrightarrow> (\<And>x. implements (f x) (g x)) \<Longrightarrow>
     implements (case v of None \<Rightarrow> c | Some x \<Rightarrow> f x) (case v of None \<Rightarrow> m | Some x \<Rightarrow> g x)"
  by (cases v) simp_all

lemma implements_prod [implements_intros]:
  "(\<And>x y. implements (f x y) (g x y)) \<Longrightarrow>
     implements (case v of (x, y) \<Rightarrow> f x y) (case v of (x, y) \<Rightarrow> g x y)"
  by (cases v) simp

lemma implements_if [implements_intros]:
  "implements c m \<Longrightarrow> implements d n \<Longrightarrow> implements (if b then c else d) (if b then m else n)"
  by simp

lemma implements_persist [implements_intros]:
  "implements (persist_co W n tok key src) (persist_bot W n tok key src)"
  by (simp add: implements_def persist_co_def persist_bot_def run_bind_co run_act insert_row_def prog_simps
      split: prod.split sum.split)

lemma implements_submission: "implements (submission_co W p src cookie) (handle_submission W p src cookie)"
  unfolding submission_co_def handle_submission_def submit_bot_co_def submit_bot_def Let_def
  by (intro implements_intros)

lemma implements_enqueue [implements_intros]: "implements (enqueue_co W i bs n) (enqueue_matches W i bs n)"
  by (induction W i bs n rule: enqueue_co.induct) (auto intro!: implements_intros)

lemma implements_schedule: "implements (schedule_co W body) (handle_pod_ready_message W body)"
  unfolding schedule_co_def handle_pod_ready_message_def by (intro implements_intros)

lemma implements_ondeck: "implements (ondeck_co W body) (handle_match_ondeck W body)"
  unfolding ondeck_co_def handle_match_ondeck_def by (intro implements_intros)

lemma run_build_co: "run_co (build_co W T body) s = handle_build_pod_message W T body s"
proof -
  have rest: "run_co (seq_co (act_opt (build_in_world W T b runtime))
     (seq_co (act (db_write (\<lambda>d. (Inr (), set_pod_ready (b_id b) (pod_name (b_id b)) d))))
       (act (publish W POD_READY_QUEUE (dump_ready (o_pydantic W) \<lparr>pr_bot_id = b_id b\<rparr>))))) s1 =
     build_register_and_notify W T b runtime s1" for b runtime s1
    by (auto simp: seq_co_def run_bind_co run_simps build_in_world_def build_register_and_notify_def
        register_and_notify_def db_write_def seqP_def bindP_def split: option.split sum.split prod.split)
  show ?thesis
    by (auto simp: build_co_def handle_build_pod_message_def run_bind_co run_simps rest ret_def
        split: option.split sum.split prod.split)
qed

section \<open>What one action does\<close>

interpretation services: rely_guarantee rely "pipe_ok W" for W
  by unfold_locales (fact rely_refl, rule rely_trans)

definition safe_move :: "'w outside \<Rightarrow> 'w sys \<Rightarrow> 'w sys \<Rightarrow> bool" where
  "safe_move W t u \<longleftrightarrow> rely t u \<and> pipe_ok W u"

lemma safe_move_same:
  "pipe_ok W t \<Longrightarrow> s_db u = s_db t \<Longrightarrow> s_log u = s_log t \<Longrightarrow> safe_move W t u"
  unfolding safe_move_def using pipe_ok_world by (auto simp: rely_def)

lemma safe_move_publish:
  assumes "pipe_ok W t" and "msg_ok W (s_db t) (q, body)" and "publish W q body t = (r, u)"
  shows "safe_move W t u"
proof (cases "o_broker W (s_tried t)")
  case None
  then have u: "s_db u = s_db t" "s_log u = s_log t @ [(q, body)]"
    using assms(3) by (auto simp: publish_def Let_def)
  have "pipe_ok W u"
    by (rule pipe_ok_bots [OF assms(1), where ms = "[(q, body)]"])
      (use assms(1,2) u in \<open>simp_all add: pipe_ok_def\<close>)
  with u show ?thesis by (simp add: safe_move_def rely_def)
next
  case (Some e)
  with assms(3) show ?thesis by (intro safe_move_same [OF assms(1)]) (auto simp: publish_def Let_def)
qed

lemma safe_move_insert:
  assumes ok: "pipe_ok W t" and n: "\<not> reserved_version_suffix n" and v: "1 \<le> v"
    and run: "insert_row W n v tok key src t = (r, u)"
  shows "safe_move W t u" and "r = Inr b \<Longrightarrow> b_id b \<in> bot_ids (s_db u)"
proof -
  let ?c = "create_bot n (versioned_name n v) v tok (python_version_from_runtime_key key) key (Some src)
      (o_now W (s_world t)) (s_db t)"
  have u: "s_db u = snd ?c" "s_log u = s_log t" "r = fst ?c"
    using run by (auto simp: insert_row_def db_write_def split: prod.splits)
  have inv: "db_ok (s_db t)" "names_ok (s_db t)" "pods_ok (s_db t)" using ok by (simp_all add: pipe_ok_def)
  have "pipe_ok W u"
  proof (rule pipe_ok_bots [OF ok, where ms = "[]"])
    show "db_ok (s_db u)" "names_ok (s_db u)"
      unfolding u(1) using create_bot_ok [OF inv(1)] create_bot_names_ok [OF inv(2) refl v n] by auto
    show "pods_ok (s_db u)" "matches (s_db u) = matches (s_db t)" "moves (s_db u) = moves (s_db t)"
      using inv(3) by (auto simp: u(1) create_bot_def Let_def pods_ok_def)
  qed (use u(2) create_bot_grows in \<open>simp_all add: u(1)\<close>)
  then show "safe_move W t u" using create_bot_grows u(2) by (simp add: safe_move_def rely_def u(1))
  show "r = Inr b \<Longrightarrow> b_id b \<in> bot_ids (s_db u)"
    by (auto simp: u(1,3) create_bot_def Let_def bot_ids_def split: if_splits)
qed

lemma safe_move_ready:
  assumes ok: "pipe_ok W t" and run: "db_write (\<lambda>d. (Inr (), set_pod_ready i (pod_name i) d)) t = (r, u)"
  shows "safe_move W t u" and "i \<in> bot_ids (s_db t) \<Longrightarrow> i \<in> ready_ids (s_db u)"
proof -
  have u: "s_db u = set_pod_ready i (pod_name i) (s_db t)" "s_log u = s_log t"
    using run by (auto simp: db_write_def)
  have inv: "db_ok (s_db t)" "names_ok (s_db t)" "pods_ok (s_db t)" using ok by (simp_all add: pipe_ok_def)
  have "pipe_ok W u"
  proof (rule pipe_ok_bots [OF ok, where ms = "[]"])
    show "matches (s_db u) = matches (s_db t)" "moves (s_db u) = moves (s_db t)"
      by (simp_all add: u(1) set_pod_ready_def)
  qed (use inv set_pod_ready_grows u(2) in
      \<open>simp_all add: u(1) set_pod_ready_ok set_pod_ready_names_ok set_pod_ready_pods_ok\<close>)
  then show "safe_move W t u" using set_pod_ready_grows u(2) by (simp add: safe_move_def rely_def u(1))
  show "i \<in> bot_ids (s_db t) \<Longrightarrow> i \<in> ready_ids (s_db u)" by (simp add: u(1) ready_ids_set_pod_ready)
qed

lemma safe_move_record:
  assumes ok: "pipe_ok W t" and xy: "mo_bot_x_id msg \<in> ready_ids (s_db t)" "mo_bot_o_id msg \<in> ready_ids (s_db t)"
    and game: "\<And>mr. result = Some mr \<Longrightarrow> transcript_from 1 EMPTY_BOARD (mr_moves mr) (mr_result mr)"
    and run: "record_result W msg result t = (r, u)"
  shows "safe_move W t u"
proof (cases result)
  case None
  with run show ?thesis by (intro safe_move_same [OF ok]) (simp_all add: record_result_def raise_def)
next
  case (Some mr)
  obtain c d where c: "record_match (mo_bot_x_id msg) (mo_bot_o_id msg) mr (mo_correlation_id msg)
      (o_now W (s_world t)) (s_db t) = (c, d)" by force
  have u: "s_db u = d" "s_log u = s_log t"
    using run Some c by (auto simp: record_result_def prog_simps split: sum.splits)
  have "pipe_ok W u"
  proof (cases c)
    case (Inl e)
    with c u show ?thesis by (intro pipe_ok_sequence [OF ok]) auto
  next
    case (Inr x)
    with c u show ?thesis by (intro pipe_ok_record [OF ok xy _ game [OF Some]]) auto
  qed
  moreover have "d = snd (record_match (mo_bot_x_id msg) (mo_bot_o_id msg) mr (mo_correlation_id msg)
      (o_now W (s_world t)) (s_db t))" using c by simp
  ultimately show ?thesis using record_match_grows u by (simp add: safe_move_def rely_def)
qed

section \<open>Every handler among the others\<close>

abbreviation guards :: "'w outside \<Rightarrow> ('a res \<Rightarrow> 'w sys \<Rightarrow> bool) \<Rightarrow> ('w sys, 'a) coro \<Rightarrow> 'w sys \<Rightarrow> bool" where
  "guards W \<equiv> guar rely (pipe_ok W)"

definition any_result :: "'a res \<Rightarrow> 'w sys \<Rightarrow> bool" where
  "any_result r s = True"

lemma any_result [simp]: "any_result r s"
  by (simp add: any_result_def)

lemma safe_moveD: "safe_move W t u \<Longrightarrow> rely t u \<and> pipe_ok W u"
  by (simp add: safe_move_def)

lemma guards_done [simp]: "guards W any_result (Done r) s"
  by simp

lemma guards_bind_act:
  assumes "pipe_ok W s" and "\<And>e v. Q (Inl e) v"
    and "\<And>t r u. rely s t \<Longrightarrow> pipe_ok W t \<Longrightarrow> m t = (r, u) \<Longrightarrow> safe_move W t u"
    and "\<And>t x u v. rely s t \<Longrightarrow> pipe_ok W t \<Longrightarrow> m t = (Inr x, u) \<Longrightarrow> rely u v \<Longrightarrow> pipe_ok W v \<Longrightarrow> guards W Q (f x) v"
  shows "guards W Q (bind_co (act m) f) s"
  using services.guar_bind_act [of W s Q m f] assms safe_moveD by blast

lemmas guards_seq_act = guards_bind_act [where f = "\<lambda>_. d" for d, folded seq_co_def]

lemma guards_last_act:
  assumes "\<And>t r u. rely s t \<Longrightarrow> pipe_ok W t \<Longrightarrow> m t = (r, u) \<Longrightarrow> safe_move W t u"
  shows "guards W any_result (act m) s"
  using assms unfolding safe_move_def by (intro services.guar_act) simp

lemma relyD:
  "rely s t \<Longrightarrow> i \<in> bot_ids (s_db s) \<Longrightarrow> i \<in> bot_ids (s_db t)"
  "rely s t \<Longrightarrow> i \<in> ready_ids (s_db s) \<Longrightarrow> i \<in> ready_ids (s_db t)"
  by (auto simp: rely_def)

lemma guards_publish_event:
  "guards W any_result (seq_co (act (publish_event W k details)) (Done r)) s" if "pipe_ok W s"
proof (rule guards_seq_act [OF that])
  show "safe_move W t u" if "pipe_ok W t" "publish_event W k details t = (q, u)" for t q u
    using that by (intro safe_move_same)
      (auto simp: publish_event_def publish_fanout_def Let_def split: option.splits)
qed simp_all

lemma guards_submit_bot:
  assumes ok: "pipe_ok W s" and n: "\<not> reserved_version_suffix n" and key: "is_runtime key"
  shows "guards W any_result (submit_bot_co W n key src owned) s"
  unfolding submit_bot_co_def
proof (rule guards_bind_act [OF ok])
  show "safe_move W t u" if "pipe_ok W t" "resolve_owner_token W n owned t = (r, u)" for t r u
    using resolve_owner_token_state [OF that(2)] that(1) by (intro safe_move_same) simp_all
  fix v resolved
  assume v: "pipe_ok W v"
  let ?finish = "\<lambda>tok (name, new_bot_id).
     seq_co (act (enqueue_build_pod W \<lparr>bp_bot_id = new_bot_id, bp_runtime_key = key\<rparr>))
    (seq_co (act (publish_event W EVENT_BOT_UPLOADED [(''versioned_name'', JStr name)]))
      (Done (success_response name owned tok n)))"
  have finish: "guards W any_result (?finish tok (name, i)) u" if u: "pipe_ok W u" and i: "i \<in> bot_ids (s_db u)"
    for tok name i u
    unfolding prod.case
  proof (rule guards_seq_act [OF u])
    fix t r w
    assume t: "rely u t" "pipe_ok W t" and run: "enqueue_build_pod W \<lparr>bp_bot_id = i, bp_runtime_key = key\<rparr> t = (r, w)"
    have "msg_ok W (s_db t) (BUILD_POD_QUEUE, dump_build (o_pydantic W) \<lparr>bp_bot_id = i, bp_runtime_key = key\<rparr>)"
      using relyD(1) [OF t(1) i] key by (auto simp: msg_ok_def)
    then show "safe_move W t w" using run unfolding enqueue_build_pod_def by (rule safe_move_publish [OF t(2)])
  qed (use guards_publish_event in simp_all)
  have persist: "guards W any_result (bind_co (persist_co W n tok key src) (?finish tok)) v" for tok
  proof (rule services.guar_bind_co [OF _ v], unfold persist_co_def, rule guards_bind_act [OF v])
    show "safe_move W t u" if "pipe_ok W t" "db_read (next_version n) t = (r, u)" for t r u
      using that by (intro safe_move_same) (simp_all add: db_read_def)
    fix t version u w
    assume t: "pipe_ok W t" "db_read (next_version n) t = (Inr version, u)" and w: "pipe_ok W w"
    have version: "1 \<le> version"
      using t next_version_positive [of "s_db t" n] by (auto simp: db_read_def pipe_ok_def)
    show "guards W (\<lambda>r t. case r of Inl e \<Rightarrow> any_result (Inl e) t | Inr x \<Rightarrow> guards W any_result (?finish tok x) t)
        (bind_co (act (insert_row W n version tok key src)) (\<lambda>b. Done (Inr (versioned_name n version, b_id b)))) w"
    proof (rule guards_bind_act [OF w])
      fix t r u
      assume t: "pipe_ok W t" "insert_row W n version tok key src t = (r, u)"
      show "safe_move W t u" by (rule safe_move_insert(1) [OF t(1) n version t(2)])
    next
      fix t b u x
      assume t: "pipe_ok W t" "insert_row W n version tok key src t = (Inr b, u)" and x: "rely u x" "pipe_ok W x"
      have new: "b_id b \<in> bot_ids (s_db u)" using safe_move_insert(2) [OF t(1) n version t(2) refl] .
      show "guards W (\<lambda>r t. case r of Inl e \<Rightarrow> any_result (Inl e) t | Inr x \<Rightarrow> guards W any_result (?finish tok x) t)
          (Done (Inr (versioned_name n version, b_id b))) x"
      proof (rule services.guar_done)
        fix y assume y: "rely x y" "pipe_ok W y"
        have "b_id b \<in> bot_ids (s_db y)" using relyD(1) [OF y(1) relyD(1) [OF x(1) new]] .
        then show "case Inr (versioned_name n version, b_id b) of Inl e \<Rightarrow> any_result (Inl e) y
            | Inr x \<Rightarrow> guards W any_result (?finish tok x) y"
          using finish [OF y(2), of "b_id b" tok "versioned_name n version"] by simp
      qed
    qed simp
  qed simp_all
  show "guards W any_result (case resolved of
         (_, Some err) \<Rightarrow> Done (Inr (error_page err))
       | (None, None) \<Rightarrow> Done (Inl (OtherError ''AssertionError''))
       | (Some tok, None) \<Rightarrow> bind_co (persist_co W n tok key src) (?finish tok)) v"
    using persist by (auto split: prod.split option.split)
qed simp

lemma guards_submission:
  assumes "pipe_ok W s"
  shows "guards W any_result (submission_co W p src cookie) s"
proof (cases "extract_bot_name p (utf8_decode src)")
  case (Inl e)
  then show ?thesis by (simp add: submission_co_def)
next
  case (Inr name)
  show ?thesis
  proof (cases "validate_bot_name name")
    case (Some err)
    with Inr show ?thesis by (simp add: submission_co_def)
  next
    case None
    then obtain n where n: "name = Some n" "\<not> reserved_version_suffix n"
      using validate_bot_name_None by blast
    show ?thesis
    proof (cases "extract_runtime_key p (utf8_decode src)")
      case (Inl e)
      with Inr None show ?thesis by (simp add: submission_co_def)
    next
      case key: (Inr rk)
      have "guards W any_result (submit_bot_co W n k src (parse_cookie cookie)) s" if "rk = Some k" for k
        using guards_submit_bot [OF assms n(2)] extract_runtime_key_runtime key that by blast
      with Inr None key n(1) show ?thesis
        by (cases rk) (simp_all add: submission_co_def validate_runtime_key_def)
    qed
  qed
qed

lemma guards_build:
  assumes ok: "pipe_ok W s"
  shows "guards W any_result (build_co W T body) s"
proof (cases "parse_amqp_message (validate_build (o_pydantic W)) body")
  case None
  then show ?thesis by (simp add: build_co_def)
next
  case (Some msg)
  let ?notify = "\<lambda>b. seq_co (act (db_write (\<lambda>d. (Inr (), set_pod_ready (b_id b) (pod_name (b_id b)) d))))
      (act (publish W POD_READY_QUEUE (dump_ready (o_pydantic W) \<lparr>pr_bot_id = b_id b\<rparr>)))"
  have tell: "guards W any_result (act (publish W POD_READY_QUEUE (dump_ready (o_pydantic W) \<lparr>pr_bot_id = i\<rparr>))) v"
    if v: "i \<in> ready_ids (s_db v)" for i v
  proof (rule guards_last_act)
    fix t r u
    assume t: "rely v t" "pipe_ok W t" "publish W POD_READY_QUEUE (dump_ready (o_pydantic W) \<lparr>pr_bot_id = i\<rparr>) t = (r, u)"
    have "msg_ok W (s_db t) (POD_READY_QUEUE, dump_ready (o_pydantic W) \<lparr>pr_bot_id = i\<rparr>)"
      using relyD(2) [OF t(1) v] by (auto simp: msg_ok_def)
    then show "safe_move W t u" using safe_move_publish t(2,3) by blast
  qed
  have notify: "guards W any_result (?notify b) v" if v: "pipe_ok W v" "b_id b \<in> bot_ids (s_db v)" for b v
  proof (rule guards_seq_act [OF v(1)])
    fix t r u
    assume t: "rely v t" "pipe_ok W t"
      "db_write (\<lambda>d. (Inr (), set_pod_ready (b_id b) (pod_name (b_id b)) d)) t = (r, u)"
    show "safe_move W t u" using safe_move_ready(1) [OF t(2,3)] .
  next
    fix t x u w
    assume t: "rely v t" "pipe_ok W t"
      "db_write (\<lambda>d. (Inr (), set_pod_ready (b_id b) (pod_name (b_id b)) d)) t = (Inr x, u)" and w: "rely u w"
    show "guards W any_result
        (act (publish W POD_READY_QUEUE (dump_ready (o_pydantic W) \<lparr>pr_bot_id = b_id b\<rparr>))) w"
      using tell relyD(2) [OF w safe_move_ready(2) [OF t(2,3) relyD(1) [OF t(1) v(2)]]] .
  qed simp
  show ?thesis
    unfolding build_co_def Some option.case
  proof (rule guards_bind_act [OF ok])
    show "safe_move W t u" if "pipe_ok W t" "fetch_bot_and_runtime msg t = (r, u)" for t r u
      using that by (cases rule: fetch_bot_and_runtime_cases [of msg t]) (auto intro: safe_move_same)
    fix t found u v
    assume t: "fetch_bot_and_runtime msg t = (Inr found, u)" and v: "rely u v" "pipe_ok W v"
    show "guards W any_result (case found of None \<Rightarrow> Done (Inr ())
        | Some (b, runtime) \<Rightarrow> seq_co (act_opt (build_in_world W T b runtime)) (?notify b)) v"
    proof (cases found)
      case (Some br)
      obtain b runtime where br: "br = (b, runtime)" by force
      with t Some have "b \<in> set (bots (s_db u))" by (cases rule: fetch_bot_and_runtime_cases [of msg t]) auto
      then have b: "b_id b \<in> bot_ids (s_db v)" using relyD(1) [OF v(1)] by (simp add: bot_ids_def)
      have "guards W any_result (seq_co (act_opt (build_in_world W T b runtime)) (?notify b)) v"
      proof (rule services.guar_seq_act_opt [OF v(2)])
        show "rely t u \<and> pipe_ok W u" if "pipe_ok W t" "build_in_world W T b runtime t = Some (r, u)" for t r u
          using that by (intro safe_moveD [OF safe_move_same]) (auto simp: build_in_world_def)
        show "guards W any_result (?notify b) w"
          if "rely v t" "build_in_world W T b runtime t = Some (Inr x, u)" "rely u w" "pipe_ok W w" for t x u w
        proof (rule notify [OF that(4)])
          have "s_db u = s_db t" using that(2) by (auto simp: build_in_world_def)
          with b that(1,3) show "b_id b \<in> bot_ids (s_db w)" using relyD(1) by metis
        qed
      qed simp
      with Some br show ?thesis by simp
    qed simp
  qed simp
qed

lemma guards_ondeck:
  assumes ok: "pipe_ok W s" and msg: "msg_ok W (s_db s) (MATCH_ONDECK_QUEUE, body)"
  shows "guards W any_result (ondeck_co W body) s"
proof -
  obtain x y cid where body: "body = dump_ondeck (o_pydantic W) (ondeck_message x y cid)"
    and xy: "x \<in> ready_ids (s_db s)" "y \<in> ready_ids (s_db s)"
    using msg by (auto simp: msg_ok_def)
  have P: "pydantic_ok (o_pydantic W)" using ok by (simp add: pipe_ok_def)
  let ?m = "ondeck_message x y cid"
  have valid: "validate_ondeck (o_pydantic W) body = Some ?m" by (simp add: body pydantic_okD [OF P])
  have finish: "guards W any_result (catch_co (act (publish_match_finished W (mr_result r))) (\<lambda>_. Done (Inr ()))) v"
    if v: "pipe_ok W v" for r v
  proof (rule services.guar_catch_co [OF services.guar_act v])
    fix t q u
    assume t: "pipe_ok W t" "publish_match_finished W (mr_result r) t = (q, u)"
    have "safe_move W t u"
      using t by (intro safe_move_same)
        (auto simp: publish_match_finished_def publish_fanout_def Let_def split: option.splits)
    then show "rely t u \<and> pipe_ok W u \<and> (\<forall>v. rely u v \<longrightarrow> pipe_ok W v \<longrightarrow>
        (case q of Inl e \<Rightarrow> guards W any_result (Done (Inr ())) v | Inr x \<Rightarrow> any_result (Inr x) v))"
      by (auto dest: safe_moveD split: sum.split)
  qed
  have store: "guards W any_result (bind_co (act (record_result W ?m result))
      (\<lambda>r. catch_co (act (publish_match_finished W (mr_result r))) (\<lambda>_. Done (Inr ())))) v"
    if v: "rely s v" "pipe_ok W v"
      and game: "\<And>mr. result = Some mr \<Longrightarrow> transcript_from 1 EMPTY_BOARD (mr_moves mr) (mr_result mr)" for result v
  proof (rule guards_bind_act [OF v(2)])
    fix t r u
    assume t: "rely v t" "pipe_ok W t" "record_result W ?m result t = (r, u)"
    have "x \<in> ready_ids (s_db t)" "y \<in> ready_ids (s_db t)"
      using relyD(2) [OF t(1) relyD(2) [OF v(1)]] xy by blast+
    then show "safe_move W t u"
      using safe_move_record [OF t(2) _ _ game t(3)] by (simp add: ondeck_message_def)
  qed (use finish in simp_all)
  show ?thesis
    unfolding ondeck_co_def valid option.case
  proof (rule guards_bind_act [OF ok])
    show "safe_move W t u" if "pipe_ok W t" "fetch_match_bots (mo_bot_x_id ?m) (mo_bot_o_id ?m) t = (r, u)" for t r u
      using that fetch_match_bots_state [of "mo_bot_x_id ?m" "mo_bot_o_id ?m" t] by (intro safe_move_same) simp_all
    fix t found u v
    assume t: "rely s t" "fetch_match_bots (mo_bot_x_id ?m) (mo_bot_o_id ?m) t = (Inr found, u)"
      and v: "rely u v" "pipe_ok W v"
    have "u = t" using t(2) fetch_match_bots_state [of "mo_bot_x_id ?m" "mo_bot_o_id ?m" t] by simp
    then have sv: "rely s v" using t(1) v(1) rely_trans by blast
    show "guards W any_result (case found of None \<Rightarrow> Done (Inr ()) | Some (px, po) \<Rightarrow>
        bind_co (act (in_world (run_match_from_pods (o_env W) px po TURN_TIMEOUT))) (\<lambda>result.
        bind_co (act (record_result W ?m result)) (\<lambda>r.
          catch_co (act (publish_match_finished W (mr_result r))) (\<lambda>_. Done (Inr ()))))) v"
    proof (cases found)
      case (Some pp)
      obtain px po where pp: "pp = (px, po)" by force
      have "guards W any_result (bind_co (act (in_world (run_match_from_pods (o_env W) px po TURN_TIMEOUT))) (\<lambda>result.
        bind_co (act (record_result W ?m result)) (\<lambda>r.
          catch_co (act (publish_match_finished W (mr_result r))) (\<lambda>_. Done (Inr ()))))) v"
      proof (rule guards_bind_act [OF v(2)])
        show "safe_move W t u" if "pipe_ok W t" "in_world (run_match_from_pods (o_env W) px po TURN_TIMEOUT) t = (r, u)" for t r u
          using that by (intro safe_move_same) (auto simp: in_world_def split: prod.splits)
        fix t result u w
        assume t: "rely v t" "in_world (run_match_from_pods (o_env W) px po TURN_TIMEOUT) t = (Inr result, u)"
          and w: "rely u w" "pipe_ok W w"
        obtain w' where run: "run_match_from_pods (o_env W) px po TURN_TIMEOUT (s_world t) = (Inr result, w')"
          and u: "u = t\<lparr>s_world := w'\<rparr>"
          using t(2) by (auto simp: in_world_def split: prod.splits)
        have "rely t u" by (simp add: u rely_def)
        then have "rely s w" using sv t(1) w(1) rely_trans by blast
        then show "guards W any_result (bind_co (act (record_result W ?m result)) (\<lambda>r.
          catch_co (act (publish_match_finished W (mr_result r))) (\<lambda>_. Done (Inr ())))) w"
          using run_match_transcript run by (intro store [OF _ w(2)]) fastforce+
      qed simp
      with Some pp show ?thesis by simp
    qed simp
  qed simp
qed

text \<open>The scheduler: when it returns, the bot is paired with every bot that was ready when it began.\<close>

definition paired_with :: "'w outside \<Rightarrow> int \<Rightarrow> int set \<Rightarrow> 'a res \<Rightarrow> 'w sys \<Rightarrow> bool" where
  "paired_with W i J r s \<longleftrightarrow>
     (\<forall>x. r = Inr x \<longrightarrow> (\<forall>j \<in> J. scheduled W s i j \<and> scheduled W s j i))"

lemma scheduled_rely: "scheduled W s x y \<Longrightarrow> rely s t \<Longrightarrow> scheduled W t x y"
  unfolding scheduled_def rely_def sent_to_def by force

lemma publish_ondeck_step:
  assumes "pipe_ok W t" and "x \<in> ready_ids (s_db t)" "y \<in> ready_ids (s_db t)"
    and "publish_ondeck W x y t = (r, u)"
  shows "safe_move W t u" and "r = Inr () \<Longrightarrow> scheduled W u x y"
proof -
  have "safe_move W t u \<and> (r = Inr () \<longrightarrow> scheduled W u x y)"
  proof (cases rule: publish_ondeck_cases [of W t x y])
    case ok
    with assms(4) have u: "s_db u = s_db t" "s_log u = s_log t @ ondeck_bodies W (s_drawn t) [(x, y)]" by auto
    have "pipe_ok W u"
      by (rule pipe_ok_bots [OF assms(1), where ms = "ondeck_bodies W (s_drawn t) [(x, y)]"])
        (use assms(1-3) u in \<open>auto simp: pipe_ok_def intro: msg_ok_ondeck\<close>)
    with u show ?thesis by (auto simp: safe_move_def rely_def scheduled_def sent_to_def)
  next
    case (failed e)
    with assms(4) have "r \<noteq> Inr ()" "safe_move W t u" by (auto intro!: safe_move_same [OF assms(1)])
    then show ?thesis by blast
  qed
  then show "safe_move W t u" "r = Inr () \<Longrightarrow> scheduled W u x y" by simp_all
qed

text \<open>One publish, and what follows knows that the pair is scheduled.\<close>

lemma guards_publish_ondeck:
  assumes "pipe_ok W s" and xy: "x \<in> ready_ids (s_db s)" "y \<in> ready_ids (s_db s)" and "\<And>e v. Q (Inl e) v"
    and rest: "\<And>v. rely s v \<Longrightarrow> pipe_ok W v \<Longrightarrow> scheduled W v x y \<Longrightarrow> guards W Q c v"
  shows "guards W Q (seq_co (act (publish_ondeck W x y)) c) s"
proof (rule guards_seq_act [where Q = Q, OF assms(1,4)])
  fix t r u
  assume t: "rely s t" "pipe_ok W t" "publish_ondeck W x y t = (r, u)"
  note step = publish_ondeck_step [OF t(2) relyD(2) [OF t(1) xy(1)] relyD(2) [OF t(1) xy(2)] t(3)]
  show "safe_move W t u" by (rule step(1))
next
  fix t r u v
  assume t: "rely s t" "pipe_ok W t" "publish_ondeck W x y t = (Inr r, u)" and v: "rely u v" "pipe_ok W v"
  note step = publish_ondeck_step [OF t(2) relyD(2) [OF t(1) xy(1)] relyD(2) [OF t(1) xy(2)] t(3)]
  have "rely t u" using step(1) by (simp add: safe_move_def)
  then have sv: "rely s v" using t(1) v(1) rely_trans by blast
  have "scheduled W v x y" using scheduled_rely [OF step(2) v(1)] by simp
  then show "guards W Q c v" by (rule rest [OF sv v(2)])
qed

lemma guards_enqueue:
  assumes "pipe_ok W s" and "i \<in> ready_ids (s_db s)" and "b_id ` set bs \<subseteq> ready_ids (s_db s)"
  shows "guards W (paired_with W i (b_id ` set bs)) (enqueue_co W i bs n) s"
  using assms
proof (induction W i bs n arbitrary: s rule: enqueue_co.induct)
  case (2 W i other others n)
  let ?j = "b_id other"
  let ?Q = "paired_with W i (b_id ` set (other # others))"
  have j: "?j \<in> ready_ids (s_db s)" "b_id ` set others \<subseteq> ready_ids (s_db s)" using "2.prems"(3) by simp_all
  have fail: "?Q (Inl e) v" for e v by (simp add: paired_with_def)
  have rest: "guards W ?Q (enqueue_co W i others m) v"
    if "rely s v" "scheduled W v i ?j" "scheduled W v ?j i"
      and IH: "guards W (paired_with W i (b_id ` set others)) (enqueue_co W i others m) v" for m v
  proof -
    have "guards W (\<lambda>r t. paired_with W i (b_id ` set others) r t \<and> (scheduled W t i ?j \<and> scheduled W t ?j i))
        (enqueue_co W i others m) v"
      by (rule services.guar_stable_fact [OF IH]) (use that scheduled_rely in blast)+
    then show ?thesis by (rule services.guar_mono) (auto simp: paired_with_def)
  qed
  have ids: "i \<in> ready_ids (s_db v)" "?j \<in> ready_ids (s_db v)" "b_id ` set others \<subseteq> ready_ids (s_db v)"
    if "rely s v" for v
    using relyD(2) [OF that] "2.prems"(2) j by blast+
  show ?case
    unfolding enqueue_co.simps
  proof (rule guards_publish_ondeck [where Q = ?Q, OF "2.prems"(1,2) j(1) fail])
    fix v assume v: "rely s v" "pipe_ok W v" "scheduled W v i ?j"
    show "guards W ?Q (if ?j \<noteq> i then seq_co (act (publish_ondeck W ?j i)) (enqueue_co W i others (n + 1 + 1))
        else enqueue_co W i others (n + 1)) v"
    proof (cases "?j = i")
      case True
      with v ids [OF v(1)] show ?thesis
        using rest [OF v(1), of "n + 1"] "2.IH"(2) [OF _ v(2)] by simp
    next
      case False
      have "guards W ?Q (seq_co (act (publish_ondeck W ?j i)) (enqueue_co W i others (n + 1 + 1))) v"
      proof (rule guards_publish_ondeck [where Q = ?Q, OF v(2) ids(2,1) [OF v(1)] fail])
        fix w assume w: "rely v w" "pipe_ok W w" "scheduled W w ?j i"
        have sw: "rely s w" using v(1) w(1) rely_trans by blast
        show "guards W ?Q (enqueue_co W i others (n + 1 + 1)) w"
          using rest [OF sw scheduled_rely [OF v(3) w(1)] w(3)] "2.IH"(1) [OF False w(2) ids(1,3) [OF sw]] by blast
      qed
      with False show ?thesis by simp
    qed
  qed
qed (simp add: paired_with_def)

lemma guards_schedule:
  assumes ok: "pipe_ok W s" and i: "i \<in> ready_ids (s_db s)" and body: "body = dump_ready (o_pydantic W) \<lparr>pr_bot_id = i\<rparr>"
  shows "guards W (paired_with W i (ready_ids (s_db s))) (schedule_co W body) s"
proof -
  let ?Q = "paired_with W i (ready_ids (s_db s))"
  have P: "pydantic_ok (o_pydantic W)" using ok by (simp add: pipe_ok_def)
  show ?thesis
    unfolding schedule_co_def body pydantic_okD(2) [OF P] option.case
  proof (rule guards_bind_act [OF ok])
    show "?Q (Inl e) v" for e v by (simp add: paired_with_def)
    show "safe_move W t u" if "pipe_ok W t" "db_read ready_bots t = (r, u)" for t r u
      using that by (intro safe_move_same) (simp_all add: db_read_def)
    fix t rs u v
    assume t: "rely s t" "db_read ready_bots t = (Inr rs, u)" and v: "rely u v" "pipe_ok W v"
    have u: "u = t" "b_id ` set rs = ready_ids (s_db t)" using t(2) by (auto simp: db_read_def ready_ids_def)
    have sub: "ready_ids (s_db s) \<subseteq> ready_ids (s_db t)" "ready_ids (s_db t) \<subseteq> ready_ids (s_db v)"
      using t(1) v(1) u(1) by (simp_all add: rely_def)
    have "guards W (paired_with W i (b_id ` set rs)) (enqueue_co W i rs 0) v"
      by (rule guards_enqueue [OF v(2)]) (use i sub u in auto)
    then have "guards W ?Q (enqueue_co W i rs 0) v"
      by (rule services.guar_mono) (use sub(1) u(2) in \<open>auto simp: paired_with_def\<close>)
    then have "guards W (\<lambda>r t. case r of Inl e \<Rightarrow> ?Q (Inl e) t | Inr x \<Rightarrow> guards W ?Q (Done (Inr ())) t)
        (enqueue_co W i rs 0) v"
    proof (rule services.guar_mono)
      fix r :: "nat res" and t
      assume "?Q r t"
      then show "case r of Inl e \<Rightarrow> ?Q (Inl e) t | Inr x \<Rightarrow> guards W ?Q (Done (Inr ())) t"
        using scheduled_rely by (auto simp: paired_with_def split: sum.split) blast+
    qed
    then show "guards W ?Q (seq_co (enqueue_co W (pr_bot_id \<lparr>pr_bot_id = i\<rparr>) rs 0) (Done (Inr ()))) v"
      using services.guar_seq_co [OF _ v(2)] by simp
  qed
qed

end
