(* ===== verification/Tasks.thy ===== *)
theory Tasks
  imports Interleaving
begin

text \<open>
  The running tasks: one per submission the web application is serving and one per consumer, each a
  coroutine, over the shared state. Any task may take its next action at any time. A handler that
  returns acknowledges its message; one that raises rejects it; one that is cancelled with its
  process loses it or, when the connection just breaks, gives it back to the queue.
\<close>

section \<open>The pool\<close>

record 'w pool =
  p_sys :: "'w sys"
  p_work :: "string \<Rightarrow> (string \<times> ('w sys, unit) coro) option"
  p_web :: "('w sys, SubmitPage) coro list"
  p_acked :: "(string \<times> string) list"

definition handler_co :: "'w outside \<Rightarrow> int \<Rightarrow> string \<Rightarrow> string \<Rightarrow> ('w sys, unit) coro" where
  "handler_co W pod_timeout q body =
     (if q = BUILD_POD_QUEUE then build_co W pod_timeout body
      else if q = POD_READY_QUEUE then schedule_co W body
      else ondeck_co W body)"

definition worker_queues :: "string set" where
  "worker_queues = {BUILD_POD_QUEUE, POD_READY_QUEUE, MATCH_ONDECK_QUEUE}"

text \<open>The unacknowledged message is delivered again.\<close>

definition give_back :: "string \<Rightarrow> 'w sys \<Rightarrow> 'w sys" where
  "give_back q s = s\<lparr>s_taken := (s_taken s)(q := s_taken s q - 1)\<rparr>"

inductive pool_step :: "'w outside \<Rightarrow> ast_parser \<Rightarrow> int \<Rightarrow> 'w pool \<Rightarrow> 'w pool \<Rightarrow> bool"
  for W :: "'w outside" and ast_parse :: ast_parser and pod_timeout :: int
where
  arrive: "pool_step W ast_parse pod_timeout P (P\<lparr>p_web := p_web P @ [submission_co W ast_parse src cookie]\<rparr>)"
| serve: "p_web P = ts @ Await a k # us \<Longrightarrow>
     pool_step W ast_parse pod_timeout P (P\<lparr>p_sys := a (p_sys P), p_web := ts @ k (p_sys P) # us\<rparr>)"
| respond: "p_web P = ts @ Done r # us \<Longrightarrow> pool_step W ast_parse pod_timeout P (P\<lparr>p_web := ts @ us\<rparr>)"
| disconnect: "p_web P = ts @ c # us \<Longrightarrow> pool_step W ast_parse pod_timeout P (P\<lparr>p_web := ts @ us\<rparr>)"
| deliver: "q \<in> worker_queues \<Longrightarrow> p_work P q = None \<Longrightarrow>
     take_one q (p_sys P) = Some (body, s1) \<Longrightarrow>
     pool_step W ast_parse pod_timeout P
       (P\<lparr>p_sys := s1, p_work := (p_work P)(q \<mapsto> (body, handler_co W pod_timeout q body))\<rparr>)"
| work: "p_work P q = Some (body, Await a k) \<Longrightarrow>
     pool_step W ast_parse pod_timeout P
       (P\<lparr>p_sys := a (p_sys P), p_work := (p_work P)(q \<mapsto> (body, k (p_sys P)))\<rparr>)"
| ack: "p_work P q = Some (body, Done (Inr u)) \<Longrightarrow>
     pool_step W ast_parse pod_timeout P
       (P\<lparr>p_work := (p_work P)(q := None), p_acked := p_acked P @ [(q, body)]\<rparr>)"
| reject: "p_work P q = Some (body, Done (Inl e)) \<Longrightarrow>
     pool_step W ast_parse pod_timeout P (P\<lparr>p_work := (p_work P)(q := None)\<rparr>)"
| cancelled: "p_work P q = Some task \<Longrightarrow>
     pool_step W ast_parse pod_timeout P (P\<lparr>p_work := (p_work P)(q := None)\<rparr>)"
| killed: "p_work P q = Some task \<Longrightarrow>
     pool_step W ast_parse pod_timeout P
       (P\<lparr>p_sys := give_back q (p_sys P), p_work := (p_work P)(q := None)\<rparr>)"
| outside: "pool_step W ast_parse pod_timeout P (P\<lparr>p_sys := (p_sys P)\<lparr>s_world := w\<rparr>\<rparr>)"

inductive_cases pool_stepE: "pool_step W p T P P'"

definition start_pool :: "'w outside \<Rightarrow> 'w pool \<Rightarrow> bool" where
  "start_pool W P \<longleftrightarrow> start_state W (p_sys P) \<and> p_work P = (\<lambda>_. None) \<and> p_web P = [] \<and> p_acked P = []"

section \<open>The invariant\<close>

definition acked_ready :: "'w outside \<Rightarrow> 'w pool \<Rightarrow> int set" where
  "acked_ready W P = {i. (POD_READY_QUEUE, dump_ready (o_pydantic W) \<lparr>pr_bot_id = i\<rparr>) \<in> set (p_acked P)}"

definition worker_ok ::
  "'w outside \<Rightarrow> int set \<Rightarrow> string \<Rightarrow> string \<times> ('w sys, unit) coro \<Rightarrow> 'w sys \<Rightarrow> bool"
where
  "worker_ok W A q task s \<longleftrightarrow>
     (if q = POD_READY_QUEUE
      then \<exists>i \<in> ready_ids (s_db s). fst task = dump_ready (o_pydantic W) \<lparr>pr_bot_id = i\<rparr> \<and>
             guards W (paired_with W i (insert i A)) (snd task) s
      else guards W any_result (snd task) s)"

text \<open>Everything but the workers and the submissions, and then those.\<close>

definition acks_ok :: "'w outside \<Rightarrow> int set \<Rightarrow> 'w sys \<Rightarrow> bool" where
  "acks_ok W A s \<longleftrightarrow> A \<subseteq> ready_ids (s_db s) \<and> (\<forall>i \<in> A. \<forall>j \<in> A. scheduled W s i j)"

definition pool_ok :: "'w outside \<Rightarrow> 'w pool \<Rightarrow> bool" where
  "pool_ok W P \<longleftrightarrow> pipe_ok W (p_sys P) \<and> acks_ok W (acked_ready W P) (p_sys P) \<and>
     (\<forall>q task. p_work P q = Some task \<longrightarrow> worker_ok W (acked_ready W P) q task (p_sys P)) \<and>
     (\<forall>c \<in> set (p_web P). guards W any_result c (p_sys P))"

lemma worker_ok_rely: "worker_ok W A q task s \<Longrightarrow> rely s t \<Longrightarrow> worker_ok W A q task t"
  using services.guar_stable relyD(2) [of s t] unfolding worker_ok_def by (auto split: if_splits) blast+

lemma worker_ok_await:
  assumes "worker_ok W A q (body, Await a k) s" and "pipe_ok W s"
  shows "rely s (a s)" and "pipe_ok W (a s)" and "worker_ok W A q (body, k s) (a s)"
proof -
  have "rely s (a s) \<and> pipe_ok W (a s) \<and> worker_ok W A q (body, k s) (a s)"
  proof (cases "q = POD_READY_QUEUE")
    case True
    then obtain i where i: "i \<in> ready_ids (s_db s)" "body = dump_ready (o_pydantic W) \<lparr>pr_bot_id = i\<rparr>"
      and g: "guards W (paired_with W i (insert i A)) (Await a k) s"
      using assms(1) by (auto simp: worker_ok_def)
    note step = services.guar_awaitD [OF g assms(2)]
    then have "i \<in> ready_ids (s_db (a s))" using relyD(2) i(1) by blast
    with True i(2) step show ?thesis by (auto simp: worker_ok_def)
  next
    case False
    with assms services.guar_awaitD [of W any_result a k s] show ?thesis by (simp add: worker_ok_def)
  qed
  then show "rely s (a s)" "pipe_ok W (a s)" "worker_ok W A q (body, k s) (a s)" by simp_all
qed

lemma acks_ok_rely: "acks_ok W A s \<Longrightarrow> rely s t \<Longrightarrow> acks_ok W A t"
  using relyD(2) [of s t] scheduled_rely [of W s _ _ t] unfolding acks_ok_def by blast

text \<open>A move of the state that keeps the relation keeps every task that does not move.\<close>

lemma pool_ok_move:
  assumes "pool_ok W P" and "rely (p_sys P) s" and "pipe_ok W s"
  shows "pool_ok W (P\<lparr>p_sys := s\<rparr>)"
proof -
  have "\<forall>c \<in> set (p_web P). guards W any_result c s"
    using assms(1) by (auto simp: pool_ok_def intro: services.guar_stable [OF _ assms(2)])
  moreover have "acked_ready W (P\<lparr>p_sys := s\<rparr>) = acked_ready W P" by (simp add: acked_ready_def)
  ultimately show ?thesis
    using assms(1,3) worker_ok_rely [OF _ assms(2)] acks_ok_rely [OF _ assms(2)] unfolding pool_ok_def by auto
qed

lemma pool_ok_work:
  assumes "pool_ok W P" and "\<And>task. w = Some task \<Longrightarrow> worker_ok W (acked_ready W P) q task (p_sys P)"
  shows "pool_ok W (P\<lparr>p_work := (p_work P)(q := w)\<rparr>)"
  using assms unfolding pool_ok_def by (simp add: acked_ready_def)

lemma pool_ok_web:
  assumes "pool_ok W P" and "\<forall>c \<in> set cs. guards W any_result c (p_sys P)"
  shows "pool_ok W (P\<lparr>p_web := cs\<rparr>)"
  using assms unfolding pool_ok_def by (simp add: acked_ready_def)

lemma start_pool_ok: "start_pool W P \<Longrightarrow> pool_ok W P"
  using start_state_ok by (auto simp: start_pool_def pool_ok_def acks_ok_def acked_ready_def)

lemma acked_ready_ack:
  assumes "pydantic_ok (o_pydantic W)"
  shows "acked_ready W (P\<lparr>p_work := w, p_acked := p_acked P @ [(q, body)]\<rparr>) =
    (if q = POD_READY_QUEUE then acked_ready W P \<union> {i. body = dump_ready (o_pydantic W) \<lparr>pr_bot_id = i\<rparr>}
     else acked_ready W P)"
  by (auto simp: acked_ready_def)

lemma dump_ready_inject:
  assumes "pydantic_ok (o_pydantic W)"
    and "dump_ready (o_pydantic W) \<lparr>pr_bot_id = i\<rparr> = dump_ready (o_pydantic W) \<lparr>pr_bot_id = j\<rparr>"
  shows "i = j"
proof -
  have "Some \<lparr>pr_bot_id = i\<rparr> = Some \<lparr>pr_bot_id = j\<rparr>" using assms pydantic_okD(2) by metis
  then show ?thesis by simp
qed

section \<open>Every step keeps it\<close>

lemma deliver_ok:
  assumes ok: "pool_ok W P" and q: "q \<in> worker_queues"
    and taken: "take_one q (p_sys P) = Some (body, s1)"
  shows "pool_ok W (P\<lparr>p_sys := s1, p_work := (p_work P)(q \<mapsto> (body, handler_co W T q body))\<rparr>)"
proof -
  have pipe: "pipe_ok W (p_sys P)" using ok by (simp add: pool_ok_def)
  have s1: "pipe_ok W s1" "rely (p_sys P) s1" "s_db s1 = s_db (p_sys P)"
    using pipe_ok_taken [OF pipe taken] take_one_Some(2) [OF taken] by (simp_all add: rely_def)
  have msg: "msg_ok W (s_db s1) (q, body)"
    using pipe take_one_Some(1) [OF taken] by (simp add: pipe_ok_def s1(3))
  have acks: "acks_ok W (acked_ready W P) s1"
    using ok acks_ok_rely [OF _ s1(2)] by (simp add: pool_ok_def)
  have "worker_ok W (acked_ready W P) q (body, handler_co W T q body) s1"
  proof (cases "q = POD_READY_QUEUE")
    case True
    with msg obtain i where i: "body = dump_ready (o_pydantic W) \<lparr>pr_bot_id = i\<rparr>" "i \<in> ready_ids (s_db s1)"
      by (auto simp: msg_ok_def)
    have "insert i (acked_ready W P) \<subseteq> ready_ids (s_db s1)" using acks i(2) by (simp add: acks_ok_def)
    then have "guards W (paired_with W i (insert i (acked_ready W P))) (schedule_co W body) s1"
      by (intro services.guar_mono [OF guards_schedule [OF s1(1) i(2,1)]]) (auto simp: paired_with_def)
    with i True show ?thesis by (simp add: worker_ok_def handler_co_def) blast
  next
    case False
    have "guards W any_result (ondeck_co W body) s1" if "q = MATCH_ONDECK_QUEUE"
      using guards_ondeck [OF s1(1)] msg that by simp
    with False q guards_build [OF s1(1)] show ?thesis by (auto simp: worker_ok_def handler_co_def worker_queues_def)
  qed
  with pool_ok_work [OF pool_ok_move [OF ok s1(2,1)], of "Some (body, handler_co W T q body)" q]
  show ?thesis by (simp add: acked_ready_def)
qed

lemma ack_ok:
  assumes ok: "pool_ok W P" and w: "p_work P q = Some (body, Done (Inr u))"
  shows "pool_ok W (P\<lparr>p_work := (p_work P)(q := None), p_acked := p_acked P @ [(q, body)]\<rparr>)"
proof -
  let ?P = "P\<lparr>p_work := (p_work P)(q := None), p_acked := p_acked P @ [(q, body)]\<rparr>"
  have pipe: "pipe_ok W (p_sys P)" and acks: "acks_ok W (acked_ready W P) (p_sys P)"
    and work: "worker_ok W (acked_ready W P) q (body, Done (Inr u)) (p_sys P)"
    using ok w by (simp_all add: pool_ok_def)
  have P: "pydantic_ok (o_pydantic W)" using pipe by (simp add: pipe_ok_def)
  note A = acked_ready_ack [OF P, where P = P and w = "(p_work P)(q := None)" and q = q and body = body]
  have "acks_ok W (acked_ready W ?P) (p_sys P)"
  proof (cases "q = POD_READY_QUEUE")
    case True
    with work obtain i where i: "i \<in> ready_ids (s_db (p_sys P))" "body = dump_ready (o_pydantic W) \<lparr>pr_bot_id = i\<rparr>"
      and g: "guards W (paired_with W i (insert i (acked_ready W P))) (Done (Inr u)) (p_sys P)"
      by (auto simp: worker_ok_def)
    have "acked_ready W ?P = insert i (acked_ready W P)"
      unfolding A using True i(2) dump_ready_inject [OF P] by auto
    moreover have "scheduled W (p_sys P) i j \<and> scheduled W (p_sys P) j i" if "j \<in> insert i (acked_ready W P)" for j
      using services.guar_doneD [OF g pipe] that by (auto simp: paired_with_def)
    ultimately show ?thesis using acks i(1) by (auto simp: acks_ok_def)
  next
    case False
    with acks show ?thesis by (simp add: A)
  qed
  moreover have "worker_ok W (acked_ready W ?P) q' task (p_sys P)"
    if "((p_work P)(q := None)) q' = Some task" for q' task
  proof -
    have q': "q' \<noteq> q" "p_work P q' = Some task" using that by (auto split: if_splits)
    moreover have "worker_ok W (acked_ready W P) q' task (p_sys P)"
      using ok q'(2) unfolding pool_ok_def by blast
    moreover have "worker_ok W B q' task s = worker_ok W A q' task s" if "q' \<noteq> POD_READY_QUEUE" for A B s
      using that by (simp add: worker_ok_def)
    ultimately show ?thesis by (cases "q = POD_READY_QUEUE") (auto simp: A)
  qed
  ultimately show ?thesis using ok by (simp add: pool_ok_def)
qed

lemma pool_step_ok: "pool_ok W P \<Longrightarrow> pool_step W p T P P' \<Longrightarrow> pool_ok W P'"
proof (elim pool_stepE)
  assume ok: "pool_ok W P"
  then have pipe: "pipe_ok W (p_sys P)" and web: "\<forall>c \<in> set (p_web P). guards W any_result c (p_sys P)"
    and workers: "\<And>q task. p_work P q = Some task \<Longrightarrow> worker_ok W (acked_ready W P) q task (p_sys P)"
    unfolding pool_ok_def by blast+
  show "P' = P\<lparr>p_web := p_web P @ [submission_co W p src cookie]\<rparr> \<Longrightarrow> pool_ok W P'" for src cookie
    using web guards_submission [OF pipe] by (auto intro!: pool_ok_web [OF ok])
  show "pool_ok W P'" if P': "P' = P\<lparr>p_sys := a (p_sys P), p_web := ts @ k (p_sys P) # us\<rparr>"
    and here: "p_web P = ts @ Await a k # us" for ts a k us
  proof -
    have "guards W any_result (Await a k) (p_sys P)" using web here by simp
    note step = services.guar_awaitD [OF this pipe]
    have "\<forall>c \<in> set (ts @ k (p_sys P) # us). guards W any_result c (a (p_sys P))"
      using step web here services.guar_stable by fastforce
    then show ?thesis using pool_ok_web [OF pool_ok_move [OF ok]] step by (simp add: P')
  qed
  show "P' = P\<lparr>p_web := ts @ us\<rparr> \<Longrightarrow> p_web P = ts @ Done r # us \<Longrightarrow> pool_ok W P'" for ts r us
    using web by (auto intro!: pool_ok_web [OF ok])
  show "P' = P\<lparr>p_web := ts @ us\<rparr> \<Longrightarrow> p_web P = ts @ c # us \<Longrightarrow> pool_ok W P'" for ts c us
    using web by (auto intro!: pool_ok_web [OF ok])
  show "P' = P\<lparr>p_sys := s1, p_work := (p_work P)(q \<mapsto> (body, handler_co W T q body))\<rparr> \<Longrightarrow>
      q \<in> worker_queues \<Longrightarrow>
      take_one q (p_sys P) = Some (body, s1) \<Longrightarrow> pool_ok W P'" for q body s1
    using deliver_ok [OF ok] by simp
  show "pool_ok W P'" if P': "P' = P\<lparr>p_sys := a (p_sys P), p_work := (p_work P)(q \<mapsto> (body, k (p_sys P)))\<rparr>"
    and here: "p_work P q = Some (body, Await a k)" for q body a k
  proof -
    note step = worker_ok_await [OF workers [OF here] pipe]
    show ?thesis
      using pool_ok_work [OF pool_ok_move [OF ok step(1,2)], of "Some (body, k (p_sys P))" q] step(3)
      by (simp add: P' acked_ready_def)
  qed
  show "P' = P\<lparr>p_work := (p_work P)(q := None), p_acked := p_acked P @ [(q, body)]\<rparr> \<Longrightarrow>
      p_work P q = Some (body, Done (Inr u)) \<Longrightarrow> pool_ok W P'" for q body u
    using ack_ok [OF ok] by simp
  have "pool_ok W (P\<lparr>p_work := (p_work P)(q := None)\<rparr>)" for q by (rule pool_ok_work [OF ok]) simp
  then show "P' = P\<lparr>p_work := (p_work P)(q := None)\<rparr> \<Longrightarrow> pool_ok W P'" for q by simp
  then show "P' = P\<lparr>p_work := (p_work P)(q := None)\<rparr> \<Longrightarrow> pool_ok W P'" for q .
  show "pool_ok W P'" if P': "P' = P\<lparr>p_sys := give_back q (p_sys P), p_work := (p_work P)(q := None)\<rparr>" for q
  proof -
    have "rely (p_sys P) (give_back q (p_sys P))" "pipe_ok W (give_back q (p_sys P))"
      using pipe by (simp_all add: rely_def give_back_def pipe_ok_world [OF pipe])
    then show ?thesis using pool_ok_work [OF pool_ok_move [OF ok], of _ None q] by (simp add: P')
  qed
  show "pool_ok W P'" if P': "P' = P\<lparr>p_sys := (p_sys P)\<lparr>s_world := w\<rparr>\<rparr>" for w
    using pool_ok_move [OF ok] pipe_ok_world [OF pipe] by (simp add: P' rely_def)
qed

interpretation tasks: transition_system "start_pool W" "pool_step W p T" "pool_ok W" for W p T
  by unfold_locales (use start_pool_ok pool_step_ok in blast)+

definition pool_reachable :: "'w outside \<Rightarrow> ast_parser \<Rightarrow> int \<Rightarrow> 'w pool \<Rightarrow> bool" where
  "pool_reachable W p T P \<longleftrightarrow> (\<exists>P0. start_pool W P0 \<and> (pool_step W p T)\<^sup>*\<^sup>* P0 P)"

lemma pool_reachable_ok: "pool_reachable W p T P \<Longrightarrow> pool_ok W P"
  using tasks.reachable_inv unfolding pool_reachable_def tasks.reachable_def by blast

section \<open>One task after the other\<close>

text \<open>A pool in which nothing runs.\<close>

definition no_tasks :: "'w pool \<Rightarrow> bool" where
  "no_tasks P \<longleftrightarrow> p_work P = (\<lambda>_. None) \<and> p_web P = []"

lemma serve_alone:
  assumes "run_co c s = Some (r, t)"
  shows "(pool_step W p T)\<^sup>*\<^sup>* (P\<lparr>p_sys := s, p_web := [c]\<rparr>) (P\<lparr>p_sys := t, p_web := [Done r]\<rparr>)"
  using assms
proof (induction c arbitrary: s)
  case (Await a k)
  have "pool_step W p T (P\<lparr>p_sys := s, p_web := [Await a k]\<rparr>) (P\<lparr>p_sys := a s, p_web := [k s]\<rparr>)"
    using pool_step.serve [where P = "P\<lparr>p_sys := s, p_web := [Await a k]\<rparr>" and ts = "[]" and us = "[]"] by simp
  moreover have "(pool_step W p T)\<^sup>*\<^sup>* (P\<lparr>p_sys := a s, p_web := [k s]\<rparr>) (P\<lparr>p_sys := t, p_web := [Done r]\<rparr>)"
    by (rule Await.IH) (use Await.prems in simp_all)
  ultimately show ?case by (rule converse_rtranclp_into_rtranclp)
qed auto

lemma work_alone:
  assumes "run_co c s = Some (r, t)"
  shows "(pool_step W p T)\<^sup>*\<^sup>* (P\<lparr>p_sys := s, p_work := (p_work P)(q \<mapsto> (body, c))\<rparr>)
    (P\<lparr>p_sys := t, p_work := (p_work P)(q \<mapsto> (body, Done r))\<rparr>)"
  using assms
proof (induction c arbitrary: s)
  case (Await a k)
  have "pool_step W p T (P\<lparr>p_sys := s, p_work := (p_work P)(q \<mapsto> (body, Await a k))\<rparr>)
      (P\<lparr>p_sys := a s, p_work := (p_work P)(q \<mapsto> (body, k s))\<rparr>)"
    using pool_step.work [where P = "P\<lparr>p_sys := s, p_work := (p_work P)(q \<mapsto> (body, Await a k))\<rparr>" and q = q] by simp
  moreover have "(pool_step W p T)\<^sup>*\<^sup>* (P\<lparr>p_sys := a s, p_work := (p_work P)(q \<mapsto> (body, k s))\<rparr>)
      (P\<lparr>p_sys := t, p_work := (p_work P)(q \<mapsto> (body, Done r))\<rparr>)"
    by (rule Await.IH) (use Await.prems in simp_all)
  ultimately show ?case by (rule converse_rtranclp_into_rtranclp)
qed auto

lemma worker_alone:
  assumes no_tasks: "no_tasks P" and q: "q \<in> worker_queues" and taken: "take_one q (p_sys P) = Some (body, s1)"
    and run: "run_co (handler_co W T q body) s1 = Some (r, t)"
  shows "\<exists>P'. (pool_step W p T)\<^sup>*\<^sup>* P P' \<and> no_tasks P' \<and> p_sys P' = t \<and> (r = Inr () \<longrightarrow> (q, body) \<in> set (p_acked P'))"
proof -
  let ?busy = "\<lambda>c s. P\<lparr>p_sys := s, p_work := (p_work P)(q \<mapsto> (body, c))\<rparr>"
  let ?done = "\<lambda>as. P\<lparr>p_sys := t, p_work := (p_work P)(q := None), p_acked := as\<rparr>"
  have "pool_step W p T P (?busy (handler_co W T q body) s1)"
    using pool_step.deliver [OF q _ taken] no_tasks by (simp add: no_tasks_def)
  moreover have "(pool_step W p T)\<^sup>*\<^sup>* (?busy (handler_co W T q body) s1) (?busy (Done r) t)"
    by (rule work_alone [OF run])
  moreover have "\<exists>as. pool_step W p T (?busy (Done r) t) (?done as) \<and> (r = Inr () \<longrightarrow> (q, body) \<in> set as)"
  proof (cases r)
    case (Inl e)
    then show ?thesis
      using pool_step.reject [where P = "?busy (Done r) t" and q = q and body = body and e = e]
      by (intro exI [of _ "p_acked P"]) (simp add: Inl)
  next
    case (Inr u)
    then show ?thesis
      using pool_step.ack [where P = "?busy (Done r) t" and q = q and body = body and u = u]
      by (intro exI [of _ "p_acked P @ [(q, body)]"]) simp
  qed
  ultimately obtain as where "(pool_step W p T)\<^sup>*\<^sup>* P (?done as)" "r = Inr () \<longrightarrow> (q, body) \<in> set as"
    by (meson converse_rtranclp_into_rtranclp rtranclp.rtrancl_into_rtrancl)
  moreover have "no_tasks (?done as)" using no_tasks by (simp add: no_tasks_def fun_eq_iff)
  ultimately show ?thesis by (intro exI [of _ "?done as"]) simp
qed

lemma submission_alone:
  assumes no_tasks: "no_tasks P" and run: "handle_submission W src_parse src cookie (p_sys P) = (r, t)"
  shows "\<exists>P'. (pool_step W src_parse T)\<^sup>*\<^sup>* P P' \<and> no_tasks P' \<and> p_sys P' = t"
proof -
  let ?c = "submission_co W src_parse src cookie"
  have web: "p_web P = []" using no_tasks by (simp add: no_tasks_def)
  have "run_co ?c (p_sys P) = Some (r, t)" using implements_submission run by (metis implements_def)
  then have "(pool_step W src_parse T)\<^sup>*\<^sup>* (P\<lparr>p_sys := p_sys P, p_web := [?c]\<rparr>) (P\<lparr>p_sys := t, p_web := [Done r]\<rparr>)"
    by (rule serve_alone)
  moreover have "pool_step W src_parse T P (P\<lparr>p_sys := p_sys P, p_web := [?c]\<rparr>)"
    using pool_step.arrive [of W src_parse T P src cookie] web by simp
  moreover have "pool_step W src_parse T (P\<lparr>p_sys := t, p_web := [Done r]\<rparr>) (P\<lparr>p_sys := t, p_web := []\<rparr>)"
    using pool_step.respond [where P = "P\<lparr>p_sys := t, p_web := [Done r]\<rparr>" and ts = "[]" and us = "[]"] by simp
  ultimately have "(pool_step W src_parse T)\<^sup>*\<^sup>* P (P\<lparr>p_sys := t, p_web := []\<rparr>)"
    by (meson converse_rtranclp_into_rtranclp rtranclp.rtrancl_into_rtrancl)
  then show ?thesis using no_tasks by (intro exI [of _ "P\<lparr>p_sys := t, p_web := []\<rparr>"]) (simp add: no_tasks_def)
qed

lemma pipe_step_alone:
  assumes "pipe_step W p T (p_sys P) t" and "no_tasks P"
  shows "\<exists>P'. (pool_step W p T)\<^sup>*\<^sup>* P P' \<and> no_tasks P' \<and> p_sys P' = t"
  using assms(1)
proof (cases rule: pipe_step.cases)
  case (submit src cookie r)
  then show ?thesis using submission_alone [OF assms(2)] by blast
next
  case (build body s1 r)
  then show ?thesis
    using worker_alone [OF assms(2), of BUILD_POD_QUEUE body s1 W T r t p]
    by (auto simp: handler_co_def run_build_co worker_queues_def)
next
  case (schedule body s1 r)
  then show ?thesis
    using worker_alone [OF assms(2), of POD_READY_QUEUE body s1 W T r t p] implements_schedule [of W body]
    by (auto simp: handler_co_def worker_queues_def implements_def)
next
  case (ondeck body s1 r)
  then show ?thesis
    using worker_alone [OF assms(2), of MATCH_ONDECK_QUEUE body s1 W T r t p] implements_ondeck [of W body]
    by (auto simp: handler_co_def worker_queues_def implements_def)
next
  case (outside w)
  have "pool_step W p T P (P\<lparr>p_sys := (p_sys P)\<lparr>s_world := w\<rparr>\<rparr>)" by (rule pool_step.outside)
  with assms(2) outside show ?thesis
    by (intro exI [of _ "P\<lparr>p_sys := (p_sys P)\<lparr>s_world := w\<rparr>\<rparr>"]) (simp add: no_tasks_def)
qed

lemma reachable_pool:
  assumes "reachable_state W p T s"
  shows "\<exists>P. pool_reachable W p T P \<and> no_tasks P \<and> p_sys P = s"
proof -
  obtain s0 where s0: "start_state W s0" and steps: "(pipe_step W p T)\<^sup>*\<^sup>* s0 s"
    using assms by (auto simp: reachable_state_def)
  from steps show ?thesis
  proof (induction rule: rtranclp_induct)
    case base
    let ?P = "\<lparr>p_sys = s0, p_work = (\<lambda>_. None), p_web = [], p_acked = []\<rparr>"
    have "start_pool W ?P" using s0 by (simp add: start_pool_def)
    then have "pool_reachable W p T ?P" by (auto simp: pool_reachable_def)
    then show ?case by (intro exI [of _ ?P]) (simp add: no_tasks_def)
  next
    case (step s t)
    then obtain P where P: "pool_reachable W p T P" "no_tasks P" "p_sys P = s" by blast
    with pipe_step_alone step(2) obtain P' where "(pool_step W p T)\<^sup>*\<^sup>* P P'" "no_tasks P'" "p_sys P' = t" by metis
    moreover from this(1) P(1) have "pool_reachable W p T P'"
      unfolding pool_reachable_def by (meson rtranclp_trans)
    ultimately show ?case by blast
  qed
qed

section \<open>Two submissions at once\<close>

lemma co_act:
  assumes "m s = (r, s1)"
  shows "co_step (s, ts @ bind_co (act m) f # us) (s1, ts @ (case r of Inl e \<Rightarrow> Done (Inl e) | Inr x \<Rightarrow> f x) # us)"
  using co_step.intros [of s ts "\<lambda>s. snd (m s)" "\<lambda>s. bind_co (Done (fst (m s))) f" us] assms
  by (simp add: act_def)

text \<open>Steps of some submissions are steps of the pool that runs them.\<close>

lemma co_step_pool:
  assumes "co_step x y"
  shows "pool_step W p T (P\<lparr>p_sys := fst x, p_web := ts @ snd x\<rparr>) (P\<lparr>p_sys := fst y, p_web := ts @ snd y\<rparr>)"
  using assms
proof cases
  case (1 s us a k vs)
  then show ?thesis
    using pool_step.serve [where P = "P\<lparr>p_sys := s, p_web := (ts @ us) @ Await a k # vs\<rparr>" and ts = "ts @ us" and us = vs
        and a = a and k = k and W = W and ast_parse = p and pod_timeout = T] by simp
qed

lemma co_steps_pool:
  assumes "co_step\<^sup>*\<^sup>* x y"
  shows "(pool_step W p T)\<^sup>*\<^sup>* (P\<lparr>p_sys := fst x, p_web := ts @ snd x\<rparr>) (P\<lparr>p_sys := fst y, p_web := ts @ snd y\<rparr>)"
  using assms by (induction rule: rtranclp_induct) (auto intro: rtranclp.rtrancl_into_rtrancl co_step_pool)

lemma two_submissions_pool:
  assumes "co_step\<^sup>*\<^sup>* (p_sys P, [submission_co W p src_a cookie_a, submission_co W p src_b cookie_b]) (s, cs)"
  shows "(pool_step W p T)\<^sup>*\<^sup>* P (P\<lparr>p_sys := s, p_web := p_web P @ cs\<rparr>)"
proof -
  let ?A = "submission_co W p src_a cookie_a" and ?B = "submission_co W p src_b cookie_b"
  have "pool_step W p T P (P\<lparr>p_web := p_web P @ [?A]\<rparr>)" by (rule pool_step.arrive)
  moreover have "pool_step W p T (P\<lparr>p_web := p_web P @ [?A]\<rparr>) (P\<lparr>p_web := p_web P @ [?A, ?B]\<rparr>)"
    using pool_step.arrive [of W p T "P\<lparr>p_web := p_web P @ [?A]\<rparr>" src_b cookie_b] by simp
  moreover have "(pool_step W p T)\<^sup>*\<^sup>* (P\<lparr>p_web := p_web P @ [?A, ?B]\<rparr>) (P\<lparr>p_sys := s, p_web := p_web P @ cs\<rparr>)"
    using co_steps_pool [OF assms, where W = W and p = p and T = T and P = P and ts = "p_web P"] by simp
  ultimately show ?thesis by (meson converse_rtranclp_into_rtranclp)
qed

lemma submission_co_accepted:
  assumes "extract_bot_name p (utf8_decode src) = Inr (Some n)" and "n \<noteq> []" and "\<not> reserved_version_suffix n"
    and "extract_runtime_key p (utf8_decode src) = Inr (Some key)"
  shows "submission_co W p src cookie = submit_bot_co W n key src (parse_cookie cookie)"
  using assms by (simp add: submission_co_def validate_bot_name_def validate_runtime_key_def)

text \<open>The rest of a submission, after the owner check, after the version, and after the insertion.\<close>

definition after_insert ::
  "'w outside \<Rightarrow> string \<Rightarrow> string \<Rightarrow> json \<Rightarrow> string \<Rightarrow> int \<Rightarrow> Bot \<Rightarrow> ('w sys, SubmitPage) coro"
where
  "after_insert W n key owned tok v b =
     seq_co (act (enqueue_build_pod W \<lparr>bp_bot_id = b_id b, bp_runtime_key = key\<rparr>))
    (seq_co (act (publish_event W EVENT_BOT_UPLOADED [(''versioned_name'', JStr (versioned_name n v))]))
      (Done (success_response (versioned_name n v) owned tok n)))"

definition after_version ::
  "'w outside \<Rightarrow> string \<Rightarrow> string \<Rightarrow> string \<Rightarrow> json \<Rightarrow> string \<Rightarrow> int \<Rightarrow> ('w sys, SubmitPage) coro"
where
  "after_version W n key src owned tok v =
     bind_co (act (insert_row W n v tok key src)) (after_insert W n key owned tok v)"

definition after_owner ::
  "'w outside \<Rightarrow> string \<Rightarrow> string \<Rightarrow> string \<Rightarrow> json \<Rightarrow> string \<Rightarrow> ('w sys, SubmitPage) coro"
where
  "after_owner W n key src owned tok =
     bind_co (act (db_read (next_version n))) (after_version W n key src owned tok)"

lemma submit_bot_co_new:
  "submit_bot_co W n key src owned = bind_co (act (resolve_owner_token W n owned)) (\<lambda>resolved.
     case resolved of
       (_, Some err) \<Rightarrow> Done (Inr (error_page err))
     | (None, None) \<Rightarrow> Done (Inl (OtherError ''AssertionError''))
     | (Some tok, None) \<Rightarrow> after_owner W n key src owned tok)"
  by (simp add: submit_bot_co_def after_owner_def after_version_def [abs_def] after_insert_def [abs_def] persist_co_def
      bind_co_assoc cong: option.case_cong prod.case_cong)

lemma resolve_new:
  assumes "owner_token n (s_db s) = Inr None"
  shows "resolve_owner_token W n owned s =
    (Inr (Some (o_token_hex W 32 (s_drawn s)), None), s\<lparr>s_drawn := s_drawn s + 1\<rparr>)"
  using assms by (simp add: resolve_owner_token_def prog_simps)

lemma owner_token_None:
  assumes "owner_token n d = Inr None"
  shows "pg_text n" and "filter (\<lambda>b. b_base_name b = n) (bots d) = []" and "next_version n d = 1"
proof -
  show "pg_text n" using assms by (simp add: owner_token_def split: if_splits)
  with assms show f: "filter (\<lambda>b. b_base_name b = n) (bots d) = []"
    by (cases "filter (\<lambda>b. b_base_name b = n) (bots d)") (simp_all add: owner_token_def)
  show "next_version n d = 1" by (simp add: next_version_def family_max_def f)
qed

lemma insert_row_new:
  assumes "pg_text n" and "pg_text tok" and "is_runtime key" and "pg_int4 v" and "pg_int4 (bots_seq (s_db s))"
    and "versioned_name n v \<notin> set (map b_versioned_name (bots (s_db s)))"
  shows "\<exists>b. insert_row W n v tok key src s =
      (Inr b, s\<lparr>s_db := (s_db s)\<lparr>bots := bots (s_db s) @ [b], bots_seq := bots_seq (s_db s) + 1\<rparr>\<rparr>) \<and>
    b_base_name b = n \<and> b_owner_token b = tok \<and> b_version b = v \<and> b_versioned_name b = versioned_name n v"
  using assms pg_text_versioned [OF assms(1), of v] pg_text_runtime [OF assms(3)]
  by (simp add: insert_row_def db_write_def create_bot_def Let_def)

lemma insert_row_taken:
  assumes "pg_text n" and "pg_text tok" and "is_runtime key" and "pg_int4 v"
    and "versioned_name n v \<in> set (map b_versioned_name (bots (s_db s)))"
    and "pg_int4 (bots_seq (s_db s))"
  shows "\<exists>s1. insert_row W n v tok key src s = (Inl IntegrityError, s1) \<and> bots (s_db s1) = bots (s_db s)"
  using assms pg_text_versioned [OF assms(1), of v] pg_text_runtime [OF assms(3)]
  by (simp add: insert_row_def db_write_def create_bot_def Let_def)

lemma resolve_step:
  assumes "owner_token n (s_db s) = Inr None"
  shows "co_step (s, ts @ submit_bot_co W n key src owned # us)
    (s\<lparr>s_drawn := s_drawn s + 1\<rparr>, ts @ after_owner W n key src owned (o_token_hex W 32 (s_drawn s)) # us)"
proof -
  let ?f = "\<lambda>resolved. case resolved of
       (_, Some err) \<Rightarrow> Done (Inr (error_page err))
     | (None, None) \<Rightarrow> Done (Inl (OtherError ''AssertionError''))
     | (Some tok, None) \<Rightarrow> after_owner W n key src owned tok"
  show ?thesis
    unfolding submit_bot_co_new using co_act [where f = ?f and ts = ts and us = us and m = "resolve_owner_token W n owned" and s = s, OF resolve_new [OF assms, of W owned]]
    by simp
qed

text \<open>Both look up the owner, and neither finds one.\<close>

lemma both_checked:
  assumes free: "owner_token n (s_db s) = Inr None" and n: "n \<noteq> []" "\<not> reserved_version_suffix n"
    and a: "extract_bot_name p (utf8_decode src_a) = Inr (Some n)" "extract_runtime_key p (utf8_decode src_a) = Inr (Some key_a)"
    and b: "extract_bot_name p (utf8_decode src_b) = Inr (Some n)" "extract_runtime_key p (utf8_decode src_b) = Inr (Some key_b)"
  shows "co_step\<^sup>*\<^sup>* (s, [submission_co W p src_a cookie_a, submission_co W p src_b cookie_b])
    (s\<lparr>s_drawn := s_drawn s + 2\<rparr>,
     [after_owner W n key_a src_a (parse_cookie cookie_a) (o_token_hex W 32 (s_drawn s)),
      after_owner W n key_b src_b (parse_cookie cookie_b) (o_token_hex W 32 (s_drawn s + 1))])"
proof -
  let ?s1 = "s\<lparr>s_drawn := s_drawn s + 1\<rparr>"
  let ?B = "submit_bot_co W n key_b src_b (parse_cookie cookie_b)"
  let ?a = "after_owner W n key_a src_a (parse_cookie cookie_a) (o_token_hex W 32 (s_drawn s))"
  have "co_step (s, [submit_bot_co W n key_a src_a (parse_cookie cookie_a), ?B]) (?s1, [?a, ?B])"
    using resolve_step [OF free, where ts = "[]" and us = "[?B]"] by simp
  moreover have "owner_token n (s_db ?s1) = Inr None" using free by simp
  from resolve_step [OF this, where ts = "[?a]" and us = "[]" and W = W]
  have "co_step (?s1, [?a, ?B]) (s\<lparr>s_drawn := s_drawn s + 2\<rparr>,
      [?a, after_owner W n key_b src_b (parse_cookie cookie_b) (o_token_hex W 32 (s_drawn s + 1))])"
    by simp
  ultimately show ?thesis
    unfolding submission_co_accepted [OF a(1) n a(2)] submission_co_accepted [OF b(1) n b(2)]
    by (meson converse_rtranclp_into_rtranclp rtranclp.rtrancl_refl)
qed

lemma version_step:
  "co_step (s, ts @ after_owner W n key src owned tok # us)
     (s, ts @ after_version W n key src owned tok (next_version n (s_db s)) # us)"
  using co_act [where m = "db_read (next_version n)" and s = s, OF db_read_def] by (simp add: after_owner_def)

lemma insert_step:
  "insert_row W n v tok key src s = (Inr b, s1) \<Longrightarrow>
     co_step (s, ts @ after_version W n key src owned tok v # us) (s1, ts @ after_insert W n key owned tok v b # us)"
  using co_act [of "insert_row W n v tok key src" s "Inr b" s1 ts "after_insert W n key owned tok v" us]
  by (simp add: after_version_def)

lemma insert_failure_step:
  "insert_row W n v tok key src s = (Inl e, s1) \<Longrightarrow>
     co_step (s, ts @ after_version W n key src owned tok v # us) (s1, ts @ Done (Inl e) # us)"
  using co_act [of "insert_row W n v tok key src" s "Inl e" s1 ts "after_insert W n key owned tok v" us]
  by (simp add: after_version_def)

lemma submission_race:
  assumes ok: "names_ok (s_db s)" and free: "owner_token n (s_db s) = Inr None"
    and n: "n \<noteq> []" "\<not> reserved_version_suffix n"
    and a: "extract_bot_name p (utf8_decode src_a) = Inr (Some n)" "extract_runtime_key p (utf8_decode src_a) = Inr (Some key_a)"
    and b: "extract_bot_name p (utf8_decode src_b) = Inr (Some n)" "extract_runtime_key p (utf8_decode src_b) = Inr (Some key_b)"
    and tokens: "\<And>k. pg_text (o_token_hex W 32 k)"
    and room: "1 \<le> bots_seq (s_db s)" "bots_seq (s_db s) + 1 < 2 ^ 31"
  shows "\<exists>t c_a b_a.
      co_step\<^sup>*\<^sup>* (s, [submission_co W p src_a cookie_a, submission_co W p src_b cookie_b]) (t, [c_a, Done (Inl IntegrityError)]) \<and>
      bots (s_db t) = bots (s_db s) @ [b_a] \<and> b_base_name b_a = n \<and> b_version b_a = 1 \<and>
      b_owner_token b_a = o_token_hex W 32 (s_drawn s)"
    and "\<exists>t c_a c_b b_a b_b.
      co_step\<^sup>*\<^sup>* (s, [submission_co W p src_a cookie_a, submission_co W p src_b cookie_b]) (t, [c_a, c_b]) \<and>
      bots (s_db t) = bots (s_db s) @ [b_a, b_b] \<and> b_base_name b_a = n \<and> b_base_name b_b = n \<and>
      b_version b_a = 1 \<and> b_version b_b = 2 \<and>
      b_owner_token b_a = o_token_hex W 32 (s_drawn s) \<and> b_owner_token b_b = o_token_hex W 32 (s_drawn s + 1)"
proof -
  let ?d = "s_db s" and ?s = "s\<lparr>s_drawn := s_drawn s + 2\<rparr>"
  let ?ta = "o_token_hex W 32 (s_drawn s)" and ?tb = "o_token_hex W 32 (s_drawn s + 1)"
  let ?ca = "parse_cookie cookie_a" and ?cb = "parse_cookie cookie_b"
  let ?x = "(s, [submission_co W p src_a cookie_a, submission_co W p src_b cookie_b])"
  note fresh = owner_token_None [OF free]
  have keys: "is_runtime key_a" "is_runtime key_b" using extract_runtime_key_runtime a(2) b(2) by blast+
  have unused: "versioned_name n 1 \<notin> set (map b_versioned_name (bots ?d))"
    using next_name_fresh [OF ok n(2)] by (simp add: fresh(3))
  have int4: "pg_int4 (bots_seq ?d)" "pg_int4 (bots_seq ?d + 1)" using room by (simp_all add: pg_int4_def)
  obtain ba where ba: "insert_row W n 1 ?ta key_a src_a ?s =
      (Inr ba, ?s\<lparr>s_db := ?d\<lparr>bots := bots ?d @ [ba], bots_seq := bots_seq ?d + 1\<rparr>\<rparr>)"
    "b_base_name ba = n" "b_owner_token ba = ?ta" "b_version ba = 1" "b_versioned_name ba = versioned_name n 1"
    using insert_row_new [where tok = ?ta and W = W and v = 1 and s = ?s and src = src_a, OF fresh(1) tokens keys(1)]
      unused int4(1) by auto
  let ?d1 = "?d\<lparr>bots := bots ?d @ [ba], bots_seq := bots_seq ?d + 1\<rparr>"
  let ?s1 = "?s\<lparr>s_db := ?d1\<rparr>"
  let ?oa = "after_owner W n key_a src_a ?ca ?ta" and ?ob = "after_owner W n key_b src_b ?cb ?tb"
  let ?va = "after_version W n key_a src_a ?ca ?ta 1" and ?done = "after_insert W n key_a ?ca ?ta 1 ba"
  have "co_step\<^sup>*\<^sup>* ?x (?s, [?oa, ?ob])" by (rule both_checked [OF free n a b])
  moreover have "co_step (?s, [?oa, ?ob]) (?s, [?va, ?ob])"
    using version_step [where ts = "[]" and us = "[?ob]" and s = ?s and W = W and n = n and key = key_a
        and src = src_a and owned = ?ca and tok = ?ta] fresh(3) by simp
  ultimately have va: "co_step\<^sup>*\<^sup>* ?x (?s, [?va, ?ob])" by (rule rtranclp.rtrancl_into_rtrancl)
  show "\<exists>t c_a b_a. co_step\<^sup>*\<^sup>* ?x (t, [c_a, Done (Inl IntegrityError)]) \<and>
      bots (s_db t) = bots ?d @ [b_a] \<and> b_base_name b_a = n \<and> b_version b_a = 1 \<and> b_owner_token b_a = ?ta"
  proof -
    let ?vb = "after_version W n key_b src_b ?cb ?tb 1"
    obtain s2 where s2: "insert_row W n 1 ?tb key_b src_b ?s1 = (Inl IntegrityError, s2)" "bots (s_db s2) = bots ?d1"
      using insert_row_taken [where tok = ?tb and W = W and v = 1 and s = ?s1 and src = src_b, OF fresh(1) tokens keys(2)]
        ba(5) int4(2) by auto
    have "co_step (?s, [?va, ?ob]) (?s, [?va, ?vb])"
      using version_step [where ts = "[?va]" and us = "[]" and s = ?s and W = W and n = n and key = key_b
          and src = src_b and owned = ?cb and tok = ?tb] fresh(3) by simp
    moreover have "co_step (?s, [?va, ?vb]) (?s1, [?done, ?vb])"
      using insert_step [OF ba(1), of "[]"] by simp
    moreover have "co_step (?s1, [?done, ?vb]) (s2, [?done, Done (Inl IntegrityError)])"
      using insert_failure_step [OF s2(1), of "[?done]"] by simp
    ultimately have "co_step\<^sup>*\<^sup>* ?x (s2, [?done, Done (Inl IntegrityError)])"
      using va by (meson rtranclp.rtrancl_into_rtrancl)
    with s2(2) ba(2-4) show ?thesis by (intro exI [of _ s2] exI [of _ ?done] exI [of _ ba]) simp
  qed
  show "\<exists>t c_a c_b b_a b_b. co_step\<^sup>*\<^sup>* ?x (t, [c_a, c_b]) \<and> bots (s_db t) = bots ?d @ [b_a, b_b] \<and>
      b_base_name b_a = n \<and> b_base_name b_b = n \<and> b_version b_a = 1 \<and> b_version b_b = 2 \<and>
      b_owner_token b_a = ?ta \<and> b_owner_token b_b = ?tb"
  proof -
    have two: "next_version n ?d1 = 2"
      by (simp add: next_version_def family_max_def fresh(2) ba(2,4))
    let ?vb = "after_version W n key_b src_b ?cb ?tb 2"
    have "names_ok ?d1"
      using ok ba(2,4,5) n(2) by (simp add: names_ok_def)
    then have "versioned_name n 2 \<notin> set (map b_versioned_name (bots ?d1))"
      using next_name_fresh [OF _ n(2), of ?d1] two by simp
    then obtain bb where bb: "insert_row W n 2 ?tb key_b src_b ?s1 =
        (Inr bb, ?s1\<lparr>s_db := ?d1\<lparr>bots := bots ?d1 @ [bb], bots_seq := bots_seq ?d1 + 1\<rparr>\<rparr>)"
      "b_base_name bb = n" "b_owner_token bb = ?tb" "b_version bb = 2"
      using insert_row_new [where tok = ?tb and W = W and v = 2 and s = ?s1 and src = src_b, OF fresh(1) tokens keys(2)]
        int4(2) by auto
    let ?s2 = "?s1\<lparr>s_db := ?d1\<lparr>bots := bots ?d1 @ [bb], bots_seq := bots_seq ?d1 + 1\<rparr>\<rparr>"
    let ?done_b = "after_insert W n key_b ?cb ?tb 2 bb"
    have "co_step (?s, [?va, ?ob]) (?s1, [?done, ?ob])" using insert_step [OF ba(1), of "[]"] by simp
    moreover have "co_step (?s1, [?done, ?ob]) (?s1, [?done, ?vb])"
      using version_step [where ts = "[?done]" and us = "[]" and s = ?s1 and W = W and n = n and key = key_b
          and src = src_b and owned = ?cb and tok = ?tb] two by simp
    moreover have "co_step (?s1, [?done, ?vb]) (?s2, [?done, ?done_b])"
      using insert_step [OF bb(1), of "[?done]"] by simp
    ultimately have "co_step\<^sup>*\<^sup>* ?x (?s2, [?done, ?done_b])"
      using va by (meson rtranclp.rtrancl_into_rtrancl)
    moreover have "bots (s_db ?s2) = bots ?d @ [ba, bb]" by simp
    ultimately show ?thesis using ba(2-4) bb(2-4)
      by (intro exI [of _ ?s2] exI [of _ ?done] exI [of _ ?done_b] exI [of _ ba] exI [of _ bb]) simp
  qed
qed

section \<open>Properties\<close>

lemmas run_handlers = implements_submission [unfolded implements_def, rule_format]
  implements_schedule [unfolded implements_def, rule_format] implements_ondeck [unfolded implements_def, rule_format]

text \<open>C2: in every interleaving of the running submissions and handlers, await by await, with workers
  cancelled or killed at any point and any failures of the broker, the cluster and the bots, every
  match in the database is between two bots whose pods became ready, and its stored moves, result
  and winner are those of a game by the rules.\<close>

theorem interleaved_matches_are_legal:
  assumes "pool_reachable W ast_parse pod_timeout P" and "m \<in> set (matches (s_db (p_sys P)))"
  shows "m_bot_x_id m \<in> ready_ids (s_db (p_sys P)) \<and> m_bot_o_id m \<in> ready_ids (s_db (p_sys P)) \<and>
    legal_match (s_db (p_sys P)) m"
  using pool_reachable_ok [OF assms(1)] assms(2) by (simp add: pool_ok_def pipe_ok_def)

text \<open>C4: no pairing is forgotten: once the scheduler has acknowledged the ready messages of two
  bots, a match has been published with each as x and the other as o, whatever else ran in
  between; also of every bot against itself.\<close>

theorem acknowledged_pairs_are_scheduled:
  assumes "pool_reachable W ast_parse pod_timeout P"
    and "(POD_READY_QUEUE, dump_ready (o_pydantic W) \<lparr>pr_bot_id = i\<rparr>) \<in> set (p_acked P)"
    and "(POD_READY_QUEUE, dump_ready (o_pydantic W) \<lparr>pr_bot_id = j\<rparr>) \<in> set (p_acked P)"
  shows "scheduled W (p_sys P) i j \<and> scheduled W (p_sys P) j i"
  using pool_reachable_ok [OF assms(1)] assms(2,3) by (simp add: pool_ok_def acks_ok_def acked_ready_def)

text \<open>A coroutine that is not interrupted does what its handler does in one step, exceptions and
  the wait that never ends included.\<close>

theorem coroutines_are_the_handlers:
  "run_co (submission_co W ast_parse src cookie) s = Some (handle_submission W ast_parse src cookie s) \<and>
   run_co (build_co W pod_timeout body) s = handle_build_pod_message W pod_timeout body s \<and>
   run_co (schedule_co W body) s = Some (handle_pod_ready_message W body s) \<and>
   run_co (ondeck_co W body) s = Some (handle_match_ondeck W body s)"
  by (simp add: run_handlers run_build_co)

text \<open>C34: two submissions of one new family race. Arriving at any pool, and whatever cookies they carry, both
  look up the owner before either inserts, and find none. Then one interleaving of the two ends the
  second in an unhandled integrity error, with the first one's row stored; and another
  stores versions 1 and 2 of the family, with the tokens drawn for two different owners.\<close>

theorem submissions_of_one_family_race:
  assumes "pool_reachable W ast_parse pod_timeout P"
    and "owner_token n (s_db (p_sys P)) = Inr None" and "n \<noteq> []" and "\<not> reserved_version_suffix n"
    and "extract_bot_name ast_parse (utf8_decode src_a) = Inr (Some n)"
    and "extract_runtime_key ast_parse (utf8_decode src_a) = Inr (Some key_a)"
    and "extract_bot_name ast_parse (utf8_decode src_b) = Inr (Some n)"
    and "extract_runtime_key ast_parse (utf8_decode src_b) = Inr (Some key_b)"
    and "\<And>k. pg_text (o_token_hex W 32 k)" and "bots_seq (s_db (p_sys P)) + 1 < 2 ^ 31"
    and "o_token_hex W 32 (s_drawn (p_sys P)) \<noteq> o_token_hex W 32 (s_drawn (p_sys P) + 1)"
  shows "(\<exists>s c_a b_a.
      co_step\<^sup>*\<^sup>* (p_sys P, [submission_co W ast_parse src_a cookie_a, submission_co W ast_parse src_b cookie_b])
        (s, [c_a, Done (Inl IntegrityError)]) \<and>
      (pool_step W ast_parse pod_timeout)\<^sup>*\<^sup>* P (P\<lparr>p_sys := s, p_web := p_web P @ [c_a, Done (Inl IntegrityError)]\<rparr>) \<and>
      bots (s_db s) = bots (s_db (p_sys P)) @ [b_a] \<and> b_base_name b_a = n \<and> b_version b_a = 1) \<and>
    (\<exists>s c_a c_b b_a b_b.
      co_step\<^sup>*\<^sup>* (p_sys P, [submission_co W ast_parse src_a cookie_a, submission_co W ast_parse src_b cookie_b])
        (s, [c_a, c_b]) \<and>
      (pool_step W ast_parse pod_timeout)\<^sup>*\<^sup>* P (P\<lparr>p_sys := s, p_web := p_web P @ [c_a, c_b]\<rparr>) \<and>
      bots (s_db s) = bots (s_db (p_sys P)) @ [b_a, b_b] \<and>
      b_base_name b_a = n \<and> b_base_name b_b = n \<and> b_version b_a = 1 \<and> b_version b_b = 2 \<and>
      b_owner_token b_a = o_token_hex W 32 (s_drawn (p_sys P)) \<and>
      b_owner_token b_b = o_token_hex W 32 (s_drawn (p_sys P) + 1) \<and> b_owner_token b_a \<noteq> b_owner_token b_b)"
proof -
  have ok: "names_ok (s_db (p_sys P))" "1 \<le> bots_seq (s_db (p_sys P))"
    using pool_reachable_ok [OF assms(1)] by (simp_all add: pool_ok_def pipe_ok_def db_ok_def seqs_ok_def)
  let ?x = "(p_sys P, [submission_co W ast_parse src_a cookie_a, submission_co W ast_parse src_b cookie_b])"
  note race = submission_race [where W = W, OF ok(1) assms(2-9) ok(2) assms(10), of cookie_a cookie_b]
  note pool = two_submissions_pool [where W = W and p = ast_parse and P = P and T = pod_timeout
      and src_a = src_a and cookie_a = cookie_a and src_b = src_b and cookie_b = cookie_b]
  obtain s c_a b_a where first: "co_step\<^sup>*\<^sup>* ?x (s, [c_a, Done (Inl IntegrityError)])"
    "bots (s_db s) = bots (s_db (p_sys P)) @ [b_a]" "b_base_name b_a = n" "b_version b_a = 1"
    using race(1) by auto
  obtain t d_a d_b e_a e_b where second: "co_step\<^sup>*\<^sup>* ?x (t, [d_a, d_b])"
    "bots (s_db t) = bots (s_db (p_sys P)) @ [e_a, e_b]" "b_base_name e_a = n" "b_base_name e_b = n"
    "b_version e_a = 1" "b_version e_b = 2" "b_owner_token e_a = o_token_hex W 32 (s_drawn (p_sys P))"
    "b_owner_token e_b = o_token_hex W 32 (s_drawn (p_sys P) + 1)"
    using race(2) by auto
  show ?thesis
  proof (rule conjI)
    show "\<exists>s c_a b_a. co_step\<^sup>*\<^sup>* ?x (s, [c_a, Done (Inl IntegrityError)]) \<and>
        (pool_step W ast_parse pod_timeout)\<^sup>*\<^sup>* P (P\<lparr>p_sys := s, p_web := p_web P @ [c_a, Done (Inl IntegrityError)]\<rparr>) \<and>
        bots (s_db s) = bots (s_db (p_sys P)) @ [b_a] \<and> b_base_name b_a = n \<and> b_version b_a = 1"
      by (rule exI [of _ s], rule exI [of _ c_a], rule exI [of _ b_a]) (intro conjI first pool [OF first(1)])
    have "b_owner_token e_a \<noteq> b_owner_token e_b" using second(7,8) assms(11) by simp
    then show "\<exists>s c_a c_b b_a b_b. co_step\<^sup>*\<^sup>* ?x (s, [c_a, c_b]) \<and>
        (pool_step W ast_parse pod_timeout)\<^sup>*\<^sup>* P (P\<lparr>p_sys := s, p_web := p_web P @ [c_a, c_b]\<rparr>) \<and>
        bots (s_db s) = bots (s_db (p_sys P)) @ [b_a, b_b] \<and>
        b_base_name b_a = n \<and> b_base_name b_b = n \<and> b_version b_a = 1 \<and> b_version b_b = 2 \<and>
        b_owner_token b_a = o_token_hex W 32 (s_drawn (p_sys P)) \<and>
        b_owner_token b_b = o_token_hex W 32 (s_drawn (p_sys P) + 1) \<and> b_owner_token b_a \<noteq> b_owner_token b_b"
      by (intro exI [of _ t] exI [of _ d_a] exI [of _ d_b] exI [of _ e_a] exI [of _ e_b] conjI second pool [OF second(1)])
  qed
qed

end
