(* ===== verification/SchemaState.thy ===== *)
theory SchemaState
  imports SchemaRows Tasks
begin

text \<open>
  The tables of the running services under the migrated schema: in every state the interleaved
  tasks can reach, every stored row has the columns, the types and the nullability of its table,
  and every constraint of the schema holds.
\<close>

section \<open>A store that satisfies its schema\<close>

definition column_holds :: "row \<Rightarrow> column \<Rightarrow> bool" where
  "column_holds r c \<longleftrightarrow> fits (c_type c) (cell_of r (c_name c)) \<and>
     (c_nullable c \<or> cell_of r (c_name c) \<noteq> Null)"

fun constraint_holds :: "store \<Rightarrow> row list \<Rightarrow> table_constraint \<Rightarrow> bool" where
  "constraint_holds st rows (PrimaryKey cs) \<longleftrightarrow> distinct (map (\<lambda>r. key_of r cs) rows)"
| "constraint_holds st rows (UniqueKey cs) \<longleftrightarrow>
     distinct (filter (\<lambda>k. Null \<notin> set k) (map (\<lambda>r. key_of r cs) rows))"
| "constraint_holds st rows (ForeignKey c target tc) \<longleftrightarrow>
     list_all (\<lambda>r. cell_of r c = Null \<or> list_ex (\<lambda>s. cell_of s tc = cell_of r c) (st target)) rows"
| "constraint_holds st rows (CheckIn name c vs) \<longleftrightarrow>
     list_all (\<lambda>r. cell_of r c = Null \<or> list_ex (\<lambda>v. cell_of r c = TextCell v) vs) rows"

definition table_holds :: "store \<Rightarrow> table \<Rightarrow> bool" where
  "table_holds st t \<longleftrightarrow>
     list_all (\<lambda>r. map fst r = map c_name (t_columns t) \<and> list_all (column_holds r) (t_columns t)) (st (t_name t)) \<and>
     list_all (constraint_holds st (st (t_name t))) (t_constraints t)"

definition satisfies :: "store \<Rightarrow> table list \<Rightarrow> bool" where
  "satisfies st ts \<longleftrightarrow> list_all (table_holds st) ts"

section \<open>The tables of the model\<close>

lemma pg_text_pod_name: "pg_text (pod_name i)"
  by (simp add: pod_name_def int_str_def pg_text_simps)

lemma transcript_storable:
  "transcript_from n b ms r \<Longrightarrow> wf_board b \<Longrightarrow> \<forall>mv \<in> set ms. storable_move mv"
proof (induction ms arbitrary: n b)
  case (Cons m ms)
  have m: "n \<le> 9" "mv_number m = n" using Cons.prems(1) by simp_all
  show ?case
  proof (cases "mv_error m = JNull")
    case False
    then have "ms = []" "mv_board m = board_to_str b" using Cons.prems(1) by simp_all
    with m Cons.prems(2) show ?thesis by (simp add: storable_move_def pg_text_board)
  next
    case True
    with Cons.prems(1) obtain b' where b': "mv_board m = board_to_str b'" "wf_board b'"
      and rest: "case game_outcome b' of Some w \<Rightarrow> ms = [] \<and> r = w | None \<Rightarrow> transcript_from (Suc n) b' ms r"
      by auto
    have "\<forall>mv \<in> set ms. storable_move mv"
      using rest Cons.IH [of "Suc n" b'] b'(2) by (cases "game_outcome b'") simp_all
    with b' m show ?thesis by (simp add: storable_move_def pg_text_board)
  qed
qed simp

definition moves_ok :: "db \<Rightarrow> bool" where
  "moves_ok d \<longleftrightarrow> (\<forall>v \<in> set (moves d). pg_text (v_board_state v) \<and> pg_int4 (v_move_number v))"

lemma legal_moves_ok:
  assumes "db_ok d" and "\<forall>m \<in> set (matches d). legal_match d m"
  shows "moves_ok d"
  unfolding moves_ok_def
proof
  fix v assume v: "v \<in> set (moves d)"
  with db_okD(12) [OF assms(1)] obtain m where m: "m \<in> set (matches d)" "m_id m = v_match_id v" by force
  then obtain mvs r where t: "transcript_from 1 EMPTY_BOARD mvs r"
    and cols: "stored_moves d (m_id m) = map (move_columns (m_bot_x_id m) (m_bot_o_id m)) mvs"
    using assms(2) unfolding legal_match_def by blast
  have "(v_move_number v, v_bot_id v, v_board_state v, v_error v) \<in> set (stored_moves d (m_id m))"
    using v m(2) by (force simp: stored_moves_def)
  then obtain mv where "mv \<in> set mvs" "v_move_number v = int (mv_number mv)" "v_board_state v = mv_board mv"
    unfolding cols by (auto simp: move_columns_def)
  moreover have "storable_move mv" if "mv \<in> set mvs" for mv
    using transcript_storable [OF t wf_EMPTY_BOARD] that by blast
  ultimately show "pg_text (v_board_state v) \<and> pg_int4 (v_move_number v)"
    by (auto simp: storable_move_def)
qed

lemma constraint_rows:
  "constraint_holds st (map f xs) (ForeignKey c t tc) \<longleftrightarrow>
     (\<forall>x \<in> set xs. cell_of (f x) c = Null \<or> list_ex (\<lambda>s. cell_of s tc = cell_of (f x) c) (st t))"
  "constraint_holds st (map f xs) (CheckIn n c vs) \<longleftrightarrow>
     (\<forall>x \<in> set xs. cell_of (f x) c = Null \<or> list_ex (\<lambda>v. cell_of (f x) c = TextCell v) vs)"
  by (auto simp: list_all_iff)

lemma distinct_ids:
  "distinct (map b_id bs) \<Longrightarrow> distinct (map (\<lambda>r. key_of r [''id'']) (map bot_cells bs))"
  "distinct (map m_id ms) \<Longrightarrow> distinct (map (\<lambda>r. key_of r [''id'']) (map match_cells ms))"
  "distinct (map v_id vs) \<Longrightarrow> distinct (map (\<lambda>r. key_of r [''id'']) (map move_cells vs))"
  "distinct (map b_versioned_name bs) \<Longrightarrow> distinct (map (\<lambda>r. key_of r [''versioned_name'']) (map bot_cells bs))"
  by (auto simp: distinct_map inj_on_def key_of_def bot_cells_def match_cells_def move_cells_def)

lemmas cells_defs = Column_def column_holds_def list_all_iff

lemma bots_table_holds:
  assumes "db_ok d" and "pods_ok d"
  shows "table_holds (store_of d) bots_table"
proof -
  have cols: "list_all (column_holds (bot_cells b)) (t_columns bots_table)" if b: "b \<in> set (bots d)" for b
  proof -
    have "pg_text (b_base_name b)" "pg_text (b_versioned_name b)" "pg_text (b_owner_token b)"
      "pg_text (b_python_version b)" "pg_text (b_runtime_key b)" "pg_int4 (b_version b)"
      using assms(1) b by (simp_all add: db_ok_def columns_ok_def)
    moreover have "pg_int4 (b_id b)" using db_ok_int4(1) [OF assms(1)] b by (simp add: bot_ids_def)
    moreover have "fits String (nullable TextCell (b_pod_name b))"
      using assms(2) b by (simp add: pods_ok_def pg_text_pod_name nullable_def)
    moreover have "fits LargeBinary (nullable BytesCell (b_source b))" by (cases "b_source b") (simp_all add: nullable_def)
    ultimately show ?thesis
      by (simp add: bots_table_def bot_cells_def cells_defs)
  qed
  have head: "map fst (bot_cells b) = map c_name (t_columns bots_table)" for b
    by (simp add: bot_cells_def bots_table_def Column_def)
  have rows: "store_of d (t_name bots_table) = map bot_cells (bots d)" by (simp add: store_of_def bots_table_def)
  have "list_all (constraint_holds (store_of d) (map bot_cells (bots d))) (t_constraints bots_table)"
    using distinct_ids(1) [OF db_okD(1) [OF assms(1)]] distinct_ids(4) [OF db_okD(2) [OF assms(1)]]
    by (simp add: bots_table_def distinct_filter del: map_map)
  then show ?thesis
    using cols head by (simp add: table_holds_def rows list.pred_set)
qed

lemma matches_table_holds:
  assumes "db_ok d"
  shows "table_holds (store_of d) matches_table"
proof -
  have m: "list_all (column_holds (match_cells m)) (t_columns matches_table)"
    "list_ex (\<lambda>v. TextCell (m_result m) = TextCell v) RESULTS"
    "m_bot_x_id m \<in> bot_ids d" "m_bot_o_id m \<in> bot_ids d" "set_option (m_winner_id m) \<subseteq> bot_ids d"
    if m: "m \<in> set (matches d)" for m
  proof -
    note ids = db_okD(8,9) [OF assms m]
    obtain r where r: "m_result m = outcome_value r"
        "m_winner_id m = rightful_winner (m_bot_x_id m) (m_bot_o_id m) r"
      using db_okD(10) [OF assms m] by (auto simp: winner_consistent_def)
    show winner: "set_option (m_winner_id m) \<subseteq> bot_ids d" using ids unfolding r(2) by (cases r) simp_all
    show "list_ex (\<lambda>v. TextCell (m_result m) = TextCell v) RESULTS"
      unfolding r(1) RESULTS_def by (cases r) simp_all
    have "\<forall>c \<in> set_option (m_correlation_id m). pg_text c"
      using assms m by (simp add: db_ok_def columns_ok_def)
    then have "fits String (nullable TextCell (m_correlation_id m))"
      by (cases "m_correlation_id m") (simp_all add: nullable_def)
    moreover have "fits Integer (nullable IntCell (m_winner_id m))"
      using winner db_ok_int4(1) [OF assms] by (cases "m_winner_id m") (simp_all add: nullable_def)
    moreover note db_ok_int4(2) [OF assms m] ids [THEN db_ok_int4(1) [OF assms]]
    moreover have "pg_text (m_result m)" by (simp add: r(1) outcome_value_pg)
    ultimately show "list_all (column_holds (match_cells m)) (t_columns matches_table)"
      by (simp add: matches_table_def match_cells_def cells_defs)
    show "m_bot_x_id m \<in> bot_ids d" "m_bot_o_id m \<in> bot_ids d" by (fact ids)+
  qed
  have head: "map fst (match_cells m) = map c_name (t_columns matches_table)" for m
    by (simp add: match_cells_def matches_table_def Column_def)
  have rows: "store_of d (t_name matches_table) = map match_cells (matches d)"
    "store_of d ''bots'' = map bot_cells (bots d)"
    by (simp_all add: store_of_def matches_table_def)
  have cells: "cell_of (match_cells m) ''bot_x_id'' = IntCell (m_bot_x_id m)"
    "cell_of (match_cells m) ''bot_o_id'' = IntCell (m_bot_o_id m)"
    "cell_of (match_cells m) ''winner_id'' = nullable IntCell (m_winner_id m)"
    "cell_of (match_cells m) ''result'' = TextCell (m_result m)" for m
    by (simp_all add: match_cells_def)
  have ref: "cell_of (match_cells m) ''winner_id'' = Null \<or>
      list_ex (\<lambda>s. cell_of s ''id'' = cell_of (match_cells m) ''winner_id'') (map bot_cells (bots d))"
    if "m \<in> set (matches d)" for m
    using m(5) [OF that] unfolding cells bot_ids_def bot_reference [symmetric]
    by (cases "m_winner_id m") (simp_all only: nullable_def bot_reference option.case option.set subset_iff, simp_all)
  let ?rows = "map match_cells (matches d)"
  have "constraint_holds (store_of d) ?rows (CheckIn n ''result'' RESULTS)" for n
    unfolding constraint_rows cells using m(2) by blast
  moreover have "constraint_holds (store_of d) ?rows (ForeignKey c ''bots'' ''id'')"
    if "c \<in> {''bot_x_id'', ''bot_o_id'', ''winner_id''}" for c
    using that m(3,4) ref unfolding constraint_rows rows by (auto simp only: cells bot_reference bot_ids_def) blast
  moreover have "constraint_holds (store_of d) ?rows (PrimaryKey [''id''])"
    using distinct_ids(2) [OF db_okD(3) [OF assms]] by (simp only: constraint_holds.simps)
  ultimately have "list_all (constraint_holds (store_of d) ?rows) (t_constraints matches_table)"
    by (simp add: matches_table_def del: constraint_holds.simps)
  then show ?thesis
    using m(1) head by (simp add: table_holds_def rows list.pred_set)
qed

lemma moves_table_holds:
  assumes "db_ok d" and "moves_ok d"
  shows "table_holds (store_of d) moves_table"
proof -
  have cols: "list_all (column_holds (move_cells v)) (t_columns moves_table)" if v: "v \<in> set (moves d)" for v
  proof -
    obtain m where "m \<in> set (matches d)" "m_id m = v_match_id v" using db_okD(12) [OF assms(1) v] by force
    then have "pg_int4 (v_match_id v)" using db_ok_int4(2) [OF assms(1)] by force
    moreover note db_ok_int4(3) [OF assms(1) v] db_ok_int4(1) [OF assms(1) db_okD(11) [OF assms(1) v]]
    moreover have "pg_text (v_board_state v)" "pg_int4 (v_move_number v)"
      using assms(2) v by (simp_all add: moves_ok_def)
    moreover have "\<forall>e \<in> set_option (v_error v). pg_text e" using assms(1) v by (simp add: db_ok_def columns_ok_def)
    then have "fits String (nullable TextCell (v_error v))" by (cases "v_error v") (simp_all add: nullable_def)
    ultimately show ?thesis by (simp add: moves_table_def move_cells_def cells_defs)
  qed
  have head: "map fst (move_cells v) = map c_name (t_columns moves_table)" for v
    by (simp add: move_cells_def moves_table_def Column_def)
  have rows: "store_of d (t_name moves_table) = map move_cells (moves d)"
    "store_of d ''bots'' = map bot_cells (bots d)" "store_of d ''matches'' = map match_cells (matches d)"
    by (simp_all add: store_of_def moves_table_def)
  have cells: "cell_of (move_cells v) ''bot_id'' = IntCell (v_bot_id v)"
    "cell_of (move_cells v) ''match_id'' = IntCell (v_match_id v)" for v
    by (simp_all add: move_cells_def)
  let ?rows = "map move_cells (moves d)"
  have "constraint_holds (store_of d) ?rows (ForeignKey ''bot_id'' ''bots'' ''id'')"
    "constraint_holds (store_of d) ?rows (ForeignKey ''match_id'' ''matches'' ''id'')"
    using db_okD(11,12) [OF assms(1)]
    unfolding constraint_rows rows cells bot_reference match_reference bot_ids_def by blast+
  moreover have "constraint_holds (store_of d) ?rows (PrimaryKey [''id''])"
    using distinct_ids(3) [OF db_okD(4) [OF assms(1)]] by (simp only: constraint_holds.simps)
  ultimately have "list_all (constraint_holds (store_of d) ?rows) (t_constraints moves_table)"
    by (simp add: moves_table_def del: constraint_holds.simps)
  then show ?thesis
    using cols head by (simp add: table_holds_def rows list.pred_set)
qed

section \<open>The property\<close>

text \<open>C32: whatever the web handlers, the three workers and the restarts have done, in every order
  of their steps, the tables satisfy the schema of the migration: every row has the columns of its
  table, in their types, with NULL only where it is allowed, and the primary keys, the unique
  versioned name, the foreign keys and the check on the results hold.\<close>

theorem reachable_tables_satisfy_the_schema:
  assumes "pool_reachable W ast_parse pod_timeout P"
  shows "satisfies (store_of (s_db (p_sys P))) [bots_table, matches_table, moves_table]"
proof -
  have ok: "db_ok (s_db (p_sys P))" "pods_ok (s_db (p_sys P))"
    "\<forall>m \<in> set (matches (s_db (p_sys P))). legal_match (s_db (p_sys P)) m"
    using pool_reachable_ok [OF assms] by (simp_all add: pool_ok_def pipe_ok_def)
  then show ?thesis
    by (simp add: satisfies_def bots_table_holds matches_table_holds moves_table_holds legal_moves_ok)
qed

end
