(* ===== verification/TurnServer.thy ===== *)
theory TurnServer
  imports MatchRunner Base64 Messaging PyJson
begin

text \<open>
  \<open>bot-runner-images/python/turn_server.py\<close>: the HTTP server inside a bot's pod, which runs the
  bot as a process per turn. Running a process is outside the repository: \<open>spawn\<close> gives the
  outcome for a source and a standard input: a process that ended has an exit code, which the
  server does not look at, and what it printed on its two streams. The lemmas follow a turn from the request the
  dispatcher sends to the reply it reads back.

  Bounds: \<open>str\<close> of a JSON number with a fraction is its lexeme; the text of an exception that
  only reaches a reply is the argument \<open>exc_str\<close>.
\<close>

section \<open>Running the bot\<close>

datatype run_outcome =
    Completed int string string
  | TimeoutExpired
  | RunFailed string

type_synonym spawn = "string \<Rightarrow> string \<Rightarrow> run_outcome"

definition bot_stdin :: "json \<Rightarrow> json \<Rightarrow> string" where
  "bot_stdin symbol board = py_str_json symbol @ [LF] @ py_str_json board"

definition run_bot :: "spawn \<Rightarrow> string \<Rightarrow> json \<Rightarrow> json \<Rightarrow> json" where
  "run_bot spawn source symbol board =
     (case spawn source (bot_stdin symbol board) of
        TimeoutExpired \<Rightarrow> JObj [(''error'', JStr ''timeout after 10s'')]
      | RunFailed exc \<Rightarrow> JObj [(''error'', JStr (''runtime error: '' @ exc))]
      | Completed returncode out err \<Rightarrow>
          (let stdout = py_strip out
           in if stdout = [] then
                (let stderr = py_strip err;
                     detail = (if stderr \<noteq> [] then '': '' @ stderr else [])
                 in JObj [(''error'', JStr (''invalid output: empty response'' @ detail))])
              else JObj [(''board'', JStr stdout)]))"

section \<open>The handler\<close>

record http_response =
  rs_status :: nat
  rs_headers :: "(string \<times> string) list"
  rs_body :: string

definition do_GET :: "string \<Rightarrow> http_response" where
  "do_GET path =
     (if path = ''/health'' then \<lparr>rs_status = 200, rs_headers = [], rs_body = ''ok''\<rparr>
      else \<lparr>rs_status = 404, rs_headers = [], rs_body = []\<rparr>)"

definition json_headers :: "(string \<times> string) list" where
  "json_headers = [(''Content-Type'', ''application/json'')]"

definition read_payload :: "string \<Rightarrow> (json \<times> json) res" where
  "read_payload body =
     (case json_loads body of
        None \<Rightarrow> Inl JSONDecodeError
      | Some payload \<Rightarrow>
          bindE (json_item payload ''symbol'') (\<lambda>symbol.
          bindE (json_item payload ''board'') (\<lambda>board. Inr (symbol, board))))"

text \<open>
  \<open>int\<close> of a bad \<open>Content-Length\<close> raises outside the \<open>try\<close>; a negative length reads to the
  end of the stream.
\<close>

definition do_POST ::
  "spawn \<Rightarrow> (py_exc \<Rightarrow> string) \<Rightarrow> string \<Rightarrow> string \<Rightarrow> string option \<Rightarrow> string \<Rightarrow> http_response res"
where
  "do_POST spawn exc_str source path content_length rfile =
     (if path \<noteq> ''/turn'' then Inr \<lparr>rs_status = 404, rs_headers = [], rs_body = []\<rparr>
      else
        (case (case content_length of None \<Rightarrow> Some 0 | Some l \<Rightarrow> py_int l) of
           None \<Rightarrow> Inl (ValueError ''invalid literal for int()'')
         | Some n \<Rightarrow>
             (let body = (if n < 0 then rfile else take (nat n) rfile)
              in case read_payload body of
                   Inl exc \<Rightarrow>
                     Inr \<lparr>rs_status = 400, rs_headers = json_headers,
                          rs_body = json_dumps (JObj [(''error'', JStr (''bad request: '' @ exc_str exc))])\<rparr>
                 | Inr (symbol, board) \<Rightarrow>
                     Inr \<lparr>rs_status = 200, rs_headers = json_headers,
                          rs_body = json_dumps (run_bot spawn source symbol board)\<rparr>)))"

text \<open>\<open>main\<close>: the source from the environment of the pod.\<close>

definition startup_source :: "string option \<Rightarrow> string option" where
  "startup_source source_b64 =
     (let s = (case source_b64 of None \<Rightarrow> [] | Some v \<Rightarrow> v)
      in if s \<noteq> [] then b64decode s else Some [])"

section \<open>A turn, end to end\<close>

text \<open>The program the pod runs is the one that was submitted.\<close>

lemma startup_source_encode: "startup_source (Some (b64encode src)) = Some src"
  by (auto simp: startup_source_def Let_def b64decode_encode b64encode_Nil)

text \<open>What the bot is asked and what the dispatcher is told, by the outcome of the process.\<close>

definition outcome_response :: "run_outcome \<Rightarrow> TurnResponse" where
  "outcome_response r =
     (case r of
        TimeoutExpired \<Rightarrow> \<lparr>tr_board = JNull, tr_error = JStr ''timeout after 10s''\<rparr>
      | RunFailed exc \<Rightarrow> \<lparr>tr_board = JNull, tr_error = JStr (''runtime error: '' @ exc)\<rparr>
      | Completed returncode out err \<Rightarrow>
          if py_strip out = [] then
            \<lparr>tr_board = JNull, tr_error = JStr (''invalid output: empty response'' @
               (if py_strip err \<noteq> [] then '': '' @ py_strip err else []))\<rparr>
          else \<lparr>tr_board = JStr (py_strip out), tr_error = JNull\<rparr>)"

lemma wf_run_bot: "wf_json (run_bot spawn src symbol board)"
  by (simp add: run_bot_def Let_def split: run_outcome.split)

lemma parse_run_bot:
  "parse_turn_response (json_dumps (run_bot spawn src symbol board)) =
     Inr (outcome_response (spawn src (bot_stdin symbol board)))"
  using json_loads_dumps [OF wf_run_bot [of spawn src symbol board]]
  by (simp add: parse_turn_response_def run_bot_def outcome_response_def json_get_def Let_def
      split: run_outcome.split del: json_dumps.simps)

lemma py_int_nat_str [simp]: "py_int (nat_str n) = Some (int n)"
proof -
  have digits: "\<And>c. c \<in> set (nat_str n) \<Longrightarrow> is_digit c" by (rule nat_str_digits)
  have nosp: "\<not> py_isspace c" if "is_digit c" for c
    using that by (auto simp: is_digit_def py_isspace_def)
  have strip: "py_strip (nat_str n) = nat_str n"
    by (rule py_strip_id) (use digits nosp in auto)
  have und: "underscored ds = Some ds" if "ds \<noteq> []" "\<forall>c \<in> set ds. is_digit c" for ds
    using that by (induction ds rule: underscored.induct) (auto simp: is_digit_def)
  obtain c cs where c: "nat_str n = c # cs" using nat_str_nonempty by (metis list.exhaust)
  then have "is_digit c" using digits by simp
  then have "c \<noteq> CHR ''-''" "c \<noteq> CHR ''+''" by (auto simp: is_digit_def)
  moreover have "underscored (c # cs) = Some (c # cs)"
    using und [of "c # cs"] digits c by simp
  moreover have "nat_of_digits (c # cs) = n" using nat_of_digits_nat_str [of n] c by simp
  ultimately show ?thesis using strip c by (simp add: py_int_def)
qed

lemma read_turn_request:
  "read_payload (the (req_data (turn_request ip symbol board))) = Inr (JStr symbol, JStr board)"
  using turn_request_body [of ip symbol board] by (simp add: read_payload_def json_item_def)

lemma do_POST_turn_request:
  assumes "body = the (req_data (turn_request ip symbol board))"
  shows "do_POST spawn exc_str src ''/turn'' (Some (nat_str (length body))) body =
    Inr \<lparr>rs_status = 200, rs_headers = json_headers,
         rs_body = json_dumps (run_bot spawn src (JStr symbol) (JStr board))\<rparr>"
  using read_turn_request [of ip symbol board]
  by (simp add: do_POST_def Let_def assms del: json_dumps.simps)

section \<open>Properties\<close>

lemma py_strip_strip: "py_strip (py_strip s) = py_strip s"
  by (cases "py_strip s = []")
    (simp, rule py_strip_id, simp_all add: py_strip_hd py_strip_last)

lemma parse_board_strip: "parse_board (py_strip t) = parse_board t"
  by (simp add: parse_board_def py_strip_strip)

text \<open>How the dispatcher judges a run, without its exit code.\<close>

lemma judge_outcome:
  assumes "wf_board b" and "s \<in> {''X'', ''O''}"
  shows "case r of
      TimeoutExpired \<Rightarrow> judge_response b s (outcome_response r) = Inr (None, JStr ''timeout after 10s'')
    | RunFailed exc \<Rightarrow> judge_response b s (outcome_response r) = Inr (None, JStr (''runtime error: '' @ exc))
    | Completed returncode out err \<Rightarrow>
        \<exists>e. e \<noteq> JNull \<and> judge_response b s (outcome_response r) =
          (if \<exists>b'. parse_board out = Some b' \<and> legal_move b b' s then Inr (parse_board out, JNull) else Inr (None, e))"
proof (cases r)
  case (Completed returncode out err)
  show ?thesis
  proof (cases "py_strip out = []")
    case True
    moreover have "parse_board [] = None" by code_simp
    ultimately have "parse_board out = None" using parse_board_strip [of out] by simp
    with True Completed show ?thesis
      by (auto simp: outcome_response_def judge_response_def forfeit_def)
  next
    case False
    then have "outcome_response r = \<lparr>tr_board = JStr (py_strip out), tr_error = JNull\<rparr>"
      using Completed by (simp add: outcome_response_def)
    with Completed judge_response_text [OF assms, of "py_strip out", unfolded parse_board_strip]
    show ?thesis by (simp only: run_outcome.case)
  qed
qed (simp_all add: outcome_response_def judge_response_def forfeit_def)

text \<open>C15: a turn end to end. When the bot's server answers the dispatcher's request, the bot was run
  on its symbol and the board, and the dispatcher judges exactly what it printed: the text is
  accepted when it reads as a board that is one legal move on, and is a forfeit otherwise, as are
  a run over the time limit and a run that could not be started. The exit code plays no part: a
  bot that prints a legal board and then raises has moved, though the README says it forfeits.\<close>

theorem turn_end_to_end:
  assumes "body = the (req_data (turn_request ip symbol (board_to_str board)))"
    and "do_POST spawn exc_str src ''/turn'' (Some (nat_str (length body))) body = Inr rs"
    and "urlopen E (turn_request ip symbol (board_to_str board)) timeout w = (Inr (rs_body rs), w1)"
    and "wf_board board" and "symbol \<in> {''X'', ''O''}"
  shows "rs_status rs = 200 \<and>
    play_turn E symbol ip board timeout w =
      (catch_url_error (judge_response board symbol
         (outcome_response (spawn src (symbol @ [LF] @ board_to_str board)))), w1) \<and>
    (case spawn src (symbol @ [LF] @ board_to_str board) of
       TimeoutExpired \<Rightarrow> play_turn E symbol ip board timeout w = (Inr (None, JStr ''timeout after 10s''), w1)
     | RunFailed exc \<Rightarrow> play_turn E symbol ip board timeout w = (Inr (None, JStr (''runtime error: '' @ exc)), w1)
     | Completed returncode out err \<Rightarrow>
         \<exists>e. e \<noteq> JNull \<and> play_turn E symbol ip board timeout w =
           (if \<exists>b'. parse_board out = Some b' \<and> legal_move board b' symbol
            then Inr (parse_board out, JNull) else Inr (None, e), w1))"
proof -
  let ?r = "spawn src (symbol @ [LF] @ board_to_str board)"
  have rs: "rs = \<lparr>rs_status = 200, rs_headers = json_headers,
         rs_body = json_dumps (run_bot spawn src (JStr symbol) (JStr (board_to_str board)))\<rparr>"
    using assms(2) do_POST_turn_request [OF assms(1)] by simp
  then have turn: "play_turn E symbol ip board timeout w =
      (catch_url_error (judge_response board symbol (outcome_response ?r)), w1)"
    using assms(3) parse_run_bot [of spawn src "JStr symbol" "JStr (board_to_str board)"]
    by (simp add: play_turn_def request_turn_def bot_stdin_def py_str_json_def del: json_dumps.simps)
  with rs judge_outcome [OF assms(4,5), of ?r] show ?thesis
    by (auto simp: catch_url_error_def split: run_outcome.splits)
qed

text \<open>The value of the first environment variable of the first container of a manifest.\<close>

definition manifest_source :: "json \<Rightarrow> string option" where
  "manifest_source m =
     (case m of
        JObj kvs \<Rightarrow>
          (case map_of kvs ''spec'' of
             Some (JObj spec) \<Rightarrow>
               (case map_of spec ''containers'' of
                  Some (JArr (JObj c # _)) \<Rightarrow>
                    (case map_of c ''env'' of
                       Some (JArr (JObj e # _)) \<Rightarrow>
                         (case (map_of e ''name'', map_of e ''value'') of
                            (Some (JStr n), Some (JStr v)) \<Rightarrow> if n = ''SOURCE_B64'' then Some v else None
                          | _ \<Rightarrow> None)
                     | _ \<Rightarrow> None)
                | _ \<Rightarrow> None)
           | _ \<Rightarrow> None)
      | _ \<Rightarrow> None)"

text \<open>The pod of a bot runs the bytes that were submitted: the server decodes the variable of
  the manifest to the source, for every source, also the empty one.\<close>

theorem pod_runs_the_source:
  "startup_source (manifest_source (build_bot_pod_manifest pname img (b64encode src) i)) = Some src"
  by (simp add: build_bot_pod_manifest_def manifest_source_def startup_source_encode)

lemma reply_shape:
  assumes "wf_json v" and "v = JObj [(k, JStr s)]"
  shows "json_loads (json_dumps v) = Some (JObj [(k, JStr s)])"
  using json_loads_dumps [OF assms(1)] assms(2) by simp

text \<open>C16: every answer to a turn request is an object with one text: a board, not empty and stripped,
  with status 200, or an error that is not empty, with status 200 when the bot failed and 400 when
  the request could not be read. The dispatcher never sees a board and an error together.\<close>

theorem turn_reply_is_board_or_error:
  assumes "do_POST spawn exc_str src ''/turn'' content_length rfile = Inr rs"
  shows "\<exists>s. s \<noteq> [] \<and>
    (json_loads (rs_body rs) = Some (JObj [(''board'', JStr s)]) \<and> py_strip s = s \<and> rs_status rs = 200 \<or>
     json_loads (rs_body rs) = Some (JObj [(''error'', JStr s)]) \<and> rs_status rs \<in> {200, 400})"
proof -
  obtain n where n: "(case content_length of None \<Rightarrow> Some 0 | Some l \<Rightarrow> py_int l) = Some n"
    using assms by (cases "case content_length of None \<Rightarrow> Some 0 | Some l \<Rightarrow> py_int l") (simp_all add: do_POST_def)
  define body where "body = (if n < 0 then rfile else take (nat n) rfile)"
  note run = assms [unfolded do_POST_def n Let_def option.case, folded body_def]
  show ?thesis
  proof (cases "read_payload body")
    case (Inl exc)
    then have "rs_status rs = 400"
      "rs_body rs = json_dumps (JObj [(''error'', JStr (''bad request: '' @ exc_str exc))])"
      using run by (auto simp del: json_dumps.simps)
    moreover have "json_loads (json_dumps (JObj [(''error'', JStr (''bad request: '' @ exc_str exc))])) =
        Some (JObj [(''error'', JStr (''bad request: '' @ exc_str exc))])"
      by (rule reply_shape) simp_all
    ultimately show ?thesis by (intro exI [of _ "''bad request: '' @ exc_str exc"]) simp
  next
    case (Inr sb)
    obtain symbol board where sb: "sb = (symbol, board)" by (cases sb)
    then have rs: "rs_status rs = 200" "rs_body rs = json_dumps (run_bot spawn src symbol board)"
      using run Inr by (auto simp del: json_dumps.simps)
    have "\<exists>k s. run_bot spawn src symbol board = JObj [(k, JStr s)] \<and> s \<noteq> [] \<and>
        (k = ''board'' \<and> py_strip s = s \<or> k = ''error'')"
      by (simp add: run_bot_def Let_def py_strip_strip split: run_outcome.split)
    then obtain k s where ks: "run_bot spawn src symbol board = JObj [(k, JStr s)]" "s \<noteq> []"
      "k = ''board'' \<and> py_strip s = s \<or> k = ''error''" by blast
    have "json_loads (rs_body rs) = Some (JObj [(k, JStr s)])"
      unfolding rs(2) by (rule reply_shape [OF wf_run_bot ks(1)])
    with ks rs(1) show ?thesis by auto
  qed
qed

theorem turn_reply_is_board_or_error_witness:
  "\<exists>s rs. do_POST (\<lambda>_ _. Completed 0 ''X..'' []) (\<lambda>_. ''bad'') [] ''/turn'' None [] = Inr rs \<and> s \<noteq> [] \<and>
     json_loads (rs_body rs) = Some (JObj [(''error'', JStr s)])"
proof -
  have "read_payload [] = Inl JSONDecodeError" by code_simp
  then obtain rs where rs: "do_POST (\<lambda>_ _. Completed 0 ''X..'' []) (\<lambda>_. ''bad'') [] ''/turn'' None [] = Inr rs"
    and "rs_status rs = 400"
    by (simp add: do_POST_def del: json_dumps.simps)
  with turn_reply_is_board_or_error [OF rs] show ?thesis by auto
qed

end
