(* ===== verification/ExampleBots.thy ===== *)
theory ExampleBots
  imports TurnServer
begin

text \<open>
  The bots of \<open>example_bots/\<close> and the template offered for download, as functions from what they
  read on standard input to what they print. A Python list that is changed in place and changed
  back is a value passed on; a run that raises is a result of its own. The scripts share their
  first and last lines and the search for a completed line, which are defined once, after the
  first file that has them.
\<close>

section \<open>Reading, choosing, writing\<close>

text \<open>\<open>symbol = data[0]; board = [row.split("|") for row in data[1:]]\<close>\<close>

definition read_board :: "string \<Rightarrow> (string \<times> board) res" where
  "read_board stdin =
     (case splitlines (py_strip stdin) of
        [] \<Rightarrow> Inl IndexError
      | symbol # rows \<Rightarrow> Inr (symbol, map (split_on (CHR ''|'')) rows))"

text \<open>\<open>board[r][c] = v\<close>\<close>

definition set_cell :: "board \<Rightarrow> nat \<Rightarrow> nat \<Rightarrow> string \<Rightarrow> board res" where
  "set_cell board r c v =
     bindE (py_nth board r) (\<lambda>row.
       if c < length row then Inr (board[r := row[c := v]]) else Inl IndexError)"

text \<open>\<open>print("\n".join("|".join(row) for row in board))\<close>\<close>

definition print_board :: "board \<Rightarrow> string" where
  "print_board board = join [LF] (map (join ''|'') board) @ [LF]"

definition opponent_of :: "string \<Rightarrow> string" where
  "opponent_of symbol = (if symbol = ''X'' then ''O'' else ''X'')"

text \<open>\<open>r, c = move\<close> raises when no move was found.\<close>

definition play_cell :: "string \<Rightarrow> board \<Rightarrow> (nat \<times> nat) option \<Rightarrow> string res" where
  "play_cell symbol board move =
     (case move of
        None \<Rightarrow> Inl TypeError
      | Some (r, c) \<Rightarrow> bindE (set_cell board r c symbol) (\<lambda>b. Inr (print_board b)))"

text \<open>The first cell of a list of cells that holds a value.\<close>

fun first_cell :: "board \<Rightarrow> string \<Rightarrow> (nat \<times> nat) list \<Rightarrow> (nat \<times> nat) option res" where
  "first_cell board v [] = Inr None"
| "first_cell board v ((r, c) # ps) =
     bindE (board_cell board r c) (\<lambda>x. if x = v then Inr (Some (r, c)) else first_cell board v ps)"

definition or_else :: "(nat \<times> nat) option res \<Rightarrow> (nat \<times> nat) option res \<Rightarrow> (nat \<times> nat) option res" where
  "or_else m k = bindE m (\<lambda>move. case move of None \<Rightarrow> k | Some p \<Rightarrow> Inr (Some p))"

text \<open>
  A line with two cells of \<open>symbol\<close> and one empty cell; the loop over the lines returns the empty
  cell of the first.
\<close>

definition line_marks :: "board \<Rightarrow> (nat \<times> nat) list \<Rightarrow> string list res" where
  "line_marks board line = mapE (\<lambda>(r, c). board_cell board r c) line"

definition almost :: "string \<Rightarrow> string list \<Rightarrow> bool" where
  "almost symbol marks \<longleftrightarrow> count_list marks symbol = 2 \<and> count_list marks ''.'' = 1"

fun find_completion :: "(nat \<times> nat) list list \<Rightarrow> board \<Rightarrow> string \<Rightarrow> (nat \<times> nat) option res" where
  "find_completion [] board symbol = Inr None"
| "find_completion (line # lines) board symbol =
     bindE (line_marks board line) (\<lambda>marks.
       if almost symbol marks then
         or_else (first_cell board ''.'' line) (find_completion lines board symbol)
       else find_completion lines board symbol)"

section \<open>The first empty cell: \<open>py310.py\<close> to \<open>py314.py\<close>\<close>

text \<open>On a full board nothing is printed.\<close>

definition first_empty_bot :: "string \<Rightarrow> string res" where
  "first_empty_bot stdin =
     bindE (read_board stdin) (\<lambda>(symbol, board).
     bindE (first_cell board ''.'' grid) (\<lambda>move.
       case move of None \<Rightarrow> Inr [] | Some _ \<Rightarrow> play_cell symbol board move))"

definition py310 :: "string \<Rightarrow> string res" where "py310 = first_empty_bot"
definition py311 :: "string \<Rightarrow> string res" where "py311 = first_empty_bot"
definition py312 :: "string \<Rightarrow> string res" where "py312 = first_empty_bot"
definition py313 :: "string \<Rightarrow> string res" where "py313 = first_empty_bot"
definition py314 :: "string \<Rightarrow> string res" where "py314 = first_empty_bot"

section \<open>One-sided and half-blind bots\<close>

definition LINES :: "(nat \<times> nat) list list" where
  "LINES =
     [[(0, 0), (0, 1), (0, 2)],
      [(1, 0), (1, 1), (1, 2)],
      [(2, 0), (2, 1), (2, 2)],
      [(0, 0), (1, 0), (2, 0)],
      [(0, 1), (1, 1), (2, 1)],
      [(0, 2), (1, 2), (2, 2)],
      [(0, 0), (1, 1), (2, 2)],
      [(0, 2), (1, 1), (2, 0)]]"

definition PASSIVE_ORDER :: "(nat \<times> nat) list" where
  "PASSIVE_ORDER = [(0, 1), (1, 0), (1, 2), (2, 1), (1, 1), (0, 0), (0, 2), (2, 0), (2, 2)]"

definition defense_only_bot :: "string \<Rightarrow> string res" where
  "defense_only_bot stdin =
     bindE (read_board stdin) (\<lambda>(symbol, board).
     bindE (or_else (find_completion LINES board (opponent_of symbol))
                    (first_cell board ''.'' PASSIVE_ORDER)) (\<lambda>move.
       play_cell symbol board move))"

definition AGGRESSIVE_ORDER :: "(nat \<times> nat) list" where
  "AGGRESSIVE_ORDER = [(1, 1), (0, 0), (0, 2), (2, 0), (2, 2), (0, 1), (1, 0), (1, 2), (2, 1)]"

definition empties :: "board \<Rightarrow> (nat \<times> nat) list res" where
  "empties board =
     bindE (mapE (\<lambda>(r, c). board_cell board r c) grid) (\<lambda>marks.
       Inr (map fst (filter (\<lambda>(p, v). v = ''.'') (zip grid marks))))"

text \<open>The lines a move would leave with two own cells and one empty one.\<close>

definition score_move :: "board \<Rightarrow> string \<Rightarrow> nat \<Rightarrow> nat \<Rightarrow> int res" where
  "score_move board symbol r c =
     bindE (set_cell board r c symbol) (\<lambda>b.
     bindE (mapE (line_marks b) LINES) (\<lambda>marks.
       Inr (int (length (filter (almost symbol) marks)))))"

fun best_threat ::
  "board \<Rightarrow> string \<Rightarrow> (nat \<times> nat) list \<Rightarrow> int \<Rightarrow> (nat \<times> nat) option \<Rightarrow> (nat \<times> nat) option res"
where
  "best_threat board symbol [] best move = Inr move"
| "best_threat board symbol ((r, c) # ps) best move =
     bindE (board_cell board r c) (\<lambda>v.
       if v \<noteq> ''.'' then best_threat board symbol ps best move
       else bindE (score_move board symbol r c) (\<lambda>t.
         if t > best then best_threat board symbol ps t (Some (r, c))
         else best_threat board symbol ps best move))"

definition offense_only_bot :: "string \<Rightarrow> string res" where
  "offense_only_bot stdin =
     bindE (read_board stdin) (\<lambda>(symbol, board).
     bindE (or_else (find_completion LINES board symbol)
       (bindE (empties board) (\<lambda>_. best_threat board symbol AGGRESSIVE_ORDER (- 1) None))) (\<lambda>move.
       play_cell symbol board move))"

definition DIAGONAL_BLIND_LINES :: "(nat \<times> nat) list list" where
  "DIAGONAL_BLIND_LINES =
     [[(0, 0), (0, 1), (0, 2)],
      [(1, 0), (1, 1), (1, 2)],
      [(2, 0), (2, 1), (2, 2)],
      [(0, 0), (1, 0), (2, 0)],
      [(0, 1), (1, 1), (2, 1)],
      [(0, 2), (1, 2), (2, 2)]]"

definition HORIZONTAL_BLIND_LINES :: "(nat \<times> nat) list list" where
  "HORIZONTAL_BLIND_LINES =
     [[(0, 0), (1, 0), (2, 0)],
      [(0, 1), (1, 1), (2, 1)],
      [(0, 2), (1, 2), (2, 2)],
      [(0, 0), (1, 1), (2, 2)],
      [(0, 2), (1, 1), (2, 0)]]"

definition VERTICAL_BLIND_LINES :: "(nat \<times> nat) list list" where
  "VERTICAL_BLIND_LINES =
     [[(0, 0), (0, 1), (0, 2)],
      [(1, 0), (1, 1), (1, 2)],
      [(2, 0), (2, 1), (2, 2)],
      [(0, 0), (1, 1), (2, 2)],
      [(0, 2), (1, 1), (2, 0)]]"

definition PREFERRED :: "(nat \<times> nat) list" where
  "PREFERRED = [(1, 1), (0, 0), (0, 2), (2, 0), (2, 2), (0, 1), (1, 0), (1, 2), (2, 1)]"

definition blind_bot :: "(nat \<times> nat) list list \<Rightarrow> string \<Rightarrow> string res" where
  "blind_bot lines stdin =
     bindE (read_board stdin) (\<lambda>(symbol, board).
     bindE (or_else (find_completion lines board symbol)
           (or_else (find_completion lines board (opponent_of symbol))
                    (first_cell board ''.'' PREFERRED))) (\<lambda>move.
       play_cell symbol board move))"

definition diagonal_blind_bot :: "string \<Rightarrow> string res" where
  "diagonal_blind_bot = blind_bot DIAGONAL_BLIND_LINES"

definition horizontal_blind_bot :: "string \<Rightarrow> string res" where
  "horizontal_blind_bot = blind_bot HORIZONTAL_BLIND_LINES"

definition vertical_blind_bot :: "string \<Rightarrow> string res" where
  "vertical_blind_bot = blind_bot VERTICAL_BLIND_LINES"

section \<open>Cheaters and the template\<close>

definition overwriter_bot :: "string \<Rightarrow> string res" where
  "overwriter_bot stdin =
     bindE (read_board stdin) (\<lambda>(symbol, board).
     bindE (or_else (first_cell board (opponent_of symbol) grid) (first_cell board ''.'' grid)) (\<lambda>move.
       play_cell symbol board move))"

fun set_cells :: "board \<Rightarrow> string \<Rightarrow> (nat \<times> nat) list \<Rightarrow> board res" where
  "set_cells board v [] = Inr board"
| "set_cells board v ((r, c) # ps) = bindE (set_cell board r c v) (\<lambda>b. set_cells b v ps)"

definition double_mover_bot :: "string \<Rightarrow> string res" where
  "double_mover_bot stdin =
     bindE (read_board stdin) (\<lambda>(symbol, board).
     bindE (empties board) (\<lambda>cells.
     bindE (set_cells board symbol (take 2 cells)) (\<lambda>b. Inr (print_board b))))"

text \<open>\<open>for row in board: print("|".join(row))\<close>\<close>

definition write_board :: "board \<Rightarrow> string" where
  "write_board board = concat (map (\<lambda>row. join ''|'' row @ [LF]) board)"

definition template_bot :: "string \<Rightarrow> string res" where
  "template_bot stdin = bindE (read_board stdin) (\<lambda>(symbol, board). Inr (write_board board))"

section \<open>The perfect bots\<close>

fun winner_in :: "board \<Rightarrow> (nat \<times> nat) list list \<Rightarrow> string option res" where
  "winner_in board [] = Inr None"
| "winner_in board (line # lines) =
     bindE (line_marks board line) (\<lambda>marks.
       case marks of
         [a, b, c] \<Rightarrow> if a \<noteq> ''.'' \<and> a = b \<and> b = c then Inr (Some a) else winner_in board lines
       | _ \<Rightarrow> Inl (ValueError ''unpack''))"

definition winner :: "board \<Rightarrow> string option res" where
  "winner board = winner_in board LINES"

text \<open>\<open>sum(1 for r in range(3) for c in range(3) if board[r][c] != ".")\<close>\<close>

definition occupied :: "board \<Rightarrow> int res" where
  "occupied board =
     bindE (mapE (\<lambda>(r, c). board_cell board r c) grid) (\<lambda>marks.
       Inr (int (length (filter (\<lambda>v. v \<noteq> ''.'') marks))))"

text \<open>
  The loop over the moves, with the body that keeps a better one. The recursion has the frames
  that Python's recursion limit leaves as its first argument; each call uses one.
\<close>

type_synonym scored = "int \<times> (nat \<times> nat)"

fun try_moves ::
  "(nat \<times> nat \<Rightarrow> int res) \<Rightarrow> (int \<Rightarrow> nat \<times> nat \<Rightarrow> scored \<Rightarrow> scored) \<Rightarrow> (nat \<times> nat) list \<Rightarrow> scored \<Rightarrow> scored res"
where
  "try_moves score keep [] best = Inr best"
| "try_moves score keep (m # ms) best =
     bindE (score m) (\<lambda>s. try_moves score keep ms (keep s m best))"

definition keep_v1 :: "bool \<Rightarrow> int \<Rightarrow> nat \<times> nat \<Rightarrow> scored \<Rightarrow> scored" where
  "keep_v1 mine s m best = (if mine then (if s > fst best then (s, m) else best) else best)"

definition keep_v2 :: "bool \<Rightarrow> int \<Rightarrow> nat \<times> nat \<Rightarrow> scored \<Rightarrow> scored" where
  "keep_v2 mine s m best =
     (if mine then (if s > fst best then (s, m) else best)
      else (if s < fst best then (s, m) else best))"

abbreviation RecursionError :: py_exc where "RecursionError \<equiv> OtherError ''RecursionError''"

fun minimax_v1 :: "nat \<Rightarrow> board \<Rightarrow> string \<Rightarrow> string \<Rightarrow> (int \<times> (nat \<times> nat) option) res" where
  "minimax_v1 0 board to_move me = Inl RecursionError"
| "minimax_v1 (Suc frames) board to_move me =
     (let them = opponent_of me
      in bindE (winner board) (\<lambda>w.
           if w = Some me then bindE (occupied board) (\<lambda>n. Inr (10 - n, None))
           else if w = Some them then bindE (occupied board) (\<lambda>n. Inr (- 10 + n, None))
           else bindE (empties board) (\<lambda>moves.
             if moves = [] then Inr (0, None)
             else bindE (try_moves
                 (\<lambda>(r, c). bindE (set_cell board r c to_move) (\<lambda>b.
                    bindE (minimax_v1 frames b (if to_move = me then them else me) me) (\<lambda>(score, _).
                      Inr score)))
                 (keep_v1 (to_move = me)) moves (if to_move = me then - 999 else 999, hd moves))
               (\<lambda>(score, move). Inr (score, Some move)))))"

fun minimax_v2 :: "nat \<Rightarrow> board \<Rightarrow> string \<Rightarrow> string \<Rightarrow> (int \<times> (nat \<times> nat) option) res" where
  "minimax_v2 0 board to_move me = Inl RecursionError"
| "minimax_v2 (Suc frames) board to_move me =
     (let them = opponent_of me
      in bindE (winner board) (\<lambda>w.
           if w = Some me then bindE (occupied board) (\<lambda>n. Inr (10 - n, None))
           else if w = Some them then bindE (occupied board) (\<lambda>n. Inr (- 10 + n, None))
           else bindE (empties board) (\<lambda>moves.
             if moves = [] then Inr (0, None)
             else bindE (try_moves
                 (\<lambda>(r, c). bindE (set_cell board r c to_move) (\<lambda>b.
                    bindE (minimax_v2 frames b (if to_move = me then them else me) me) (\<lambda>(score, _).
                      Inr score)))
                 (keep_v2 (to_move = me)) moves (if to_move = me then - 999 else 999, hd moves))
               (\<lambda>(score, move). Inr (score, Some move)))))"

definition perfect_bot_v1 :: "nat \<Rightarrow> string \<Rightarrow> string res" where
  "perfect_bot_v1 frames stdin =
     bindE (read_board stdin) (\<lambda>(symbol, board).
     bindE (minimax_v1 frames board symbol symbol) (\<lambda>(_, move). play_cell symbol board move))"

definition perfect_bot_v2 :: "nat \<Rightarrow> string \<Rightarrow> string res" where
  "perfect_bot_v2 frames stdin =
     bindE (read_board stdin) (\<lambda>(symbol, board).
     bindE (minimax_v2 frames board symbol symbol) (\<lambda>(_, move). play_cell symbol board move))"

section \<open>What a script does in its pod\<close>

text \<open>
  A script that ends prints its output and exits with 0; one that raises exits with 1 and prints a
  traceback on standard error and, since every script prints last, nothing on standard output.
\<close>

definition script_outcome :: "(py_exc \<Rightarrow> string) \<Rightarrow> string res \<Rightarrow> run_outcome" where
  "script_outcome traceback r =
     (case r of Inr out \<Rightarrow> Completed 0 out [] | Inl e \<Rightarrow> Completed 1 [] (traceback e))"

definition turn_input :: "string \<Rightarrow> board \<Rightarrow> string" where
  "turn_input s b = s @ [LF] @ board_to_str b"

definition verdict :: "(py_exc \<Rightarrow> string) \<Rightarrow> (string \<Rightarrow> string res) \<Rightarrow> string \<Rightarrow> board \<Rightarrow> turn_result res" where
  "verdict traceback script s b =
     judge_response b s (outcome_response (script_outcome traceback (script (turn_input s b))))"

section \<open>Scripts on well-formed boards\<close>

named_theorems script_simps \<open>the scripts' primitives on well-formed boards\<close>

lemma read_board_turn [script_simps]:
  assumes "wf_board b" and "s \<in> {''X'', ''O''}"
  shows "read_board (turn_input s b) = Inr (s, b)"
proof -
  have nosp: "\<not> py_isspace (hd s)" "s \<noteq> []" "\<not> py_isspace (last (board_to_str b))" "board_to_str b \<noteq> []"
    using assms board_to_str_ends [OF assms(1)] by (auto simp: py_isspace_def)
  have "py_strip (turn_input s b) = turn_input s b"
    unfolding turn_input_def using nosp by (intro py_strip_id) (simp_all add: last_append)
  moreover have "splitlines (turn_input s b) = s # splitlines (board_to_str b)"
  proof -
    obtain c where "s = [c]" "\<not> line_break c" "c \<noteq> CR"
      using assms(2) by (auto simp: line_break_def)
    then show ?thesis using nosp(4) by (simp add: turn_input_def split: list.split)
  qed
  moreover have "map (split_on (CHR ''|'')) (map (join ''|'') b) = b"
  proof -
    have "split_on (CHR ''|'') (join ''|'' row) = row" if "row \<in> set b" for row
      using that assms(1) by (intro split_on_join) (auto simp: wf_board_def is_cell_chars(3))
    then show ?thesis by (simp add: map_idI)
  qed
  ultimately show ?thesis
    using assms(1) by (simp add: read_board_def splitlines_board_to_str)
qed

lemma print_board_eq: "print_board b = board_to_str b @ [LF]"
  by (simp add: print_board_def board_to_str_def)

lemma set_cell_wf [script_simps]:
  "wf_board b \<Longrightarrow> r < 3 \<Longrightarrow> c < 3 \<Longrightarrow> set_cell b r c v = Inr (place b r c v)"
  by (simp add: set_cell_def place_def wf_boardD)

lemma line_marks_wf [script_simps]:
  "wf_board b \<Longrightarrow> \<forall>p \<in> set line. fst p < 3 \<and> snd p < 3 \<Longrightarrow> line_marks b line = Inr (line_values b line)"
  by (simp add: line_marks_def mapE_board_cell line_values_def)

lemma first_cell_wf [script_simps]:
  "wf_board b \<Longrightarrow> \<forall>p \<in> set ps. fst p < 3 \<and> snd p < 3 \<Longrightarrow>
     first_cell b v ps = Inr (find (\<lambda>(r, c). b ! r ! c = v) ps)"
  by (induction b v ps rule: first_cell.induct) auto

definition empty_cells :: "board \<Rightarrow> (nat \<times> nat) list" where
  "empty_cells b = filter (\<lambda>(r, c). b ! r ! c = ''.'') grid"

lemma filter_zip_map: "map fst (filter (\<lambda>(p, v). P v) (zip xs (map f xs))) = filter (\<lambda>p. P (f p)) xs"
  by (induction xs) auto

lemma empties_wf [script_simps]:
  assumes "wf_board b"
  shows "empties b = Inr (empty_cells b)"
proof -
  have "(\<lambda>(r, c). b ! r ! c = ''.'') = (\<lambda>p. (\<lambda>(r, c). b ! r ! c) p = ''.'')" by auto
  then show ?thesis
    using filter_zip_map [of "\<lambda>v. v = ''.''" grid "\<lambda>(r, c). b ! r ! c"]
    unfolding empties_def mapE_board_cell [OF assms grid_range] empty_cells_def by simp
qed

lemma set_empty_cells: "set (empty_cells b) = {(r, c). r < 3 \<and> c < 3 \<and> b ! r ! c = ''.''}"
  by (auto simp: empty_cells_def set_grid)

lemma empty_cells_Nil: "empty_cells b = [] \<longleftrightarrow> is_full b"
  by (auto simp: empty_cells_def filter_empty_conv is_full_grid)

lemma length_empty_cells: "length (empty_cells b) = pieces b ''.''"
  by (simp add: empty_cells_def pieces_def)

text \<open>A search either finds an empty cell or finds nothing; it never raises.\<close>

definition finds_empty :: "board \<Rightarrow> (nat \<times> nat) option res \<Rightarrow> bool" where
  "finds_empty b m \<longleftrightarrow> (\<exists>p \<in> set (empty_cells b). m = Inr (Some p))"

definition may_find_empty :: "board \<Rightarrow> (nat \<times> nat) option res \<Rightarrow> bool" where
  "may_find_empty b m \<longleftrightarrow> m = Inr None \<or> finds_empty b m"

lemma finds_empty_or_else: "may_find_empty b m \<Longrightarrow> finds_empty b k \<Longrightarrow> finds_empty b (or_else m k)"
  by (auto simp: may_find_empty_def finds_empty_def or_else_def)

lemma may_find_empty_or_else:
  "may_find_empty b m \<Longrightarrow> may_find_empty b k \<Longrightarrow> may_find_empty b (or_else m k)"
  by (auto simp: may_find_empty_def finds_empty_def or_else_def)

lemma first_cell_may_find:
  assumes "wf_board b" and "\<forall>p \<in> set ps. fst p < 3 \<and> snd p < 3"
  shows "may_find_empty b (first_cell b ''.'' ps)"
proof (cases "find (\<lambda>(r, c). b ! r ! c = ''.'') ps")
  case None
  then show ?thesis by (simp add: first_cell_wf [OF assms] may_find_empty_def)
next
  case (Some p)
  then have "p \<in> set ps" "b ! fst p ! snd p = ''.''"
    by (auto simp: find_Some_iff dest: nth_mem)
  with Some assms(2) show ?thesis
    by (auto simp: first_cell_wf [OF assms] may_find_empty_def finds_empty_def set_empty_cells)
qed

lemma first_cell_finds:
  assumes "wf_board b" and "\<not> is_full b" and "set ps = set grid"
  shows "finds_empty b (first_cell b ''.'' ps)"
proof -
  have range: "\<forall>p \<in> set ps. fst p < 3 \<and> snd p < 3" using assms(3) grid_range by simp
  have "find (\<lambda>(r, c). b ! r ! c = ''.'') ps \<noteq> None"
    using assms(2,3) by (auto simp: find_None_iff is_full_grid)
  then show ?thesis
    using first_cell_may_find [OF assms(1) range]
    by (auto simp: may_find_empty_def first_cell_wf [OF assms(1) range])
qed

definition lines_ok :: "(nat \<times> nat) list list \<Rightarrow> bool" where
  "lines_ok ls \<longleftrightarrow> (\<forall>line \<in> set ls. \<forall>p \<in> set line. fst p < 3 \<and> snd p < 3)"

lemma lines_ok_tables [simp]:
  "lines_ok LINES" "lines_ok DIAGONAL_BLIND_LINES" "lines_ok HORIZONTAL_BLIND_LINES"
  "lines_ok VERTICAL_BLIND_LINES"
  by (simp_all add: lines_ok_def LINES_def DIAGONAL_BLIND_LINES_def HORIZONTAL_BLIND_LINES_def
      VERTICAL_BLIND_LINES_def)

lemma orders_grid [simp]:
  "set PASSIVE_ORDER = set grid" "set AGGRESSIVE_ORDER = set grid" "set PREFERRED = set grid"
  by (auto simp: PASSIVE_ORDER_def AGGRESSIVE_ORDER_def PREFERRED_def grid_def)

lemma find_completion_may_find:
  assumes "wf_board b" and "lines_ok lines"
  shows "may_find_empty b (find_completion lines b s)"
  using assms(2)
proof (induction lines)
  case Nil
  then show ?case by (simp add: may_find_empty_def)
next
  case (Cons line lines)
  then have "\<forall>p \<in> set line. fst p < 3 \<and> snd p < 3" by (simp add: lines_ok_def)
  with Cons show ?case
    using may_find_empty_or_else [OF first_cell_may_find] assms(1)
    by (simp add: lines_ok_def line_marks_wf)
qed

lemma score_move_wf:
  assumes "wf_board b" and "s \<in> {''X'', ''O''}" and "r < 3" and "c < 3"
  shows "\<exists>n. score_move b s r c = Inr n \<and> 0 \<le> n"
proof -
  have "wf_board (place b r c s)" using assms by (auto intro!: wf_place)
  then have "mapE (line_marks (place b r c s)) LINES = Inr (map (line_values (place b r c s)) LINES)"
    by (intro mapE_Inr line_marks_wf) (use lines_ok_tables(1) in \<open>auto simp: lines_ok_def\<close>)
  with assms show ?thesis by (simp add: score_move_def set_cell_wf)
qed

text \<open>The first empty cell of the order already beats the initial score.\<close>

lemma best_threat_finds:
  assumes "wf_board b" and "s \<in> {''X'', ''O''}" and "\<forall>p \<in> set ps. fst p < 3 \<and> snd p < 3"
    and "(best = - 1 \<and> move = None \<and> (\<exists>(r, c) \<in> set ps. b ! r ! c = ''.'')) \<or>
         (\<exists>p \<in> set (empty_cells b). move = Some p)"
  shows "finds_empty b (best_threat b s ps best move)"
  using assms(3,4)
proof (induction ps arbitrary: best move)
  case Nil
  then show ?case by (auto simp: finds_empty_def)
next
  case (Cons p ps)
  obtain r c where p: "p = (r, c)" "r < 3" "c < 3" using Cons.prems(1) by (cases p) auto
  obtain n where n: "score_move b s r c = Inr n" "0 \<le> n"
    using score_move_wf [OF assms(1,2) p(2,3)] by blast
  show ?case
  proof (cases "b ! r ! c = ''.''")
    case True
    then have "(r, c) \<in> set (empty_cells b)" using p by (simp add: set_empty_cells)
    then have "finds_empty b (best_threat b s ps n (Some (r, c)))"
      using Cons.IH Cons.prems(1) by auto
    moreover have "finds_empty b (best_threat b s ps best move)" if "\<not> n > best"
      using that n(2) Cons.IH Cons.prems by auto
    ultimately show ?thesis using p n(1) True assms(1) by simp
  next
    case False
    with Cons p assms(1) show ?thesis by auto
  qed
qed

lemma play_cell_legal:
  assumes "wf_board b" and "s \<in> {''X'', ''O''}" and "finds_empty b m"
  shows "\<exists>b'. bindE m (play_cell s b) = Inr (print_board b') \<and> wf_board b' \<and> legal_move b b' s"
proof -
  from assms(3) obtain r c where rc: "m = Inr (Some (r, c))" "r < 3" "c < 3" "b ! r ! c = ''.''"
    by (auto simp: finds_empty_def set_empty_cells)
  then have "bindE m (play_cell s b) = Inr (print_board (place b r c s))"
    using assms(1) by (simp add: play_cell_def set_cell_wf)
  moreover have "wf_board (place b r c s)" using assms rc by (auto intro!: wf_place)
  ultimately show ?thesis using rc unfolding legal_move_def by blast
qed

text \<open>What a script prints is judged as the board it prints.\<close>

lemma verdict_print:
  assumes "wf_board b'" and "script (turn_input s b) = Inr (print_board b')"
  shows "verdict traceback script s b = bindE (validate_move b b' s) (\<lambda>move_error.
    case move_error of
      Some m \<Rightarrow> if m \<noteq> [] then Inr (forfeit (JStr m)) else Inr (Some b', JNull)
    | None \<Rightarrow> Inr (Some b', JNull))"
proof -
  have "py_isspace LF" by (simp add: py_isspace_def)
  then have "py_strip ([] @ board_to_str b' @ [LF]) = board_to_str b'"
    using board_to_str_ends [OF assms(1)] by (intro py_strip_surround) auto
  then have "py_strip (print_board b') = board_to_str b'" by (simp add: print_board_eq)
  then show ?thesis
    using board_to_str_ends(1) [OF assms(1)] assms
    by (simp add: verdict_def script_outcome_def outcome_response_def judge_response_def
        parse_board_value_def parse_board_to_str)
qed

lemma verdict_legal:
  assumes "wf_board b" and "wf_board b'" and "s \<in> {''X'', ''O''}" and "legal_move b b' s"
    and "script (turn_input s b) = Inr (print_board b')"
  shows "verdict traceback script s b = Inr (Some b', JNull)"
proof -
  have "validate_move b b' s = Inr None"
    using validate_move_legal [OF assms(1,2)] assms(3,4) by auto
  then show ?thesis by (simp add: verdict_print [where script = script, OF assms(2,5)])
qed

section \<open>The honest bots\<close>

lemma finds_empty_script:
  assumes "wf_board b" and "s \<in> {''X'', ''O''}" and "finds_empty b m"
    and "script (turn_input s b) = bindE m (play_cell s b)"
  shows "\<exists>b'. verdict traceback script s b = Inr (Some b', JNull) \<and> wf_board b' \<and> legal_move b b' s"
  using play_cell_legal [OF assms(1-3)] verdict_legal [where script = script, OF assms(1) _ assms(2)] assms(4) by metis

lemma first_empty_legal:
  assumes "wf_board b" and "s \<in> {''X'', ''O''}" and "\<not> is_full b"
  shows "\<exists>b'. verdict traceback first_empty_bot s b = Inr (Some b', JNull) \<and> wf_board b' \<and> legal_move b b' s"
proof -
  have find: "finds_empty b (first_cell b ''.'' grid)" using first_cell_finds assms by simp
  then have "first_empty_bot (turn_input s b) = bindE (first_cell b ''.'' grid) (play_cell s b)"
    by (auto simp: first_empty_bot_def read_board_turn [OF assms(1,2)] finds_empty_def)
  from finds_empty_script [where script = first_empty_bot, OF assms(1,2) find this] show ?thesis .
qed

lemma defense_only_legal:
  assumes "wf_board b" and "s \<in> {''X'', ''O''}" and "\<not> is_full b"
  shows "\<exists>b'. verdict traceback defense_only_bot s b = Inr (Some b', JNull) \<and> wf_board b' \<and> legal_move b b' s"
  by (rule finds_empty_script [where script = defense_only_bot, OF assms(1,2)
        finds_empty_or_else [OF find_completion_may_find first_cell_finds]])
    (use assms in \<open>simp_all add: defense_only_bot_def read_board_turn\<close>)

lemma offense_only_legal:
  assumes "wf_board b" and "s \<in> {''X'', ''O''}" and "\<not> is_full b"
  shows "\<exists>b'. verdict traceback offense_only_bot s b = Inr (Some b', JNull) \<and> wf_board b' \<and> legal_move b b' s"
proof -
  have "finds_empty b (best_threat b s AGGRESSIVE_ORDER (- 1) None)"
    by (rule best_threat_finds [OF assms(1,2)])
      (use assms(3) grid_range in \<open>auto simp: is_full_grid\<close>)
  then have "finds_empty b (or_else (find_completion LINES b s)
      (bindE (empties b) (\<lambda>_. best_threat b s AGGRESSIVE_ORDER (- 1) None)))"
    using assms(1) by (intro finds_empty_or_else find_completion_may_find) (simp_all add: empties_wf)
  from finds_empty_script [where script = offense_only_bot, OF assms(1,2) this] show ?thesis
    by (simp add: offense_only_bot_def read_board_turn [OF assms(1,2)])
qed

lemma blind_legal:
  assumes "wf_board b" and "s \<in> {''X'', ''O''}" and "\<not> is_full b" and "lines_ok lines"
  shows "\<exists>b'. verdict traceback (blind_bot lines) s b = Inr (Some b', JNull) \<and> wf_board b' \<and> legal_move b b' s"
  by (rule finds_empty_script [where script = "blind_bot lines", OF assms(1,2)
        finds_empty_or_else [OF find_completion_may_find
          finds_empty_or_else [OF find_completion_may_find first_cell_finds]]])
    (use assms in \<open>simp_all add: blind_bot_def read_board_turn\<close>)

section \<open>The cheaters\<close>

lemma verdict_cheat:
  assumes "wf_board b'" and "script (turn_input s b) = Inr (print_board b')"
    and "validate_move b b' s = Inr (Some m)" and "m \<noteq> []"
  shows "verdict traceback script s b = Inr (None, JStr m)"
  by (simp add: verdict_print [where script = script, OF assms(1,2)] assms(3,4) forfeit_def)

lemma overwriter_verdict:
  assumes "wf_board b" and "s \<in> {''X'', ''O''}" and "\<exists>r<3. \<exists>c<3. b ! r ! c = opponent_of s"
  shows "\<exists>r<3. \<exists>c<3. verdict traceback overwriter_bot s b =
    Inr (None, JStr (''cell ('' @ nat_str r @ '','' @ nat_str c @ '') was already occupied''))"
proof -
  let ?o = "opponent_of s"
  have "find (\<lambda>(r, c). b ! r ! c = ?o) grid \<noteq> None"
    using assms(3) by (auto simp: find_None_iff set_grid)
  then obtain r c where find: "find (\<lambda>(r, c). b ! r ! c = ?o) grid = Some (r, c)" by auto
  then have "(r, c) \<in> set grid" and cell: "b ! r ! c = ?o"
    by (auto simp: find_Some_iff in_set_conv_nth)
  then have rc: "r < 3" "c < 3" "b ! r ! c = ?o" by (simp_all add: set_grid)
  have ne: "?o \<noteq> ''.''" "?o \<noteq> s" using assms(2) by (auto simp: opponent_of_def)
  let ?b = "place b r c s"
  have wf: "wf_board ?b" using assms rc by (auto intro!: wf_place)
  have "overwriter_bot (turn_input s b) = Inr (print_board ?b)"
    using find rc grid_range
    by (simp add: overwriter_bot_def read_board_turn [OF assms(1,2)] first_cell_wf [OF assms(1)]
        or_else_def play_cell_def set_cell_wf [OF assms(1)])
  moreover have "validate_move b ?b s =
      Inr (Some (''cell ('' @ nat_str r @ '','' @ nat_str c @ '') was already occupied''))"
    using assms(1) rc ne wf by (simp add: validate_move_wf diff_cells_place)
  ultimately have "verdict traceback overwriter_bot s b =
      Inr (None, JStr (''cell ('' @ nat_str r @ '','' @ nat_str c @ '') was already occupied''))"
    by (intro verdict_cheat [where script = overwriter_bot, OF wf]) simp_all
  with rc(1,2) show ?thesis by blast
qed

lemma template_verdict:
  assumes "wf_board b" and "s \<in> {''X'', ''O''}"
  shows "verdict traceback template_bot s b = Inr (None, JStr ''no move made'')"
proof (rule verdict_cheat [where script = template_bot, OF assms(1)])
  have "write_board b = print_board b"
    using assms(1) by (auto elim!: wf_board_cases simp: write_board_def print_board_def)
  then show "template_bot (turn_input s b) = Inr (print_board b)"
    by (simp add: template_bot_def read_board_turn [OF assms])
  show "validate_move b b s = Inr (Some ''no move made'')"
    using assms(1) diff_cells_Nil [of b b] by (simp add: validate_move_wf)
qed simp

lemma double_mover_verdict:
  assumes "wf_board b" and "s \<in> {''X'', ''O''}" and "2 \<le> pieces b ''.''"
  shows "verdict traceback double_mover_bot s b = Inr (None, JStr ''2 cells changed, expected 1'')"
proof -
  obtain p q ps where cells: "empty_cells b = p # q # ps"
    using assms(3) unfolding length_empty_cells [symmetric]
    by (metis One_nat_def Suc_1 Suc_le_length_iff)
  obtain r c r' c' where pq: "p = (r, c)" "q = (r', c')" by fastforce
  have mem: "r < 3" "c < 3" "b ! r ! c = ''.''" "r' < 3" "c' < 3" "b ! r' ! c' = ''.''"
    using cells pq set_empty_cells [of b] by auto
  have "distinct (empty_cells b)" by (simp add: empty_cells_def distinct_grid)
  with cells pq have ne: "(r, c) \<noteq> (r', c')" by auto
  let ?a = "place b r c s" let ?b = "place ?a r' c' s"
  have wfa: "wf_board ?a" using assms mem by (auto intro!: wf_place)
  then have wf: "wf_board ?b" using assms mem by (auto intro!: wf_place)
  have nth: "?b ! i ! j = (if (i, j) = (r, c) \<or> (i, j) = (r', c') then s else b ! i ! j)"
    if "i < 3" "j < 3" for i j
    using that mem by (simp add: place_nth wf_boardD [OF wfa] wf_boardD [OF assms(1)])
  have "s \<noteq> ''.''" using assms(2) by auto
  have "set (diff_cells b ?b) = {(r, c), (r', c')}"
    using mem \<open>s \<noteq> ''.''\<close> by (auto simp: diff_cells_mem nth split: if_splits)
  then have len: "length (diff_cells b ?b) = 2"
    using ne distinct_card [OF distinct_diff_cells, of b ?b] by simp
  then obtain x y where xy: "diff_cells b ?b = [x, y]"
    by (auto simp: numeral_2_eq_2 length_Suc_conv)
  have two: "nat_str (Suc (Suc 0)) = ''2''" by code_simp
  have "validate_move b ?b s = Inr (Some ''2 cells changed, expected 1'')"
    using xy two by (cases x) (simp add: validate_move_wf [OF assms(1) wf])
  moreover have "double_mover_bot (turn_input s b) = Inr (print_board ?b)"
    using mem cells pq
    by (simp add: double_mover_bot_def read_board_turn [OF assms(1,2)] empties_wf [OF assms(1)]
        set_cell_wf [OF assms(1)] set_cell_wf [OF wfa])
  ultimately show ?thesis by (intro verdict_cheat [where script = double_mover_bot, OF wf]) simp_all
qed

section \<open>Properties\<close>

definition honest_bots :: "(string \<Rightarrow> string res) list" where
  "honest_bots = [py310, py311, py312, py313, py314, defense_only_bot, offense_only_bot,
     diagonal_blind_bot, horizontal_blind_bot, vertical_blind_bot]"

text \<open>C37: each of the ten honest example bots makes a legal move, which the dispatcher accepts, on
  every board that has an empty cell, as either player.\<close>

theorem honest_bots_move_legally:
  assumes "wf_board b" and "s \<in> {''X'', ''O''}" and "\<not> is_full b" and "script \<in> set honest_bots"
  shows "\<exists>b'. verdict traceback script s b = Inr (Some b', JNull) \<and> legal_move b b' s"
proof -
  have "script \<in> {first_empty_bot, defense_only_bot, offense_only_bot, blind_bot DIAGONAL_BLIND_LINES,
      blind_bot HORIZONTAL_BLIND_LINES, blind_bot VERTICAL_BLIND_LINES}"
    using assms(4)
    by (auto simp: honest_bots_def py310_def py311_def py312_def py313_def py314_def
        diagonal_blind_bot_def horizontal_blind_bot_def vertical_blind_bot_def)
  then have "\<exists>b'. verdict traceback script s b = Inr (Some b', JNull) \<and> wf_board b' \<and> legal_move b b' s"
    by (elim insertE emptyE; simp only: first_empty_legal [OF assms(1-3)] defense_only_legal [OF assms(1-3)]
        offense_only_legal [OF assms(1-3)] blind_legal [OF assms(1-3)] lines_ok_tables)
  then show ?thesis by blast
qed

theorem honest_bots_move_legally_witness:
  "\<exists>b'. verdict (\<lambda>_. []) offense_only_bot ''X'' EMPTY_BOARD = Inr (Some b', JNull) \<and> legal_move EMPTY_BOARD b' ''X''"
proof (rule honest_bots_move_legally)
  show "\<not> is_full EMPTY_BOARD" by (simp add: is_full_pieces pieces_EMPTY_BOARD)
qed (simp_all add: honest_bots_def)

text \<open>The cheating bots and the unfinished template forfeit, each for its own reason: overwriting
  a piece of the opponent, placing two pieces, making no move.\<close>

theorem cheating_bots_forfeit:
  assumes "wf_board b" and "s \<in> {''X'', ''O''}"
  shows "((\<exists>r<3. \<exists>c<3. b ! r ! c = opponent_of s) \<longrightarrow>
      (\<exists>r<3. \<exists>c<3. verdict traceback overwriter_bot s b =
         Inr (None, JStr (''cell ('' @ nat_str r @ '','' @ nat_str c @ '') was already occupied'')))) \<and>
    (2 \<le> pieces b ''.'' \<longrightarrow>
      verdict traceback double_mover_bot s b = Inr (None, JStr ''2 cells changed, expected 1'')) \<and>
    verdict traceback template_bot s b = Inr (None, JStr ''no move made'')"
  using overwriter_verdict [OF assms] double_mover_verdict [OF assms] template_verdict [OF assms] by blast

theorem cheating_bots_forfeit_witness:
  "verdict (\<lambda>_. []) double_mover_bot ''X'' EMPTY_BOARD = Inr (None, JStr ''2 cells changed, expected 1'')"
  using cheating_bots_forfeit [of EMPTY_BOARD "''X''" "\<lambda>_. []"] by (simp add: pieces_EMPTY_BOARD)

end
