(* ===== verification/SampleTests.thy ===== *)
theory SampleTests
  imports ExampleBots
begin

text \<open>
  \<open>web/templates/test_template_bot.py\<close>, the tests offered for download with the template, as
  functions of the bot they import; and which bots of the repository they accept.
\<close>

section \<open>The tests\<close>

abbreviation AssertionError :: py_exc where "AssertionError \<equiv> OtherError ''AssertionError''"

definition feed_and_run :: "(string \<Rightarrow> string res) \<Rightarrow> string \<Rightarrow> string \<Rightarrow> string res" where
  "feed_and_run main symbol board = main (symbol @ [LF] @ board @ [LF])"

definition py_count :: "string \<Rightarrow> char \<Rightarrow> nat" where
  "py_count s c = length (filter (\<lambda>d. d = c) s)"

definition test_bot_makes_a_move_on_empty_board :: "(string \<Rightarrow> string res) \<Rightarrow> unit res" where
  "test_bot_makes_a_move_on_empty_board main =
     bindE (feed_and_run main ''X'' (join [LF] [''.|.|.'', ''.|.|.'', ''.|.|.''])) (\<lambda>output.
       let cells = filter (\<lambda>c. c \<noteq> CHR ''|'') (concat (splitlines (py_strip output)))
       in if py_count cells (CHR ''X'') \<noteq> 1 then Inl AssertionError
          else if py_count cells (CHR ''.'') \<noteq> 8 then Inl AssertionError
          else Inr ())"

definition test_bot_blocks_opponent_about_to_win :: "(string \<Rightarrow> string res) \<Rightarrow> unit res" where
  "test_bot_blocks_opponent_about_to_win main =
     bindE (feed_and_run main ''O'' (join [LF] [''X|X|.'', ''.|.|.'', ''.|.|.''])) (\<lambda>output.
     bindE (py_nth (splitlines (py_strip output)) 0) (\<lambda>line.
     bindE (py_nth (split_on (CHR ''|'') line) 2) (\<lambda>v.
       if v \<noteq> ''O'' then Inl AssertionError else Inr ())))"

section \<open>What they accept\<close>

definition accepted :: "(string \<Rightarrow> string res) \<Rightarrow> bool \<times> bool" where
  "accepted main =
     (test_bot_makes_a_move_on_empty_board main = Inr (), test_bot_blocks_opponent_about_to_win main = Inr ())"

text \<open>
  The honest bots pass the first test; a bot that only attacks and one that cannot see rows fail the
  second. The template, as downloaded, fails both; of the cheating bots each fails one.
\<close>

lemma accepted_bots:
  "map accepted [first_empty_bot, defense_only_bot, diagonal_blind_bot, vertical_blind_bot] =
     replicate 4 (True, True)"
  "map accepted [offense_only_bot, horizontal_blind_bot] = replicate 2 (True, False)"
  "map accepted [overwriter_bot, double_mover_bot, template_bot] = [(True, False), (False, True), (False, False)]"
  by code_simp+

end
