(* ===== verification/BotClient.thy ===== *)
theory BotClient
  imports System MatchRunner
begin

text \<open>
  \<open>web/bot_client.py\<close> and \<open>web/play.py\<close>: a human plays a bot. The browser keeps the board; the
  server asks the bot's pod for its move and judges it with a parser and a validator of its
  own. \<open>BotForfeit\<close> is a value: \<open>Inl reason\<close>. Loading the cluster configuration, the choice
  of the human's symbol and the page templates are arguments or constructors.
\<close>

section \<open>Judging a move\<close>

fun parse_rows_strict :: "string list \<Rightarrow> board \<Rightarrow> board option" where
  "parse_rows_strict [] board = Some board"
| "parse_rows_strict (row # rows) board =
     (let cells = split_on (CHR ''|'') row
      in if length cells \<noteq> 3 \<or> \<not> list_all is_cell cells then None
         else parse_rows_strict rows (board @ [cells]))"

definition parse_board_strict :: "string \<Rightarrow> board option" where
  "parse_board_strict text =
     (let rows = splitlines (py_strip text)
      in if length rows \<noteq> 3 then None else parse_rows_strict rows [])"

definition validate_one_symbol_placed :: "board \<Rightarrow> board \<Rightarrow> string \<Rightarrow> bool res" where
  "validate_one_symbol_placed old new symbol =
     bindE (board_changes old new) (\<lambda>changes.
       case changes of
         [(_, _, prev, after)] \<Rightarrow> Inr (prev = ''.'' \<and> after = symbol)
       | _ \<Rightarrow> Inr False)"

section \<open>Asking the pod\<close>

definition DEFAULT_TURN_TIMEOUT :: int where "DEFAULT_TURN_TIMEOUT = 10000"

definition bot_pod_ip :: "'w env \<Rightarrow> string \<Rightarrow> 'w \<Rightarrow> string option res \<times> 'w" where
  "bot_pod_ip E pname w =
     (case read_namespaced_pod E pname NAMESPACE w of
        (Inl (ApiException m), w1) \<Rightarrow> (Inr None, w1)
      | (Inl e, w1) \<Rightarrow> (Inl e, w1)
      | (Inr pod, w1) \<Rightarrow>
          (Inr (case pod_ip pod of None \<Rightarrow> None | Some ip \<Rightarrow> if ip = [] then None else Some ip), w1))"

type_synonym turn_outcome = "string + string"

definition invalid_move :: "turn_outcome res" where
  "invalid_move = Inr (Inl ''Bot returned an invalid move'')"

text \<open>Everything after the bytes have arrived.\<close>

definition judge_payload :: "string \<Rightarrow> string \<Rightarrow> string \<Rightarrow> turn_outcome res" where
  "judge_payload symbol board data =
     (case json_loads data of
        None \<Rightarrow> invalid_move
      | Some payload \<Rightarrow>
          bindE (json_get payload ''board'') (\<lambda>v.
            case v of
              JStr new_board_str \<Rightarrow>
                (case (parse_board_strict board, parse_board_strict new_board_str) of
                   (Some old, Some new) \<Rightarrow>
                     bindE (validate_one_symbol_placed old new symbol) (\<lambda>ok.
                       if ok then Inr (Inr new_board_str) else invalid_move)
                 | _ \<Rightarrow> invalid_move)
            | _ \<Rightarrow> invalid_move))"

definition request_bot_turn ::
  "'w env \<Rightarrow> string \<Rightarrow> string \<Rightarrow> string \<Rightarrow> int \<Rightarrow> 'w \<Rightarrow> turn_outcome res \<times> 'w"
where
  "request_bot_turn E ip symbol board timeout w =
     (case urlopen E (turn_request ip symbol board) timeout w of
        (Inl (TimeoutError m), w1) \<Rightarrow> (Inr (Inl ''Bot took too long''), w1)
      | (Inl (URLError m), w1) \<Rightarrow> (Inr (Inl ''Bot is unavailable''), w1)
      | (Inl e, w1) \<Rightarrow> (Inl e, w1)
      | (Inr data, w1) \<Rightarrow> (judge_payload symbol board data, w1))"

section \<open>The pages\<close>

text \<open>\<open>TurnRequest\<close>: the pattern of \<open>bot_symbol\<close> is checked when the request is parsed.\<close>

record TurnRequest =
  tq_bot_id :: int
  tq_bot_symbol :: string
  tq_board :: string

definition valid_TurnRequest :: "TurnRequest \<Rightarrow> bool" where
  "valid_TurnRequest q \<longleftrightarrow> tq_bot_symbol q \<in> {''X'', ''O''}"

datatype response =
    NotFound
  | Redirect string
  | JsonBoard string
  | JsonError string
  | NameForm "string option"
  | NameSet string
  | PlayPage string "PlayRow list"
  | GamePage int string string string string

definition PLAYER_NAME_COOKIE :: string where "PLAYER_NAME_COOKIE = ''ttt_player_name''"

definition no_name :: "string option \<Rightarrow> bool" where
  "no_name cookie \<longleftrightarrow> cookie = None \<or> cookie = Some []"

definition render_play_page ::
  "(string \<Rightarrow> 'k::linorder) \<Rightarrow> string option \<Rightarrow> ('w, response) prog"
where
  "render_play_page collate cookie =
     (case cookie of
        None \<Rightarrow> ret (NameForm None)
      | Some name \<Rightarrow>
          if name = [] then ret (NameForm None)
          else bindP (db_read (ready_bots_for_play collate)) (\<lambda>rows. ret (PlayPage name rows)))"

text \<open>The response and the cookie it sets.\<close>

definition handle_set_player_name :: "string \<Rightarrow> response \<times> (string \<times> string) option" where
  "handle_set_player_name player_name =
     (let cleaned = py_strip player_name
      in if cleaned = [] then (NameForm (Some ''Please enter a display name.''), None)
         else (NameSet cleaned, Some (PLAYER_NAME_COOKIE, cleaned)))"

definition render_play_vs_page :: "bool \<Rightarrow> int \<Rightarrow> string option \<Rightarrow> ('w, response) prog" where
  "render_play_vs_page human_is_x bot_id cookie =
     (case cookie of
        None \<Rightarrow> ret (Redirect ''/play'')
      | Some name \<Rightarrow>
          if name = [] then ret (Redirect ''/play'')
          else
            bindP (db_query (by_id bot_id)) (\<lambda>found.
              case found of
                None \<Rightarrow> ret NotFound
              | Some b \<Rightarrow>
                  if \<not> b_pod_ready b then ret NotFound
                  else
                    (let human_symbol = (if human_is_x then ''X'' else ''O'');
                         bot_symbol = (if human_symbol = ''X'' then ''O'' else ''X'')
                     in ret (GamePage bot_id (b_versioned_name b) name human_symbol bot_symbol))))"

definition call_bot ::
  "'w outside \<Rightarrow> ('w \<Rightarrow> unit res \<times> 'w) \<Rightarrow> string \<Rightarrow> string \<Rightarrow> string \<Rightarrow> 'w \<Rightarrow> turn_outcome res \<times> 'w"
where
  "call_bot W get_core_v1 pname symbol board w =
     (case get_core_v1 w of
        (Inl e, w1) \<Rightarrow> (Inl e, w1)
      | (Inr _, w1) \<Rightarrow>
          (case bot_pod_ip (o_env W) pname w1 of
             (Inl e, w2) \<Rightarrow> (Inl e, w2)
           | (Inr None, w2) \<Rightarrow> (Inr (Inl ''Bot is unavailable''), w2)
           | (Inr (Some ip), w2) \<Rightarrow>
               request_bot_turn (o_env W) ip symbol board DEFAULT_TURN_TIMEOUT w2))"

definition handle_play_turn ::
  "'w outside \<Rightarrow> ('w \<Rightarrow> unit res \<times> 'w) \<Rightarrow> TurnRequest \<Rightarrow> ('w, response) prog"
where
  "handle_play_turn W get_core_v1 payload =
     bindP (db_query (by_id (tq_bot_id payload))) (\<lambda>found.
       case found of
         None \<Rightarrow> ret NotFound
       | Some b \<Rightarrow>
           (case b_pod_name b of
              None \<Rightarrow> ret NotFound
            | Some pname \<Rightarrow>
                if \<not> b_pod_ready b then ret NotFound
                else
                  bindP (in_world (call_bot W get_core_v1 pname (tq_bot_symbol payload) (tq_board payload)))
                    (\<lambda>outcome.
                      case outcome of
                        Inl reason \<Rightarrow> ret (JsonError reason)
                      | Inr new_board \<Rightarrow> ret (JsonBoard new_board))))"

section \<open>The parser and the validator agree with the engine's\<close>

lemma parse_rows_strict_append:
  "parse_rows_strict rows board = map_option (\<lambda>b. board @ b) (parse_rows rows)"
proof (induction rows arbitrary: board)
  case (Cons row rows)
  then show ?case by (simp add: Let_def option.map_comp o_def)
qed simp

lemma parse_board_strict_eq: "parse_board_strict = parse_board"
  by (simp add: fun_eq_iff parse_board_strict_def parse_board_def parse_rows_strict_append Let_def
      option.map_ident)

lemma validate_one_symbol_placed_wf:
  assumes "wf_board old" and "wf_board new"
  shows "validate_one_symbol_placed old new s = Inr (validate_move old new s = Inr None)"
proof (cases "diff_cells old new")
  case Nil
  then show ?thesis
    by (simp add: validate_one_symbol_placed_def validate_move_wf [OF assms] board_changes_wf [OF assms])
next
  case (Cons p rest)
  then show ?thesis
    by (cases p; cases rest)
      (auto simp: validate_one_symbol_placed_def validate_move_wf [OF assms] board_changes_wf [OF assms])
qed

lemma judge_payload_board:
  assumes "judge_payload s (board_to_str b) data = Inr (Inr t)" and "wf_board b" and "s \<noteq> ''.''"
  shows "\<exists>b'. parse_board t = Some b' \<and> legal_move b b' s"
proof -
  obtain payload where payload: "json_loads data = Some payload"
    using assms(1) by (cases "json_loads data") (auto simp: judge_payload_def invalid_move_def)
  obtain v where v: "json_get payload ''board'' = Inr v"
    using assms(1) payload by (cases "json_get payload ''board''") (auto simp: judge_payload_def)
  obtain n where n: "v = JStr n"
    using assms(1) payload v by (cases v) (auto simp: judge_payload_def invalid_move_def)
  obtain b' where b': "parse_board n = Some b'"
    using assms(1,2) payload v n
    by (cases "parse_board n")
      (auto simp: judge_payload_def invalid_move_def parse_board_strict_eq parse_board_to_str)
  have "wf_board b'" using parse_board_wf [OF b'] .
  note valid = validate_one_symbol_placed_wf [OF assms(2) this, of s]
    validate_move_legal [OF assms(2) this assms(3)]
  have "n = t" and "legal_move b b' s"
    using assms(1,2) payload v n b' valid
    by (auto simp: judge_payload_def invalid_move_def parse_board_strict_eq parse_board_to_str
        split: if_splits)
  with b' show ?thesis by blast
qed

section \<open>Two judges, one contract\<close>

text \<open>
  The dispatcher judges the turns of a match, the web server those of a human's game. Both
  promise the same: they accept a text exactly when it is a board one legal move away.
\<close>

locale turn_judge =
  fixes accept :: "board \<Rightarrow> string \<Rightarrow> string \<Rightarrow> board option"
  assumes accept_sound: "wf_board b \<Longrightarrow> s \<in> {''X'', ''O''} \<Longrightarrow> accept b s t = Some b' \<Longrightarrow>
      parse_board t = Some b' \<and> legal_move b b' s"
    and accept_complete: "wf_board b \<Longrightarrow> s \<in> {''X'', ''O''} \<Longrightarrow> parse_board t = Some b' \<Longrightarrow>
      legal_move b b' s \<Longrightarrow> accept b s t = Some b'"
begin

lemma accept_iff:
  assumes "wf_board b" and "s \<in> {''X'', ''O''}"
  shows "accept b s t = Some b' \<longleftrightarrow> parse_board t = Some b' \<and> legal_move b b' s"
  using accept_sound [OF assms] accept_complete [OF assms] by blast

lemma accept_padded:
  assumes "wf_board b" and "s \<in> {''X'', ''O''}" and "legal_move b b' s"
    and "\<And>c. c \<in> set pre \<Longrightarrow> py_isspace c" and "\<And>c. c \<in> set post \<Longrightarrow> py_isspace c"
  shows "accept b s (pre @ board_to_str b' @ post) = Some b'"
  by (rule accept_complete [OF assms(1,2) parse_board_padded assms(3)])
    (use assms wf_legal_move in blast)+

lemma accept_in_play:
  assumes "in_play n b" and "accept b (symbol_of n) t = Some b'" and "game_outcome b' = None"
  shows "in_play (Suc n) b'"
proof -
  have "legal_move b b' (symbol_of n)"
    using accept_sound [OF in_play_wf [OF assms(1)] symbol_of_mem(1) assms(2)] by blast
  then show ?thesis by (rule in_play.move [OF assms(1) _ assms(3)])
qed

lemma accept_uses_cell:
  assumes "wf_board b" and "s \<in> {''X'', ''O''}" and "accept b s t = Some b'"
  shows "pieces b ''.'' = Suc (pieces b' ''.'')"
proof -
  have "legal_move b b' s" using accept_sound [OF assms] by blast
  then show ?thesis by (rule legal_move_pieces(1) [OF assms(1)]) (use assms(2) in auto)
qed

end

definition dispatcher_accepts :: "board \<Rightarrow> string \<Rightarrow> string \<Rightarrow> board option" where
  "dispatcher_accepts b s t =
     (case judge_response b s \<lparr>tr_board = JStr t, tr_error = JNull\<rparr> of
        Inr (r, _) \<Rightarrow> r
      | Inl _ \<Rightarrow> None)"

definition web_accepts :: "board \<Rightarrow> string \<Rightarrow> string \<Rightarrow> board option" where
  "web_accepts b s t =
     (case judge_payload s (board_to_str b) (json_dumps (JObj [(''board'', JStr t)])) of
        Inr (Inr t') \<Rightarrow> parse_board t'
      | _ \<Rightarrow> None)"

lemma parse_board_nonempty: "parse_board t = Some b \<Longrightarrow> t \<noteq> []"
  by (auto simp: parse_board_def)

interpretation dispatcher_judge: turn_judge dispatcher_accepts
proof
  fix b s t b'
  assume wf: "wf_board b" and s: "s \<in> {''X'', ''O''}"
  note judged = judge_response_text [OF wf s, of t]
  show "parse_board t = Some b' \<and> legal_move b b' s" if "dispatcher_accepts b s t = Some b'"
    using judged that by (auto simp: dispatcher_accepts_def split: if_splits)
  show "dispatcher_accepts b s t = Some b'" if "parse_board t = Some b'" "legal_move b b' s"
    using judged that by (auto simp: dispatcher_accepts_def)
qed

lemma loads_board_reply:
  "json_loads (json_dumps (JObj [(''board'', JStr t)])) = Some (JObj [(''board'', JStr t)])"
  by (rule json_loads_dumps) simp

interpretation web_judge: turn_judge web_accepts
proof
  fix b s t b'
  assume wf: "wf_board b" and s: "s \<in> {''X'', ''O''}"
  then have dot: "s \<noteq> ''.''" by auto
  {
    assume "web_accepts b s t = Some b'"
    then obtain t' where t': "judge_payload s (board_to_str b) (json_dumps (JObj [(''board'', JStr t)])) = Inr (Inr t')"
      and b': "parse_board t' = Some b'"
      by (auto simp: web_accepts_def split: sum.splits simp del: json_dumps.simps)
    have "t' = t"
      using t' by (auto simp: judge_payload_def loads_board_reply json_get_def invalid_move_def res_simps
          simp del: json_dumps.simps split: option.splits if_splits)
    with judge_payload_board [OF t' wf dot] b' show "parse_board t = Some b' \<and> legal_move b b' s" by simp
  }
  assume p: "parse_board t = Some b'" and "legal_move b b' s"
  then have "validate_one_symbol_placed b b' s = Inr True"
    using validate_one_symbol_placed_wf [OF wf parse_board_wf [OF p], of s]
      validate_move_legal [OF wf parse_board_wf [OF p] dot] by simp
  then show "web_accepts b s t = Some b'"
    using p wf by (simp add: web_accepts_def judge_payload_def loads_board_reply json_get_def
        parse_board_strict_eq parse_board_to_str del: json_dumps.simps)
qed

text \<open>The move the browser is sent is legal on the board it sent.\<close>

lemma request_bot_turn_board:
  assumes "request_bot_turn E ip s (board_to_str b) t w = (Inr (Inr t'), w1)"
    and "wf_board b" and "s \<noteq> ''.''"
  shows "\<exists>b'. parse_board t' = Some b' \<and> legal_move b b' s"
  using assms judge_payload_board
  by (auto simp: request_bot_turn_def split: prod.splits sum.splits py_exc.splits)

lemma call_bot_board:
  assumes "call_bot W core pname s board w = (Inr (Inr t), w1)"
  shows "\<exists>ip w2. request_bot_turn (o_env W) ip s board DEFAULT_TURN_TIMEOUT w2 = (Inr (Inr t), w1)"
proof -
  obtain c w2 where c: "core w = (c, w2)" by force
  with assms obtain u where "c = Inr u" by (cases c) (auto simp: call_bot_def)
  moreover obtain p w3 where p: "bot_pod_ip (o_env W) pname w2 = (p, w3)" by force
  ultimately obtain ip where "p = Inr (Some ip)"
    using assms c by (cases p) (auto simp: call_bot_def split: option.splits)
  with \<open>c = Inr u\<close> assms c p show ?thesis by (auto simp: call_bot_def)
qed

lemma handle_play_turn_run:
  assumes "by_id (tq_bot_id q) (s_db s) = Inr (Some b)" and "b_pod_name b = Some pname" and "b_pod_ready b"
  shows "handle_play_turn W core q s =
    (case call_bot W core pname (tq_bot_symbol q) (tq_board q) (s_world s) of
       (Inl e, w) \<Rightarrow> (Inl e, s\<lparr>s_world := w\<rparr>)
     | (Inr (Inl reason), w) \<Rightarrow> (Inr (JsonError reason), s\<lparr>s_world := w\<rparr>)
     | (Inr (Inr t), w) \<Rightarrow> (Inr (JsonBoard t), s\<lparr>s_world := w\<rparr>))"
  using assms by (simp add: handle_play_turn_def prog_simps split: prod.split sum.split)

lemma handle_play_turn_board:
  assumes "handle_play_turn W core q s = (Inr (JsonBoard t), s1)" and "tq_board q = board_to_str b"
    and "wf_board b" and "valid_TurnRequest q"
  shows "\<exists>b'. parse_board t = Some b' \<and> legal_move b b' (tq_bot_symbol q)"
proof -
  obtain found where f: "by_id (tq_bot_id q) (s_db s) = Inr found"
    using assms(1) by (cases "by_id (tq_bot_id q) (s_db s)") (auto simp: handle_play_turn_def prog_simps)
  obtain bt where bt: "found = Some bt"
    using assms(1) f by (cases found) (auto simp: handle_play_turn_def prog_simps)
  obtain pname where pname: "b_pod_name bt = Some pname" "b_pod_ready bt"
    using assms(1) f bt by (cases "b_pod_name bt") (auto simp: handle_play_turn_def prog_simps split: if_splits)
  obtain r w1 where call: "call_bot W core pname (tq_bot_symbol q) (tq_board q) (s_world s) = (r, w1)"
    by force
  note run = handle_play_turn_run [where W = W and core = core and q = q and s = s, OF f [unfolded bt] pname]
  have "r = Inr (Inr t)"
  proof (cases r)
    case (Inl e)
    with run call assms(1) show ?thesis by simp
  next
    case (Inr o')
    with run call assms(1) show ?thesis by (cases o') simp_all
  qed
  then have "call_bot W core pname (tq_bot_symbol q) (board_to_str b) (s_world s) = (Inr (Inr t), w1)"
    using call [unfolded assms(2)] by (simp only:)
  from call_bot_board [OF this] obtain ip w2
    where "request_bot_turn (o_env W) ip (tq_bot_symbol q) (board_to_str b) DEFAULT_TURN_TIMEOUT w2 =
      (Inr (Inr t), w1)"
    by blast
  moreover have "tq_bot_symbol q \<noteq> ''.''" using assms(4) by (auto simp: valid_TurnRequest_def)
  ultimately show ?thesis by (rule request_bot_turn_board [OF _ assms(3)])
qed

section \<open>Properties\<close>

text \<open>C17: the dispatcher and the play page accept the same moves: for every board, symbol and text a
  bot answers, in a reply without an error, both give the same verdict and the same new board.\<close>

theorem judges_agree:
  assumes "wf_board b" and "s \<in> {''X'', ''O''}"
  shows "dispatcher_accepts b s t = web_accepts b s t"
  using dispatcher_judge.accept_iff [OF assms] web_judge.accept_iff [OF assms] by (metis not_None_eq)

theorem judges_agree_witness:
  "dispatcher_accepts EMPTY_BOARD ''X'' ''X|.|.'' = web_accepts EMPTY_BOARD ''X'' ''X|.|.''"
  by (rule judges_agree) simp_all

text \<open>C18: a board the play page sends back to the browser is one legal move of the bot away from
  the board the browser sent.\<close>

theorem play_page_moves_are_legal:
  assumes "handle_play_turn W core q s = (Inr (JsonBoard t), s1)" and "tq_board q = board_to_str b"
    and "wf_board b" and "valid_TurnRequest q"
  shows "\<exists>b'. parse_board t = Some b' \<and> wf_board b' \<and> legal_move b b' (tq_bot_symbol q)"
  using handle_play_turn_board [OF assms] parse_board_wf by blast

text \<open>The game page is only shown for a bot whose pod is ready, under its versioned name, and it
  gives the human and the bot different symbols.\<close>

theorem game_page_only_for_ready_bots:
  assumes "render_play_vs_page human_is_x i cookie s = (Inr (GamePage j name player human other), s1)"
  shows "j = i \<and> (\<exists>b \<in> set (bots (s_db s)). b_id b = i \<and> b_pod_ready b \<and> b_versioned_name b = name) \<and>
    {human, other} = {''X'', ''O''} \<and> human \<noteq> other \<and> cookie = Some player \<and> player \<noteq> [] \<and> s1 = s"
proof -
  obtain pl where c: "cookie = Some pl" "pl \<noteq> []"
    using assms by (auto simp: render_play_vs_page_def ret_def split: option.splits if_splits)
  obtain found where f: "by_id i (s_db s) = Inr found"
    using assms c by (cases "by_id i (s_db s)") (auto simp: render_play_vs_page_def prog_simps)
  obtain b where b: "found = Some b"
    using assms c f by (cases found) (auto simp: render_play_vs_page_def prog_simps)
  have "filter (\<lambda>b. b_id b = i) (bots (s_db s)) = [b]"
    using f b by (auto simp: by_id_def scalar_one_or_none_def split: list.splits if_splits)
  then have "b \<in> set (filter (\<lambda>b. b_id b = i) (bots (s_db s)))" by simp
  then have mem: "b \<in> set (bots (s_db s))" "b_id b = i" by simp_all
  show ?thesis
    using assms c f b mem
    by (auto simp: render_play_vs_page_def prog_simps split: if_splits)
qed

end
