(* ===== verification/Demo.thy ===== *)
theory Demo
  imports Pipeline TurnServer BotClient
begin

text \<open>
  A concrete outside, on which the properties are shown not to be vacuous: a clock that is the
  world, pods that come up at once, bots that put their symbol into the first empty cell, the
  message classes written as JSON objects, a broker that does not fail. One bot is submitted,
  built, scheduled and plays itself; the lemmas follow the state.
\<close>

section \<open>The outside\<close>

fun put_first :: "char \<Rightarrow> string \<Rightarrow> string" where
  "put_first s [] = []"
| "put_first s (c # cs) = (if c = CHR ''.'' then s # cs else c # put_first s cs)"

definition demo_spawn :: spawn where
  "demo_spawn source stdin =
     (case stdin of s # _ # board \<Rightarrow> Completed 0 (put_first s board) [] | _ \<Rightarrow> RunFailed ''no input'')"

definition demo_post :: "string \<Rightarrow> string res" where
  "demo_post body =
     (case do_POST demo_spawn (\<lambda>_. []) [] ''/turn'' (Some (nat_str (length body))) body of
        Inr rs \<Rightarrow> if rs_status rs = 200 then Inr (rs_body rs) else Inl (URLError ''HTTP Error'')
      | Inl e \<Rightarrow> Inl (URLError ''closed''))"

definition demo_pod :: pod_status where
  "demo_pod = \<lparr>phase = Some ''Running'', container_statuses = Some [True], pod_ip = Some ''10.0.0.7''\<rparr>"

definition demo_env :: "int env" where
  "demo_env =
     \<lparr>read_namespaced_pod = (\<lambda>p n w. (Inr demo_pod, w)),
      create_namespaced_pod = (\<lambda>n m w. (Inr (), w)),
      delete_namespaced_pod = (\<lambda>p n w. (Inr (), w)),
      urlopen = (\<lambda>r t w. (case req_data r of None \<Rightarrow> Inr ''ok'' | Some body \<Rightarrow> demo_post body, w)),
      urlopen_blocking = (\<lambda>r w. Some (Inr ''ok'', w)),
      monotonic = (\<lambda>w. (w, w)),
      sleep = (\<lambda>d w. w + d)\<rparr>"

definition json_field :: "string \<Rightarrow> string \<Rightarrow> json option" where
  "json_field body k =
     (case json_loads body of Some (JObj kvs) \<Rightarrow> map_of kvs k | _ \<Rightarrow> None)"

definition demo_pydantic :: pydantic where
  "demo_pydantic =
     \<lparr>dump_build = (\<lambda>m. json_dumps (JObj [(''bot_id'', JInt (bp_bot_id m)),
                                           (''runtime_key'', JStr (bp_runtime_key m))])),
      validate_build = (\<lambda>b. case (json_field b ''bot_id'', json_field b ''runtime_key'') of
          (Some (JInt i), Some (JStr k)) \<Rightarrow> Some \<lparr>bp_bot_id = i, bp_runtime_key = k\<rparr> | _ \<Rightarrow> None),
      dump_ready = (\<lambda>m. json_dumps (JObj [(''bot_id'', JInt (pr_bot_id m))])),
      validate_ready = (\<lambda>b. case json_field b ''bot_id'' of
          Some (JInt i) \<Rightarrow> Some \<lparr>pr_bot_id = i\<rparr> | _ \<Rightarrow> None),
      dump_ondeck = (\<lambda>m. json_dumps (JObj [(''bot_x_id'', JInt (mo_bot_x_id m)),
          (''bot_o_id'', JInt (mo_bot_o_id m)), (''correlation_id'', JStr (mo_correlation_id m))])),
      validate_ondeck = (\<lambda>b. case (json_field b ''bot_x_id'', json_field b ''bot_o_id'',
            json_field b ''correlation_id'') of
          (Some (JInt x), Some (JInt y), Some (JStr c)) \<Rightarrow>
            Some \<lparr>mo_bot_x_id = x, mo_bot_o_id = y, mo_correlation_id = c\<rparr>
        | _ \<Rightarrow> None)\<rparr>"

definition demo :: "int outside" where
  "demo = \<lparr>o_env = demo_env, o_pydantic = demo_pydantic, o_broker = (\<lambda>_. None),
     o_token_hex = (\<lambda>n k. ''t''), o_now = (\<lambda>w. w)\<rparr>"

lemma demo_sel [simp]:
  "o_env demo = demo_env" "o_pydantic demo = demo_pydantic" "o_broker demo = (\<lambda>_. None)"
  "o_token_hex demo n k = ''t''" "o_now demo = (\<lambda>w. w)"
  by (simp_all add: demo_def)

lemma demo_env_sel [simp]:
  "read_namespaced_pod demo_env p n w = (Inr demo_pod, w)"
  "create_namespaced_pod demo_env n m w = (Inr (), w)"
  "monotonic demo_env w = (w, w)" "sleep demo_env d w = w + d"
  by (simp_all add: demo_env_def)

lemma demo_clock_ok: "clock_ok demo_env (\<lambda>w. w)"
  by (simp add: clock_ok_def demo_env_def)

lemma demo_prompt: "prompt_env demo_env (\<lambda>w. w) 0"
  by (simp add: prompt_env_def took_def demo_env_def)

lemma json_field_dumps: "wf_json (JObj kvs) \<Longrightarrow> json_field (json_dumps (JObj kvs)) k = map_of kvs k"
  by (simp add: json_field_def json_loads_dumps del: json_dumps.simps)

lemma demo_pydantic_ok: "pydantic_ok demo_pydantic"
  by (simp add: pydantic_ok_def demo_pydantic_def json_field_dumps del: json_dumps.simps)

section \<open>A game\<close>

lemma demo_urlopen:
  "urlopen demo_env (turn_request ip s board) t w =
     (Inr (json_dumps (run_bot demo_spawn [] (JStr s) (JStr board))), w)"
proof -
  obtain body where body: "req_data (turn_request ip s board) = Some body"
    by (simp add: turn_request_def)
  have "demo_post body = Inr (json_dumps (run_bot demo_spawn [] (JStr s) (JStr board)))"
    unfolding demo_post_def
    by (subst do_POST_turn_request [of body ip s board]) (simp_all add: body del: json_dumps.simps)
  then show ?thesis by (simp add: demo_env_def body)
qed

lemma demo_turn:
  "play_turn demo_env s ip b t w =
     (catch_url_error (judge_response b s
        (outcome_response (demo_spawn [] (bot_stdin (JStr s) (JStr (board_to_str b)))))), w)"
  by (simp add: play_turn_def request_turn_def parse_run_bot demo_urlopen del: json_dumps.simps)

definition demo_board :: "string \<Rightarrow> board" where
  "demo_board cs = [[[cs ! 0], [cs ! 1], [cs ! 2]], [[cs ! 3], [cs ! 4], [cs ! 5]],
     [[cs ! 6], [cs ! 7], [cs ! 8]]]"

definition demo_judge :: "string \<Rightarrow> string \<Rightarrow> turn_result res" where
  "demo_judge s cs = judge_response (demo_board cs) s
     (outcome_response (demo_spawn [] (bot_stdin (JStr s) (JStr (board_to_str (demo_board cs))))))"

lemma demo_judges:
  "demo_judge ''X'' ''.........'' = Inr (Some (demo_board ''X........''), JNull)"
  "demo_judge ''O'' ''X........'' = Inr (Some (demo_board ''XO.......''), JNull)"
  "demo_judge ''X'' ''XO.......'' = Inr (Some (demo_board ''XOX......''), JNull)"
  "demo_judge ''O'' ''XOX......'' = Inr (Some (demo_board ''XOXO.....''), JNull)"
  "demo_judge ''X'' ''XOXO.....'' = Inr (Some (demo_board ''XOXOX....''), JNull)"
  "demo_judge ''O'' ''XOXOX....'' = Inr (Some (demo_board ''XOXOXO...''), JNull)"
  "demo_judge ''X'' ''XOXOXO...'' = Inr (Some (demo_board ''XOXOXOX..''), JNull)"
  by code_simp+

lemma demo_winners:
  "check_winner (demo_board ''X........'') = Inr None" "check_winner (demo_board ''XO.......'') = Inr None"
  "check_winner (demo_board ''XOX......'') = Inr None" "check_winner (demo_board ''XOXO.....'') = Inr None"
  "check_winner (demo_board ''XOXOX....'') = Inr None" "check_winner (demo_board ''XOXOXO...'') = Inr None"
  "check_winner (demo_board ''XOXOXOX..'') = Inr (Some X_WINS)"
  by code_simp+

lemma demo_board_empty: "EMPTY_BOARD = demo_board ''.........''"
  by code_simp

lemma demo_play_turn:
  "demo_judge s cs = Inr (Some b, JNull) \<Longrightarrow>
     play_turn demo_env s ip (demo_board cs) t w = (Inr (Some b, JNull), w)"
  by (simp add: demo_turn demo_judge_def catch_url_error_def)

definition demo_move :: "nat \<Rightarrow> string \<Rightarrow> string \<Rightarrow> Move" where
  "demo_move n p cs = \<lparr>mv_number = n, mv_player = p, mv_board = board_to_str (demo_board cs), mv_error = JNull\<rparr>"

definition demo_result :: MatchResult where
  "demo_result = \<lparr>mr_result = X_WINS, mr_moves =
     [demo_move 1 ''x'' ''X........'', demo_move 2 ''o'' ''XO.......'', demo_move 3 ''x'' ''XOX......'',
      demo_move 4 ''o'' ''XOXO.....'', demo_move 5 ''x'' ''XOXOX....'', demo_move 6 ''o'' ''XOXOXO...'',
      demo_move 7 ''x'' ''XOXOXOX..'']\<rparr>"

lemma demo_match:
  "run_match_from_pods demo_env px po t w = (Inr (Some demo_result), w)"
proof -
  have "get_pod_ip demo_env p w = (Inr ''10.0.0.7'', w)" for p w
    by (simp add: get_pod_ip_def demo_pod_def)
  then show ?thesis
    by (simp add: run_match_from_pods_def turn_schedule_eq demo_board_empty demo_winners
        demo_play_turn [OF demo_judges(1)] demo_play_turn [OF demo_judges(2)]
        demo_play_turn [OF demo_judges(3)] demo_play_turn [OF demo_judges(4)]
        demo_play_turn [OF demo_judges(5)] demo_play_turn [OF demo_judges(6)]
        demo_play_turn [OF demo_judges(7)] demo_result_def demo_move_def Let_def)
qed

section \<open>A run of the services\<close>

definition demo_parse :: ast_parser where
  "demo_parse src = Inr [Expr (ConstStr src)]"

definition demo_bot :: Bot where
  "demo_bot = \<lparr>b_id = 1, b_base_name = ''A'', b_versioned_name = ''A'', b_version = 1,
     b_owner_token = ''t'', b_source = Some ''name: A'', b_python_version = ''3.14'',
     b_runtime_key = ''python-3.14'', b_pod_name = None, b_pod_ready = False, b_submitted_at = 0\<rparr>"

definition demo0 :: "int sys" where
  "demo0 = \<lparr>s_db = empty_db, s_log = [], s_taken = (\<lambda>_. 0), s_events = [], s_world = 0,
     s_drawn = 0, s_tried = 0\<rparr>"

lemma demo_extract:
  "extract_bot_name demo_parse ''name: A'' = Inr (Some ''A'')"
  "extract_runtime_key demo_parse ''name: A'' = Inr (Some ''python-3.14'')"
  "validate_bot_name (Some ''A'') = None"
  by code_simp+

definition demo_db :: "bool \<Rightarrow> db" where
  "demo_db ready = \<lparr>bots = [if ready then mark_ready 1 (pod_name 1) demo_bot else demo_bot], matches = [],
     moves = [], bots_seq = 2, matches_seq = 1, moves_seq = 1\<rparr>"

definition demo_build :: "string \<times> string" where
  "demo_build = (BUILD_POD_QUEUE, dump_build demo_pydantic \<lparr>bp_bot_id = 1, bp_runtime_key = ''python-3.14''\<rparr>)"

definition demo_ready :: "string \<times> string" where
  "demo_ready = (POD_READY_QUEUE, dump_ready demo_pydantic \<lparr>pr_bot_id = 1\<rparr>)"

definition demo_ondeck :: "string \<times> string" where
  "demo_ondeck = (MATCH_ONDECK_QUEUE, dump_ondeck demo_pydantic (ondeck_message 1 1 ''t''))"

definition demo_event :: string where
  "demo_event = event_body EVENT_BOT_UPLOADED [(''versioned_name'', JStr ''A'')]"

definition demo1 :: "int sys" where
  "demo1 = \<lparr>s_db = demo_db False, s_log = [demo_build], s_taken = (\<lambda>_. 0), s_events = [demo_event],
     s_world = 0, s_drawn = 1, s_tried = 2\<rparr>"

definition demo2 :: "int sys" where
  "demo2 = \<lparr>s_db = demo_db True, s_log = [demo_build, demo_ready],
     s_taken = (\<lambda>_. 0)(BUILD_POD_QUEUE := 1), s_events = [demo_event], s_world = 0, s_drawn = 1, s_tried = 3\<rparr>"

definition demo3 :: "int sys" where
  "demo3 = \<lparr>s_db = demo_db True, s_log = [demo_build, demo_ready, demo_ondeck],
     s_taken = (\<lambda>_. 0)(BUILD_POD_QUEUE := 1, POD_READY_QUEUE := 1), s_events = [demo_event],
     s_world = 0, s_drawn = 2, s_tried = 4\<rparr>"

definition demo_taken3 :: "int sys" where
  "demo_taken3 = demo3\<lparr>s_taken := (s_taken demo3)(MATCH_ONDECK_QUEUE := 1)\<rparr>"

definition demo4 :: "int sys" where
  "demo4 = demo_taken3\<lparr>s_db := snd (record_match 1 1 demo_result ''t'' 0 (demo_db True)),
     s_events := [demo_event, event_body EVENT_MATCH_FINISHED [(''result'', JStr ''x_wins'')]],
     s_tried := 5\<rparr>"

lemma demo_insert:
  "insert_version demo ''A'' ''t'' ''python-3.14'' ''name: A'' (demo0\<lparr>s_drawn := 1\<rparr>) =
     (Inr demo_bot, demo_db False)"
  by (simp add: insert_version_def demo0_def empty_db_def next_version_def family_max_def
      create_bot_def Let_def pg_text_def versioned_name_def python_version_from_runtime_key_def startswith_def
      demo_bot_def demo_db_def)

lemma demo_submission:
  "handle_submission demo demo_parse ''name: A'' None demo0 =
     (success_response ''A'' (parse_cookie None) ''t'' ''A'', demo1)"
proof -
  have owner: "resolve_owner_token demo ''A'' (parse_cookie None) demo0 =
      (Inr (Some ''t'', None), demo0\<lparr>s_drawn := 1\<rparr>)"
    by (simp add: resolve_owner_token_def owner_token_def pg_text_def demo0_def empty_db_def prog_simps)
  have "handle_submission demo demo_parse ''name: A'' None demo0 =
      submit_bot demo ''A'' ''python-3.14'' ''name: A'' (parse_cookie None) demo0"
    by (simp add: handle_submission_def demo_extract validate_runtime_key_def bindP_def lift_res_def
        Let_def)
  also have "\<dots> = bindP (persist_bot demo ''A'' ''t'' ''python-3.14'' ''name: A'') (\<lambda>(name, i).
       seqP (enqueue_build_pod demo \<lparr>bp_bot_id = i, bp_runtime_key = ''python-3.14''\<rparr>)
          (seqP (publish_event demo EVENT_BOT_UPLOADED [(''versioned_name'', JStr name)])
                (lift_res (success_response name (parse_cookie None) ''t'' ''A'')))) (demo0\<lparr>s_drawn := 1\<rparr>)"
    by (simp add: submit_bot_def bindP_def owner)
  also have "\<dots> = (success_response ''A'' (parse_cookie None) ''t'' ''A'', demo1)"
  proof -
    have "next_version ''A'' (s_db (demo0\<lparr>s_drawn := 1\<rparr>)) = 1"
      by (simp add: demo0_def empty_db_def next_version_def family_max_def)
    then have "persist_bot demo ''A'' ''t'' ''python-3.14'' ''name: A'' (demo0\<lparr>s_drawn := 1\<rparr>) =
        (Inr (''A'', 1), demo0\<lparr>s_drawn := 1, s_db := demo_db False\<rparr>)"
      by (simp only: persist_bot_eq demo_insert) (simp add: versioned_name_def demo_bot_def)
    then show ?thesis
      by (simp add: bindP_def seqP_def enqueue_build_pod_def publish_event_def
          publish_def publish_fanout_def lift_res_def Let_def)
        (simp add: demo0_def demo1_def demo_build_def demo_event_def)
  qed
  finally show ?thesis .
qed

lemma demo_submit: "snd (handle_submission demo demo_parse ''name: A'' None demo0) = demo1"
  by (simp add: demo_submission)

lemma demo_submit_page:
  "\<exists>page. handle_submission demo demo_parse ''name: A'' None demo0 = (Inr page, demo1) \<and> sp_error page = None"
  by (simp add: demo_submission success_response_def json_set_def parse_cookie_def)

lemma demo_take_build: "take_one BUILD_POD_QUEUE demo1 =
    Some (snd demo_build, demo1\<lparr>s_taken := (\<lambda>_. 0)(BUILD_POD_QUEUE := 1)\<rparr>)"
  by (simp add: take_one_def waiting_def sent_to_def demo1_def demo_build_def)

lemma demo_build_and_wait: "build_and_wait demo_env t p img src i w = Some (Inr (), w)"
  if "0 < t"
proof -
  have "wait_for_pod_ready demo_env p t w = Some (Inr (), w)" for w
    using that unfolding wait_for_pod_ready_def
    by (simp, subst pod_ready_loop.simps, simp add: demo_pod_def check_pod_phase_def TERMINAL_POD_PHASES_def)
  moreover have "wait_for_http_ready demo_env ip t w = Some (Inr (), w)" for ip w
    using that unfolding wait_for_http_ready_def
    by (simp, subst http_ready_loop.simps, simp add: demo_env_def)
  ultimately show ?thesis by (simp add: build_and_wait_def get_pod_ip_def demo_pod_def)
qed

lemma demo_build_run:
  "handle_build_pod_message demo 60000 (snd demo_build) (demo1\<lparr>s_taken := (\<lambda>_. 0)(BUILD_POD_QUEUE := 1)\<rparr>) =
     Some (Inr (), demo2)"
proof -
  have parse: "parse_amqp_message (validate_build demo_pydantic) (snd demo_build) =
      Some \<lparr>bp_bot_id = 1, bp_runtime_key = ''python-3.14''\<rparr>"
    by (simp add: parse_amqp_message_def demo_build_def pydantic_okD [OF demo_pydantic_ok])
  show ?thesis
    by (simp add: handle_build_pod_message_def parse fetch_bot_and_runtime_def RUNTIMES_def by_ids_def
        build_register_and_notify_def register_and_notify_def demo_build_and_wait prog_simps
        demo1_def demo2_def demo_db_def demo_bot_def set_pod_ready_def demo_ready_def mark_ready_def)
qed

lemma demo_take_ready: "take_one POD_READY_QUEUE demo2 =
    Some (snd demo_ready, demo2\<lparr>s_taken := (s_taken demo2)(POD_READY_QUEUE := 1)\<rparr>)"
  by (simp add: take_one_def waiting_def sent_to_def demo2_def demo_build_def demo_ready_def)

lemma demo_schedule_run:
  "snd (handle_pod_ready_message demo (snd demo_ready) (demo2\<lparr>s_taken := (s_taken demo2)(POD_READY_QUEUE := 1)\<rparr>)) =
     demo3"
proof -
  have "snd demo_ready = dump_ready (o_pydantic demo) \<lparr>pr_bot_id = 1\<rparr>" by (simp add: demo_ready_def)
  then show ?thesis
    using handle_pod_ready_message_run [of demo 1] demo_pydantic_ok
    by (simp add: demo2_def demo_db_def ready_bots_def mark_ready_def demo_bot_def publish_ondeck_def
        prog_simps demo3_def demo_ondeck_def)
qed

lemma demo_schedule_returns:
  "fst (handle_pod_ready_message demo (snd demo_ready) (demo2\<lparr>s_taken := (s_taken demo2)(POD_READY_QUEUE := 1)\<rparr>)) =
     Inr ()"
proof -
  have "snd demo_ready = dump_ready (o_pydantic demo) \<lparr>pr_bot_id = 1\<rparr>" by (simp add: demo_ready_def)
  then show ?thesis
    using handle_pod_ready_message_run [of demo 1] demo_pydantic_ok
    by (simp add: demo2_def demo_db_def ready_bots_def mark_ready_def demo_bot_def publish_ondeck_def
        prog_simps demo3_def demo_ondeck_def)
qed

lemma demo_take_ondeck: "take_one MATCH_ONDECK_QUEUE demo3 = Some (snd demo_ondeck, demo_taken3)"
  by (simp add: take_one_def waiting_def sent_to_def demo3_def demo_build_def demo_ready_def demo_ondeck_def
      demo_taken3_def)

lemma demo_record: "fst (record_match 1 1 demo_result ''t'' 0 (demo_db True)) = Inr ()"
  by (simp add: record_match_def Let_def pg_text_def demo_db_def mark_ready_def demo_bot_def
      demo_result_def demo_move_def error_column_def)

lemma demo_ondeck_run: "handle_match_ondeck demo (snd demo_ondeck) demo_taken3 = (Inr (), demo4)"
proof -
  have parse: "validate_ondeck demo_pydantic (snd demo_ondeck) = Some (ondeck_message 1 1 ''t'')"
    by (simp add: demo_ondeck_def pydantic_okD [OF demo_pydantic_ok])
  have db: "s_db demo_taken3 = demo_db True" by (simp add: demo_taken3_def demo3_def)
  have fetch: "fetch_match_bots 1 1 demo_taken3 = (Inr (Some (pod_name 1, pod_name 1)), demo_taken3)"
    by (simp add: fetch_match_bots_def prog_simps db by_ids_def demo_db_def demo_bot_def mark_ready_def)
  obtain d where rec: "record_match 1 1 demo_result ''t'' 0 (demo_db True) = (Inr (), d)"
    using demo_record by (metis prod.collapse)
  have ids: "mo_bot_x_id (ondeck_message 1 1 ''t'') = 1" "mo_bot_o_id (ondeck_message 1 1 ''t'') = 1"
    "mo_correlation_id (ondeck_message 1 1 ''t'') = ''t''"
    by (simp_all add: ondeck_message_def)
  have world: "s_world demo_taken3 = 0" "mr_result demo_result = X_WINS" "s_tried demo_taken3 = 4"
    "s_events demo_taken3 = [demo_event]"
    by (simp_all add: demo_taken3_def demo3_def demo_result_def)
  show ?thesis
    by (simp add: handle_match_ondeck_def parse ids bindP_def fetch in_world_def demo_match world
        record_result_def seqP_def db_write_def db rec ret_def catch_def
        publish_match_finished_def publish_fanout_def Let_def demo4_def)
qed

text \<open>The final state is reachable.\<close>

lemma demo_steps:
  "pipe_step demo demo_parse 60000 demo0 demo1" "pipe_step demo demo_parse 60000 demo1 demo2"
  "pipe_step demo demo_parse 60000 demo2 demo3" "pipe_step demo demo_parse 60000 demo3 demo4"
proof -
  show "pipe_step demo demo_parse 60000 demo0 demo1"
    by (rule pipe_step.submit [OF prod.collapse [symmetric, of "handle_submission demo demo_parse ''name: A'' None demo0", unfolded demo_submit]])
  show "pipe_step demo demo_parse 60000 demo1 demo2"
    by (rule pipe_step.build [OF demo_take_build demo_build_run])
  show "pipe_step demo demo_parse 60000 demo2 demo3"
    by (rule pipe_step.schedule [OF demo_take_ready prod.collapse [symmetric, of "handle_pod_ready_message demo (snd demo_ready) (demo2\<lparr>s_taken := (s_taken demo2)(POD_READY_QUEUE := 1)\<rparr>)", unfolded demo_schedule_run]])
  show "pipe_step demo demo_parse 60000 demo3 demo4"
    by (rule pipe_step.ondeck [OF demo_take_ondeck demo_ondeck_run])
qed

lemma demo_start: "start_state demo demo0"
  by (simp add: start_state_def demo_pydantic_ok demo0_def)

lemma demo_reachable_start: "reachable_state demo demo_parse 60000 demo0"
  using demo_start unfolding reachable_state_def by blast

lemma demo_reachable:
  "reachable_state demo demo_parse 60000 demo1" "reachable_state demo demo_parse 60000 demo2"
  "reachable_state demo demo_parse 60000 demo3" "reachable_state demo demo_parse 60000 demo4"
  using demo_start demo_steps unfolding reachable_state_def
  by (meson converse_rtranclp_into_rtranclp rtranclp.rtrancl_refl)+

end
