(* ===== verification/Cooperation.thy ===== *)
theory Cooperation
  imports TurnServer OndeckHandler Pipeline
begin

text \<open>
  The handlers when the outside works: the broker takes every message, pods come up, their servers
  answer every turn, and no text holds the one character the database refuses. Then every handler
  returns and does its whole work. The bots are not assumed to play well: they may time out, crash
  or print anything else.
\<close>

section \<open>An outside that works\<close>

definition clean_outcome :: "run_outcome \<Rightarrow> bool" where
  "clean_outcome r \<longleftrightarrow>
     (case r of Completed returncode out err \<Rightarrow> pg_text out \<and> pg_text err | TimeoutExpired \<Rightarrow> True | RunFailed exc \<Rightarrow> pg_text exc)"

text \<open>What comes back for a turn: the answer of the server in the pod, or an error of the connection.\<close>

definition turn_answered :: "string res \<Rightarrow> bool" where
  "turn_answered r \<longleftrightarrow>
     (\<exists>msg. r = Inl (URLError msg) \<and> pg_text msg) \<or>
     (\<exists>spawn src symbol board. r = Inr (json_dumps (run_bot spawn src symbol board)) \<and>
        clean_outcome (spawn src (bot_stdin symbol board)))"

definition up_and_running :: "pod_status \<Rightarrow> bool" where
  "up_and_running pod \<longleftrightarrow> phase pod = Some ''Running'' \<and>
     (\<exists>rest. container_statuses pod = Some (True # rest)) \<and> (\<exists>ip. pod_ip pod = Some ip \<and> ip \<noteq> [])"

definition cluster_works :: "'w env \<Rightarrow> int \<Rightarrow> bool" where
  "cluster_works E pod_timeout \<longleftrightarrow>
     (\<forall>n m w. fst (create_namespaced_pod E n m w) = Inr ()) \<and>
     (\<forall>p n w. \<exists>pod. fst (read_namespaced_pod E p n w) = Inr pod \<and> up_and_running pod) \<and>
     (\<forall>w. fst (monotonic E (snd (monotonic E w))) < fst (monotonic E w) + pod_timeout) \<and>
     (\<forall>ip w. \<exists>body w'. urlopen_blocking E (health_request ip) w = Some (Inr body, w')) \<and>
     (\<forall>ip symbol board t w. symbol \<in> {''X'', ''O''} \<longrightarrow> wf_board board \<longrightarrow>
        turn_answered (fst (urlopen E (turn_request ip symbol (board_to_str board)) t w)))"

definition cooperative :: "'w outside \<Rightarrow> int \<Rightarrow> bool" where
  "cooperative W pod_timeout \<longleftrightarrow> cluster_works (o_env W) pod_timeout \<and>
     o_broker W = (\<lambda>_. None) \<and> (\<forall>n k. pg_text (o_token_hex W n k))"

section \<open>Pods come up\<close>

lemma cluster_worksD:
  assumes "cluster_works E T"
  shows "\<exists>w'. create_namespaced_pod E n m w = (Inr (), w')"
    and "\<exists>pod w'. read_namespaced_pod E p n w = (Inr pod, w') \<and> up_and_running pod"
    and "\<exists>now w1 now1 w2. monotonic E w = (now, w1) \<and> monotonic E w1 = (now1, w2) \<and> now1 < now + T"
    and "\<exists>body w'. urlopen_blocking E (health_request ip) w = Some (Inr body, w')"
    and "symbol \<in> {''X'', ''O''} \<Longrightarrow> wf_board b \<Longrightarrow>
      \<exists>r w'. urlopen E (turn_request ip symbol (board_to_str b)) t w = (r, w') \<and> turn_answered r"
proof -
  have C: "fst (create_namespaced_pod E n m w) = Inr ()"
    "\<exists>pod. fst (read_namespaced_pod E p n w) = Inr pod \<and> up_and_running pod"
    "fst (monotonic E (snd (monotonic E w))) < fst (monotonic E w) + T"
    "\<exists>body w'. urlopen_blocking E (health_request ip) w = Some (Inr body, w')"
    "symbol \<in> {''X'', ''O''} \<longrightarrow> wf_board b \<longrightarrow> turn_answered (fst (urlopen E (turn_request ip symbol (board_to_str b)) t w))"
    using assms by (simp_all add: cluster_works_def)
  show "\<exists>w'. create_namespaced_pod E n m w = (Inr (), w')" using C(1) by (metis prod.collapse)
  show "\<exists>pod w'. read_namespaced_pod E p n w = (Inr pod, w') \<and> up_and_running pod"
    using C(2) by (metis prod.collapse)
  show "\<exists>now w1 now1 w2. monotonic E w = (now, w1) \<and> monotonic E w1 = (now1, w2) \<and> now1 < now + T"
    using C(3) by (metis prod.collapse)
  show "\<exists>body w'. urlopen_blocking E (health_request ip) w = Some (Inr body, w')"
    by (fact C(4))
  show "\<exists>r w'. urlopen E (turn_request ip symbol (board_to_str b)) t w = (r, w') \<and> turn_answered r"
    if "symbol \<in> {''X'', ''O''}" "wf_board b"
    using C(5) that by (cases "urlopen E (turn_request ip symbol (board_to_str b)) t w") auto
qed

lemma get_pod_ip_works: "cluster_works E T \<Longrightarrow> \<exists>ip w'. get_pod_ip E p w = (Inr ip, w')"
  using cluster_worksD(2) [of E T p NAMESPACE w] by (auto simp: get_pod_ip_def up_and_running_def)

lemma wait_for_pod_ready_works:
  assumes "cluster_works E T"
  shows "\<exists>w'. wait_for_pod_ready E p T w = Some (Inr (), w')"
proof -
  obtain now w1 now1 w2 where m: "monotonic E w = (now, w1)" "monotonic E w1 = (now1, w2)" "now1 < now + T"
    using cluster_worksD(3) [OF assms] by blast
  obtain pod w3 where pod: "read_namespaced_pod E p NAMESPACE w2 = (Inr pod, w3)" "up_and_running pod"
    using cluster_worksD(2) [OF assms] by blast
  have "check_pod_phase pod p = Inr True"
    using pod(2) by (auto simp: up_and_running_def check_pod_phase_def TERMINAL_POD_PHASES_def)
  with m pod(1) show ?thesis
    by (simp add: wait_for_pod_ready_def) (subst pod_ready_loop.simps, simp)
qed

lemma wait_for_http_ready_works:
  assumes "cluster_works E T"
  shows "\<exists>w'. wait_for_http_ready E ip T w = Some (Inr (), w')"
proof -
  obtain now w1 now1 w2 where m: "monotonic E w = (now, w1)" "monotonic E w1 = (now1, w2)" "now1 < now + T"
    using cluster_worksD(3) [OF assms] by blast
  obtain body w3 where "urlopen_blocking E (health_request ip) w2 = Some (Inr body, w3)"
    using cluster_worksD(4) [OF assms] by blast
  with m show ?thesis
    by (simp add: wait_for_http_ready_def) (subst http_ready_loop.simps, simp)
qed

lemma build_and_wait_works:
  assumes "cluster_works E T"
  shows "\<exists>w'. build_and_wait E T p img src i w = Some (Inr (), w')"
proof -
  obtain w1 where "create_namespaced_pod E ''bots'' (build_bot_pod_manifest p img src i) w = (Inr (), w1)"
    using cluster_worksD(1) [OF assms] by blast
  moreover obtain w2 where "wait_for_pod_ready E p T w1 = Some (Inr (), w2)"
    using wait_for_pod_ready_works [OF assms] by blast
  moreover obtain ip w3 where "get_pod_ip E p w2 = (Inr ip, w3)" using get_pod_ip_works [OF assms] by blast
  moreover obtain w4 where "wait_for_http_ready E ip T w3 = Some (Inr (), w4)"
    using wait_for_http_ready_works [OF assms] by blast
  ultimately show ?thesis by (simp add: build_and_wait_def)
qed

text \<open>The builder marks the bot ready and publishes its ready message.\<close>

lemma build_succeeds:
  assumes coop: "cooperative W T" and P: "pydantic_ok (o_pydantic W)" and d: "db_ok (s_db s)"
    and i: "i \<in> bot_ids (s_db s)" and key: "is_runtime key"
  obtains w where "handle_build_pod_message W T (dump_build (o_pydantic W) \<lparr>bp_bot_id = i, bp_runtime_key = key\<rparr>) s =
    Some (Inr (), s\<lparr>s_world := w, s_db := set_pod_ready i (pod_name i) (s_db s), s_tried := s_tried s + 1,
      s_log := s_log s @ [(POD_READY_QUEUE, dump_ready (o_pydantic W) \<lparr>pr_bot_id = i\<rparr>)]\<rparr>)"
proof -
  let ?m = "\<lparr>bp_bot_id = i, bp_runtime_key = key\<rparr>"
  obtain runtime where rt: "map_of RUNTIMES key = Some runtime" using key by (auto simp: is_runtime_def)
  obtain b where b: "b \<in> set (bots (s_db s))" "b_id b = i" using i by (rule bot_idsE)
  obtain f where f: "by_ids [i] (s_db s) = Inr f" using by_ids_known [OF d, of "[i]"] i by auto
  have "f i = Some b" using by_ids_bot [OF d f b(1)] b(2) by simp
  with rt f have fetch: "fetch_bot_and_runtime ?m s = (Inr (Some (b, runtime)), s)"
    by (simp add: fetch_bot_and_runtime_def prog_simps)
  have works: "cluster_works (o_env W) T" using coop by (simp add: cooperative_def)
  obtain w where "build_and_wait (o_env W) T (pod_name i) (rt_image runtime) (bot_source_b64 b) i (s_world s) = Some (Inr (), w)"
    using build_and_wait_works [OF works] by blast
  with coop fetch show ?thesis
    by (intro that [of w]) (simp add: handle_build_pod_message_def parse_amqp_message_def pydantic_okD [OF P]
        build_register_and_notify_def register_and_notify_def b(2) cooperative_def prog_simps)
qed

section \<open>Matches end with something to store\<close>

lemma nul_code: "of_char CHR 0x00 = (0 :: nat)"
  by simp

lemma hex_char_not_nul: "d < 16 \<Longrightarrow> CHR 0x00 \<noteq> hex_char d"
proof
  assume d: "d < 16" and "CHR 0x00 = hex_char d"
  then have "of_char (hex_char d) = (0 :: nat)" by (metis nul_code)
  moreover have "of_char (hex_char d) = (if d < 10 then 48 + d else 87 + d)"
    using d by (simp add: hex_char_def)
  ultimately show False by (simp split: if_splits)
qed

lemma repr_char_text: "c \<noteq> CHR 0x00 \<Longrightarrow> pg_text (repr_char q c)"
proof -
  assume c: "c \<noteq> CHR 0x00"
  have "of_char c div 16 < (16 :: nat)" "of_char c mod 16 < (16 :: nat)"
    using of_char_less [of c] by (simp_all add: less_mult_imp_div_less)
  with c show ?thesis by (auto simp: repr_char_def hex2_def pg_text_def hex_char_not_nul)
qed

lemma pg_text_repr:
  assumes "pg_text s"
  shows "pg_text (py_repr s)"
proof -
  have "pg_text (concat (map (repr_char q) s))" for q
    using assms by (induction s) (simp_all add: pg_text_simps repr_char_text)
  then show ?thesis by (simp add: py_repr_def Let_def pg_text_simps)
qed

lemma set_py_strip: "c \<in> set (py_strip s) \<Longrightarrow> c \<in> set s"
proof -
  assume "c \<in> set (py_strip s)"
  then have "c \<in> set (dropWhile py_isspace (rev (dropWhile py_isspace s)))" by (simp add: py_strip_def)
  then have "c \<in> set (rev (dropWhile py_isspace s))" by (rule set_dropWhileD)
  then have "c \<in> set (dropWhile py_isspace s)" by simp
  then show "c \<in> set s" by (rule set_dropWhileD)
qed

lemma pg_text_strip: "pg_text s \<Longrightarrow> pg_text (py_strip s)"
  unfolding pg_text_def using set_py_strip by blast

definition storable_error :: "json \<Rightarrow> bool" where
  "storable_error e \<longleftrightarrow> e = JNull \<or> (\<exists>s. e = JStr s \<and> pg_text s)"

definition clean_response :: "TurnResponse \<Rightarrow> bool" where
  "clean_response r \<longleftrightarrow>
     tr_error r = JNull \<and> (\<exists>t. tr_board r = JStr t \<and> t \<noteq> [] \<and> pg_text t) \<or>
     tr_board r = JNull \<and> (\<exists>e. tr_error r = JStr e \<and> e \<noteq> [] \<and> pg_text e)"

lemma clean_outcome_response: "clean_outcome r \<Longrightarrow> clean_response (outcome_response r)"
  by (auto simp: clean_outcome_def clean_response_def outcome_response_def pg_text_strip split: run_outcome.splits)
    (auto simp: pg_text_def dest: pg_text_strip [unfolded pg_text_def])

lemma validate_move_text:
  assumes "wf_board old" and "wf_board new" and "s \<in> {''X'', ''O''}"
  obtains m where "validate_move old new s = Inr m" and "\<forall>t \<in> set_option m. pg_text t"
proof -
  have cell: "pg_text (new ! r ! c)" if "(r, c) \<in> set (diff_cells old new)" for r c
  proof -
    have "is_cell (new ! r ! c)" using that wf_boardD(3) [OF assms(2)] by (simp add: diff_cells_mem)
    then show ?thesis by (rule pg_text_cell)
  qed
  show ?thesis
    by (rule that [OF validate_move_wf [OF assms(1,2)]])
      (use assms(3) cell in \<open>auto simp: pg_text_simps split: list.split\<close>)
qed

text \<open>A turn gives a board, or an error text.\<close>

definition clean_turn :: "turn_result \<Rightarrow> bool" where
  "clean_turn tr \<longleftrightarrow> (case tr of (Some b, e) \<Rightarrow> e = JNull | (None, e) \<Rightarrow> \<exists>t. e = JStr t \<and> pg_text t)"

lemma judge_clean:
  assumes "wf_board b" and "symbol \<in> {''X'', ''O''}" and "clean_response r"
  obtains tr where "judge_response b symbol r = Inr tr" and "clean_turn tr"
proof (cases "tr_error r = JNull")
  case False
  then obtain e where e: "tr_error r = JStr e" "e \<noteq> []" "pg_text e" using assms(3) by (auto simp: clean_response_def)
  then show ?thesis
    by (intro that [of "(None, JStr e)"]) (simp_all add: judge_response_def forfeit_def clean_turn_def)
next
  case True
  then obtain t where t: "tr_board r = JStr t" "t \<noteq> []" "pg_text t" using assms(3) by (auto simp: clean_response_def)
  show ?thesis
  proof (cases "parse_board t")
    case None
    with True t show ?thesis
      by (intro that [of "(None, JStr (''invalid output: unparseable board: '' @ py_repr t))"])
        (simp_all add: judge_response_def forfeit_def parse_board_value_def value_repr_def clean_turn_def
          pg_text_simps pg_text_repr)
  next
    case (Some b')
    have wf: "wf_board b'" using parse_board_wf [OF Some] .
    obtain m where m: "validate_move b b' symbol = Inr m" "\<forall>t \<in> set_option m. pg_text t"
      using validate_move_text [OF assms(1) wf assms(2)] .
    show ?thesis
    proof (cases m)
      case None
      with True t Some m show ?thesis
        by (intro that [of "(Some b', JNull)"]) (simp_all add: judge_response_def parse_board_value_def clean_turn_def)
    next
      case msg: (Some msg)
      have "msg \<noteq> []" using validate_move_msg m(1) msg by blast
      with True t Some m msg show ?thesis
        by (intro that [of "(None, JStr msg)"])
          (simp_all add: judge_response_def forfeit_def parse_board_value_def clean_turn_def)
    qed
  qed
qed

lemma play_turn_works:
  assumes "cluster_works E T" and "wf_board b" and "symbol \<in> {''X'', ''O''}"
  obtains tr w' where "play_turn E symbol ip b t w = (Inr tr, w')" and "clean_turn tr"
proof -
  obtain r w' where r: "urlopen E (turn_request ip symbol (board_to_str b)) t w = (r, w')" "turn_answered r"
    using cluster_worksD(5) [OF assms(1,3,2)] by blast
  from r(2) consider (refused) msg where "r = Inl (URLError msg)" "pg_text msg"
    | (answer) spawn src s bd where "r = Inr (json_dumps (run_bot spawn src s bd))" "clean_outcome (spawn src (bot_stdin s bd))"
    unfolding turn_answered_def by blast
  then show ?thesis
  proof cases
    case refused
    with r(1) show ?thesis
      by (intro that [of "forfeit (JStr (''HTTP error: '' @ msg))" w'])
        (simp_all add: play_turn_def request_turn_def catch_url_error_def forfeit_def clean_turn_def pg_text_simps)
  next
    case answer
    obtain tr where tr: "judge_response b symbol (outcome_response (spawn src (bot_stdin s bd))) = Inr tr" "clean_turn tr"
      using judge_clean [OF assms(2,3) clean_outcome_response [OF answer(2)]] .
    have "request_turn E ip symbol (board_to_str b) t w = (Inr (outcome_response (spawn src (bot_stdin s bd))), w')"
      using r(1) answer(1) by (simp add: request_turn_def parse_run_bot del: json_dumps.simps)
    with tr show ?thesis by (intro that [of tr w']) (simp_all add: play_turn_def catch_url_error_def)
  qed
qed

lemma play_loop_works:
  assumes "cluster_works E T" and "schedule_ok n ts" and "wf_board b"
    and "\<forall>mv \<in> set mvs. storable_error (mv_error mv)"
  shows "\<exists>res w'. play_loop E t ts b mvs w = (Inr res, w') \<and>
    (\<forall>mr. res = Some mr \<longrightarrow> (\<forall>mv \<in> set (mr_moves mr). storable_error (mv_error mv)))"
  using assms(2-4)
proof (induction ts arbitrary: n b mvs w)
  case (Cons kt ts)
  obtain k turn where kt: "kt = (k, turn)" by (cases kt)
  with Cons.prems(1) have k: "t_symbol turn = symbol_of n" "schedule_ok (Suc n) ts" by auto
  have sym: "t_symbol turn \<in> {''X'', ''O''}" unfolding k(1) by (rule symbol_of_mem)
  obtain tr w1 where tr: "play_turn E (t_symbol turn) (t_pod_ip turn) b t w = (Inr tr, w1)" "clean_turn tr"
    using play_turn_works [OF assms(1) Cons.prems(2) sym] .
  show ?case
  proof (cases "fst tr")
    case None
    then obtain e where "tr = (None, JStr e)" "pg_text e" using tr(2) by (cases tr) (auto simp: clean_turn_def)
    with kt tr(1) Cons.prems(3) show ?thesis by (auto simp: storable_error_def)
  next
    case (Some b')
    then have b': "tr = (Some b', JNull)" using tr(2) by (cases tr) (simp add: clean_turn_def)
    have wf: "wf_board b'" using play_turn_board [OF tr(1) [unfolded b'] Cons.prems(2) sym] by simp
    obtain o' where o': "check_winner b' = Inr o'" using check_winner_total [OF wf] by blast
    let ?mvs = "mvs @ [\<lparr>mv_number = k, mv_player = t_player turn, mv_board = board_to_str b', mv_error = JNull\<rparr>]"
    have mvs: "\<forall>mv \<in> set ?mvs. storable_error (mv_error mv)" using Cons.prems(3) by (auto simp: storable_error_def)
    show ?thesis
    proof (cases o')
      case None
      have "play_loop E t (kt # ts) b mvs w = play_loop E t ts b' ?mvs w1"
        by (simp add: kt tr(1) b' o' None)
      with Cons.IH [OF k(2) wf mvs] show ?thesis by simp
    next
      case (Some outcome)
      have "play_loop E t (kt # ts) b mvs w = (Inr (Some \<lparr>mr_result = outcome, mr_moves = ?mvs\<rparr>), w1)"
        by (simp add: kt tr(1) b' o' Some)
      with mvs show ?thesis by simp
    qed
  qed
qed simp

lemma run_match_works:
  assumes "cluster_works E T"
  obtains mr w' where "run_match_from_pods E px po t w = (Inr (Some mr), w')"
    and "\<forall>mv \<in> set (mr_moves mr). storable_error (mv_error mv)"
    and "transcript_from 1 EMPTY_BOARD (mr_moves mr) (mr_result mr)"
proof -
  obtain ip_x w1 where x: "get_pod_ip E px w = (Inr ip_x, w1)" using get_pod_ip_works [OF assms] by blast
  obtain ip_o w2 where o': "get_pod_ip E po w1 = (Inr ip_o, w2)" using get_pod_ip_works [OF assms] by blast
  obtain res w3 where run: "run_match_from_pods E px po t w = (Inr res, w3)"
    and clean: "\<forall>mr. res = Some mr \<longrightarrow> (\<forall>mv \<in> set (mr_moves mr). storable_error (mv_error mv))"
    using play_loop_works [OF assms turn_schedule_ok wf_EMPTY_BOARD, where mvs = "[]" and t = t and w = w2] x o'
    unfolding run_match_from_pods_def by (metis (no_types, lifting) case_prod_conv empty_iff list.set(1) sum.case(2))
  obtain mr where "res = Some mr" "transcript_from 1 EMPTY_BOARD (mr_moves mr) (mr_result mr)"
    using run_match_transcript [OF run] by auto
  with run clean show ?thesis by (intro that [of mr w3]) simp_all
qed

text \<open>Room in the sequences for \<open>n\<close> more matches of nine moves, and one to spare of each.\<close>

definition room :: "nat \<Rightarrow> db \<Rightarrow> bool" where
  "room n d \<longleftrightarrow> matches_seq d + int n < 2 ^ 31 \<and> moves_seq d + 9 * (int n + 1) \<le> 2 ^ 31"

lemma move_rows_works:
  "\<forall>mv \<in> set mvs. storable_error (mv_error mv) \<Longrightarrow> \<exists>rows. move_rows seq mid x y mvs = Inr rows"
proof (induction mvs arbitrary: seq)
  case (Cons mv mvs)
  then obtain rows where "move_rows (seq + 1) mid x y mvs = Inr rows" by fastforce
  moreover obtain e where "error_column (mv_error mv) = Inr e"
    using Cons.prems by (auto simp: storable_error_def error_column_def)
  ultimately show ?case by simp
qed simp

lemma record_works:
  assumes "db_ok d" and "x \<in> bot_ids d" and "y \<in> bot_ids d" and "pg_text cid" and "room n d"
    and "\<forall>mv \<in> set (mr_moves mr). storable_error (mv_error mv)" and "length (mr_moves mr) \<le> 9"
  obtains d' where "record_match x y mr cid now d = (Inr (), d')"
    and "matches_seq d' = matches_seq d + 1" and "moves_seq d' \<le> moves_seq d + 9"
proof -
  obtain rows where rows: "move_rows (moves_seq d) (matches_seq d) x y (mr_moves mr) = Inr rows"
    using move_rows_works assms(6) by blast
  have len: "length rows \<le> 9" using move_rows_keys(2) [OF rows] assms(7) by simp
  have seqs: "pg_int4 (matches_seq d)" "\<not> moves_seq d + int (length rows) > 2 ^ 31"
    using assms(1,5) len by (auto simp: room_def db_ok_def seqs_ok_def)
  have ids: "pg_int4 x" "pg_int4 y" using db_ok_int4(1) [OF assms(1)] assms(2,3) by blast+
  obtain d' where rec: "record_match x y mr cid now d = (Inr (), d')" "matches_seq d' = matches_seq d + 1"
      "moves_seq d' = moves_seq d + int (length rows)"
    using rows seqs ids assms(2-4) by (simp add: record_match_def Let_def bot_ids_def)
  with len show ?thesis by (intro that [of d']) simp_all
qed

text \<open>The match runner records the match it is asked for.\<close>

lemma ondeck_succeeds:
  assumes coop: "cooperative W T" and ok: "pipe_ok W s"
    and taken: "take_one MATCH_ONDECK_QUEUE s = Some (body, s1)"
    and body: "body = dump_ondeck (o_pydantic W) (ondeck_message x y cid)" and cid: "pg_text cid"
    and room: "room n (s_db s)"
  obtains t m where "handle_match_ondeck W body s1 = (Inr (), t)"
    and "matches (s_db t) = matches (s_db s) @ [m]" and "m_bot_x_id m = x" and "m_bot_o_id m = y"
    and "s_log t = s_log s" and "s_taken t = s_taken s1" and "bots (s_db t) = bots (s_db s)"
    and "matches_seq (s_db t) = matches_seq (s_db s) + 1" and "moves_seq (s_db t) \<le> moves_seq (s_db s) + 9"
proof -
  have P: "pydantic_ok (o_pydantic W)" and d: "db_ok (s_db s)" using ok by (simp_all add: pipe_ok_def)
  have s1: "s_db s1 = s_db s" "s_log s1 = s_log s" using take_one_Some(2) [OF taken] by simp_all
  have valid: "validate_ondeck (o_pydantic W) body = Some (ondeck_message x y cid)"
    by (simp add: body pydantic_okD [OF P])
  obtain x' y' cid' where "validate_ondeck (o_pydantic W) body = Some (ondeck_message x' y' cid')"
    and ready': "x' \<in> ready_ids (s_db s)" "y' \<in> ready_ids (s_db s)"
    and fetch': "fetch_match_bots x' y' s1 = (Inr (Some (pod_name x', pod_name y')), s1)"
    using ondeck_message_found [OF ok taken] by metis
  with valid have eq: "x' = x" "y' = y" by (simp_all add: ondeck_message_def)
  note fetch = fetch' [unfolded eq]
  have ids: "x \<in> bot_ids (s_db s)" "y \<in> bot_ids (s_db s)" using ready' ready_ids_bots unfolding eq by blast+
  have works: "cluster_works (o_env W) T" and broker: "o_broker W = (\<lambda>_. None)"
    using coop by (simp_all add: cooperative_def)
  obtain mr w where run: "run_match_from_pods (o_env W) (pod_name x) (pod_name y) TURN_TIMEOUT (s_world s1) = (Inr (Some mr), w)"
    and clean: "\<forall>mv \<in> set (mr_moves mr). storable_error (mv_error mv)"
    and game: "transcript_from 1 EMPTY_BOARD (mr_moves mr) (mr_result mr)"
    using run_match_works [OF works] .
  have len: "length (mr_moves mr) \<le> 9" using transcript_shape [OF game in_play.start] by simp
  obtain d' where rec: "record_match x y mr cid (o_now W w) (s_db s) = (Inr (), d')"
    and seqs: "matches_seq d' = matches_seq (s_db s) + 1" "moves_seq d' \<le> moves_seq (s_db s) + 9"
    using record_works [OF d ids cid room clean len] .
  let ?t = "s1\<lparr>s_world := w, s_db := d', s_tried := s_tried s1 + 1,
      s_events := s_events s1 @ [event_body EVENT_MATCH_FINISHED [(''result'', JStr (outcome_value (mr_result mr)))]]\<rparr>"
  have "handle_match_ondeck W body s1 = (Inr (), ?t)"
    using valid fetch run rec s1 broker
    by (simp add: handle_match_ondeck_def ondeck_message_def record_result_def publish_match_finished_def prog_simps)
  then show ?thesis
    by (rule that [where m = "recorded x y mr cid (o_now W w) (s_db s)"])
      (use seqs s1 record_match_tables [OF rec] in simp_all)
qed

end
