(* ===== verification/Tournament.thy ===== *)
theory Tournament
  imports Pipeline
begin

text \<open>
  What the services are for, without queues, messages and pods: a tournament in which bots register
  and enter, an entrant is drawn against the entrants, and fixtures are played in their order or
  abandoned. The services refine it: \<open>tournament_of\<close> reads a tournament off their state, and every
  step of theirs is a step of the tournament or leaves it as it is.
\<close>

section \<open>The specification\<close>

record tournament =
  registered :: "int set"
  entrants :: "int set"
  fixtures :: "(int \<times> int) list"
  results :: "(int \<times> int \<times> string) list"

definition no_tournament :: tournament where
  "no_tournament = \<lparr>registered = {}, entrants = {}, fixtures = [], results = []\<rparr>"

text \<open>A draw may be cut short, when the broker refuses a message; a game has a legal transcript.\<close>

inductive tournament_step :: "tournament \<Rightarrow> tournament \<Rightarrow> bool" where
  register: "i \<notin> registered t \<Longrightarrow> tournament_step t (t\<lparr>registered := insert i (registered t)\<rparr>)"
| enter: "i \<in> registered t \<Longrightarrow> tournament_step t (t\<lparr>entrants := insert i (entrants t)\<rparr>)"
| draw: "i \<in> entrants t \<Longrightarrow> distinct js \<Longrightarrow> set js = entrants t \<Longrightarrow>
     tournament_step t (t\<lparr>fixtures := fixtures t @ take k (pairings i js)\<rparr>)"
| play: "fixtures t = (x, y) # rest \<Longrightarrow> transcript_from 1 EMPTY_BOARD mvs r \<Longrightarrow>
     tournament_step t (t\<lparr>fixtures := rest, results := results t @ [(x, y, outcome_value r)]\<rparr>)"
| abandon: "fixtures t = (x, y) # rest \<Longrightarrow> tournament_step t (t\<lparr>fixtures := rest\<rparr>)"

inductive_cases tournament_stepE: "tournament_step t u"

definition tournament_ok :: "tournament \<Rightarrow> bool" where
  "tournament_ok t \<longleftrightarrow> entrants t \<subseteq> registered t \<and> set (fixtures t) \<subseteq> entrants t \<times> entrants t \<and>
     (\<forall>(x, y, r) \<in> set (results t). x \<in> entrants t \<and> y \<in> entrants t)"

lemma tournament_ok_step:
  assumes ok: "tournament_ok t" and step: "tournament_step t u"
  shows "tournament_ok u"
  using step
proof (cases rule: tournament_step.cases)
  case (register i)
  show ?thesis using ok unfolding tournament_ok_def register(1) by auto
next
  case (enter i)
  show ?thesis using ok enter(2) unfolding tournament_ok_def enter(1) by auto
next
  case (draw i js k)
  have "set (take k (pairings i js)) \<subseteq> set (pairings i js)" by (rule set_take_subset)
  also have "\<dots> \<subseteq> entrants t \<times> entrants t" unfolding set_pairings draw(4) using draw(2) by blast
  finally have "set (take k (pairings i js)) \<subseteq> entrants t \<times> entrants t" .
  then show ?thesis using ok unfolding tournament_ok_def draw(1) by auto
next
  case (play x y rest mvs r)
  show ?thesis using ok play(2) unfolding tournament_ok_def play(1) by auto
next
  case (abandon x y rest)
  show ?thesis using ok abandon(2) unfolding tournament_ok_def abandon(1) by auto
qed

interpretation tournament: transition_system "\<lambda>t. t = no_tournament" tournament_step tournament_ok
proof
  show "s = no_tournament \<Longrightarrow> tournament_ok s" for s
    by (simp add: tournament_ok_def no_tournament_def)
qed (rule tournament_ok_step)

section \<open>The abstraction\<close>

definition fixture :: "'w outside \<Rightarrow> string \<Rightarrow> int \<times> int" where
  "fixture W body =
     (case validate_ondeck (o_pydantic W) body of
        Some m \<Rightarrow> (mo_bot_x_id m, mo_bot_o_id m)
      | None \<Rightarrow> (0, 0))"

definition tournament_of :: "'w outside \<Rightarrow> 'w sys \<Rightarrow> tournament" where
  "tournament_of W s =
     \<lparr>registered = bot_ids (s_db s), entrants = ready_ids (s_db s),
      fixtures = map (fixture W) (waiting MATCH_ONDECK_QUEUE s),
      results = map (\<lambda>m. (m_bot_x_id m, m_bot_o_id m, m_result m)) (matches (s_db s))\<rparr>"

lemma tournament_of_eqI:
  assumes "bot_ids (s_db t) = bot_ids (s_db s)" and "ready_ids (s_db t) = ready_ids (s_db s)"
    and "waiting MATCH_ONDECK_QUEUE t = waiting MATCH_ONDECK_QUEUE s" and "matches (s_db t) = matches (s_db s)"
  shows "tournament_of W t = tournament_of W s"
  using assms by (simp add: tournament_of_def)

lemma waiting_append:
  assumes "s_taken t = s_taken s" and "s_log t = s_log s @ ms" and "cursors_ok s"
  shows "waiting q t = waiting q s @ map snd (filter (\<lambda>m. fst m = q) ms)"
  using assms by (simp add: waiting_def sent_to_def cursors_ok_def)

lemma waiting_taken_other: "take_one q s = Some (b, s1) \<Longrightarrow> q' \<noteq> q \<Longrightarrow> waiting q' s1 = waiting q' s"
  using take_one_Some(2) [of q s b s1] by (simp add: waiting_def sent_to_def)

lemma tournament_of_taken_other:
  assumes "take_one q s = Some (b, s1)" and "q \<noteq> MATCH_ONDECK_QUEUE"
  shows "tournament_of W s1 = tournament_of W s"
  by (rule tournament_of_eqI)
    (use take_one_Some(2) [OF assms(1)] waiting_taken_other [OF assms(1)] assms(2) in auto)

text \<open>No queue is read beyond what was sent to it.\<close>

lemma reachable_cursors: "reachable_state W p T s \<Longrightarrow> cursors_ok s"
  unfolding reachable_state_eq
proof (rule pipeline.reachable_induct)
  show "start_state W s \<Longrightarrow> cursors_ok s" for s :: "'a sys"
    by (simp add: start_state_def cursors_ok_def)
  fix s t :: "'a sys"
  assume c: "cursors_ok s" and "pipe_step W p T s t"
  from this(2) show "cursors_ok t"
  proof (cases rule: pipe_step.cases)
    case (submit src cookie r)
    then show ?thesis using c cursors_ok_grows grows_handle_submission keepsD by metis
  next
    case (build body s1 r)
    then show ?thesis using c cursors_ok_taken cursors_ok_grows grows_handle_build_pod_message by metis
  next
    case (schedule body s1 r)
    then show ?thesis using c cursors_ok_taken cursors_ok_grows grows_handle_pod_ready_message keepsD by metis
  next
    case (ondeck body s1 r)
    then show ?thesis using c cursors_ok_taken cursors_ok_grows grows_handle_match_ondeck keepsD by metis
  next
    case (outside w)
    then show ?thesis using c by (simp add: cursors_ok_def sent_to_def)
  qed
qed

section \<open>The services refine the tournament\<close>

definition refines :: "'w outside \<Rightarrow> 'w sys \<Rightarrow> 'w sys \<Rightarrow> bool" where
  "refines W s t \<longleftrightarrow> tournament_of W t = tournament_of W s \<or> tournament_step (tournament_of W s) (tournament_of W t)"

lemma insert_version_ids:
  assumes "db_ok (s_db s)" and "insert_version W n tok key src s = (r, d)"
  shows "ready_ids d = ready_ids (s_db s)" and "matches d = matches (s_db s)"
    and "bot_ids d = bot_ids (s_db s) \<or> (\<exists>i. i \<notin> bot_ids (s_db s) \<and> bot_ids d = insert i (bot_ids (s_db s)))"
proof -
  have fresh: "bots_seq (s_db s) \<notin> bot_ids (s_db s)"
    using db_okD(5) [OF assms(1)] by (force simp: bot_ids_def)
  show "ready_ids d = ready_ids (s_db s)" "matches d = matches (s_db s)"
    using assms(2)
    by (auto simp: insert_version_def create_bot_def Let_def ready_ids_def ready_bots_def split: if_splits)
  have "bot_ids d = bot_ids (s_db s) \<or> bot_ids d = insert (bots_seq (s_db s)) (bot_ids (s_db s))"
    using assms(2) by (auto simp: insert_version_def create_bot_def Let_def bot_ids_def split: if_splits)
  then show "bot_ids d = bot_ids (s_db s) \<or>
      (\<exists>i. i \<notin> bot_ids (s_db s) \<and> bot_ids d = insert i (bot_ids (s_db s)))"
    using fresh by blast
qed

lemma refines_register:
  assumes c: "cursors_ok s" and taken: "s_taken t = s_taken s"
    and log: "s_log t = s_log s @ ms" "\<forall>m \<in> set ms. fst m \<noteq> MATCH_ONDECK_QUEUE"
    and d: "ready_ids (s_db t) = ready_ids (s_db s)" "matches (s_db t) = matches (s_db s)"
      "bot_ids (s_db t) = bot_ids (s_db s) \<or>
       (\<exists>i. i \<notin> bot_ids (s_db s) \<and> bot_ids (s_db t) = insert i (bot_ids (s_db s)))"
  shows "refines W s t"
proof -
  have "filter (\<lambda>m. fst m = MATCH_ONDECK_QUEUE) ms = []" using log(2) by (simp add: filter_empty_conv)
  then have w: "waiting MATCH_ONDECK_QUEUE t = waiting MATCH_ONDECK_QUEUE s"
    using waiting_append [OF taken log(1) c] by simp
  from d(3) show ?thesis
  proof
    assume "bot_ids (s_db t) = bot_ids (s_db s)"
    then show ?thesis using tournament_of_eqI [OF _ d(1) w d(2)] by (simp add: refines_def)
  next
    assume "\<exists>i. i \<notin> bot_ids (s_db s) \<and> bot_ids (s_db t) = insert i (bot_ids (s_db s))"
    then obtain i where i: "i \<notin> bot_ids (s_db s)" "bot_ids (s_db t) = insert i (bot_ids (s_db s))" by blast
    then have "tournament_step (tournament_of W s)
        ((tournament_of W s)\<lparr>registered := insert i (registered (tournament_of W s))\<rparr>)"
      by (intro tournament_step.register) (simp add: tournament_of_def)
    moreover have "tournament_of W t = (tournament_of W s)\<lparr>registered := insert i (registered (tournament_of W s))\<rparr>"
      using i d w by (simp add: tournament_of_def)
    ultimately show ?thesis by (simp add: refines_def)
  qed
qed

lemma submit_refines:
  assumes ok: "pipe_ok W s" and c: "cursors_ok s" and run: "handle_submission W p src cookie s = (r, t)"
  shows "refines W s t"
proof -
  have db: "db_ok (s_db s)" using ok by (simp add: pipe_ok_def)
  have "grows s t" using grows_handle_submission run by (rule keepsD)
  then have taken: "s_taken t = s_taken s" by (simp add: grows_def)
  from run show ?thesis
  proof (cases rule: handle_submission_cases)
    case rejected
    then show ?thesis by (simp add: refines_def)
  next
    case (accepted n key)
    from accepted(5) show ?thesis
    proof (cases rule: submit_bot_cases)
      case nothing
      then show ?thesis by (intro refines_register [OF c taken, where ms = "[]"]) simp_all
    next
      case (failed s0 tok e d)
      have "insert_version W n tok key src s = (Inl e, d)"
        using failed insert_version_world by metis
      note d = insert_version_ids [OF db this]
      show ?thesis by (rule refines_register [OF c taken, where ms = "[]"]) (use failed d in simp_all)
    next
      case (inserted s0 tok b d ms)
      have "insert_version W n tok key src s = (Inr b, d)"
        using inserted insert_version_world by metis
      note d = insert_version_ids [OF db this]
      have "\<forall>m \<in> set ms. fst m \<noteq> MATCH_ONDECK_QUEUE" using inserted(5) by auto
      then show ?thesis
        by (intro refines_register [OF c taken, where ms = ms]) (use inserted d in simp_all)
    qed
  qed
qed

lemma refines_enter:
  assumes c: "cursors_ok s" and taken: "s_taken t = s_taken s"
    and b: "b \<in> set (bots (s_db s))" and db: "s_db t = set_pod_ready (b_id b) pname (s_db s)"
    and log: "s_log t = s_log s @ ms" "\<forall>m \<in> set ms. fst m \<noteq> MATCH_ONDECK_QUEUE"
  shows "refines W s t"
proof -
  let ?t = "(tournament_of W s)\<lparr>entrants := insert (b_id b) (entrants (tournament_of W s))\<rparr>"
  have i: "b_id b \<in> bot_ids (s_db s)" using b by (simp add: bot_ids_def)
  have "filter (\<lambda>m. fst m = MATCH_ONDECK_QUEUE) ms = []" using log(2) by (simp add: filter_empty_conv)
  then have w: "waiting MATCH_ONDECK_QUEUE t = waiting MATCH_ONDECK_QUEUE s"
    using waiting_append [OF taken log(1) c] by simp
  have "matches (s_db t) = matches (s_db s)" by (simp add: db set_pod_ready_def)
  then have "tournament_of W t = ?t"
    using i w by (simp add: tournament_of_def db ready_ids_set_pod_ready)
  moreover have "tournament_step (tournament_of W s) ?t"
    using i by (intro tournament_step.enter) (simp add: tournament_of_def)
  ultimately show ?thesis by (simp add: refines_def)
qed

lemma build_refines:
  assumes c: "cursors_ok s" and run: "handle_build_pod_message W T body s = Some (r, t)"
  shows "refines W s t"
  using run
proof (cases rule: handle_build_pod_message_cases)
  case ignored
  then show ?thesis by (simp add: refines_def)
next
  case (build_failed e w)
  then show ?thesis by (simp add: refines_def tournament_of_def waiting_def sent_to_def)
next
  case (ready b w)
  then show ?thesis
    by (intro refines_enter [OF c, where ms = "[(POD_READY_QUEUE, dump_ready (o_pydantic W) \<lparr>pr_bot_id = b_id b\<rparr>)]"])
      simp_all
next
  case (broker_failed b w e)
  then show ?thesis by (intro refines_enter [OF c, where ms = "[]"]) simp_all
qed

lemma fixtures_ondeck_bodies:
  assumes "pydantic_ok (o_pydantic W)"
  shows "map (fixture W) (map snd (ondeck_bodies W k ps)) = ps"
proof (induction ps arbitrary: k)
  case (Cons p ps)
  then show ?case
    by (cases p) (simp add: fixture_def pydantic_okD [OF assms] ondeck_message_def)
qed simp

lemma fst_ondeck_bodies: "m \<in> set (ondeck_bodies W k ps) \<Longrightarrow> fst m = MATCH_ONDECK_QUEUE"
  by (induction W k ps rule: ondeck_bodies.induct) auto

lemma schedule_refines:
  assumes ok: "pipe_ok W s" and c: "cursors_ok s"
    and taken: "take_one POD_READY_QUEUE s = Some (body, s1)"
    and run: "handle_pod_ready_message W body s1 = (r, t)"
  shows "refines W s t"
proof -
  have P: "pydantic_ok (o_pydantic W)" and db: "db_ok (s_db s)" using ok by (simp_all add: pipe_ok_def)
  have s1: "s_db s1 = s_db s" "tournament_of W s1 = tournament_of W s" "cursors_ok s1"
    using take_one_Some(2) [OF taken] tournament_of_taken_other [OF taken] cursors_ok_taken [OF c taken]
    by simp_all
  have "msg_ok W (s_db s) (POD_READY_QUEUE, body)"
    using ok take_one_Some(1) [OF taken] by (simp add: pipe_ok_def)
  then obtain i where i: "body = dump_ready (o_pydantic W) \<lparr>pr_bot_id = i\<rparr>" "i \<in> ready_ids (s_db s)"
    by (auto simp: msg_ok_def)
  let ?js = "map b_id (ready_bots (s_db s))"
  obtain r' where "send_all W (pairings i ?js) 0 s1 = (r', t)"
    using run handle_pod_ready_message_run [OF P, of i s1] i(1) s1(1)
    by (auto split: prod.splits sum.splits)
  then obtain k e where t: "t = sent W (pairings i ?js) k e s1"
    using send_all_result [of "pairings i ?js" W s1 0] by auto
  let ?ms = "take k (ondeck_bodies W (s_drawn s1) (pairings i ?js))"
  have "filter (\<lambda>m. fst m = MATCH_ONDECK_QUEUE) ?ms = ?ms"
    by (rule filter_True) (auto dest: in_set_takeD fst_ondeck_bodies)
  moreover have "waiting MATCH_ONDECK_QUEUE t =
      waiting MATCH_ONDECK_QUEUE s1 @ map snd (filter (\<lambda>m. fst m = MATCH_ONDECK_QUEUE) ?ms)"
    by (rule waiting_append [OF _ _ s1(3)]) (simp_all add: t sent_def)
  ultimately have w: "map (fixture W) (waiting MATCH_ONDECK_QUEUE t) =
      map (fixture W) (waiting MATCH_ONDECK_QUEUE s1) @ take k (pairings i ?js)"
    using fixtures_ondeck_bodies [OF P, of "s_drawn s1" "pairings i ?js"]
    by (simp add: take_map [symmetric])
  let ?t = "(tournament_of W s)\<lparr>fixtures := fixtures (tournament_of W s) @ take k (pairings i ?js)\<rparr>"
  have "tournament_of W t = ?t"
    using w s1(1) arg_cong [OF s1(2), of fixtures] by (simp add: tournament_of_def t)
  moreover have "tournament_step (tournament_of W s) ?t"
  proof (rule tournament_step.draw)
    show "i \<in> entrants (tournament_of W s)" using i(2) by (simp add: tournament_of_def)
    show "distinct ?js" using db_okD(1) [OF db] by (simp add: ready_bots_def distinct_map_filter)
    show "set ?js = entrants (tournament_of W s)" by (simp add: tournament_of_def ready_ids_def)
  qed
  ultimately show ?thesis by (simp add: refines_def)
qed

lemma ondeck_refines:
  assumes ok: "pipe_ok W s" and taken: "take_one MATCH_ONDECK_QUEUE s = Some (body, s1)"
    and run: "handle_match_ondeck W body s1 = (r, t)"
  shows "refines W s t"
proof -
  have s1: "s_db s1 = s_db s" using take_one_Some(2) [OF taken] by simp
  obtain x y cid where msg: "validate_ondeck (o_pydantic W) body = Some (ondeck_message x y cid)"
    using ondeck_message_found [OF ok taken] by metis
  then have "fixture W body = (x, y)" by (simp add: fixture_def ondeck_message_def)
  then have rest: "fixtures (tournament_of W s) = (x, y) # map (fixture W) (waiting MATCH_ONDECK_QUEUE s1)"
    by (simp add: tournament_of_def take_one_Some(5) [OF taken])
  let ?rest = "map (fixture W) (waiting MATCH_ONDECK_QUEUE s1)"
  have dropped: "refines W s t"
    if "bots (s_db t) = bots (s_db s)" "matches (s_db t) = matches (s_db s)" "s_log t = s_log s1" "s_taken t = s_taken s1"
  proof -
    have "tournament_of W t = (tournament_of W s)\<lparr>fixtures := ?rest\<rparr>"
      using that by (simp add: tournament_of_def waiting_def sent_to_def bot_ids_def ready_ids_def ready_bots_def)
    then show ?thesis using tournament_step.abandon [OF rest] by (simp add: refines_def)
  qed
  have "grows s1 t" using grows_handle_match_ondeck run by (rule keepsD)
  then have same: "s_taken t = s_taken s1" by (simp add: grows_def)
  from run show ?thesis
  proof (cases rule: handle_match_ondeck_cases)
    case ignored
    with s1 show ?thesis by (intro dropped) simp_all
  next
    case (match_failed e w)
    with s1 show ?thesis by (intro dropped) simp_all
  next
    case (record_failed e m mr w d)
    with s1 record_match_Inl_tables [OF record_failed(3)] show ?thesis by (intro dropped) simp_all
  next
    case (recorded m mr w d)
    have m: "m = ondeck_message x y cid" using recorded(2) msg by simp
    note tables = record_match_tables [OF recorded(4)]
    have "tournament_of W t = (tournament_of W s)\<lparr>fixtures := ?rest,
        results := results (tournament_of W s) @ [(x, y, outcome_value (mr_result mr))]\<rparr>"
      using recorded(5,6) tables(1,2) s1 same
      by (simp add: tournament_of_def waiting_def sent_to_def bot_ids_def ready_ids_def ready_bots_def m
        recorded_def ondeck_message_def)
    then show ?thesis using tournament_step.play [OF rest recorded(3)] by (simp add: refines_def)
  qed
qed

lemma pipe_step_refines:
  assumes reach: "reachable_state W p T s" and step: "pipe_step W p T s t"
  shows "refines W s t"
proof -
  have ok: "pipe_ok W s" and c: "cursors_ok s"
    using reach by (rule reachable_state_ok, rule reachable_cursors)
  from step show ?thesis
  proof (cases rule: pipe_step.cases)
    case (submit src cookie r)
    then show ?thesis by (intro submit_refines [OF ok c])
  next
    case (build body s1 r)
    have "refines W s1 t" using cursors_ok_taken [OF c build(1)] build(2) by (rule build_refines)
    then show ?thesis using tournament_of_taken_other [OF build(1)] by (simp add: refines_def)
  next
    case (schedule body s1 r)
    then show ?thesis by (intro schedule_refines [OF ok c])
  next
    case (ondeck body s1 r)
    then show ?thesis by (intro ondeck_refines [OF ok])
  next
    case (outside w)
    then show ?thesis by (simp add: refines_def tournament_of_def waiting_def sent_to_def)
  qed
qed

text \<open>C3: the services implement the tournament: whatever the interleaving and the failures, each step
  of theirs is one step of the specification or none, so that the bots, fixtures and results of
  every reachable state are those of a tournament.\<close>

theorem services_refine_the_tournament:
  assumes "reachable_state W ast_parse pod_timeout s"
  shows "tournament_step\<^sup>*\<^sup>* no_tournament (tournament_of W s) \<and>
    (\<forall>t. pipe_step W ast_parse pod_timeout s t \<longrightarrow>
      tournament_of W t = tournament_of W s \<or> tournament_step (tournament_of W s) (tournament_of W t))"
proof
  obtain s0 where "start_state W s0" and "(pipe_step W ast_parse pod_timeout)\<^sup>*\<^sup>* s0 s"
    using assms by (auto simp: reachable_state_def)
  from this(2) have "reachable_state W ast_parse pod_timeout s \<and> tournament_step\<^sup>*\<^sup>* no_tournament (tournament_of W s)"
  proof (induction rule: rtranclp_induct)
    case base
    have "tournament_of W s0 = no_tournament"
      using \<open>start_state W s0\<close>
      by (simp add: start_state_def tournament_of_def no_tournament_def empty_db_def bot_ids_def
        ready_ids_def ready_bots_def waiting_def sent_to_def)
    then show ?case using \<open>start_state W s0\<close> by (auto simp: reachable_state_def)
  next
    case (step t u)
    then have "reachable_state W ast_parse pod_timeout u"
      unfolding reachable_state_eq by (blast intro: pipeline.reachable_step)
    moreover have "refines W t u" using step pipe_step_refines by blast
    ultimately show ?case
      using step.IH unfolding refines_def by (metis rtranclp.rtrancl_into_rtrancl)
  qed
  then show "tournament_step\<^sup>*\<^sup>* no_tournament (tournament_of W s)" ..
  show "\<forall>t. pipe_step W ast_parse pod_timeout s t \<longrightarrow>
      tournament_of W t = tournament_of W s \<or> tournament_step (tournament_of W s) (tournament_of W t)"
    using pipe_step_refines [OF assms] by (simp add: refines_def)
qed

end
