(* ===== verification/Completion.thy ===== *)
theory Completion
  imports Cooperation Tournament StartUp
begin

text \<open>
  The round robin completes: when the outside works, the services empty their queues whatever the
  order in which they take their messages, and then every bot that was submitted is ready and has
  met every bot, itself included, in both roles.
\<close>

section \<open>What has been handled\<close>

definition handled :: "string \<Rightarrow> 'w sys \<Rightarrow> string list" where
  "handled q s = take (s_taken s q) (sent_to q s)"

lemma handled_waiting: "waiting q s = [] \<Longrightarrow> handled q s = sent_to q s"
  by (simp add: handled_def waiting_def)

lemma handled_sent: "set (handled q s) \<subseteq> set (sent_to q s)"
  by (simp add: handled_def set_take_subset)

lemma handled_grows: "cursors_ok s \<Longrightarrow> grows s t \<Longrightarrow> handled q t = handled q s"
  using sent_to_grows [of s t q] by (auto simp: handled_def cursors_ok_def grows_def)

lemma sent_to_taken: "take_one q s = Some (b, s1) \<Longrightarrow> sent_to q' s1 = sent_to q' s"
  using take_one_Some(2) [of q s b s1] by (simp add: sent_to_def)

lemma handled_taken:
  assumes "take_one q s = Some (b, s1)"
  shows "handled q' s1 = handled q' s @ (if q' = q then [b] else [])"
  using take_one_Some(2-4) [OF assms] sent_to_taken [OF assms, of q']
  by (simp add: handled_def take_Suc_conv_app_nth)

lemma handled_ready_set:
  "dump_ready (o_pydantic W) \<lparr>pr_bot_id = i\<rparr> \<in> set (handled POD_READY_QUEUE s) \<Longrightarrow> handled_ready W s i"
  by (auto simp: handled_def handled_ready_def in_set_conv_nth)

definition met :: "int \<Rightarrow> int \<Rightarrow> db \<Rightarrow> bool" where
  "met x y d \<longleftrightarrow> (\<exists>m \<in> set (matches d). m_bot_x_id m = x \<and> m_bot_o_id m = y)"

section \<open>The invariant\<close>

abbreviation build_body :: "'w outside \<Rightarrow> int \<Rightarrow> string \<Rightarrow> string" where
  "build_body W i key \<equiv> dump_build (o_pydantic W) \<lparr>bp_bot_id = i, bp_runtime_key = key\<rparr>"

abbreviation ready_body :: "'w outside \<Rightarrow> int \<Rightarrow> string" where
  "ready_body W i \<equiv> dump_ready (o_pydantic W) \<lparr>pr_bot_id = i\<rparr>"

abbreviation ondeck_body :: "'w outside \<Rightarrow> int \<Rightarrow> int \<Rightarrow> string \<Rightarrow> string" where
  "ondeck_body W x y cid \<equiv> dump_ondeck (o_pydantic W) (ondeck_message x y cid)"

text \<open>
  Every bot has its build message; a handled build message has led to its ready message; and a
  handled match message to its match, as long as the sequences have room.
\<close>

definition settled :: "'w outside \<Rightarrow> 'w sys \<Rightarrow> bool" where
  "settled W s \<longleftrightarrow> cursors_ok s \<and>
     (\<forall>i \<in> bot_ids (s_db s). \<exists>key. build_body W i key \<in> set (sent_to BUILD_POD_QUEUE s)) \<and>
     (\<forall>i key. build_body W i key \<in> set (handled BUILD_POD_QUEUE s) \<longrightarrow>
        ready_body W i \<in> set (sent_to POD_READY_QUEUE s)) \<and>
     (\<forall>m \<in> set (sent_to MATCH_ONDECK_QUEUE s). \<exists>x y cid. m = ondeck_body W x y cid \<and> pg_text cid) \<and>
     (room 0 (s_db s) \<longrightarrow> (\<forall>x y cid. ondeck_body W x y cid \<in> set (handled MATCH_ONDECK_QUEUE s) \<longrightarrow> met x y (s_db s)))"

lemma settledD:
  assumes "settled W s"
  shows "cursors_ok s"
    and "i \<in> bot_ids (s_db s) \<Longrightarrow> \<exists>key. build_body W i key \<in> set (sent_to BUILD_POD_QUEUE s)"
    and "build_body W i key \<in> set (handled BUILD_POD_QUEUE s) \<Longrightarrow> ready_body W i \<in> set (sent_to POD_READY_QUEUE s)"
    and "m \<in> set (sent_to MATCH_ONDECK_QUEUE s) \<Longrightarrow> \<exists>x y cid. m = ondeck_body W x y cid \<and> pg_text cid"
    and "room 0 (s_db s) \<Longrightarrow> ondeck_body W x y cid \<in> set (handled MATCH_ONDECK_QUEUE s) \<Longrightarrow> met x y (s_db s)"
  using assms unfolding settled_def by blast+

lemma settled_extend:
  assumes s: "settled W s" and c: "cursors_ok t"
    and sent: "\<And>q. set (sent_to q s) \<subseteq> set (sent_to q t)"
    and bots: "\<And>i. i \<in> bot_ids (s_db t) \<Longrightarrow>
        i \<in> bot_ids (s_db s) \<or> (\<exists>key. build_body W i key \<in> set (sent_to BUILD_POD_QUEUE t))"
    and built: "\<And>i key. build_body W i key \<in> set (handled BUILD_POD_QUEUE t) \<Longrightarrow>
        build_body W i key \<in> set (handled BUILD_POD_QUEUE s) \<or> ready_body W i \<in> set (sent_to POD_READY_QUEUE t)"
    and drawn: "\<And>m. m \<in> set (sent_to MATCH_ONDECK_QUEUE t) \<Longrightarrow>
        m \<in> set (sent_to MATCH_ONDECK_QUEUE s) \<or> (\<exists>x y cid. m = ondeck_body W x y cid \<and> pg_text cid)"
    and played: "\<And>x y cid. room 0 (s_db t) \<Longrightarrow> ondeck_body W x y cid \<in> set (handled MATCH_ONDECK_QUEUE t) \<Longrightarrow>
        ondeck_body W x y cid \<in> set (handled MATCH_ONDECK_QUEUE s) \<or> met x y (s_db t)"
    and mono: "set (matches (s_db s)) \<subseteq> set (matches (s_db t))" "room 0 (s_db t) \<Longrightarrow> room 0 (s_db s)"
  shows "settled W t"
proof -
  note S = settledD [OF s]
  have "\<exists>key. build_body W i key \<in> set (sent_to BUILD_POD_QUEUE t)" if "i \<in> bot_ids (s_db t)" for i
    using bots [OF that] S(2) sent by blast
  moreover have "ready_body W i \<in> set (sent_to POD_READY_QUEUE t)"
    if "build_body W i key \<in> set (handled BUILD_POD_QUEUE t)" for i key
    using built [OF that] S(3) sent by blast
  moreover have "\<exists>x y cid. m = ondeck_body W x y cid \<and> pg_text cid" if "m \<in> set (sent_to MATCH_ONDECK_QUEUE t)" for m
    using drawn [OF that] S(4) by blast
  moreover have "met x y (s_db t)"
    if "room 0 (s_db t)" "ondeck_body W x y cid \<in> set (handled MATCH_ONDECK_QUEUE t)" for x y cid
    using played [OF that] S(5) [OF mono(2) [OF that(1)], of x y cid] mono(1) unfolding met_def by blast
  ultimately show ?thesis unfolding settled_def using c by blast
qed

section \<open>One message of each queue\<close>

lemma build_step:
  assumes coop: "cooperative W T" and ok: "pipe_ok W s"
    and taken: "take_one BUILD_POD_QUEUE s = Some (body, s1)"
  obtains i w where "\<forall>j key. body = build_body W j key \<longrightarrow> j = i" and "i \<in> bot_ids (s_db s)"
    and "handle_build_pod_message W T body s1 = Some (Inr (), s1\<lparr>s_world := w,
      s_db := set_pod_ready i (pod_name i) (s_db s), s_tried := s_tried s1 + 1,
      s_log := s_log s @ [(POD_READY_QUEUE, ready_body W i)]\<rparr>)"
proof -
  have P: "pydantic_ok (o_pydantic W)" and d: "db_ok (s_db s)" using ok by (simp_all add: pipe_ok_def)
  have s1: "s_db s1 = s_db s" "s_log s1 = s_log s" using take_one_Some(2) [OF taken] by simp_all
  have "msg_ok W (s_db s) (BUILD_POD_QUEUE, body)" using ok take_one_Some(1) [OF taken] by (simp add: pipe_ok_def)
  then obtain i key where i: "body = build_body W i key" "i \<in> bot_ids (s_db s)" "is_runtime key"
    by (auto simp: msg_ok_def)
  have "j = i" if "body = build_body W j k" for j k
    using that i(1) pydantic_okD(1) [OF P] by (metis BuildPodMessage.ext_inject option.inject)
  moreover obtain w where "handle_build_pod_message W T body s1 = Some (Inr (), s1\<lparr>s_world := w,
      s_db := set_pod_ready i (pod_name i) (s_db s), s_tried := s_tried s1 + 1,
      s_log := s_log s @ [(POD_READY_QUEUE, ready_body W i)]\<rparr>)"
    using build_succeeds [OF coop P, of s1 i key] d i s1 by metis
  ultimately show ?thesis using that i(2) by blast
qed

lemma schedule_step:
  assumes coop: "cooperative W T" and ok: "pipe_ok W s"
    and taken: "take_one POD_READY_QUEUE s = Some (body, s1)"
    and run: "handle_pod_ready_message W body s1 = (r, t)"
  obtains ps where "s_log t = s_log s @ ondeck_bodies W (s_drawn s1) ps" and "s_db t = s_db s"
    and "length ps < 2 * length (bots (s_db s))"
proof -
  have P: "pydantic_ok (o_pydantic W)" and d: "db_ok (s_db s)" using ok by (simp_all add: pipe_ok_def)
  have s1: "s_db s1 = s_db s" "s_log s1 = s_log s" using take_one_Some(2) [OF taken] by simp_all
  have "msg_ok W (s_db s) (POD_READY_QUEUE, body)" using ok take_one_Some(1) [OF taken] by (simp add: pipe_ok_def)
  then obtain i where i: "body = ready_body W i" "i \<in> ready_ids (s_db s)" by (auto simp: msg_ok_def)
  have broker: "o_broker W = (\<lambda>_. None)" using coop by (simp add: cooperative_def)
  obtain u ps where ps: "handle_pod_ready_message W (ready_body W i) s1 = (Inr (), u)"
    "s_log u = s_log s1 @ ondeck_bodies W (s_drawn s1) ps" "s_db u = s_db s1"
    "length ps = 2 * length (ready_bots (s_db s1)) - 1"
    using schedule_exactly_the_pairings [OF P broker, of s1 i] d i(2) unfolding s1(1) by blast
  have "u = t" using ps(1) run i(1) by simp
  moreover have "length ps < 2 * length (bots (s_db s))"
  proof -
    have "0 < length (ready_bots (s_db s))" using i(2) by (auto simp: ready_ids_def)
    moreover have "length (ready_bots (s_db s)) \<le> length (bots (s_db s))" by (simp add: ready_bots_def)
    ultimately show ?thesis unfolding ps(4) s1(1) by linarith
  qed
  ultimately show ?thesis using ps s1 by (intro that [of ps]) simp_all
qed

lemma ondeck_step:
  assumes coop: "cooperative W T" and ok: "pipe_ok W s" and set: "settled W s"
    and taken: "take_one MATCH_ONDECK_QUEUE s = Some (body, s1)"
    and run: "handle_match_ondeck W body s1 = (r, t)" and room: "room n (s_db s)"
  obtains m where "\<forall>x y cid. body = ondeck_body W x y cid \<longrightarrow> m_bot_x_id m = x \<and> m_bot_o_id m = y"
    and "matches (s_db t) = matches (s_db s) @ [m]" and "s_log t = s_log s" and "s_taken t = s_taken s1"
    and "bots (s_db t) = bots (s_db s)" and "matches_seq (s_db t) = matches_seq (s_db s) + 1"
    and "moves_seq (s_db t) \<le> moves_seq (s_db s) + 9"
proof -
  have P: "pydantic_ok (o_pydantic W)" using ok by (simp add: pipe_ok_def)
  have "body \<in> set (sent_to MATCH_ONDECK_QUEUE s)"
    using take_one_Some(1) [OF taken] by (force simp: sent_to_def)
  then obtain x y cid where body: "body = ondeck_body W x y cid" "pg_text cid" using settledD(4) [OF set] by blast
  have same: "x' = x \<and> y' = y" if "body = ondeck_body W x' y' cid'" for x' y' cid'
  proof -
    have "ondeck_message x' y' cid' = ondeck_message x y cid"
      using that body(1) pydantic_okD(3) [OF P] by (metis option.inject)
    then show ?thesis by (simp add: ondeck_message_def)
  qed
  obtain u m where u: "handle_match_ondeck W body s1 = (Inr (), u)"
    "matches (s_db u) = matches (s_db s) @ [m]" "m_bot_x_id m = x" "m_bot_o_id m = y"
    "s_log u = s_log s" "s_taken u = s_taken s1" "bots (s_db u) = bots (s_db s)"
    "matches_seq (s_db u) = matches_seq (s_db s) + 1" "moves_seq (s_db u) \<le> moves_seq (s_db s) + 9"
    using ondeck_succeeds [OF coop ok taken body room] .
  have "u = t" using u(1) run by simp
  with u same show ?thesis by (intro that [of m]) blast+
qed

section \<open>Every step keeps the invariant\<close>

lemma settled_submit:
  assumes coop: "cooperative W T" and ok: "pipe_ok W s" and set: "settled W s"
    and run: "handle_submission W p src cookie s = (r, t)"
  shows "settled W t"
proof -
  have inv: "db_ok (s_db s)" "names_ok (s_db s)" "pods_ok (s_db s)" using ok by (simp_all add: pipe_ok_def)
  have broker: "o_broker W = (\<lambda>_. None)" using coop by (simp add: cooperative_def)
  have g: "grows s t" using grows_handle_submission run by (rule keepsD)
  note c = settledD(1) [OF set]
  have keep: "settled W t" if d: "matches (s_db t) = matches (s_db s)" "room 0 (s_db t) = room 0 (s_db s)"
      and log: "s_log t = s_log s @ ms" "\<forall>m \<in> set ms. fst m = BUILD_POD_QUEUE"
      and new: "\<And>i. i \<in> bot_ids (s_db t) \<Longrightarrow> i \<in> bot_ids (s_db s) \<or> (\<exists>key. (BUILD_POD_QUEUE, build_body W i key) \<in> set ms)"
    for ms
  proof (rule settled_extend [OF set cursors_ok_grows [OF c g]])
    show "set (sent_to q s) \<subseteq> set (sent_to q t)" for q by (auto simp: sent_to_def log(1))
    show "i \<in> bot_ids (s_db s) \<or> (\<exists>key. build_body W i key \<in> set (sent_to BUILD_POD_QUEUE t))"
      if "i \<in> bot_ids (s_db t)" for i
      using new [OF that] by (force simp: sent_to_def log(1))
    show "m \<in> set (sent_to MATCH_ONDECK_QUEUE s) \<or> (\<exists>x y cid. m = ondeck_body W x y cid \<and> pg_text cid)"
      if "m \<in> set (sent_to MATCH_ONDECK_QUEUE t)" for m
      using that log(2) by (auto simp: sent_to_def log(1))
  qed (simp_all add: handled_grows [OF c g] d)
  have seqs: "room 0 d = room 0 (s_db s) \<and> bot_ids d \<subseteq> (case q of Inl e \<Rightarrow> bot_ids (s_db s) | Inr b \<Rightarrow> insert (b_id b) (bot_ids (s_db s)))"
    if "insert_version W n tok key src s = (q, d)" for n tok key q d
    using that by (auto simp: insert_version_def create_bot_def Let_def room_def bot_ids_def split: if_splits)
  from run show ?thesis
  proof (cases rule: handle_submission_cases)
    case rejected
    with set show ?thesis by simp
  next
    case (accepted n key)
    from accepted(5) show ?thesis
    proof (cases rule: submit_bot_cases)
      case nothing
      then show ?thesis by (intro keep [where ms = "[]"]) simp_all
    next
      case (failed s0 tok e d)
      have v: "insert_version W n tok key src s = (Inl e, d)" using failed insert_version_world by metis
      show ?thesis
        by (rule keep [where ms = "[]"]) (use failed seqs [OF v] insert_version_ok(4) [OF inv accepted(2) v] in auto)
    next
      case (inserted s0 tok b d ms)
      have v: "insert_version W n tok key src s = (Inr b, d)" using inserted insert_version_world by metis
      have ms: "ms = [(BUILD_POD_QUEUE, build_body W (b_id b) key)]" using inserted(5,7) broker by blast
      show ?thesis
        by (rule keep [where ms = ms])
          (use inserted ms seqs [OF v] insert_version_ok(4) [OF inv accepted(2) v] in auto)
    qed
  qed
qed

lemma set_pod_ready_same:
  "bot_ids (set_pod_ready i p d) = bot_ids d" "matches (set_pod_ready i p d) = matches d"
  "length (bots (set_pod_ready i p d)) = length (bots d)" "matches_seq (set_pod_ready i p d) = matches_seq d"
  "moves_seq (set_pod_ready i p d) = moves_seq d"
  by (simp_all add: bot_ids_set_pod_ready) (simp_all add: set_pod_ready_def)

lemma settled_build:
  assumes coop: "cooperative W T" and ok: "pipe_ok W s" and set: "settled W s"
    and taken: "take_one BUILD_POD_QUEUE s = Some (body, s1)"
    and run: "handle_build_pod_message W T body s1 = Some (r, t)"
  shows "settled W t"
proof -
  obtain i w where i: "\<forall>j key. body = build_body W j key \<longrightarrow> j = i" and "i \<in> bot_ids (s_db s)"
    and run': "handle_build_pod_message W T body s1 = Some (Inr (), s1\<lparr>s_world := w,
      s_db := set_pod_ready i (pod_name i) (s_db s), s_tried := s_tried s1 + 1,
      s_log := s_log s @ [(POD_READY_QUEUE, ready_body W i)]\<rparr>)"
    by (rule build_step [OF coop ok taken])
  have t: "s_db t = set_pod_ready i (pod_name i) (s_db s)"
    "s_log t = s_log s @ [(POD_READY_QUEUE, ready_body W i)]"
    using run run' by auto
  have g: "grows s1 t" using grows_handle_build_pod_message [OF run] .
  have c: "cursors_ok s1" using cursors_ok_taken [OF settledD(1) [OF set] taken] .
  have h: "handled q t = handled q s @ (if q = BUILD_POD_QUEUE then [body] else [])" for q
    by (simp add: handled_grows [OF c g] handled_taken [OF taken])
  show ?thesis
  proof (rule settled_extend [OF set cursors_ok_grows [OF c g]])
    show "set (sent_to q s) \<subseteq> set (sent_to q t)" for q by (auto simp: sent_to_def t(2))
    show "build_body W j key \<in> set (handled BUILD_POD_QUEUE s) \<or> ready_body W j \<in> set (sent_to POD_READY_QUEUE t)"
      if "build_body W j key \<in> set (handled BUILD_POD_QUEUE t)" for j key
      using that i by (auto simp: h sent_to_def t(2))
  qed (use h in \<open>auto simp: t sent_to_def room_def set_pod_ready_same\<close>)
qed

lemma settled_schedule:
  assumes coop: "cooperative W T" and ok: "pipe_ok W s" and set: "settled W s"
    and taken: "take_one POD_READY_QUEUE s = Some (body, s1)"
    and run: "handle_pod_ready_message W body s1 = (r, t)"
  shows "settled W t"
proof -
  obtain ps where t: "s_log t = s_log s @ ondeck_bodies W (s_drawn s1) ps" "s_db t = s_db s"
    using schedule_step [OF coop ok taken run] by metis
  have tokens: "pg_text (o_token_hex W 16 k)" for k using coop by (simp add: cooperative_def)
  have g: "grows s1 t" using grows_handle_pod_ready_message run by (rule keepsD)
  have c: "cursors_ok s1" using cursors_ok_taken [OF settledD(1) [OF set] taken] .
  have h: "handled q t = handled q s @ (if q = POD_READY_QUEUE then [body] else [])" for q
    by (simp add: handled_grows [OF c g] handled_taken [OF taken])
  have new: "\<exists>x y cid. m = (MATCH_ONDECK_QUEUE, ondeck_body W x y cid) \<and> pg_text cid"
    if "m \<in> set (ondeck_bodies W k ps)" for m k
    using that tokens by (induction W k ps rule: ondeck_bodies.induct) auto
  show ?thesis
  proof (rule settled_extend [OF set cursors_ok_grows [OF c g]])
    show "set (sent_to q s) \<subseteq> set (sent_to q t)" for q by (auto simp: sent_to_def t(1))
    show "m \<in> set (sent_to MATCH_ONDECK_QUEUE s) \<or> (\<exists>x y cid. m = ondeck_body W x y cid \<and> pg_text cid)"
      if "m \<in> set (sent_to MATCH_ONDECK_QUEUE t)" for m
    proof -
      from that consider "m \<in> set (sent_to MATCH_ONDECK_QUEUE s)"
        | "(MATCH_ONDECK_QUEUE, m) \<in> set (ondeck_bodies W (s_drawn s1) ps)"
        by (auto simp: sent_to_def t(1))
      then show ?thesis using new by cases blast+
    qed
  qed (use t(2) h in auto)
qed

text \<open>Sequences only go forward.\<close>

lemma ondeck_room:
  assumes "handle_match_ondeck W body s = (r, t)" and "room n (s_db t)"
  shows "room n (s_db s)"
  using assms(1)
proof (cases rule: handle_match_ondeck_cases)
  case (record_failed e m mr w d)
  then show ?thesis using assms(2) by (cases rule: record_match_Inl [OF record_failed(3)]) (auto simp: room_def)
next
  case (recorded m mr w d)
  then show ?thesis using assms(2) by (cases rule: record_match_Inr [OF recorded(4)]) (auto simp: room_def)
qed (use assms(2) in simp_all)

lemma settled_ondeck:
  assumes coop: "cooperative W T" and ok: "pipe_ok W s" and set: "settled W s"
    and taken: "take_one MATCH_ONDECK_QUEUE s = Some (body, s1)"
    and run: "handle_match_ondeck W body s1 = (r, t)"
  shows "settled W t"
proof -
  have s1: "s_db s1 = s_db s" "s_log s1 = s_log s" using take_one_Some(2) [OF taken] by simp_all
  have g: "grows s1 t" using grows_handle_match_ondeck run by (rule keepsD)
  have c: "cursors_ok s1" using cursors_ok_taken [OF settledD(1) [OF set] taken] .
  have h: "handled q t = handled q s @ (if q = MATCH_ONDECK_QUEUE then [body] else [])" for q
    by (simp add: handled_grows [OF c g] handled_taken [OF taken])
  have log: "s_log t = s_log s" "bots (s_db t) = bots (s_db s)"
    using run s1 by (cases rule: handle_match_ondeck_cases,
      auto dest: record_match_Inl_tables(1) record_match_tables(1))+
  have m: "set (matches (s_db s)) \<subseteq> set (matches (s_db t))"
    using handle_match_ondeck_adds [OF ok taken run] by auto
  have earlier: "room 0 (s_db t) \<Longrightarrow> room 0 (s_db s)" using ondeck_room [OF run] s1(1) by simp
  show ?thesis
  proof (rule settled_extend [OF set cursors_ok_grows [OF c g] _ _ _ _ _ m earlier])
    show "ondeck_body W x y cid \<in> set (handled MATCH_ONDECK_QUEUE s) \<or> met x y (s_db t)"
      if full: "room 0 (s_db t)" and x: "ondeck_body W x y cid \<in> set (handled MATCH_ONDECK_QUEUE t)" for x y cid
    proof -
      obtain m where "\<forall>x y cid. body = ondeck_body W x y cid \<longrightarrow> m_bot_x_id m = x \<and> m_bot_o_id m = y"
        and "matches (s_db t) = matches (s_db s) @ [m]"
        by (rule ondeck_step [OF coop ok set taken run earlier [OF full]])
      with x show ?thesis unfolding h met_def by auto
    qed
  qed (use log h in \<open>auto simp: sent_to_def bot_ids_def\<close>)
qed

lemma reachable_settled:
  assumes "reachable_state W p T s" and coop: "cooperative W T"
  shows "settled W s"
  using assms(1) unfolding reachable_state_eq
proof (rule pipeline.reachable_induct)
  show "start_state W s \<Longrightarrow> settled W s" for s :: "'a sys"
    by (simp add: start_state_def settled_def cursors_ok_def sent_to_def handled_def empty_db_def bot_ids_def)
  fix s t :: "'a sys"
  assume ok: "pipe_ok W s" and set: "settled W s" and "pipe_step W p T s t"
  from this(3) show "settled W t"
  proof (cases rule: pipe_step.cases)
    case (submit src cookie r)
    then show ?thesis using settled_submit [OF coop ok set] by blast
  next
    case (build body s1 r)
    then show ?thesis using settled_build [OF coop ok set] by blast
  next
    case (schedule body s1 r)
    then show ?thesis using settled_schedule [OF coop ok set] by blast
  next
    case (ondeck body s1 r)
    then show ?thesis using settled_ondeck [OF coop ok set] by blast
  next
    case (outside w)
    with set show ?thesis by (simp add: settled_def cursors_ok_def sent_to_def handled_def)
  qed
qed

section \<open>The queues run dry\<close>

text \<open>One service handles the next message of its queue.\<close>

definition serves_one :: "'w outside \<Rightarrow> int \<Rightarrow> 'w sys \<Rightarrow> 'w sys \<Rightarrow> bool" where
  "serves_one W pod_timeout s t \<longleftrightarrow>
     (\<exists>q body s1. take_one q s = Some (body, s1) \<and> handles W pod_timeout q body s1 t)"

definition drained :: "'w sys \<Rightarrow> bool" where
  "drained s \<longleftrightarrow> (\<forall>q \<in> {BUILD_POD_QUEUE, POD_READY_QUEUE, MATCH_ONDECK_QUEUE}. waiting q s = [])"

text \<open>The matches that can still come of the messages that wait.\<close>

definition load :: "'w sys \<Rightarrow> nat" where
  "load s = length (waiting MATCH_ONDECK_QUEUE s) + 2 * length (bots (s_db s)) *
     (length (waiting BUILD_POD_QUEUE s) + length (waiting POD_READY_QUEUE s))"

definition work :: "'w sys \<Rightarrow> nat \<times> nat \<times> nat" where
  "work s = (length (waiting BUILD_POD_QUEUE s), length (waiting POD_READY_QUEUE s),
     length (waiting MATCH_ONDECK_QUEUE s))"

definition less_work :: "((nat \<times> nat \<times> nat) \<times> (nat \<times> nat \<times> nat)) set" where
  "less_work = less_than <*lex*> less_than <*lex*> less_than"

lemma wf_less_work: "wf less_work"
  unfolding less_work_def by (intro wf_lex_prod wf_less_than)

lemma serves_one_pipe: "serves_one W T s t \<Longrightarrow> pipe_step W p T s t"
  unfolding serves_one_def by (auto elim!: handlesE intro: pipe_step.intros)

lemma room_mono: "room m d \<Longrightarrow> n \<le> m \<Longrightarrow> room n d"
  by (simp add: room_def)

lemma serves_one_progress:
  assumes coop: "cooperative W T" and ok: "pipe_ok W s" and set: "settled W s"
    and room: "room (load s) (s_db s)" and step: "serves_one W T s t"
  shows "(work t, work s) \<in> less_work" and "room (load t) (s_db t)" and "bot_ids (s_db t) = bot_ids (s_db s)"
proof -
  obtain q body s1 where taken: "take_one q s = Some (body, s1)" and h: "handles W T q body s1 t"
    using step by (auto simp: serves_one_def)
  have s1: "s_db s1 = s_db s" "s_log s1 = s_log s" using take_one_Some(2) [OF taken] by simp_all
  have c: "cursors_ok s1" using cursors_ok_taken [OF settledD(1) [OF set] taken] .
  have w1: "waiting q' s1 = (if q' = q then tl (waiting q s) else waiting q' s)" "waiting q s = body # tl (waiting q s)" for q'
    using waiting_taken_other [OF taken, of q'] take_one_Some(5) [OF taken] by simp_all
  have "(work t, work s) \<in> less_work \<and> room (load t) (s_db t) \<and> bot_ids (s_db t) = bot_ids (s_db s)"
    using h
  proof (cases rule: handles.cases)
    case (build r)
    obtain i w where "\<forall>j key. body = build_body W j key \<longrightarrow> j = i" "i \<in> bot_ids (s_db s)"
      and run: "handle_build_pod_message W T body s1 = Some (Inr (), s1\<lparr>s_world := w,
        s_db := set_pod_ready i (pod_name i) (s_db s), s_tried := s_tried s1 + 1,
        s_log := s_log s @ [(POD_READY_QUEUE, ready_body W i)]\<rparr>)"
      by (rule build_step [OF coop ok taken [unfolded build(1)]])
    have t: "s_db t = set_pod_ready i (pod_name i) (s_db s)" "s_taken t = s_taken s1"
      "s_log t = s_log s1 @ [(POD_READY_QUEUE, ready_body W i)]"
      using run build(2) s1 by auto
    have w: "waiting q' t = waiting q' s1 @ (if q' = POD_READY_QUEUE then [ready_body W i] else [])" for q'
      using waiting_append [OF t(2,3) c, of q'] by simp
    have len: "length (bots (s_db t)) = length (bots (s_db s))" by (simp add: t(1) set_pod_ready_same)
    have "load t = load s" "(work t, work s) \<in> less_work"
      using w1 unfolding load_def work_def less_work_def len by (simp_all add: w build(1))
        (cases "waiting BUILD_POD_QUEUE s"; simp)+
    then show ?thesis using room by (simp add: t(1) room_def set_pod_ready_same)
  next
    case (schedule r)
    obtain ps where t: "s_log t = s_log s @ ondeck_bodies W (s_drawn s1) ps" "s_db t = s_db s"
      and ps: "length ps < 2 * length (bots (s_db s))"
      using schedule_step [OF coop ok taken [unfolded schedule(1)] schedule(2)] .
    have g: "grows s1 t" using grows_handle_pod_ready_message schedule(2) by (rule keepsD)
    have "filter (\<lambda>m. fst m = MATCH_ONDECK_QUEUE) (ondeck_bodies W (s_drawn s1) ps) = ondeck_bodies W (s_drawn s1) ps"
      by (rule filter_True) (auto dest: fst_ondeck_bodies)
    moreover have "filter (\<lambda>m. fst m = q') (ondeck_bodies W (s_drawn s1) ps) = []" if "q' \<noteq> MATCH_ONDECK_QUEUE" for q'
      using that by (auto simp: filter_empty_conv dest: fst_ondeck_bodies)
    moreover have "waiting q' t = waiting q' s1 @ map snd (filter (\<lambda>m. fst m = q') (ondeck_bodies W (s_drawn s1) ps))" for q'
      using waiting_append [of t s1, OF _ _ c] g t(1) s1(2) by (simp add: grows_def)
    ultimately have w: "length (waiting q' t) = length (waiting q' s1) + (if q' = MATCH_ONDECK_QUEUE then length ps else 0)" for q'
      by simp
    obtain k where k: "length (waiting POD_READY_QUEUE s) = Suc k" "length (tl (waiting POD_READY_QUEUE s)) = k"
      using w1(2) schedule(1) by (metis length_Cons)
    have "load t \<le> load s" "(work t, work s) \<in> less_work"
      using ps unfolding load_def work_def less_work_def t(2) by (simp_all add: w w1(1) schedule(1) k algebra_simps)
    then show ?thesis using room_mono [OF room] by (simp add: t(2))
  next
    case (ondeck r)
    obtain m where "\<forall>x y cid. body = ondeck_body W x y cid \<longrightarrow> m_bot_x_id m = x \<and> m_bot_o_id m = y"
      and "matches (s_db t) = matches (s_db s) @ [m]"
      and t: "s_log t = s_log s" "s_taken t = s_taken s1" "bots (s_db t) = bots (s_db s)"
        "matches_seq (s_db t) = matches_seq (s_db s) + 1" "moves_seq (s_db t) \<le> moves_seq (s_db s) + 9"
      by (rule ondeck_step [OF coop ok set taken [unfolded ondeck(1)] ondeck(2) room])
    have w: "waiting q' t = waiting q' s1" for q' using t(1,2) s1(2) by (simp add: waiting_def sent_to_def)
    obtain k where k: "length (waiting MATCH_ONDECK_QUEUE s) = Suc k" "length (tl (waiting MATCH_ONDECK_QUEUE s)) = k"
      using w1(2) ondeck(1) by (metis length_Cons)
    have l: "load s = Suc (load t)" "(work t, work s) \<in> less_work"
      unfolding load_def work_def less_work_def t(3) by (simp_all add: w w1(1) ondeck(1) k)
    then show ?thesis using room t(3-5) by (simp add: room_def bot_ids_def)
  qed
  then show "(work t, work s) \<in> less_work" "room (load t) (s_db t)" "bot_ids (s_db t) = bot_ids (s_db s)" by simp_all
qed

lemma serves_one_exists:
  assumes coop: "cooperative W T" and ok: "pipe_ok W s" and more: "\<not> drained s"
  shows "\<exists>t. serves_one W T s t"
proof -
  obtain q where q: "q \<in> {BUILD_POD_QUEUE, POD_READY_QUEUE, MATCH_ONDECK_QUEUE}" "waiting q s \<noteq> []"
    using more unfolding drained_def by blast
  obtain body s1 where taken: "take_one q s = Some (body, s1)"
    using q(2) by (cases "waiting q s") (simp_all add: take_one_def)
  have "\<exists>t. handles W T q body s1 t"
  proof (cases "q = BUILD_POD_QUEUE")
    case True
    have "\<exists>r. handle_build_pod_message W T body s1 = Some r"
      using build_step [OF coop ok taken [unfolded True]] by blast
    then show ?thesis unfolding True by (metis handles.build surj_pair)
  next
    case False
    with q(1) show ?thesis by (metis handles.schedule handles.ondeck insertE singletonD surj_pair)
  qed
  with taken show ?thesis unfolding serves_one_def by blast
qed

text \<open>The states the services reach by themselves.\<close>

lemma serves_on:
  assumes "reachable_state W p T s" and coop: "cooperative W T" and "room (load s) (s_db s)"
    and "(serves_one W T)\<^sup>*\<^sup>* s t"
  shows "reachable_state W p T t" and "room (load t) (s_db t)" and "bot_ids (s_db t) = bot_ids (s_db s)"
proof -
  have "reachable_state W p T t \<and> room (load t) (s_db t) \<and> bot_ids (s_db t) = bot_ids (s_db s)"
    using assms(4)
  proof (induction rule: rtranclp_induct)
    case base
    then show ?case using assms(1,3) by simp
  next
    case (step u v)
    then have u: "reachable_state W p T u" "room (load u) (s_db u)" "bot_ids (s_db u) = bot_ids (s_db s)" by simp_all
    have "reachable_state W p T v"
      using u(1) serves_one_pipe [OF step(2), of p] unfolding reachable_state_eq by (rule pipeline.reachable_step)
    then show ?case
      using serves_one_progress [OF coop reachable_state_ok [OF u(1)] reachable_settled [OF u(1) coop] u(2) step(2)] u(3)
      by simp
  qed
  then show "reachable_state W p T t" "room (load t) (s_db t)" "bot_ids (s_db t) = bot_ids (s_db s)" by simp_all
qed

definition round_robin_played :: "db \<Rightarrow> bool" where
  "round_robin_played d \<longleftrightarrow> ready_ids d = bot_ids d \<and>
     (\<forall>x \<in> bot_ids d. \<forall>y \<in> bot_ids d. \<exists>m \<in> set (matches d).
        m_bot_x_id m = x \<and> m_bot_o_id m = y \<and> legal_match d m)"

lemma drained_round_robin:
  assumes reach: "reachable_state W p T s" and coop: "cooperative W T" and room: "room n (s_db s)"
    and dry: "drained s"
  shows "round_robin_played (s_db s)"
proof -
  have ok: "pipe_ok W s" by (rule reachable_state_ok [OF reach])
  have broker: "o_broker W = (\<lambda>_. None)" using coop by (simp add: cooperative_def)
  have paired: "all_paired W s" using reachable_all_paired [OF reach [unfolded reachable_state_eq] broker] .
  note S = settledD [OF reachable_settled [OF reach coop]]
  have all: "handled q s = sent_to q s" if "q \<in> {BUILD_POD_QUEUE, POD_READY_QUEUE, MATCH_ONDECK_QUEUE}" for q
    using dry that handled_waiting unfolding drained_def by blast
  have handled: "handled_ready W s i" if i: "i \<in> bot_ids (s_db s)" for i
  proof -
    obtain key where "build_body W i key \<in> set (handled BUILD_POD_QUEUE s)" using S(2) [OF i] all by auto
    then have "ready_body W i \<in> set (handled POD_READY_QUEUE s)" using S(3) all by auto
    then show ?thesis by (rule handled_ready_set)
  qed
  have "met x y (s_db s)" if xy: "x \<in> bot_ids (s_db s)" "y \<in> bot_ids (s_db s)" for x y
  proof -
    have "scheduled W s x y" using paired handled xy unfolding all_paired_def by blast
    then obtain cid where "ondeck_body W x y cid \<in> set (handled MATCH_ONDECK_QUEUE s)"
      using all unfolding scheduled_def by auto
    then show ?thesis by (rule S(5) [OF room_mono [OF room le0]])
  qed
  moreover have "ready_ids (s_db s) = bot_ids (s_db s)"
    using handled handled_ready_ready [OF ok] ready_ids_bots by blast
  ultimately show ?thesis using ok unfolding round_robin_played_def met_def pipe_ok_def by blast
qed

section \<open>Two ready messages at once\<close>

lemma schedule_fixtures:
  assumes P: "pydantic_ok (o_pydantic W)" and broker: "o_broker W = (\<lambda>_. None)" and c: "cursors_ok s"
    and taken: "take_one POD_READY_QUEUE s = Some (ready_body W i, s1)"
    and run: "handle_pod_ready_message W (ready_body W i) s1 = (r, t)"
  shows "fixtures (tournament_of W t) = fixtures (tournament_of W s) @ pairings i (map b_id (ready_bots (s_db s)))"
    and "s_db t = s_db s" and "waiting POD_READY_QUEUE t = tl (waiting POD_READY_QUEUE s)"
proof -
  let ?ps = "pairings i (map b_id (ready_bots (s_db s)))"
  let ?ms = "ondeck_bodies W (s_drawn s1) ?ps"
  have s1: "s_db s1 = s_db s" "tournament_of W s1 = tournament_of W s" "cursors_ok s1"
    using take_one_Some(2) [OF taken] tournament_of_taken_other [OF taken] cursors_ok_taken [OF c taken] by simp_all
  have "send_all W ?ps 0 s1 = (Inr (length ?ps), sent W ?ps (length ?ps) 0 s1)"
    using send_all_result [of ?ps W s1 0] broker by auto
  then have t: "t = sent W ?ps (length ?ps) 0 s1"
    using run handle_pod_ready_message_run [OF P, of i s1] s1(1) by simp
  then show "s_db t = s_db s" using s1(1) by simp
  have w: "waiting q t = waiting q s1 @ map snd (filter (\<lambda>m. fst m = q) ?ms)" for q
    by (rule waiting_append [OF _ _ s1(3)]) (simp_all add: t sent_def)
  have "filter (\<lambda>m. fst m = MATCH_ONDECK_QUEUE) ?ms = ?ms"
    by (rule filter_True) (auto dest: fst_ondeck_bodies)
  with w [of MATCH_ONDECK_QUEUE] have "fixtures (tournament_of W t) = fixtures (tournament_of W s1) @ ?ps"
    using fixtures_ondeck_bodies [OF P, of "s_drawn s1" ?ps] by (simp add: tournament_of_def)
  then show "fixtures (tournament_of W t) = fixtures (tournament_of W s) @ ?ps" by (simp add: s1(2))
  have "filter (\<lambda>m. fst m = POD_READY_QUEUE) ?ms = []"
    by (auto simp: filter_empty_conv dest: fst_ondeck_bodies)
  with w [of POD_READY_QUEUE] take_one_Some(5) [OF taken]
  show "waiting POD_READY_QUEUE t = tl (waiting POD_READY_QUEUE s)" by simp
qed

lemma count_distinct: "distinct xs \<Longrightarrow> x \<in> set xs \<Longrightarrow> count_list xs x = 1"
  by (induction xs) auto

lemma count_pairings:
  assumes "distinct js" and "x \<in> set js" and "y \<in> set js" and "i = x \<or> i = y"
  shows "count_list (pairings i js) (x, y) = 1"
  using assms by (intro count_distinct distinct_pairings) (auto simp: set_pairings)

section \<open>Properties\<close>


text \<open>C11: no pairing is meant to be played twice, but two bots whose ready messages wait together
  are, when the broker accepts every publish: the first message finds both bots ready and pairs them both ways, the second finds them ready
  and does it again, so that each role of the two is scheduled twice.\<close>

theorem waiting_together_is_scheduled_twice:
  assumes "reachable_state W ast_parse pod_timeout s" and "o_broker W = (\<lambda>_. None)"
    and "waiting POD_READY_QUEUE s = ready_body W i # ready_body W j # rest"
  shows "\<exists>t. (serves_one W pod_timeout)\<^sup>*\<^sup>* s t \<and> waiting POD_READY_QUEUE t = rest \<and>
    (\<forall>x \<in> {(i, j), (j, i)}.
       count_list (fixtures (tournament_of W t)) x = count_list (fixtures (tournament_of W s)) x + 2)"
proof -
  have ok: "pipe_ok W s" and c: "cursors_ok s"
    using reachable_state_ok [OF assms(1)] reachable_cursors [OF assms(1)] .
  have P: "pydantic_ok (o_pydantic W)" and d: "db_ok (s_db s)" using ok by (simp_all add: pipe_ok_def)
  obtain s1 where s1: "take_one POD_READY_QUEUE s = Some (ready_body W i, s1)"
    using assms(3) by (simp add: take_one_def)
  obtain r t1 where t1: "handle_pod_ready_message W (ready_body W i) s1 = (r, t1)" by force
  note first = schedule_fixtures [OF P assms(2) c s1 t1]
  have c1: "cursors_ok t1"
    using cursors_ok_grows [OF cursors_ok_taken [OF c s1]] grows_handle_pod_ready_message t1 keepsD by metis
  have "waiting POD_READY_QUEUE t1 = ready_body W j # rest" using first(3) assms(3) by simp
  then obtain s2 where s2: "take_one POD_READY_QUEUE t1 = Some (ready_body W j, s2)" by (simp add: take_one_def)
  obtain r' t where t: "handle_pod_ready_message W (ready_body W j) s2 = (r', t)" by force
  note second = schedule_fixtures [OF P assms(2) c1 s2 t]
  have "serves_one W pod_timeout s t1" "serves_one W pod_timeout t1 t"
    using s1 t1 s2 t unfolding serves_one_def by (blast intro: handles.schedule)+
  then have "(serves_one W pod_timeout)\<^sup>*\<^sup>* s t" by (meson r_into_rtranclp rtranclp_trans)
  moreover have "waiting POD_READY_QUEUE t = rest" using first(3) second(3) assms(3) by simp
  moreover have "count_list (fixtures (tournament_of W t)) x = count_list (fixtures (tournament_of W s)) x + 2"
    if "x \<in> {(i, j), (j, i)}" for x
  proof -
    let ?js = "map b_id (ready_bots (s_db s))"
    have js: "distinct ?js" using db_okD(1) [OF d] by (simp add: ready_bots_def distinct_map_filter)
    have "k \<in> set ?js" if k: "ready_body W k \<in> set (waiting POD_READY_QUEUE s)" for k
    proof -
      have "ready_body W k \<in> set (sent_to POD_READY_QUEUE s)"
        using k unfolding waiting_def by (rule in_set_dropD)
      then have "(POD_READY_QUEUE, ready_body W k) \<in> set (s_log s)" by (auto simp: sent_to_def)
      then have "msg_ok W (s_db s) (POD_READY_QUEUE, ready_body W k)" using ok by (simp add: pipe_ok_def)
      then obtain l where l: "ready_body W k = ready_body W l" "l \<in> ready_ids (s_db s)" by (auto simp: msg_ok_def)
      then have "k = l" using pydantic_okD(2) [OF P] by (metis PodReadyMessage.ext_inject option.inject)
      with l(2) show ?thesis by (simp add: ready_ids_def)
    qed
    then have "i \<in> set ?js" "j \<in> set ?js" using assms(3) by simp_all
    note count = count_pairings [OF js this] count_pairings [OF js this(2,1)]
    from that have "count_list (pairings i ?js) x = 1 \<and> count_list (pairings j ?js) x = 1"
      using count [OF disjI1 [OF refl]] count [OF disjI2 [OF refl]] by (elim insertE emptyE) (simp_all only:)
    then show ?thesis unfolding second(1) first(1,2) by simp
  qed
  ultimately show ?thesis by blast
qed

end
