(* ===== verification/DemoRound.thy ===== *)
theory DemoRound
  imports Demo Completion
begin

text \<open>
  The outside of \<open>Demo\<close> works, and a second bot is submitted on it: the states on which the
  properties of \<open>Completion\<close> are applied.
\<close>

section \<open>The outside works\<close>

lemma put_first_text: "pg_text cs \<Longrightarrow> c \<noteq> CHR 0x00 \<Longrightarrow> pg_text (put_first c cs)"
  by (induction c cs rule: put_first.induct) (auto simp: pg_text_simps)

lemma demo_spawn_clean:
  assumes "wf_board b" and "symbol \<in> {''X'', ''O''}"
  shows "clean_outcome (demo_spawn [] (bot_stdin (JStr symbol) (JStr (board_to_str b))))"
proof -
  have "pg_text (board_to_str b)" using assms(1) by (rule pg_text_board)
  with assms(2) show ?thesis
    by (auto simp: clean_outcome_def demo_spawn_def bot_stdin_def py_str_json_def pg_text_simps intro!: put_first_text)
qed

lemma demo_cooperative: "cooperative demo 60000"
proof -
  have "turn_answered (fst (urlopen demo_env (turn_request ip symbol (board_to_str b)) t w))"
    if "symbol \<in> {''X'', ''O''}" "wf_board b" for ip symbol b t w
    unfolding demo_urlopen turn_answered_def using demo_spawn_clean [OF that(2,1)] by auto
  moreover have "up_and_running demo_pod" by (simp add: up_and_running_def demo_pod_def)
  moreover have "urlopen_blocking demo_env (health_request ip) w = Some (Inr ''ok'', w)" for ip w
    by (simp add: demo_env_def)
  ultimately show ?thesis by (simp add: cooperative_def cluster_works_def pg_text_def)
qed

section \<open>Two bots\<close>

definition demo_build2 :: "string \<times> string" where
  "demo_build2 = (BUILD_POD_QUEUE, dump_build demo_pydantic \<lparr>bp_bot_id = 2, bp_runtime_key = ''python-3.14''\<rparr>)"

lemma demo_extract2:
  "extract_bot_name demo_parse ''name: B'' = Inr (Some ''B'')"
  "extract_runtime_key demo_parse ''name: B'' = Inr (Some ''python-3.14'')"
  "validate_bot_name (Some ''B'') = None"
  by code_simp+

lemma demo_submit2:
  obtains s where "pipe_step demo demo_parse 60000 demo1 s" and "s_log s = [demo_build, demo_build2]"
    and "s_taken s = (\<lambda>_. 0)" and "bot_ids (s_db s) = {1, 2}" and "length (bots (s_db s)) = 2"
    and "matches_seq (s_db s) = 1" and "moves_seq (s_db s) = 1"
proof -
  let ?s0 = "demo1\<lparr>s_drawn := 2\<rparr>"
  have owner: "resolve_owner_token demo ''B'' (parse_cookie None) demo1 = (Inr (Some ''t'', None), ?s0)"
    by (simp add: resolve_owner_token_def owner_token_def pg_text_def demo1_def demo_db_def demo_bot_def prog_simps)
  have run: "handle_submission demo demo_parse ''name: B'' None demo1 =
      submit_bot demo ''B'' ''python-3.14'' ''name: B'' (parse_cookie None) demo1"
    by (simp add: handle_submission_def demo_extract2 validate_runtime_key_def bindP_def lift_res_def Let_def)
  obtain b d where b: "insert_version demo ''B'' ''t'' ''python-3.14'' ''name: B'' ?s0 = (Inr b, d)" "b_id b = 2"
    and d: "bot_ids d = {1, 2}" "length (bots d) = 2" "matches_seq d = 1" "moves_seq d = 1"
    by (simp add: insert_version_def demo1_def demo_db_def demo_bot_def next_version_def family_max_def
        create_bot_def Let_def pg_text_def versioned_name_def python_version_from_runtime_key_def startswith_def
        bot_ids_def)
  obtain q s where qs: "handle_submission demo demo_parse ''name: B'' None demo1 = (q, s)" by force
  have step: "pipe_step demo demo_parse 60000 demo1 s" using qs by (rule pipe_step.submit)
  have "s_db s = d \<and> s_log s = s_log demo1 @ [demo_build2] \<and> s_taken s = s_taken demo1"
    using qs unfolding run
    by (auto simp: submit_bot_def bindP_def owner persist_bot_eq b seqP_def enqueue_build_pod_def publish_event_def
        publish_def publish_fanout_def lift_res_def Let_def demo_build2_def)
  then show ?thesis
    by (intro that [OF step]) (simp_all add: d, simp_all add: demo1_def)
qed

lemma demo_two:
  obtains s where "reachable_state demo demo_parse 60000 s" and "s_log s = [demo_build, demo_build2]"
    and "s_taken s = (\<lambda>_. 0)" and "bot_ids (s_db s) = {1, 2}" and "room (load s) (s_db s)"
proof -
  obtain s where s: "pipe_step demo demo_parse 60000 demo1 s" "s_log s = [demo_build, demo_build2]"
    "s_taken s = (\<lambda>_. 0)" "bot_ids (s_db s) = {1, 2}" "length (bots (s_db s)) = 2"
    "matches_seq (s_db s) = 1" "moves_seq (s_db s) = 1"
    using demo_submit2 .
  have "load s = 8"
    by (simp add: load_def waiting_def sent_to_def s(2,3,5) demo_build_def demo_build2_def)
  then have "room (load s) (s_db s)" by (simp add: room_def s(6,7))
  moreover have "reachable_state demo demo_parse 60000 s"
    using demo_reachable(1) s(1) unfolding reachable_state_eq by (rule pipeline.reachable_step)
  ultimately show ?thesis using s by (intro that)
qed

text \<open>Their pods come up one after the other, before the scheduler takes a message.\<close>

lemma demo_build_next:
  assumes "reachable_state demo demo_parse 60000 s"
    and "waiting BUILD_POD_QUEUE s = build_body demo i key # bodies"
  obtains t where "reachable_state demo demo_parse 60000 t" and "waiting BUILD_POD_QUEUE t = bodies"
    and "waiting POD_READY_QUEUE t = waiting POD_READY_QUEUE s @ [ready_body demo i]"
proof -
  obtain s1 where s1: "take_one BUILD_POD_QUEUE s = Some (build_body demo i key, s1)"
    using assms(2) by (simp add: take_one_def)
  have c: "cursors_ok s1" using cursors_ok_taken [OF reachable_cursors [OF assms(1)] s1] .
  obtain j w where j: "\<forall>k key'. build_body demo i key = build_body demo k key' \<longrightarrow> k = j" "j \<in> bot_ids (s_db s)"
    and run: "handle_build_pod_message demo 60000 (build_body demo i key) s1 = Some (Inr (), s1\<lparr>s_world := w,
      s_db := set_pod_ready j (pod_name j) (s_db s), s_tried := s_tried s1 + 1,
      s_log := s_log s @ [(POD_READY_QUEUE, ready_body demo j)]\<rparr>)"
    by (rule build_step [OF demo_cooperative reachable_state_ok [OF assms(1)] s1])
  let ?t = "s1\<lparr>s_world := w, s_db := set_pod_ready j (pod_name j) (s_db s), s_tried := s_tried s1 + 1,
      s_log := s_log s @ [(POD_READY_QUEUE, ready_body demo j)]\<rparr>"
  have i: "j = i" using j(1) by blast
  have w: "waiting q ?t = waiting q s1 @ (if q = POD_READY_QUEUE then [ready_body demo i] else [])" for q
    using waiting_append [of ?t s1 "[(POD_READY_QUEUE, ready_body demo i)]" q] c take_one_Some(2) [OF s1] i by simp
  have "pipe_step demo demo_parse 60000 s ?t" using s1 run by (rule pipe_step.build)
  then have "reachable_state demo demo_parse 60000 ?t"
    using assms(1) pipeline.reachable_step unfolding reachable_state_eq by blast
  then show ?thesis
    by (rule that) (use w take_one_Some(5) [OF s1] waiting_taken_other [OF s1] assms(2) in simp_all)
qed

lemma demo_two_ready:
  obtains s where "reachable_state demo demo_parse 60000 s"
    and "waiting POD_READY_QUEUE s = [ready_body demo 1, ready_body demo 2]"
proof -
  obtain s where s: "reachable_state demo demo_parse 60000 s" "s_log s = [demo_build, demo_build2]"
    "s_taken s = (\<lambda>_. 0)"
    using demo_two .
  have w: "waiting BUILD_POD_QUEUE s = [build_body demo 1 ''python-3.14'', build_body demo 2 ''python-3.14'']"
    "waiting POD_READY_QUEUE s = []"
    by (simp_all add: waiting_def sent_to_def s(2,3) demo_build_def demo_build2_def)
  obtain t where t: "reachable_state demo demo_parse 60000 t"
    "waiting BUILD_POD_QUEUE t = [build_body demo 2 ''python-3.14'']"
    "waiting POD_READY_QUEUE t = [ready_body demo 1]"
    using demo_build_next [OF s(1) w(1)] w(2) by (metis append_Nil)
  obtain u where "reachable_state demo demo_parse 60000 u"
    "waiting POD_READY_QUEUE u = [ready_body demo 1, ready_body demo 2]"
    using demo_build_next [OF t(1,2)] t(3) by (metis append_Cons append_Nil)
  then show ?thesis by (rule that)
qed

lemma comes_to_a_stop:
  assumes "\<forall>run. run 0 = s \<longrightarrow> (\<exists>n. \<not> R (run n) (run (Suc n)))"
  shows "\<exists>t. R\<^sup>*\<^sup>* s t \<and> (\<forall>u. \<not> R t u)"
proof (rule ccontr)
  assume on: "\<not> ?thesis"
  have "\<exists>run. \<forall>n. (R\<^sup>*\<^sup>* s (run n) \<and> (n = 0 \<longrightarrow> run n = s)) \<and> R (run n) (run (Suc n))"
    by (rule dependent_nat_choice) (use on in \<open>auto intro: rtranclp.rtrancl_into_rtrancl\<close>)
  with assms show False by blast
qed

section \<open>The properties on it\<close>


theorem waiting_together_is_scheduled_twice_witness:
  "\<exists>s t. waiting POD_READY_QUEUE s = [ready_body demo 1, ready_body demo 2] \<and> (serves_one demo 60000)\<^sup>*\<^sup>* s t \<and>
     count_list (fixtures (tournament_of demo t)) (1, 2) = count_list (fixtures (tournament_of demo s)) (1, 2) + 2"
proof -
  obtain s where s: "reachable_state demo demo_parse 60000 s"
    "waiting POD_READY_QUEUE s = [ready_body demo 1, ready_body demo 2]"
    using demo_two_ready .
  then show ?thesis
    using waiting_together_is_scheduled_twice [OF s(1) _ s(2)] by auto
qed

end
