(* ===== verification/PerfectPlay.thy ===== *)
theory PerfectPlay
  imports ExampleBots
begin

text \<open>
  What the two perfect bots play. \<open>perfect_bot_v2\<close> is shown to compute the value of the game tree,
  a reference definition without loops or scores kept in passing, and so never to lose a game
  from the empty board, as either player; \<open>perfect_bot_v1\<close>, which lacks the case of the
  opponent's turn, is shown to take the first empty cell that does not end the game.
\<close>

section \<open>The value of a position\<close>

abbreviation player :: "string \<Rightarrow> bool" where
  "player s \<equiv> s \<in> {''X'', ''O''}"

definition occ :: "board \<Rightarrow> int" where
  "occ b = 9 - int (pieces b ''.'')"

text \<open>
  For the player \<open>me\<close>, on board \<open>b\<close> with \<open>t\<close> to move and at most \<open>n\<close> moves to come: a win is
  worth the more the fewer cells are taken, and each player takes the best move.
\<close>

fun game_value :: "nat \<Rightarrow> board \<Rightarrow> string \<Rightarrow> string \<Rightarrow> int" where
  "game_value n b t me =
     (if has_line b me then 10 - occ b
      else if has_line b (opponent_of me) then - 10 + occ b
      else if is_full b then 0
      else case n of
        0 \<Rightarrow> 0
      | Suc k \<Rightarrow>
          (let vs = (\<lambda>(r, c). game_value k (place b r c t) (opponent_of t) me) ` set (empty_cells b)
           in if t = me then Max vs else Min vs))"

declare game_value.simps [simp del]

definition one_line :: "board \<Rightarrow> bool" where
  "one_line b \<longleftrightarrow> \<not> (has_line b ''X'' \<and> has_line b ''O'')"

definition over :: "board \<Rightarrow> bool" where
  "over b \<longleftrightarrow> has_line b ''X'' \<or> has_line b ''O'' \<or> is_full b"

lemma opponent_simps [simp]:
  "opponent_of ''X'' = ''O''" "opponent_of ''O'' = ''X''"
  by (simp_all add: opponent_of_def)

lemma opponent_player: "player s \<Longrightarrow> player (opponent_of s) \<and> opponent_of s \<noteq> s \<and> opponent_of (opponent_of s) = s"
  by auto

lemma over_iff:
  "player me \<Longrightarrow> over b \<longleftrightarrow> has_line b me \<or> has_line b (opponent_of me) \<or> is_full b"
  by (auto simp: over_def)

lemma occ_bounds: "0 \<le> occ b \<and> occ b \<le> 9"
proof -
  have "pieces b ''.'' \<le> length grid" unfolding pieces_def by (rule length_filter_le)
  then show ?thesis by (simp add: occ_def grid_def)
qed

lemma game_value_bounds: "- 10 \<le> game_value n b t me \<and> game_value n b t me \<le> 10"
proof (induction n arbitrary: b t)
  case 0
  then show ?case using occ_bounds [of b] by (simp add: game_value.simps)
next
  case (Suc n)
  let ?vs = "(\<lambda>(r, c). game_value n (place b r c t) (opponent_of t) me) ` set (empty_cells b)"
  have "finite ?vs" by simp
  show ?case
  proof (cases "has_line b me \<or> has_line b (opponent_of me) \<or> is_full b")
    case True
    then show ?thesis using occ_bounds [of b] by (auto simp: game_value.simps [of "Suc n"])
  next
    case False
    then have "?vs \<noteq> {}" by (simp add: empty_cells_Nil)
    then have "Max ?vs \<in> ?vs" "Min ?vs \<in> ?vs" by simp_all
    moreover have "- 10 \<le> v \<and> v \<le> 10" if "v \<in> ?vs" for v using that Suc.IH by auto
    ultimately have "- 10 \<le> Max ?vs \<and> Max ?vs \<le> 10" "- 10 \<le> Min ?vs \<and> Min ?vs \<le> 10" by blast+
    with False show ?thesis by (cases "t = me") (simp_all add: game_value.simps [of "Suc n"] Let_def)
  qed
qed

section \<open>The bots' primitives\<close>

lemma LINES_eq: "LINES = WINNING_LINES"
  by (simp add: LINES_def WINNING_LINES_def)

lemma length_grid: "length grid = 9"
  by (simp add: grid_def)

lemma occupied_wf:
  assumes "wf_board b"
  shows "occupied b = Inr (occ b)"
proof -
  let ?e = "\<lambda>(r, c). b ! r ! c = ''.''"
  have "length (filter ?e grid) + length (filter (\<lambda>p. \<not> ?e p) grid) = length grid"
    by (rule sum_length_filter_compl)
  moreover have "filter (\<lambda>v. v \<noteq> ''.'') (map (\<lambda>(r, c). b ! r ! c) grid) =
      map (\<lambda>(r, c). b ! r ! c) (filter (\<lambda>p. \<not> ?e p) grid)"
    by (simp add: filter_map comp_def case_prod_unfold)
  ultimately have "int (length (filter (\<lambda>v. v \<noteq> ''.'') (map (\<lambda>(r, c). b ! r ! c) grid))) = occ b"
    by (simp add: occ_def pieces_def length_grid)
  then show ?thesis
    unfolding occupied_def mapE_board_cell [OF assms grid_range] by simp
qed

lemma winner_in_wf:
  assumes "wf_board b" and "\<forall>line \<in> set ls. length line = 3 \<and> (\<forall>p \<in> set line. fst p < 3 \<and> snd p < 3)"
  shows "winner_in b ls =
    Inr (map_option (\<lambda>line. hd (line_values b line))
      (find (\<lambda>line. \<exists>a. a \<noteq> ''.'' \<and> line_values b line = [a, a, a]) ls))"
  using assms(2)
proof (induction ls)
  case (Cons line ls)
  have "length (line_values b line) = 3" using Cons.prems by (simp add: line_values_def)
  then obtain x y z where xyz: "line_values b line = [x, y, z]"
    by (auto simp: numeral_3_eq_3 length_Suc_conv)
  have "line_marks b line = Inr [x, y, z]"
    using Cons.prems line_marks_wf [OF assms(1), of line] xyz by simp
  moreover have "(\<exists>a. a \<noteq> ''.'' \<and> [x, y, z] = [a, a, a]) \<longleftrightarrow> x \<noteq> ''.'' \<and> x = y \<and> y = z" by auto
  ultimately show ?case using Cons xyz by auto
qed simp

lemma winner_wf:
  assumes "wf_board b" and "one_line b"
  shows "winner b = Inr (if has_line b ''X'' then Some ''X'' else if has_line b ''O'' then Some ''O'' else None)"
proof -
  have ls: "\<forall>line \<in> set LINES. length line = 3 \<and> (\<forall>p \<in> set line. fst p < 3 \<and> snd p < 3)"
    by (simp add: LINES_def)
  have has: "has_line b s \<longleftrightarrow> (\<exists>line \<in> set LINES. line_values b line = [s, s, s])" for s
    unfolding LINES_eq by (rule has_line_table)
  let ?P = "\<lambda>line. \<exists>a. a \<noteq> ''.'' \<and> line_values b line = [a, a, a]"
  have mark: "a = ''X'' \<or> a = ''O''"
    if "line \<in> set LINES" "line_values b line = [a, a, a]" "a \<noteq> ''.''" for line a
  proof -
    obtain p where "p \<in> set line" "fst p < 3" "snd p < 3" "(\<lambda>(r, c). b ! r ! c) p = a"
    proof (rule that)
      have "line \<noteq> []" using \<open>line \<in> set LINES\<close> ls by force
      then show "hd line \<in> set line" by simp
      then show "fst (hd line) < 3" "snd (hd line) < 3" using \<open>line \<in> set LINES\<close> ls by auto
      show "(\<lambda>(r, c). b ! r ! c) (hd line) = a"
        using \<open>line_values b line = [a, a, a]\<close> \<open>line \<noteq> []\<close> by (cases line) (auto simp: line_values_def)
    qed
    then have "is_cell a" using wf_boardD(3) [OF assms(1)] by (auto simp: case_prod_unfold)
    with that(3) show ?thesis by (simp add: is_cell_def)
  qed
  show ?thesis
  proof (cases "find ?P LINES")
    case None
    then have "a = ''.''" if "line \<in> set LINES" "line_values b line = [a, a, a]" for line a
      using that unfolding find_None_iff by blast
    then have "\<not> has_line b ''X''" "\<not> has_line b ''O''" unfolding has by blast+
    with None show ?thesis by (simp add: winner_def winner_in_wf [OF assms(1) ls])
  next
    case (Some line)
    then obtain a where a: "a \<noteq> ''.''" "line_values b line = [a, a, a]" "line \<in> set LINES"
      by (auto simp: find_Some_iff)
    then have "has_line b a" "a = ''X'' \<or> a = ''O''" using has mark by blast+
    with Some a assms(2) show ?thesis
      by (auto simp: winner_def winner_in_wf [OF assms(1) ls] one_line_def)
  qed
qed

lemma winner_player:
  assumes "wf_board b" and "one_line b" and "player me"
  shows "winner b = Inr (if has_line b me then Some me
    else if has_line b (opponent_of me) then Some (opponent_of me) else None)"
  using winner_wf [OF assms(1,2)] assms(2,3) by (auto simp: one_line_def)

text \<open>A move in a game that is not over leaves a line of the mover at most.\<close>

lemma place_one_line:
  assumes "wf_board b" and "\<not> over b" and "(r, c) \<in> set (empty_cells b)" and "player t"
  shows "wf_board (place b r c t)" and "one_line (place b r c t)"
    and "pieces b ''.'' = Suc (pieces (place b r c t) ''.'')"
    and "\<not> has_line (place b r c t) (opponent_of t)"
    and "legal_move b (place b r c t) t"
proof -
  have rc: "r < 3" "c < 3" "b ! r ! c = ''.''" using assms(3) by (simp_all add: set_empty_cells)
  then show legal: "legal_move b (place b r c t) t" unfolding legal_move_def by blast
  show "wf_board (place b r c t)" using assms rc by (auto intro!: wf_place)
  show "pieces b ''.'' = Suc (pieces (place b r c t) ''.'')"
    using legal_move_pieces(1) [OF assms(1) legal] assms(4) by auto
  show n: "\<not> has_line (place b r c t) (opponent_of t)"
    using has_line_other [OF assms(1) legal, of "opponent_of t"] assms(2,4) by (auto simp: over_def)
  show "one_line (place b r c t)" using n assms(4) by (auto simp: one_line_def)
qed

section \<open>\<open>minimax\<close> of the second version\<close>

text \<open>The loop keeps a move whose score is the best so far.\<close>

lemma try_moves_v2:
  assumes "\<forall>m \<in> set ms. score m = Inr (f m)"
  shows "\<exists>v m. try_moves score (keep_v2 mine) ms best = Inr (v, m) \<and>
    ((v, m) = best \<or> m \<in> set ms \<and> f m = v) \<and>
    (if mine then fst best \<le> v \<and> (\<forall>x \<in> set ms. f x \<le> v) else v \<le> fst best \<and> (\<forall>x \<in> set ms. v \<le> f x))"
  using assms
proof (induction ms arbitrary: best)
  case Nil
  then show ?case by (cases best) simp
next
  case (Cons m ms)
  let ?best = "keep_v2 mine (f m) m best"
  obtain v k where k: "try_moves score (keep_v2 mine) ms ?best = Inr (v, k)"
    "(v, k) = ?best \<or> k \<in> set ms \<and> f k = v"
    "if mine then fst ?best \<le> v \<and> (\<forall>x \<in> set ms. f x \<le> v) else v \<le> fst ?best \<and> (\<forall>x \<in> set ms. v \<le> f x)"
    using Cons.IH [of ?best] Cons.prems by auto
  have "?best = best \<or> ?best = (f m, m)"
    "if mine then fst best \<le> fst ?best \<and> f m \<le> fst ?best else fst ?best \<le> fst best \<and> fst ?best \<le> f m"
    by (auto simp: keep_v2_def)
  with k Cons.prems show ?case by (cases mine) auto
qed

text \<open>\<open>minimax\<close> computes the value and, when there is a move to make, a move of that value.\<close>

definition best_reply :: "nat \<Rightarrow> board \<Rightarrow> string \<Rightarrow> string \<Rightarrow> (nat \<times> nat) option \<Rightarrow> bool" where
  "best_reply n b t me m \<longleftrightarrow>
     (if over b then m = None
      else \<exists>(r, c) \<in> set (empty_cells b). m = Some (r, c) \<and>
        game_value (n - 1) (place b r c t) (opponent_of t) me = game_value n b t me)"

lemma minimax_v2_value:
  assumes "wf_board b" and "one_line b" and "player t" and "player me" and "pieces b ''.'' \<le> n"
  shows "\<exists>m. minimax_v2 (Suc n) b t me = Inr (game_value n b t me, m) \<and> best_reply n b t me m"
  using assms
proof (induction n arbitrary: b t)
  case 0
  then have "is_full b" by (simp add: is_full_pieces)
  then show ?case
    using winner_player [OF 0(1,2,4)] occupied_wf [OF 0(1)] empties_wf [OF 0(1)] 0(4)
    by (auto simp: game_value.simps best_reply_def over_def empty_cells_Nil)
next
  case (Suc n)
  note W = winner_player [OF Suc(2,3,5)] occupied_wf [OF Suc(2)] empties_wf [OF Suc(2)]
  show ?case
  proof (cases "over b")
    case True
    with W Suc(5) show ?thesis
      by (auto simp: game_value.simps [of "Suc n"] best_reply_def over_def empty_cells_Nil)
  next
    case False
    then have live: "\<not> has_line b me" "\<not> has_line b (opponent_of me)" "empty_cells b \<noteq> []" "\<not> is_full b"
      using Suc(5) by (auto simp: over_iff empty_cells_Nil)
    let ?f = "\<lambda>(r, c). game_value n (place b r c t) (opponent_of t) me"
    let ?score = "\<lambda>(r, c). bindE (set_cell b r c t) (\<lambda>b.
      bindE (minimax_v2 (Suc n) b (if t = me then opponent_of me else me) me) (\<lambda>(score, _). Inr score))"
    have turn: "(if t = me then opponent_of me else me) = opponent_of t" using Suc(4,5) by auto
    have score: "?score p = Inr (?f p)" if p: "p \<in> set (empty_cells b)" for p
    proof -
      obtain r c where rc: "p = (r, c)" by (cases p)
      note after = place_one_line [OF Suc(2) False p [unfolded rc] Suc(4)]
      have "r < 3" "c < 3" using p rc by (simp_all add: set_empty_cells)
      then have set: "set_cell b r c t = Inr (place b r c t)" by (rule set_cell_wf [OF Suc(2)])
      have "player (opponent_of t)" using opponent_player [OF Suc(4)] by blast
      moreover have "pieces (place b r c t) ''.'' \<le> n" using after(3) Suc(6) by simp
      ultimately obtain m where
        "minimax_v2 (Suc n) (place b r c t) (opponent_of t) me =
           Inr (game_value n (place b r c t) (opponent_of t) me, m)"
        using Suc.IH [OF after(1,2) _ Suc(5)] by blast
      then show ?thesis by (simp only: rc turn set prod.case bindE_Inr)
    qed
    let ?vs = "?f ` set (empty_cells b)"
    let ?best = "(if t = me then - 999 else 999, hd (empty_cells b))"
    obtain v m where vm: "try_moves ?score (keep_v2 (t = me)) (empty_cells b) ?best = Inr (v, m)"
      and mem: "(v, m) = ?best \<or> m \<in> set (empty_cells b) \<and> ?f m = v"
      and ext: "if t = me then fst ?best \<le> v \<and> (\<forall>x \<in> set (empty_cells b). ?f x \<le> v)
        else v \<le> fst ?best \<and> (\<forall>x \<in> set (empty_cells b). v \<le> ?f x)"
      using try_moves_v2 [of "empty_cells b" ?score ?f "t = me" ?best] score by blast
    have "- 10 \<le> ?f x \<and> ?f x \<le> 10" for x using game_value_bounds by (cases x) simp
    moreover obtain x where "x \<in> set (empty_cells b)" using live(3) by (meson last_in_set)
    ultimately have "v \<noteq> fst ?best" using ext by (smt (verit) fst_conv)
    with mem have m: "m \<in> set (empty_cells b)" "?f m = v" by auto
    have "game_value (Suc n) b t me = (if t = me then Max ?vs else Min ?vs)"
      using live by (simp add: game_value.simps [of "Suc n"] Let_def)
    also have "\<dots> = v" using ext m by (auto intro!: Max_eqI Min_eqI)
    finally have val: "game_value (Suc n) b t me = v" .
    have "minimax_v2 (Suc (Suc n)) b t me = Inr (v, Some m)"
      using W vm live by (simp del: minimax_v2.simps add: minimax_v2.simps(2) [of "Suc n"] Let_def)
    with val m False show ?thesis by (auto simp: best_reply_def)
  qed
qed

text \<open>A turn of the second version: it makes a legal move that keeps the value of the position.\<close>

lemma perfect_bot_v2_turn:
  assumes "wf_board b" and "\<not> over b" and "player me" and "pieces b ''.'' < frames"
  shows "\<exists>b'. verdict traceback (perfect_bot_v2 frames) me b = Inr (Some b', JNull) \<and>
    wf_board b' \<and> one_line b' \<and> legal_move b b' me \<and>
    game_value (frames - 2) b' (opponent_of me) me = game_value (frames - 1) b me me"
proof -
  obtain n where n: "frames = Suc n" "pieces b ''.'' \<le> n" using assms(4) by (cases frames) auto
  have "one_line b" using assms(2) by (auto simp: over_def one_line_def)
  then obtain r c where rc: "(r, c) \<in> set (empty_cells b)"
    and mm: "minimax_v2 frames b me me = Inr (game_value n b me me, Some (r, c))"
    and val: "game_value (n - 1) (place b r c me) (opponent_of me) me = game_value n b me me"
    using minimax_v2_value [OF assms(1) _ assms(3,3) n(2)] assms(2) n(1) by (auto simp: best_reply_def)
  note after = place_one_line [OF assms(1,2) rc assms(3)]
  have "r < 3" "c < 3" using rc by (simp_all add: set_empty_cells)
  then have "perfect_bot_v2 frames (turn_input me b) = Inr (print_board (place b r c me))"
    by (simp add: perfect_bot_v2_def read_board_turn [OF assms(1,3)] mm play_cell_def
        set_cell_wf [OF assms(1)] del: minimax_v2.simps)
  then have "verdict traceback (perfect_bot_v2 frames) me b = Inr (Some (place b r c me), JNull)"
    by (rule verdict_legal [where script = "perfect_bot_v2 frames", OF assms(1) after(1) assms(3) after(5)])
  with after val n(1) show ?thesis by (intro exI conjI) simp_all
qed

text \<open>With enough moves to come the value does not depend on the bound.\<close>

lemma game_value_bound:
  assumes "wf_board b" and "player t" and "player me" and "pieces b ''.'' \<le> m" and "pieces b ''.'' \<le> n"
  shows "game_value m b t me = game_value n b t me"
  using assms
proof (induction m arbitrary: b t n)
  case 0
  then show ?case by (cases n) (simp_all add: game_value.simps is_full_pieces)
next
  case (Suc m)
  show ?case
  proof (cases "over b")
    case True
    then show ?thesis using Suc(4) by (auto simp: game_value.simps over_iff)
  next
    case False
    then have live: "\<not> has_line b me" "\<not> has_line b (opponent_of me)" "\<not> is_full b"
      using Suc(4) by (auto simp: over_iff)
    then obtain k where k: "n = Suc k" using Suc(6) by (cases n) (auto simp: is_full_pieces)
    have "game_value m (place b r c t) (opponent_of t) me = game_value k (place b r c t) (opponent_of t) me"
      if "(r, c) \<in> set (empty_cells b)" for r c
      using place_one_line [OF Suc(2) False that Suc(3)] Suc(5,6) k opponent_player [OF Suc(3)] Suc(4)
      by (intro Suc.IH) simp_all
    then have "(\<lambda>(r, c). game_value m (place b r c t) (opponent_of t) me) ` set (empty_cells b) =
        (\<lambda>(r, c). game_value k (place b r c t) (opponent_of t) me) ` set (empty_cells b)"
      by (intro image_cong) auto
    with live k show ?thesis by (simp add: game_value.simps [of "Suc m"] game_value.simps [of "Suc k"] Let_def)
  qed
qed

text \<open>A position of value at least zero is kept by the opponent's moves too, and is not lost.\<close>

lemma game_value_opponent:
  assumes "wf_board b" and "\<not> over b" and "player me" and "legal_move b b' (opponent_of me)"
    and "0 \<le> game_value (Suc n) b (opponent_of me) me"
  shows "0 \<le> game_value n b' me me"
proof -
  obtain r c where rc: "b' = place b r c (opponent_of me)" "(r, c) \<in> set (empty_cells b)"
    using assms(4) by (auto simp: legal_move_def set_empty_cells)
  have live: "\<not> has_line b me" "\<not> has_line b (opponent_of me)" "\<not> is_full b"
    using assms(2,3) by (auto simp: over_iff)
  let ?vs = "(\<lambda>(r, c). game_value n (place b r c (opponent_of me)) me me) ` set (empty_cells b)"
  have "game_value (Suc n) b (opponent_of me) me = Min ?vs"
    using live opponent_player [OF assms(3)] by (simp add: game_value.simps [of "Suc n"] Let_def)
  moreover have "game_value n b' me me \<in> ?vs" using rc by force
  moreover have "finite ?vs" by simp
  ultimately show ?thesis using assms(5) Min_le [of ?vs "game_value n b' me me"] by linarith
qed

lemma game_value_not_lost:
  assumes "0 \<le> game_value n b t me" and "one_line b" and "player me"
  shows "\<not> has_line b (opponent_of me)"
proof
  assume "has_line b (opponent_of me)"
  then have "game_value n b t me = - 10 + occ b"
    using assms(2,3) by (auto simp: game_value.simps one_line_def)
  with assms(1) occ_bounds [of b] show False by simp
qed

section \<open>The empty board is not lost\<close>

text \<open>
  A certificate: a strategy, evaluated against every reply, that never loses. Positions are
  written from the bot's side, and the strategy completes a line, else stops the opponent's,
  else takes the first free cell of a list that depends on the opponent's first move.
\<close>

datatype mark = Free | Own | Theirs
datatype cell = A1 | A2 | A3 | B1 | B2 | B3 | C1 | C2 | C3
datatype position = Pos mark mark mark mark mark mark mark mark mark

fun put :: "cell \<Rightarrow> mark \<Rightarrow> position \<Rightarrow> position" where
  "put A1 m (Pos a b c d e f g h i) = Pos m b c d e f g h i"
| "put A2 m (Pos a b c d e f g h i) = Pos a m c d e f g h i"
| "put A3 m (Pos a b c d e f g h i) = Pos a b m d e f g h i"
| "put B1 m (Pos a b c d e f g h i) = Pos a b c m e f g h i"
| "put B2 m (Pos a b c d e f g h i) = Pos a b c d m f g h i"
| "put B3 m (Pos a b c d e f g h i) = Pos a b c d e m g h i"
| "put C1 m (Pos a b c d e f g h i) = Pos a b c d e f m h i"
| "put C2 m (Pos a b c d e f g h i) = Pos a b c d e f g m i"
| "put C3 m (Pos a b c d e f g h i) = Pos a b c d e f g h m"

fun free :: "cell \<Rightarrow> position \<Rightarrow> bool" where
  "free A1 (Pos a b c d e f g h i) = (a = Free)"
| "free A2 (Pos a b c d e f g h i) = (b = Free)"
| "free A3 (Pos a b c d e f g h i) = (c = Free)"
| "free B1 (Pos a b c d e f g h i) = (d = Free)"
| "free B2 (Pos a b c d e f g h i) = (e = Free)"
| "free B3 (Pos a b c d e f g h i) = (f = Free)"
| "free C1 (Pos a b c d e f g h i) = (g = Free)"
| "free C2 (Pos a b c d e f g h i) = (h = Free)"
| "free C3 (Pos a b c d e f g h i) = (i = Free)"

fun three :: "mark \<Rightarrow> position \<Rightarrow> bool" where
  "three m (Pos a b c d e f g h i) \<longleftrightarrow>
     a = m \<and> b = m \<and> c = m \<or> d = m \<and> e = m \<and> f = m \<or> g = m \<and> h = m \<and> i = m \<or>
     a = m \<and> d = m \<and> g = m \<or> b = m \<and> e = m \<and> h = m \<or> c = m \<and> f = m \<and> i = m \<or>
     a = m \<and> e = m \<and> i = m \<or> c = m \<and> e = m \<and> g = m"

definition cells :: "cell list" where "cells = [A1, A2, A3, B1, B2, B3, C1, C2, C3]"

fun full :: "position \<Rightarrow> bool" where
  "full (Pos a b c d e f g h i) \<longleftrightarrow> a \<noteq> Free \<and> b \<noteq> Free \<and> c \<noteq> Free \<and> d \<noteq> Free \<and> e \<noteq> Free \<and> f \<noteq> Free \<and>
     g \<noteq> Free \<and> h \<noteq> Free \<and> i \<noteq> Free"

text \<open>The strategy: the first cell that completes a line of \<open>m\<close>.\<close>

fun completes :: "mark \<Rightarrow> cell list \<Rightarrow> position \<Rightarrow> cell option" where
  "completes m [] p = None"
| "completes m (k # ks) p = (if free k p \<and> three m (put k m p) then Some k else completes m ks p)"

fun first_free :: "cell list \<Rightarrow> position \<Rightarrow> cell option" where
  "first_free [] p = None"
| "first_free (k # ks) p = (if free k p then Some k else first_free ks p)"

fun strategy :: "cell list \<Rightarrow> position \<Rightarrow> cell option" where
  "strategy ks p =
     (case completes Own cells p of
        Some k \<Rightarrow> Some k
      | None \<Rightarrow> (case completes Theirs cells p of Some k \<Rightarrow> Some k | None \<Rightarrow> first_free ks p))"

fun holds :: "nat \<Rightarrow> cell list \<Rightarrow> bool \<Rightarrow> position \<Rightarrow> bool" where
  "holds n ks mine p =
     (if three Own p then True
      else if three Theirs p then False
      else if full p then True
      else case n of
        0 \<Rightarrow> False
      | Suc k \<Rightarrow>
          if mine then
            (case strategy ks p of None \<Rightarrow> False
             | Some q \<Rightarrow> if free q p then holds k ks False (put q Own p) else False)
          else list_all (\<lambda>q. if free q p then holds k ks True (put q Theirs p) else True) cells)"

declare holds.simps [simp del]

definition start :: position where
  "start = Pos Free Free Free Free Free Free Free Free Free"

lemma holds_first: "holds (Suc (Suc (Suc (Suc (Suc (Suc (Suc (Suc (Suc 0))))))))) [B2, A1, B1, A2, A3, C3, B3, C1, C2] True start"
  by code_simp

definition replies :: "(cell \<times> cell list) list" where
  "replies =
     [(A1, [B2, A1, C2, B3, C3, A3, B1, C1, A2]),
      (A2, [A2, B2, A1, B1, A3, B3, C3, C2, C1]),
      (A3, [B2, B1, C2, A3, C1, A2, B3, A1, C3]),
      (B1, [B2, C1, C3, C2, A1, A2, B1, A3, B3]),
      (B2, [C1, A1, B1, C2, C3, B2, A2, A3, B3]),
      (B3, [B2, C3, C1, B3, C2, B1, A1, A2, A3]),
      (C1, [B2, A2, B3, A3, A1, C3, C1, C2, B1]),
      (C2, [B2, C3, C1, B3, C2, B1, A1, A2, A3]),
      (C3, [B2, B1, C2, A3, C1, A2, B3, A1, C3])]"

lemma holds_second:
  "list_all (\<lambda>(k, ks). holds (Suc (Suc (Suc (Suc (Suc (Suc (Suc (Suc 0)))))))) ks True (put k Theirs start)) replies"
  by code_simp

text \<open>Positions are boards.\<close>

fun mark_str :: "string \<Rightarrow> mark \<Rightarrow> string" where
  "mark_str me Free = ''.''"
| "mark_str me Own = me"
| "mark_str me Theirs = opponent_of me"

fun board_of :: "string \<Rightarrow> position \<Rightarrow> board" where
  "board_of me (Pos a b c d e f g h i) =
     [[mark_str me a, mark_str me b, mark_str me c],
      [mark_str me d, mark_str me e, mark_str me f],
      [mark_str me g, mark_str me h, mark_str me i]]"

fun rc :: "cell \<Rightarrow> nat \<times> nat" where
  "rc A1 = (0, 0)" | "rc A2 = (0, 1)" | "rc A3 = (0, 2)"
| "rc B1 = (1, 0)" | "rc B2 = (1, 1)" | "rc B3 = (1, 2)"
| "rc C1 = (2, 0)" | "rc C2 = (2, 1)" | "rc C3 = (2, 2)"

lemma mark_str_iff:
  assumes "player me"
  shows "mark_str me m = me \<longleftrightarrow> m = Own" and "mark_str me m = opponent_of me \<longleftrightarrow> m = Theirs"
    and "mark_str me m = ''.'' \<longleftrightarrow> m = Free" and "is_cell (mark_str me m)"
  using assms by (cases m; auto)+

lemma wf_board_of: "player me \<Longrightarrow> wf_board (board_of me p)"
  by (cases p) (simp add: wf_board_def mark_str_iff(4))

lemma has_line_cells:
  "has_line [[a, b, c], [d, e, f], [g, h, i]] s \<longleftrightarrow>
     a = s \<and> b = s \<and> c = s \<or> d = s \<and> e = s \<and> f = s \<or> g = s \<and> h = s \<and> i = s \<or>
     a = s \<and> d = s \<and> g = s \<or> b = s \<and> e = s \<and> h = s \<or> c = s \<and> f = s \<and> i = s \<or>
     a = s \<and> e = s \<and> i = s \<or> c = s \<and> e = s \<and> g = s"
  by (simp add: has_line_def all_less_3 ex_less_3 numeral_2_eq_2 disj_assoc conj_assoc)

lemma board_of_three:
  assumes "player me"
  shows "has_line (board_of me p) me \<longleftrightarrow> three Own p"
    and "has_line (board_of me p) (opponent_of me) \<longleftrightarrow> three Theirs p"
    and "is_full (board_of me p) \<longleftrightarrow> full p"
  by (cases p; simp add: has_line_cells mark_str_iff [OF assms] is_full_def all_less_3 numeral_2_eq_2)+

lemma rc_bounds: "fst (rc k) < 3 \<and> snd (rc k) < 3"
  by (cases k) simp_all

lemma rc_cells: "r < 3 \<Longrightarrow> c < 3 \<Longrightarrow> \<exists>k \<in> set cells. rc k = (r, c)"
  by (drule less_3_cases, drule less_3_cases, elim disjE) (simp_all add: cells_def)

lemma free_rc:
  assumes "player me"
  shows "free k p \<longleftrightarrow> rc k \<in> set (empty_cells (board_of me p))"
  by (cases p; cases k; simp add: set_empty_cells mark_str_iff [OF assms] numeral_2_eq_2)

lemma put_place: "board_of me (put k m p) = place (board_of me p) (fst (rc k)) (snd (rc k)) (mark_str me m)"
  by (cases p; cases k; simp add: place_def numeral_2_eq_2)

lemma board_of_start: "board_of me start = EMPTY_BOARD"
  by (simp add: start_def EMPTY_BOARD_def)

lemma game_value_mine:
  assumes "player me" and "\<not> has_line b (opponent_of me)" and "(r, c) \<in> set (empty_cells b)"
    and "0 \<le> game_value n (place b r c me) (opponent_of me) me"
  shows "0 \<le> game_value (Suc n) b me me"
proof (cases "has_line b me")
  case True
  then show ?thesis using occ_bounds [of b] by (simp add: game_value.simps)
next
  case False
  let ?vs = "(\<lambda>(r, c). game_value n (place b r c me) (opponent_of me) me) ` set (empty_cells b)"
  have "empty_cells b \<noteq> []" using assms(3) by auto
  then have "game_value (Suc n) b me me = Max ?vs"
    using False assms(2) by (simp add: game_value.simps [of "Suc n"] empty_cells_Nil Let_def)
  moreover have "game_value n (place b r c me) (opponent_of me) me \<in> ?vs" using assms(3) by force
  moreover have "finite ?vs" by simp
  ultimately show ?thesis using assms(4) Max_ge [of ?vs] by fastforce
qed

lemma game_value_theirs:
  assumes "player me" and "\<not> has_line b (opponent_of me)"
    and "\<And>r c. (r, c) \<in> set (empty_cells b) \<Longrightarrow> 0 \<le> game_value n (place b r c (opponent_of me)) me me"
  shows "0 \<le> game_value (Suc n) b (opponent_of me) me"
proof (cases "has_line b me \<or> is_full b")
  case True
  then show ?thesis using occ_bounds [of b] assms(2) by (auto simp: game_value.simps)
next
  case False
  let ?vs = "(\<lambda>(r, c). game_value n (place b r c (opponent_of me)) me me) ` set (empty_cells b)"
  have "game_value (Suc n) b (opponent_of me) me = Min ?vs"
    using False assms(2) opponent_player [OF assms(1)] by (simp add: game_value.simps [of "Suc n"] Let_def)
  moreover have "?vs \<noteq> {}" using False by (simp add: empty_cells_Nil)
  then have "Min ?vs \<in> ?vs" by (intro Min_in) simp_all
  ultimately show ?thesis using assms(3) by auto
qed

lemma holds_value:
  assumes "holds n ks mine p" and "player me"
  shows "0 \<le> game_value n (board_of me p) (if mine then me else opponent_of me) me"
  using assms(1)
proof (induction n arbitrary: mine p)
  case 0
  then show ?case
    using occ_bounds [of "board_of me p"] board_of_three [OF assms(2), of p]
    by (auto simp: holds.simps game_value.simps split: if_splits)
next
  case (Suc n)
  note three = board_of_three [OF assms(2), of p]
  show ?case
  proof (cases "three Own p \<or> full p")
    case True
    then show ?thesis
      using Suc.prems occ_bounds [of "board_of me p"] three
      by (auto simp: holds.simps [of "Suc n"] game_value.simps [of "Suc n"] split: if_splits)
  next
    case False
    then have not: "\<not> three Theirs p" using Suc.prems by (auto simp: holds.simps [of "Suc n"] split: if_splits)
    show ?thesis
    proof (cases mine)
      case True
      then obtain q where q: "free q p" "holds n ks False (put q Own p)"
        using Suc.prems False not
        by (auto simp: holds.simps [of "Suc n"] simp del: strategy.simps split: option.splits if_splits)
      then have "(fst (rc q), snd (rc q)) \<in> set (empty_cells (board_of me p))"
        using free_rc [OF assms(2)] by simp
      moreover have "0 \<le> game_value n (place (board_of me p) (fst (rc q)) (snd (rc q)) me) (opponent_of me) me"
        using Suc.IH [OF q(2)] by (simp add: put_place)
      ultimately have "0 \<le> game_value (Suc n) (board_of me p) me me"
        by (rule game_value_mine [OF assms(2), rotated]) (use not three(2) in simp)
      with True show ?thesis by simp
    next
      case mine: False
      have "0 \<le> game_value n (place (board_of me p) r c (opponent_of me)) me me"
        if "(r, c) \<in> set (empty_cells (board_of me p))" for r c
      proof -
        have "r < 3" "c < 3" using that by (simp_all add: set_empty_cells)
        then obtain q where q: "q \<in> set cells" "rc q = (r, c)" using rc_cells by blast
        then have "free q p" using free_rc [OF assms(2)] that by simp
        then have "holds n ks True (put q Theirs p)"
          using Suc.prems False not mine q(1) by (auto simp: holds.simps [of "Suc n"] list_all_iff)
        from Suc.IH [OF this] show ?thesis using q(2) by (simp add: put_place)
      qed
      then show ?thesis using game_value_theirs [OF assms(2)] not three(2) mine by simp
    qed
  qed
qed

lemma empty_board_not_lost:
  assumes "player me"
  shows "0 \<le> game_value 9 EMPTY_BOARD ''X'' me"
proof -
  have nine: "9 = Suc (Suc (Suc (Suc (Suc (Suc (Suc (Suc (Suc 0))))))))" by simp
  show ?thesis
  proof (cases "me = ''X''")
    case True
    with holds_value [OF holds_first, of me] show ?thesis unfolding nine by (simp add: board_of_start)
  next
    case False
    then have me: "me = ''O''" using assms by simp
    have "0 \<le> game_value (Suc (Suc (Suc (Suc (Suc (Suc (Suc (Suc 0)))))))) (place EMPTY_BOARD r c ''X'') me me"
      if "(r, c) \<in> set (empty_cells EMPTY_BOARD)" for r c
    proof -
      have "r < 3" "c < 3" using that by (simp_all add: set_empty_cells)
      then obtain q where q: "q \<in> set cells" "rc q = (r, c)" using rc_cells by blast
      then have "q \<in> set (map fst replies)" by (simp add: cells_def replies_def)
      then obtain ks where "(q, ks) \<in> set replies" by auto
      then have "holds (Suc (Suc (Suc (Suc (Suc (Suc (Suc (Suc 0)))))))) ks True (put q Theirs start)"
        using holds_second unfolding list_all_iff by blast
      from holds_value [OF this, of me] q(2) show ?thesis
        by (simp add: put_place board_of_start me)
    qed
    moreover have "\<not> has_line EMPTY_BOARD ''X''" using game_outcome_EMPTY_BOARD by (simp add: game_outcome_None)
    ultimately show ?thesis
      using game_value_theirs [of me EMPTY_BOARD] unfolding nine by (simp add: me)
  qed
qed

section \<open>Matches of the second version\<close>

text \<open>
  The pod at \<open>ip\<close> answers a turn with what its server makes of a run of the script.
\<close>

definition plays_script ::
  "'w env \<Rightarrow> int \<Rightarrow> string \<Rightarrow> string \<Rightarrow> (py_exc \<Rightarrow> string) \<Rightarrow> (string \<Rightarrow> string res) \<Rightarrow> bool"
where
  "plays_script E timeout ip symbol traceback script \<longleftrightarrow>
     (\<forall>b w. wf_board b \<longrightarrow> (\<exists>w1. urlopen E (turn_request ip symbol (board_to_str b)) timeout w =
        (Inr (json_dumps (run_bot (\<lambda>_ stdin. script_outcome traceback (script stdin)) []
                            (JStr symbol) (JStr (board_to_str b)))), w1)))"

lemma plays_script_turn:
  assumes "plays_script E timeout ip symbol traceback script" and "wf_board b"
  shows "\<exists>w1. play_turn E symbol ip b timeout w = (catch_url_error (verdict traceback script symbol b), w1)"
proof -
  let ?spawn = "\<lambda>_ stdin. script_outcome traceback (script stdin)"
  obtain w1 where "urlopen E (turn_request ip symbol (board_to_str b)) timeout w =
      (Inr (json_dumps (run_bot ?spawn [] (JStr symbol) (JStr (board_to_str b)))), w1)"
    using assms unfolding plays_script_def by blast
  then show ?thesis
    using parse_run_bot [of ?spawn "[]" "JStr symbol" "JStr (board_to_str b)"]
    by (simp add: play_turn_def request_turn_def bot_stdin_def py_str_json_def verdict_def turn_input_def
        del: json_dumps.simps)
qed

definition lost_by :: "string \<Rightarrow> MatchOutcome \<Rightarrow> bool" where
  "lost_by me r \<longleftrightarrow> r = (if me = ''X'' then O_WINS else X_WINS) \<or> r = (if me = ''X'' then X_FORFEIT else O_FORFEIT)"

lemma not_lost_outcome:
  assumes "game_outcome b = Some r" and "\<not> has_line b (opponent_of me)" and "player me"
  shows "\<not> lost_by me r"
  using assms by (auto simp: game_outcome_def lost_by_def split: if_splits)

lemma in_play_over: "in_play n b \<Longrightarrow> \<not> over b"
  using in_play_None [of n b] by (simp add: game_outcome_None over_def)

lemma game_outcome_over: "game_outcome b = None \<longleftrightarrow> \<not> over b"
  by (auto simp: game_outcome_None over_def)

lemma symbol_of_other: "player me \<Longrightarrow> symbol_of n \<noteq> me \<Longrightarrow> symbol_of n = opponent_of me"
  by (auto simp: symbol_of_def)

lemma symbol_of_Suc: "symbol_of (Suc n) = opponent_of (symbol_of n)"
  by (simp add: symbol_of_def)

lemma play_loop_not_lost:
  assumes "play_loop E timeout ts b moves w = (Inr (Some mr), w1)" and "schedule_ok n ts"
    and "in_play n b" and "player me" and "0 \<le> game_value (10 - n) b (symbol_of n) me"
    and "plays_script E timeout ip me traceback (perfect_bot_v2 frames)" and "9 < frames"
    and "\<forall>(k, turn) \<in> set ts. t_symbol turn = me \<longrightarrow> t_pod_ip turn = ip"
  shows "\<not> lost_by me (mr_result mr)"
  using assms(1,2,3,5,8)
proof (induction ts arbitrary: n b moves w)
  case Nil
  then show ?case by simp
next
  case (Cons kt ts)
  obtain k turn where kt: "kt = (k, turn)" by (cases kt)
  with Cons.prems(2) have k: "k = n" "n \<le> 9" "t_player turn = player_of n"
    "t_symbol turn = symbol_of n" "schedule_ok (Suc n) ts"
    by auto
  have wf: "wf_board b" and live: "\<not> over b"
    using in_play_wf in_play_over Cons.prems(3) by blast+
  have empty: "pieces b ''.'' = 10 - n" using in_play_empty [OF Cons.prems(3)] by simp
  obtain tr w2 where turn: "play_turn E (t_symbol turn) (t_pod_ip turn) b timeout w = (tr, w2)"
    by force
  with Cons.prems(1) kt obtain nb err where tr: "tr = Inr (nb, err)"
    by (cases tr) auto
  have step: "nb = None \<longrightarrow> symbol_of n \<noteq> me"
    "nb = Some b' \<Longrightarrow> 0 \<le> game_value (10 - Suc n) b' (symbol_of (Suc n)) me" for b'
  proof -
    have "(nb = None \<longrightarrow> symbol_of n \<noteq> me) \<and>
      (\<forall>b'. nb = Some b' \<longrightarrow> 0 \<le> game_value (10 - Suc n) b' (symbol_of (Suc n)) me)"
    proof (cases "symbol_of n = me")
      case True
      then have "t_pod_ip turn = ip" using Cons.prems(5) kt k(4) by simp
      then have v: "tr = catch_url_error (verdict traceback (perfect_bot_v2 frames) me b)"
        using plays_script_turn [OF assms(6) wf, of w] turn k(4) True by auto
      have "pieces b ''.'' < frames" using empty occ_bounds [of b] assms(7) by (simp add: occ_def)
      from perfect_bot_v2_turn [OF wf live assms(4) this, of traceback]
      obtain b' where b': "tr = Inr (Some b', JNull)" "wf_board b'" "legal_move b b' me"
        "game_value (frames - 2) b' (opponent_of me) me = game_value (frames - 1) b me me"
        using v by (auto simp: catch_url_error_def)
      have "pieces b' ''.'' \<le> frames - 2" "pieces b' ''.'' \<le> 10 - Suc n" "pieces b ''.'' \<le> frames - 1"
        "pieces b ''.'' \<le> 10 - n"
        using legal_move_pieces(1) [OF wf b'(3)] assms(4,7) empty k(2) occ_bounds [of b]
        by (auto simp: occ_def)
      then have "game_value (10 - Suc n) b' (opponent_of me) me = game_value (10 - n) b me me"
        using game_value_bound [OF b'(2) _ assms(4)] game_value_bound [OF wf assms(4,4)] b'(4)
          opponent_player [OF assms(4)] by metis
      with Cons.prems(4) True b'(1) tr show ?thesis by (simp add: symbol_of_Suc)
    next
      case False
      then have sym: "symbol_of n = opponent_of me" by (rule symbol_of_other [OF assms(4)])
      have "0 \<le> game_value (10 - Suc n) b' me me" if "nb = Some b'" for b'
      proof -
        have "legal_move b b' (opponent_of me)"
          using play_turn_board [OF turn [unfolded tr that] wf] k(4) sym symbol_of_cases [of n] by auto
        moreover have "10 - n = Suc (10 - Suc n)" using k(2) by simp
        ultimately show ?thesis
          using game_value_opponent [OF wf live assms(4)] Cons.prems(4) sym by metis
      qed
      with False show ?thesis using sym opponent_player [OF assms(4)] by (simp add: symbol_of_Suc)
    qed
    then show "nb = None \<longrightarrow> symbol_of n \<noteq> me"
      "nb = Some b' \<Longrightarrow> 0 \<le> game_value (10 - Suc n) b' (symbol_of (Suc n)) me" by blast+
  qed
  show ?case
  proof (cases nb)
    case None
    have "err \<noteq> JNull" using play_turn_forfeit [OF turn [unfolded tr None]] .
    then have "mr_result mr = forfeit_label (player_of n)"
      using Cons.prems(1) kt turn tr k None by auto
    moreover have "symbol_of n \<noteq> me" using step(1) None by simp
    ultimately show ?thesis using assms(4)
      by (auto simp: lost_by_def forfeit_label_def player_of_def symbol_of_def split: if_splits)
  next
    case (Some b')
    then have b': "err = JNull" "wf_board b'" "legal_move b b' (symbol_of n)"
      using play_turn_board [OF turn [unfolded tr Some] wf] k(4) symbol_of_cases [of n] by simp_all
    note after = in_play_step [OF Cons.prems(3) b'(3)]
    have val: "0 \<le> game_value (10 - Suc n) b' (symbol_of (Suc n)) me" using step(2) Some .
    let ?m = "\<lparr>mv_number = n, mv_player = player_of n, mv_board = board_to_str b', mv_error = JNull\<rparr>"
    show ?thesis
    proof (cases "game_outcome b'")
      case None
      then have "in_play (Suc n) b'" using in_play.move Cons.prems(3) b'(3) by blast
      moreover from Cons.prems(1) kt turn tr Some b'(1) after(2) None k
      have "play_loop E timeout ts b' (moves @ [?m]) w2 = (Inr (Some mr), w1)"
        by simp
      ultimately show ?thesis using Cons.IH k(5) val Cons.prems(5) by simp
    next
      case out: (Some r)
      with Cons.prems(1) kt turn tr Some b'(1) after(2) k
      have r: "mr_result mr = r" by auto
      have "one_line b'"
        using place_one_line(2) [OF wf live] b'(3) symbol_of_mem
        by (auto simp: legal_move_def set_empty_cells)
      with r show ?thesis using not_lost_outcome [OF out _ assms(4)] game_value_not_lost [OF val _ assms(4)] by simp
    qed
  qed
qed

lemma perfect_bot_v2_not_lost:
  assumes "run_match_from_pods E px po timeout w = (Inr (Some mr), w1)"
    and "get_pod_ip E px w = (Inr ip_x, w2)" and "get_pod_ip E po w2 = (Inr ip_o, w3)"
    and "player me" and "plays_script E timeout (if me = ''X'' then ip_x else ip_o) me traceback (perfect_bot_v2 frames)"
    and "9 < frames"
  shows "\<not> lost_by me (mr_result mr)"
proof -
  have "play_loop E timeout (turn_schedule \<lparr>t_player = ''x'', t_symbol = ''X'', t_pod_ip = ip_x\<rparr>
       \<lparr>t_player = ''o'', t_symbol = ''O'', t_pod_ip = ip_o\<rparr>) EMPTY_BOARD [] w3 = (Inr (Some mr), w1)"
    using assms(1-3) by (simp add: run_match_from_pods_def)
  moreover have "0 \<le> game_value (10 - 1) EMPTY_BOARD (symbol_of 1) me"
    using empty_board_not_lost [OF assms(4)] by (simp add: symbol_of_def)
  ultimately show ?thesis
    by (rule play_loop_not_lost [OF _ turn_schedule_ok in_play.start assms(4) _ assms(5,6)])
      (use assms(4) in \<open>auto simp: turn_schedule_eq\<close>)
qed

section \<open>The first version\<close>

text \<open>On the opponent's turn nothing is kept: an open position is worth the initial 999.\<close>

definition v1_score :: "board \<Rightarrow> string \<Rightarrow> int" where
  "v1_score b me = (if over b then game_value 0 b me me else 999)"

lemma v1_score_over: "v1_score b me = 999 \<longleftrightarrow> \<not> over b"
  using game_value_bounds [of 0 b me me] by (auto simp: v1_score_def)

lemma try_moves_v1_theirs:
  "\<forall>m \<in> set ms. score m = Inr (f m) \<Longrightarrow> try_moves score (keep_v1 False) ms best = Inr best"
  by (induction ms arbitrary: best) (simp_all add: keep_v1_def)

lemma try_moves_v1_total:
  "\<forall>m \<in> set ms. \<exists>v. score m = Inr v \<Longrightarrow> \<exists>r. try_moves score (keep_v1 mine) ms best = Inr r"
proof (induction ms arbitrary: best)
  case (Cons m ms)
  then obtain v where "score m = Inr v" by auto
  with Cons.IH [of "keep_v1 mine v m best"] Cons.prems show ?case by simp
qed (simp only: try_moves.simps, blast)

lemma try_moves_v1_mine:
  assumes "\<forall>m \<in> set ms. score m = Inr (f m) \<and> f m \<le> 999" and "fst best < 999"
    and "find (\<lambda>m. f m = 999) ms = Some m"
  shows "try_moves score (keep_v1 True) ms best = Inr (999, m)"
proof -
  have stay: "try_moves score (keep_v1 True) ms best = Inr best"
    if "fst best = 999" "\<forall>m \<in> set ms. score m = Inr (f m) \<and> f m \<le> 999" for ms and best :: scored
    using that by (induction ms arbitrary: best) (simp_all add: keep_v1_def)
  show ?thesis
    using assms
  proof (induction ms arbitrary: best)
    case (Cons k ks)
    show ?case
    proof (cases "f k = 999")
      case True
      then have "m = k" "keep_v1 True (f k) k best = (999, k)" using Cons.prems by (simp_all add: keep_v1_def)
      with Cons.prems stay [of "(999, k)" ks] show ?thesis by simp
    next
      case False
      then have "fst (keep_v1 True (f k) k best) < 999" using Cons.prems by (auto simp: keep_v1_def)
      with Cons False show ?thesis by simp
    qed
  qed simp
qed

lemma minimax_v1_over:
  assumes "wf_board b" and "one_line b" and "player me" and "over b"
  shows "minimax_v1 (Suc n) b t me = Inr (v1_score b me, None)"
  using winner_player [OF assms(1-3)] occupied_wf [OF assms(1)] empties_wf [OF assms(1)] assms(3,4)
  by (auto simp: v1_score_def game_value.simps over_def empty_cells_Nil)

lemma minimax_v1_total:
  assumes "wf_board b" and "one_line b" and "player t" and "player me" and "pieces b ''.'' \<le> n"
  shows "\<exists>v m. minimax_v1 (Suc n) b t me = Inr (v, m) \<and> (t \<noteq> me \<longrightarrow> v = v1_score b me)"
  using assms
proof (induction n arbitrary: b t)
  case 0
  then have "over b" by (simp add: is_full_pieces over_def)
  then show ?case using minimax_v1_over 0 by blast
next
  case (Suc n)
  note W = winner_player [OF Suc(2,3,5)] empties_wf [OF Suc(2)]
  show ?case
  proof (cases "over b")
    case True
    then show ?thesis using minimax_v1_over Suc(2-5) by blast
  next
    case False
    then have live: "\<not> has_line b me" "\<not> has_line b (opponent_of me)" "empty_cells b \<noteq> []"
      using Suc(5) by (auto simp: over_iff empty_cells_Nil)
    let ?score = "\<lambda>(r, c). bindE (set_cell b r c t) (\<lambda>b.
      bindE (minimax_v1 (Suc n) b (if t = me then opponent_of me else me) me) (\<lambda>(score, _). Inr score))"
    have turn: "(if t = me then opponent_of me else me) = opponent_of t" using Suc(4,5) by auto
    have score: "\<exists>v. ?score p = Inr v" if p: "p \<in> set (empty_cells b)" for p
    proof -
      obtain r c where rc: "p = (r, c)" by (cases p)
      note after = place_one_line [OF Suc(2) False p [unfolded rc] Suc(4)]
      have "r < 3" "c < 3" using p rc by (simp_all add: set_empty_cells)
      then have set: "set_cell b r c t = Inr (place b r c t)" by (rule set_cell_wf [OF Suc(2)])
      have "player (opponent_of t)" using opponent_player [OF Suc(4)] by blast
      moreover have "pieces (place b r c t) ''.'' \<le> n" using after(3) Suc(6) by simp
      ultimately obtain v m where "minimax_v1 (Suc n) (place b r c t) (opponent_of t) me = Inr (v, m)"
        using Suc.IH [OF after(1,2) _ Suc(5)] by blast
      then show ?thesis by (simp only: rc turn set prod.case bindE_Inr) blast
    qed
    let ?best = "(if t = me then - 999 else 999, hd (empty_cells b))"
    obtain v m where vm: "try_moves ?score (keep_v1 (t = me)) (empty_cells b) ?best = Inr (v, m)"
      using try_moves_v1_total [of "empty_cells b" ?score "t = me" ?best] score by (metis surj_pair)
    have "v = 999" if "t \<noteq> me"
    proof -
      have "\<forall>p \<in> set (empty_cells b). ?score p = Inr (projr (?score p))" using score by fastforce
      from try_moves_v1_theirs [OF this] vm that show ?thesis by simp
    qed
    moreover have "minimax_v1 (Suc (Suc n)) b t me = Inr (v, Some m)"
      using W vm live by (simp del: minimax_v1.simps add: minimax_v1.simps(2) [of "Suc n"] Let_def)
    ultimately show ?thesis using False by (simp add: v1_score_def)
  qed
qed

text \<open>The move of the first version: the first empty cell that leaves the game open.\<close>

lemma perfect_bot_v1_move:
  assumes "wf_board b" and "\<not> over b" and "player me" and "pieces b ''.'' < frames"
    and "find (\<lambda>(r, c). \<not> over (place b r c me)) (empty_cells b) = Some (r, c)"
  shows "perfect_bot_v1 frames (turn_input me b) = Inr (print_board (place b r c me))"
proof -
  have live: "\<not> has_line b me" "\<not> has_line b (opponent_of me)" "empty_cells b \<noteq> []"
    using assms(2,3) by (auto simp: over_iff empty_cells_Nil)
  have one: "one_line b" using assms(2) by (auto simp: over_def one_line_def)
  have "pieces b ''.'' \<noteq> 0" using assms(2) by (simp add: over_def is_full_pieces)
  with assms(4) have "frames = Suc (Suc (frames - 2))" by simp
  then obtain n where n: "frames = Suc (Suc n)" "pieces b ''.'' \<le> Suc n" using assms(4) by (metis less_Suc_eq_le)
  let ?score = "\<lambda>(r, c). bindE (set_cell b r c me) (\<lambda>b.
    bindE (minimax_v1 (Suc n) b (if me = me then opponent_of me else me) me) (\<lambda>(score, _). Inr score))"
  let ?f = "\<lambda>(r, c). v1_score (place b r c me) me"
  have score: "?score p = Inr (?f p) \<and> ?f p \<le> 999" if p: "p \<in> set (empty_cells b)" for p
  proof -
    obtain r c where rc: "p = (r, c)" by (cases p)
    note after = place_one_line [OF assms(1,2) p [unfolded rc] assms(3)]
    have "r < 3" "c < 3" using p rc by (simp_all add: set_empty_cells)
    then have set: "set_cell b r c me = Inr (place b r c me)" by (rule set_cell_wf [OF assms(1)])
    have "player (opponent_of me)" "opponent_of me \<noteq> me" using opponent_player [OF assms(3)] by blast+
    moreover have "pieces (place b r c me) ''.'' \<le> n" using after(3) n(2) by simp
    ultimately obtain m where
      "minimax_v1 (Suc n) (place b r c me) (opponent_of me) me = Inr (v1_score (place b r c me) me, m)"
      using minimax_v1_total [OF after(1,2) _ assms(3)] by metis
    then have "?score p = Inr (?f p)" by (simp only: rc set prod.case bindE_Inr if_True simp_thms)
    moreover have "?f p \<le> 999"
      using game_value_bounds [of 0 "place b r c me" me me] by (simp add: rc v1_score_def)
    ultimately show ?thesis ..
  qed
  let ?best = "(- 999, hd (empty_cells b))"
  have "(\<lambda>m. ?f m = 999) = (\<lambda>(r, c). \<not> over (place b r c me))"
    by (auto simp: v1_score_over)
  then have "try_moves ?score (keep_v1 True) (empty_cells b) ?best = Inr (999, (r, c))"
    using try_moves_v1_mine [of "empty_cells b" ?score ?f ?best "(r, c)"] score assms(5) by simp
  then have "minimax_v1 frames b me me = Inr (999, Some (r, c))"
    using winner_player [OF assms(1) one assms(3)] empties_wf [OF assms(1)] live
    unfolding n(1) minimax_v1.simps(2) [of "Suc n"] by (simp del: minimax_v1.simps add: Let_def)
  moreover have "(r, c) \<in> set (empty_cells b)"
    using assms(5) by (auto simp: find_Some_iff in_set_conv_nth)
  ultimately show ?thesis
    by (simp add: set_empty_cells perfect_bot_v1_def read_board_turn [OF assms(1,3)] play_cell_def
        set_cell_wf [OF assms(1)] del: minimax_v1.simps)
qed

section \<open>Properties\<close>

text \<open>C14: \<open>perfect_bot_v2\<close> never loses a match, as x or as o, against any opponent: when every turn asked
  of its own pod completes and is delivered, and whatever the other pod answers, a match that returns is neither won by the opponent nor forfeited by the bot.\<close>

theorem perfect_bot_v2_never_loses:
  assumes "run_match_from_pods E px po timeout w = (Inr (Some mr), w1)"
    and "get_pod_ip E px w = (Inr ip_x, w2)" and "get_pod_ip E po w2 = (Inr ip_o, w3)"
    and "me \<in> {''X'', ''O''}"
    and "plays_script E timeout (if me = ''X'' then ip_x else ip_o) me traceback (perfect_bot_v2 frames)"
    and "9 < frames"
  shows "mr_result mr \<notin> (if me = ''X'' then {O_WINS, X_FORFEIT} else {X_WINS, O_FORFEIT})"
  using perfect_bot_v2_not_lost [OF assms] assms(4) by (auto simp: lost_by_def)

text \<open>\<open>perfect_bot_v1\<close> never ends a game it can go on with: it plays the first empty cell, in
  reading order, that leaves the game open, so it passes over a win that is on the board.\<close>

theorem perfect_bot_v1_refuses_to_win:
  assumes "wf_board b" and "game_outcome b = None" and "me \<in> {''X'', ''O''}" and "9 < frames"
    and "find (\<lambda>(r, c). game_outcome (place b r c me) = None) (empty_cells b) = Some (r, c)"
  shows "verdict traceback (perfect_bot_v1 frames) me b = Inr (Some (place b r c me), JNull) \<and>
    game_outcome (place b r c me) = None"
proof -
  have live: "\<not> over b" using assms(2) game_outcome_over by blast
  have find: "find (\<lambda>(r, c). \<not> over (place b r c me)) (empty_cells b) = Some (r, c)"
    using assms(5) by (simp only: game_outcome_over)
  have mem: "(r, c) \<in> set (empty_cells b)" and open_game: "game_outcome (place b r c me) = None"
    using assms(5) by (auto simp: find_Some_iff in_set_conv_nth)
  have "pieces b ''.'' < frames" using occ_bounds [of b] assms(4) by (simp add: occ_def)
  note printed = perfect_bot_v1_move [OF assms(1) live assms(3) this find]
  note after = place_one_line [OF assms(1) live mem assms(3)]
  show ?thesis
    using verdict_legal [where script = "perfect_bot_v1 frames", OF assms(1) after(1) assms(3) after(5) printed]
      open_game by blast
qed

theorem perfect_bot_v1_refuses_to_win_witness:
  "verdict (\<lambda>_. []) (perfect_bot_v1 900) ''X'' [[''X'', ''X'', ''.''], [''O'', ''O'', ''.''], [''.'', ''.'', ''.'']] =
     Inr (Some [[''X'', ''X'', ''.''], [''O'', ''O'', ''X''], [''.'', ''.'', ''.'']], JNull) \<and>
   game_outcome [[''X'', ''X'', ''X''], [''O'', ''O'', ''.''], [''.'', ''.'', ''.'']] = Some X_WINS"
proof -
  let ?b = "[[''X'', ''X'', ''.''], [''O'', ''O'', ''.''], [''.'', ''.'', ''.'']] :: board"
  have "wf_board ?b" by (simp add: wf_board_def)
  moreover have "game_outcome ?b = None" by code_simp
  moreover have "find (\<lambda>(r, c). game_outcome (place ?b r c ''X'') = None) (empty_cells ?b) = Some (1, 2)"
    by code_simp
  moreover have "place ?b 1 2 ''X'' = [[''X'', ''X'', ''.''], [''O'', ''O'', ''X''], [''.'', ''.'', ''.'']]"
    by (simp add: place_def)
  moreover have "game_outcome [[''X'', ''X'', ''X''], [''O'', ''O'', ''.''], [''.'', ''.'', ''.'']] = Some X_WINS"
    by code_simp
  ultimately show ?thesis
    using perfect_bot_v1_refuses_to_win [of ?b "''X''" 900 1 2 "\<lambda>_. []"] by simp
qed

end
