(* ===== verification/JsCoverage.thy ===== *)
theory JsCoverage
  imports PyJson "HOL-Library.Char_ord" "HOL-Library.List_Lexorder"
begin

text \<open>
  \<open>scripts/js_coverage_report.py\<close>: from the coverage records of the browser tests to a report
  per file. A record is the JSON value the browser wrote; offsets and counts are integers, and a
  value of another type is a \<open>TypeError\<close> where the record is read. The decimal rendering of a
  percentage, floating point arithmetic of the standard library, is a parameter of the report.
\<close>

section \<open>Ranges\<close>

record Range =
  r_start :: int
  r_end :: int
  r_count :: int

definition range_size :: "Range \<Rightarrow> int" where
  "range_size r = r_end r - r_start r"

text \<open>An integer item of a dict; a Boolean counts as one.\<close>

definition int_item :: "json \<Rightarrow> string \<Rightarrow> int res" where
  "int_item v k = (case v of
     JObj kvs \<Rightarrow>
       (case map_of kvs k of
          None \<Rightarrow> Inl KeyError
        | Some (JInt i) \<Rightarrow> Inr i
        | Some (JBool b) \<Rightarrow> Inr (of_bool b)
        | Some _ \<Rightarrow> Inl TypeError)
   | _ \<Rightarrow> Inl TypeError)"

definition read_range :: "json \<Rightarrow> Range res" where
  "read_range rng =
     bindE (int_item rng ''startOffset'') (\<lambda>s.
     bindE (int_item rng ''endOffset'') (\<lambda>e.
     bindE (int_item rng ''count'') (\<lambda>c. Inr \<lparr>r_start = s, r_end = e, r_count = c\<rparr>)))"

definition flatten_ranges :: "json \<Rightarrow> Range list res" where
  "flatten_ranges coverage_entry =
     bindE (bindE (get_default coverage_entry ''functions'' (JArr [])) json_iter) (\<lambda>fns.
     bindE (mapE (\<lambda>fn. bindE (bindE (get_default fn ''ranges'' (JArr [])) json_iter) (mapE read_range)) fns)
       (\<lambda>rs. Inr (concat rs)))"

definition contains :: "Range \<Rightarrow> int \<Rightarrow> bool" where
  "contains r offset \<longleftrightarrow> r_start r \<le> offset \<and> offset < r_end r"

fun innermost :: "Range list \<Rightarrow> int \<Rightarrow> Range option \<Rightarrow> Range option" where
  "innermost [] offset best = best"
| "innermost (r # rs) offset best =
     innermost rs offset
       (if contains r offset \<and>
           (case best of None \<Rightarrow> True | Some b \<Rightarrow> range_size r \<le> range_size b)
        then Some r else best)"

definition innermost_count :: "Range list \<Rightarrow> int \<Rightarrow> int" where
  "innermost_count ranges offset =
     (case innermost ranges offset None of None \<Rightarrow> 0 | Some best \<Rightarrow> r_count best)"

section \<open>Lines\<close>

text \<open>The loop over a line's characters stops at the first that was executed.\<close>

fun line_hit :: "Range list \<Rightarrow> int \<Rightarrow> string \<Rightarrow> bool" where
  "line_hit ranges offset [] = False"
| "line_hit ranges offset (ch # chs) =
     (if py_isspace ch then line_hit ranges (offset + 1) chs
      else if innermost_count ranges offset > 0 then True
      else line_hit ranges (offset + 1) chs)"

fun cover_lines :: "Range list \<Rightarrow> int \<Rightarrow> string list \<Rightarrow> bool list" where
  "cover_lines ranges offset [] = []"
| "cover_lines ranges offset (line # lines) =
     line_hit ranges offset line # cover_lines ranges (offset + int (length line) + 1) lines"

definition line_coverage :: "string \<Rightarrow> Range list \<Rightarrow> bool list" where
  "line_coverage source ranges = cover_lines ranges 0 (split_on LF source)"

definition is_code_line :: "string \<Rightarrow> bool" where
  "is_code_line line =
     (let stripped = py_strip line
      in if stripped = [] then False
         else if startswith stripped ''//'' then False
         else if startswith stripped ''/*'' \<or> startswith stripped ''*'' \<or> startswith stripped ''*/'' then False
         else True)"

text \<open>\<open>covered[i - 1]\<close> raises when there are fewer flags than lines.\<close>

fun summarize_from :: "nat \<Rightarrow> bool list \<Rightarrow> string list \<Rightarrow> nat \<times> nat \<times> nat list \<Rightarrow> (nat \<times> nat \<times> nat list) res" where
  "summarize_from i covered [] acc = Inr acc"
| "summarize_from i covered (line # lines) (hit, tot, missing) =
     (if \<not> is_code_line line then summarize_from (i + 1) covered lines (hit, tot, missing)
      else bindE (py_nth covered (i - 1)) (\<lambda>c.
        summarize_from (i + 1) covered lines
          (if c then (hit + 1, tot + 1, missing) else (hit, tot + 1, missing @ [i]))))"

definition summarize :: "string \<Rightarrow> bool list \<Rightarrow> (nat \<times> nat \<times> nat list) res" where
  "summarize source covered = summarize_from 1 covered (split_on LF source) (0, 0, [])"

definition show_range :: "nat \<times> nat \<Rightarrow> string" where
  "show_range r = (case r of (a, b) \<Rightarrow> if a = b then nat_str a else nat_str a @ ''-'' @ nat_str b)"

fun range_parts :: "nat \<Rightarrow> nat \<Rightarrow> nat list \<Rightarrow> string list" where
  "range_parts start prev [] = [show_range (start, prev)]"
| "range_parts start prev (n # ns) =
     (if n = prev + 1 then range_parts start n ns
      else show_range (start, prev) # range_parts n n ns)"

definition format_missing :: "nat list \<Rightarrow> string" where
  "format_missing line_numbers =
     (case line_numbers of [] \<Rightarrow> [] | n # ns \<Rightarrow> join '', '' (range_parts n n ns))"

section \<open>Files\<close>

text \<open>\<open>s.split(sep, 1)[1]\<close>, when \<open>sep\<close> occurs.\<close>

definition after_first :: "string \<Rightarrow> string \<Rightarrow> string option" where
  "after_first sep s = map_option (\<lambda>i. drop (i + length sep) s) (find_sub sep s)"

definition url_path :: "string \<Rightarrow> string" where
  "url_path url =
     (case after_first ''://'' url of
        None \<Rightarrow> url
      | Some after_scheme \<Rightarrow>
          (case after_first ''/'' after_scheme of None \<Rightarrow> ''/'' | Some p \<Rightarrow> ''/'' @ p))"

definition endswith :: "string \<Rightarrow> string \<Rightarrow> bool" where
  "endswith s p \<longleftrightarrow> startswith (rev s) (rev p)"

text \<open>
  The path of an entry that passes the filter. A \<open>url\<close> that is no string has no path: the test
  for the scheme raises on a number, and finds nothing in a list or dict, which then has no
  \<open>/static/\<close> either unless it holds that very string.
\<close>

definition entry_path :: "string \<Rightarrow> string \<Rightarrow> json \<Rightarrow> string option res" where
  "entry_path prefix suffix url =
     (case url of
        JStr u \<Rightarrow>
          (let path = url_path u
           in case find_sub prefix path of
                None \<Rightarrow> Inr None
              | Some i \<Rightarrow> if endswith path suffix then Inr (Some (drop i path)) else Inr None)
      | _ \<Rightarrow> bindE (json_iter url) (\<lambda>vs.
          if JStr ''://'' \<in> set vs \<or> JStr prefix \<in> set vs then Inl AttributeError else Inr None))"

text \<open>The files by path, in the order of their first entry: the source and the ranges.\<close>

type_synonym slots = "(string \<times> json \<times> Range list) list"

definition add_entry :: "string \<Rightarrow> string \<Rightarrow> json \<Rightarrow> slots \<Rightarrow> slots res" where
  "add_entry prefix suffix entry by_path =
     bindE (bindE (get_default entry ''url'' (JStr [])) (entry_path prefix suffix)) (\<lambda>path.
       case path of
         None \<Rightarrow> Inr by_path
       | Some normalized \<Rightarrow>
           bindE (json_get entry ''source'') (\<lambda>source.
             if \<not> truthy source then Inr by_path
             else bindE (flatten_ranges entry) (\<lambda>new.
               Inr (case map_of by_path normalized of
                      None \<Rightarrow> by_path @ [(normalized, source, new)]
                    | Some (src, old) \<Rightarrow> AList.update normalized (src, old @ new) by_path))))"

fun add_entries :: "string \<Rightarrow> string \<Rightarrow> json list \<Rightarrow> slots \<Rightarrow> slots res" where
  "add_entries prefix suffix [] by_path = Inr by_path"
| "add_entries prefix suffix (e # es) by_path =
     bindE (add_entry prefix suffix e by_path) (add_entries prefix suffix es)"

fun aggregate_files :: "string \<Rightarrow> string \<Rightarrow> string list \<Rightarrow> slots \<Rightarrow> slots res" where
  "aggregate_files prefix suffix [] by_path = Inr by_path"
| "aggregate_files prefix suffix (text # files) by_path =
     (case json_loads text of
        None \<Rightarrow> Inl JSONDecodeError
      | Some entries \<Rightarrow>
          bindE (json_iter entries) (\<lambda>es.
          bindE (add_entries prefix suffix es by_path) (aggregate_files prefix suffix files)))"

definition aggregate_entries :: "string list \<Rightarrow> slots res" where
  "aggregate_entries coverage_files = aggregate_files ''/static/'' ''.mjs'' coverage_files []"

section \<open>The report\<close>

definition pad_right :: "nat \<Rightarrow> string \<Rightarrow> string" where
  "pad_right n s = s @ replicate (n - length s) (CHR '' '')"

definition pad_left :: "nat \<Rightarrow> string \<Rightarrow> string" where
  "pad_left n s = replicate (n - length s) (CHR '' '') @ s"

text \<open>\<open>percent hit tot\<close> is \<open>f"{hit / total * 100:.1f}"\<close>, for a nonzero total.\<close>

definition pct :: "(nat \<Rightarrow> nat \<Rightarrow> string) \<Rightarrow> nat \<Rightarrow> nat \<Rightarrow> string" where
  "pct percent hit tot = pad_left 6 (if tot \<noteq> 0 then percent hit tot else ''100.0'')"

definition report_line :: "(nat \<Rightarrow> nat \<Rightarrow> string) \<Rightarrow> string \<Rightarrow> nat \<Rightarrow> nat \<Rightarrow> string" where
  "report_line percent label hit tot =
     pad_right 40 label @ '' '' @ pad_left 6 (nat_str hit) @ ''/'' @ pad_right 6 (nat_str tot) @
     '' '' @ pct percent hit tot @ ''%''"

definition header_line :: string where
  "header_line = pad_right 40 ''File'' @ '' '' @ pad_left 14 ''Lines'' @ '' '' @ pad_left 7 ''%'' @ ''  Missing''"

fun report_files ::
  "(nat \<Rightarrow> nat \<Rightarrow> string) \<Rightarrow> slots \<Rightarrow> string list \<Rightarrow> nat \<times> nat \<Rightarrow> (string list \<times> nat \<times> nat) res"
where
  "report_files percent by_path [] (total_hit, total_total) = Inr ([], total_hit, total_total)"
| "report_files percent by_path (path # paths) (total_hit, total_total) =
     (case map_of by_path path of
        None \<Rightarrow> Inl KeyError
      | Some (JStr source, ranges) \<Rightarrow>
          bindE (summarize source (line_coverage source ranges)) (\<lambda>(hit, tot, missing).
          bindE (report_files percent by_path paths (total_hit + hit, total_total + tot)) (\<lambda>(ls, sums).
            Inr ((report_line percent path hit tot @ ''  '' @ format_missing missing) # ls, sums)))
      | Some _ \<Rightarrow> Inl AttributeError)"

definition render_report :: "(nat \<Rightarrow> nat \<Rightarrow> string) \<Rightarrow> slots \<Rightarrow> string res" where
  "render_report percent by_path =
     bindE (report_files percent by_path (sort (map fst by_path)) (0, 0)) (\<lambda>(ls, total_hit, total_total).
       Inr (join [LF] ([header_line, replicate 80 (CHR ''-'')] @ ls @
              [replicate 80 (CHR ''-''), report_line percent ''TOTAL'' total_hit total_total])))"

text \<open>
  \<open>main\<close>: the exit code, what is printed, and on which stream; the directory and the files it
  holds, in order, are what the environment and the file system give.
\<close>

definition js_report_main :: "(nat \<Rightarrow> nat \<Rightarrow> string) \<Rightarrow> string option \<Rightarrow> string list \<Rightarrow> (nat \<times> string \<times> string) res" where
  "js_report_main percent in_dir files =
     (case in_dir of
        None \<Rightarrow> Inr (2, [], ''JS_COVERAGE_DIR not set'')
      | Some dir \<Rightarrow>
          if dir = [] then Inr (2, [], ''JS_COVERAGE_DIR not set'')
          else if files = [] then Inr (2, [], ''no coverage JSON files in '' @ dir)
          else bindE (aggregate_entries files) (\<lambda>by_path.
            if by_path = [] then Inr (2, [], ''no project files matched the coverage data'')
            else bindE (render_report percent by_path) (\<lambda>out. Inr (0, out, []))))"

section \<open>The innermost range\<close>

text \<open>The last of the smallest ranges around an offset.\<close>

definition smallest :: "Range list \<Rightarrow> int \<Rightarrow> Range \<Rightarrow> bool" where
  "smallest rs offset r \<longleftrightarrow> contains r offset \<and>
     (\<exists>before after. rs = before @ r # after \<and>
        (\<forall>q \<in> set before. contains q offset \<longrightarrow> range_size r \<le> range_size q) \<and>
        (\<forall>q \<in> set after. contains q offset \<longrightarrow> range_size r < range_size q))"

lemma innermost_append: "innermost (rs @ qs) offset best = innermost qs offset (innermost rs offset best)"
  by (induction rs arbitrary: best) simp_all

lemma innermost_smallest:
  "case innermost rs offset None of
     None \<Rightarrow> \<forall>r \<in> set rs. \<not> contains r offset
   | Some r \<Rightarrow> smallest rs offset r"
proof (induction rs rule: rev_induct)
  case (snoc q rs)
  show ?case
  proof (cases "innermost rs offset None")
    case None
    with snoc have none: "\<forall>r \<in> set rs. \<not> contains r offset" by simp
    then have "smallest (rs @ [q]) offset q" if "contains q offset"
      using that unfolding smallest_def by (intro conjI exI [of _ rs] exI [of _ "[]"]) auto
    with None none show ?thesis by (auto simp: innermost_append)
  next
    case (Some r)
    with snoc have r: "smallest rs offset r" by simp
    then obtain before after where split: "rs = before @ r # after" "contains r offset"
      "\<forall>q \<in> set before. contains q offset \<longrightarrow> range_size r \<le> range_size q"
      "\<forall>q \<in> set after. contains q offset \<longrightarrow> range_size r < range_size q"
      unfolding smallest_def by blast
    show ?thesis
    proof (cases "contains q offset \<and> range_size q \<le> range_size r")
      case True
      have "\<forall>p \<in> set rs. contains p offset \<longrightarrow> range_size q \<le> range_size p"
        using split True by fastforce
      then have "smallest (rs @ [q]) offset q"
        using True unfolding smallest_def by (intro conjI exI [of _ rs] exI [of _ "[]"]) auto
      with Some True show ?thesis by (simp add: innermost_append)
    next
      case False
      have "rs @ [q] = before @ r # (after @ [q])"
        "\<forall>p \<in> set (after @ [q]). contains p offset \<longrightarrow> range_size r < range_size p"
        using split False by auto
      then have "smallest (rs @ [q]) offset r" using split unfolding smallest_def by blast
      with Some False show ?thesis by (auto simp: innermost_append)
    qed
  qed
qed simp

section \<open>Lines of the source\<close>

lemma line_hit_iff:
  "line_hit ranges offset line \<longleftrightarrow>
     (\<exists>j<length line. \<not> py_isspace (line ! j) \<and> innermost_count ranges (offset + int j) > 0)"
proof (induction line arbitrary: offset)
  case (Cons ch chs)
  have "(\<exists>j<length (ch # chs). \<not> py_isspace ((ch # chs) ! j) \<and> innermost_count ranges (offset + int j) > 0) \<longleftrightarrow>
      (\<not> py_isspace ch \<and> innermost_count ranges offset > 0) \<or>
      (\<exists>j<length chs. \<not> py_isspace (chs ! j) \<and> innermost_count ranges (offset + 1 + int j) > 0)"
    by (simp add: Ex_less_Suc2 add.assoc)
  with Cons.IH [of "offset + 1"] show ?case by auto
qed simp

text \<open>
  \<open>marked ranges offset s i\<close>: some character of line \<open>i\<close> of \<open>s\<close> that is no whitespace was
  executed, where \<open>s\<close> starts at \<open>offset\<close> and a character is on the line whose number is the
  number of line feeds before it.
\<close>

definition marked :: "Range list \<Rightarrow> int \<Rightarrow> string \<Rightarrow> nat \<Rightarrow> bool" where
  "marked ranges offset s i \<longleftrightarrow>
     (\<exists>k<length s. count_list (take k s) LF = i \<and> \<not> py_isspace (s ! k) \<and>
        innermost_count ranges (offset + int k) > 0)"

lemma count_list_0: "x \<notin> set xs \<Longrightarrow> count_list (take k xs) x = 0"
  by (meson count_notin in_set_takeD)

lemma marked_single:
  assumes "LF \<notin> set l"
  shows "marked ranges offset l i \<longleftrightarrow> i = 0 \<and> line_hit ranges offset l"
  using count_list_0 [OF assms] by (auto simp: marked_def line_hit_iff)

lemma marked_line:
  assumes "LF \<notin> set l"
  shows "marked ranges offset (l @ LF # s) 0 \<longleftrightarrow> line_hit ranges offset l"
    and "marked ranges offset (l @ LF # s) (Suc i) \<longleftrightarrow> marked ranges (offset + int (length l) + 1) s i"
proof -
  have space: "py_isspace LF" by (simp add: py_isspace_def)
  have pos: "k < length l \<or> k = length l \<or> (\<exists>j<length s. k = length l + 1 + j)"
    if "k < length (l @ LF # s)" for k
    using that by (auto intro!: exI [of _ "k - length l - 1"])
  have before: "count_list (take k (l @ LF # s)) LF = 0" if "k < length l" for k
    using that count_list_0 [OF assms] by simp
  have after: "count_list (take (length l + 1 + j) (l @ LF # s)) LF = Suc (count_list (take j s) LF)"
    "(l @ LF # s) ! (length l + 1 + j) = s ! j" for j
    using count_list_0 [OF assms, of "length l"] by (simp_all add: count_list_append nth_append)
  have line: "(l @ LF # s) ! k = l ! k" if "k < length l" for k
    using that by (simp add: nth_append)
  show "marked ranges offset (l @ LF # s) 0 \<longleftrightarrow> line_hit ranges offset l"
  proof
    assume "marked ranges offset (l @ LF # s) 0"
    then obtain k where k: "k < length (l @ LF # s)" "count_list (take k (l @ LF # s)) LF = 0"
      "\<not> py_isspace ((l @ LF # s) ! k)" "innermost_count ranges (offset + int k) > 0"
      unfolding marked_def by blast
    have "k \<noteq> length l" using k(3) space by (metis nth_append_length)
    moreover have "\<nexists>j. k = length l + 1 + j" using k(2) after(1) by (metis nat.distinct(1))
    ultimately have "k < length l" using pos [OF k(1)] by blast
    with k line [of k] show "line_hit ranges offset l" unfolding line_hit_iff by auto
  next
    assume "line_hit ranges offset l"
    then obtain k where k: "k < length l" "\<not> py_isspace (l ! k)" "innermost_count ranges (offset + int k) > 0"
      unfolding line_hit_iff by blast
    moreover have "k < length (l @ LF # s)" using k(1) by simp
    ultimately show "marked ranges offset (l @ LF # s) 0"
      unfolding marked_def using before [of k] line [of k] by metis
  qed
  show "marked ranges offset (l @ LF # s) (Suc i) \<longleftrightarrow> marked ranges (offset + int (length l) + 1) s i"
  proof
    assume "marked ranges offset (l @ LF # s) (Suc i)"
    then obtain k where k: "k < length (l @ LF # s)" "count_list (take k (l @ LF # s)) LF = Suc i"
      "\<not> py_isspace ((l @ LF # s) ! k)" "innermost_count ranges (offset + int k) > 0"
      unfolding marked_def by blast
    have "k \<noteq> length l" using k(3) space by (metis nth_append_length)
    moreover have "\<not> k < length l" using k(2) before by (metis nat.distinct(1))
    ultimately obtain j where j: "j < length s" "k = length l + 1 + j" using pos [OF k(1)] by blast
    have "offset + int k = offset + int (length l) + 1 + int j" using j(2) by simp
    with j k after [of j] show "marked ranges (offset + int (length l) + 1) s i"
      unfolding marked_def by (metis nat.inject)
  next
    assume "marked ranges (offset + int (length l) + 1) s i"
    then obtain j where j: "j < length s" "count_list (take j s) LF = i" "\<not> py_isspace (s ! j)"
      "innermost_count ranges (offset + int (length l) + 1 + int j) > 0"
      unfolding marked_def by blast
    have "offset + int (length l + 1 + j) = offset + int (length l) + 1 + int j"
      "length l + 1 + j < length (l @ LF # s)" using j(1) by simp_all
    with j after [of j] show "marked ranges offset (l @ LF # s) (Suc i)"
      unfolding marked_def by metis
  qed
qed

lemma cover_lines_marked:
  assumes "\<forall>l \<in> set ls. LF \<notin> set l" and "i < length ls"
  shows "cover_lines ranges offset ls ! i \<longleftrightarrow> marked ranges offset (join [LF] ls) i"
  using assms
proof (induction ls arbitrary: i offset)
  case (Cons l ls)
  show ?case
  proof (cases ls)
    case Nil
    with Cons.prems show ?thesis by (simp add: marked_single)
  next
    case (Cons l' ls')
    then have join: "join [LF] (l # ls) = l @ LF # join [LF] ls" by simp
    have "LF \<notin> set l" using Cons.prems(1) by simp
    note line = marked_line [OF this, of ranges offset "join [LF] ls"]
    show ?thesis
    proof (cases i)
      case 0
      then show ?thesis using line(1) join by simp
    next
      case (Suc j)
      have "cover_lines ranges (offset + int (length l) + 1) ls ! j \<longleftrightarrow>
          marked ranges (offset + int (length l) + 1) (join [LF] ls) j"
        using Cons.IH Cons.prems Suc by simp
      then show ?thesis using line(2) join Suc by simp
    qed
  qed
qed simp

lemma length_cover_lines [simp]: "length (cover_lines ranges offset ls) = length ls"
  by (induction ls arbitrary: offset) simp_all

section \<open>The summary\<close>

definition code_lines :: "nat \<Rightarrow> string list \<Rightarrow> nat list" where
  "code_lines i ls = map fst (filter (\<lambda>(k, l). is_code_line l) (enumerate i ls))"

lemma code_lines_Cons: "code_lines i (l # ls) = (if is_code_line l then [i] else []) @ code_lines (Suc i) ls"
  by (simp add: code_lines_def)

lemma summarize_from_eq:
  assumes "1 \<le> i" and "i - 1 + length ls \<le> length covered"
  shows "summarize_from i covered ls (hit, tot, missing) =
    Inr (hit + length (filter (\<lambda>k. covered ! (k - 1)) (code_lines i ls)),
         tot + length (code_lines i ls),
         missing @ filter (\<lambda>k. \<not> covered ! (k - 1)) (code_lines i ls))"
  using assms
proof (induction ls arbitrary: i hit tot missing)
  case (Cons l ls)
  then have "py_nth covered (i - 1) = Inr (covered ! (i - 1))" by simp
  with Cons.IH [of "i + 1"] Cons.prems show ?case by (simp add: code_lines_Cons)
qed (simp add: code_lines_def)

lemma code_lines_range: "n \<in> set (code_lines i ls) \<Longrightarrow> i \<le> n \<and> n < i + length ls \<and> is_code_line (ls ! (n - i))"
  by (auto simp: code_lines_def in_set_enumerate_eq)

lemma sorted_code_lines: "sorted_wrt (<) (code_lines i ls)"
proof (induction ls arbitrary: i)
  case (Cons l ls)
  have "i < n" if "n \<in> set (code_lines (Suc i) ls)" for n using code_lines_range [OF that] by simp
  with Cons.IH [of "Suc i"] show ?case by (simp add: code_lines_Cons)
qed (simp add: code_lines_def)

section \<open>Missing lines as ranges\<close>

fun runs :: "nat \<Rightarrow> nat \<Rightarrow> nat list \<Rightarrow> (nat \<times> nat) list" where
  "runs start prev [] = [(start, prev)]"
| "runs start prev (n # ns) = (if n = prev + 1 then runs start n ns else (start, prev) # runs n n ns)"

definition expand :: "(nat \<times> nat) list \<Rightarrow> nat list" where
  "expand rs = concat (map (\<lambda>(a, b). [a..<Suc b]) rs)"

fun separated :: "(nat \<times> nat) list \<Rightarrow> bool" where
  "separated ((a, b) # (c, d) # rs) \<longleftrightarrow> c \<noteq> b + 1 \<and> separated ((c, d) # rs)"
| "separated _ = True"

lemma range_parts_runs: "range_parts start prev ns = map show_range (runs start prev ns)"
  by (induction start prev ns rule: runs.induct) simp_all

lemma expand_runs: "start \<le> prev \<Longrightarrow> expand (runs start prev ns) = [start..<Suc prev] @ ns"
  by (induction start prev ns rule: runs.induct) (simp_all add: expand_def)

lemma runs_Cons: "\<exists>b rs. runs start prev ns = (start, b) # rs"
  by (induction start prev ns rule: runs.induct) auto

lemma separated_runs: "separated (runs start prev ns)"
proof (induction start prev ns rule: runs.induct)
  case (2 start prev n ns)
  obtain b rs where "runs n n ns = (n, b) # rs" using runs_Cons by blast
  with 2 show ?case by auto
qed simp

section \<open>Properties\<close>

text \<open>A line of a covered file counts as executed exactly when some character on it that is no
  whitespace lies in an executed innermost range: of the ranges around the character, the last of
  the smallest.\<close>

theorem line_coverage_marks_executed_lines:
  assumes "i < length (split_on LF source)"
  shows "(line_coverage source ranges ! i \<longleftrightarrow>
      (\<exists>k<length source. count_list (take k source) LF = i \<and> \<not> py_isspace (source ! k) \<and>
         innermost_count ranges (int k) > 0)) \<and>
    (innermost_count ranges p \<noteq> 0 \<longrightarrow> (\<exists>r. smallest ranges p r \<and> innermost_count ranges p = r_count r))"
proof -
  have "\<forall>l \<in> set (split_on LF source). LF \<notin> set l" using set_split_on by blast
  from cover_lines_marked [OF this assms, of ranges 0]
  have "line_coverage source ranges ! i \<longleftrightarrow> marked ranges 0 source i"
    by (simp add: line_coverage_def join_split_on)
  moreover have "\<exists>r. smallest ranges p r \<and> innermost_count ranges p = r_count r" if "innermost_count ranges p \<noteq> 0"
    using that innermost_smallest [of ranges p] by (auto simp: innermost_count_def split: option.splits)
  ultimately show ?thesis by (simp add: marked_def)
qed

theorem line_coverage_marks_executed_lines_witness:
  "line_coverage ''a'' [\<lparr>r_start = 0, r_end = 1, r_count = 1\<rparr>] ! 0 \<longleftrightarrow>
     (\<exists>k<1. innermost_count [\<lparr>r_start = 0, r_end = 1, r_count = 1\<rparr>] (int k) > 0)"
  using line_coverage_marks_executed_lines [of 0 "''a''" "[\<lparr>r_start = 0, r_end = 1, r_count = 1\<rparr>]" 0]
  by (simp add: py_isspace_def)

text \<open>The numbers of a summary add up and stay within the file: executed and missing lines
  together are the lines of code, at most the lines of the file, and the missing ones are listed
  once each, in order, each a line of code that was not executed.\<close>

theorem summary_adds_up:
  "\<exists>hit tot missing. summarize source (line_coverage source ranges) = Inr (hit, tot, missing) \<and>
     hit + length missing = tot \<and> tot \<le> length (split_on LF source) \<and> sorted_wrt (<) missing \<and>
     set missing = {n. 1 \<le> n \<and> n \<le> length (split_on LF source) \<and> is_code_line (split_on LF source ! (n - 1)) \<and>
                       \<not> line_coverage source ranges ! (n - 1)}"
proof -
  let ?ls = "split_on LF source" and ?cov = "line_coverage source ranges"
  let ?code = "code_lines 1 ?ls"
  let ?missing = "filter (\<lambda>k. \<not> ?cov ! (k - 1)) ?code"
  have "summarize source ?cov = Inr (length (filter (\<lambda>k. ?cov ! (k - 1)) ?code), length ?code, ?missing)"
    using summarize_from_eq [of 1 ?ls ?cov 0 0 "[]"] by (simp add: summarize_def line_coverage_def)
  moreover have "length (filter (\<lambda>k. ?cov ! (k - 1)) ?code) + length ?missing = length ?code"
    by (rule sum_length_filter_compl)
  moreover have "length ?code \<le> length ?ls"
    unfolding code_lines_def using length_filter_le [of _ "enumerate 1 ?ls"] by (simp add: case_prod_unfold)
  moreover have "sorted_wrt (<) ?missing" by (rule sorted_wrt_filter [OF sorted_code_lines])
  moreover have "set ?code = {n. 1 \<le> n \<and> n \<le> length ?ls \<and> is_code_line (?ls ! (n - 1))}"
    by (force simp: code_lines_def in_set_enumerate_eq image_iff)
  then have "set ?missing = {n. 1 \<le> n \<and> n \<le> length ?ls \<and> is_code_line (?ls ! (n - 1)) \<and> \<not> ?cov ! (n - 1)}"
    by auto
  ultimately show ?thesis by blast
qed

text \<open>The printed ranges of missing lines say exactly which lines are missing: expanded in order
  they give the list back, and no two neighbours could have been joined.\<close>

theorem missing_ranges_expand:
  "\<exists>rs. format_missing ns = join '', '' (map show_range rs) \<and> expand rs = ns \<and> separated rs"
proof (cases ns)
  case Nil
  then show ?thesis by (intro exI [of _ "[]"]) (simp add: format_missing_def expand_def)
next
  case (Cons n ms)
  then show ?thesis
    using expand_runs [of n n ms] separated_runs [of n n ms]
    by (intro exI [of _ "runs n n ms"]) (simp add: format_missing_def range_parts_runs)
qed

end
