(* ===== verification/Pages.thy ===== *)
theory Pages
  imports Submit BotClient Health
begin

text \<open>
  The routes of \<open>web/main.py\<close>: the pages, the two play requests, the submission and the dashboard's
  event stream, with \<open>group_matches_by_version\<close> of \<open>web/utils.py\<close>. A page is the data its template
  is given. The sample files, the collation, the cluster client and the coin of a new game are
  arguments.
\<close>

section \<open>Matches by version\<close>

text \<open>\<open>grouped[name].append(m)\<close> for a name that is a key.\<close>

definition append_at :: "string \<Rightarrow> 'm \<Rightarrow> (string \<times> 'm list) list \<Rightarrow> (string \<times> 'm list) list" where
  "append_at k m grouped = map (\<lambda>(n, ms). (n, if n = k then ms @ [m] else ms)) grouped"

definition group_match ::
  "string list \<Rightarrow> (string \<times> MatchRow list) list \<Rightarrow> MatchRow \<Rightarrow> (string \<times> MatchRow list) list"
where
  "group_match names grouped m =
     (let g1 = (if r_bot_x m \<in> set names then append_at (r_bot_x m) m grouped else grouped)
      in if r_bot_o m \<in> set names \<and> r_bot_o m \<noteq> r_bot_x m then append_at (r_bot_o m) m g1 else g1)"

definition group_matches_by_version ::
  "FamilyRow list \<Rightarrow> MatchRow list \<Rightarrow> (string \<times> MatchRow list) list"
where
  "group_matches_by_version versions ms =
     (let names = map f_versioned_name versions
      in foldl (group_match names) (dict_of (map (\<lambda>n. (n, [])) names)) ms)"

section \<open>Pages\<close>

datatype page =
    PageNotFound
  | HomePage string string
  | SubmitFormPage
  | LeaderboardPage "StatsRow list"
  | DashboardPage "StatsRow list" "string option"
  | MatchesPage "MatchRow list"
  | FamilyPage string "FamilyRow list" "(string \<times> MatchRow list) list"
  | MatchPage MatchRow "MoveView list" string string string

definition home :: "(string \<Rightarrow> string) \<Rightarrow> ('w, page) prog" where
  "home read_sample = ret (HomePage (read_sample ''template_bot.py'') (read_sample ''test_template_bot.py''))"

definition submit_form :: "('w, page) prog" where
  "submit_form = ret SubmitFormPage"

definition leaderboard_page :: "('w, page) prog" where
  "leaderboard_page = bindP (db_read leaderboard) (\<lambda>rows. ret (LeaderboardPage rows))"

text \<open>\<open>os.environ.get("HOST_IP", "").strip() or None\<close>\<close>

definition host_ip :: "string option \<Rightarrow> string option" where
  "host_ip variable = (let s = py_strip (case variable of Some v \<Rightarrow> v | None \<Rightarrow> [])
                       in if s = [] then None else Some s)"

definition dashboard :: "string option \<Rightarrow> ('w, page) prog" where
  "dashboard variable = bindP (db_read leaderboard) (\<lambda>rows. ret (DashboardPage rows (host_ip variable)))"

definition matches_page :: "('w, page) prog" where
  "matches_page = bindP (db_read list_all_matches) (\<lambda>rows. ret (MatchesPage rows))"

definition bot_family :: "string \<Rightarrow> ('w, page) prog" where
  "bot_family base_name =
     bindP (db_query (family base_name)) (\<lambda>versions.
       if versions = [] then ret PageNotFound
       else bindP (db_query (list_for_bot base_name)) (\<lambda>match_rows.
         ret (FamilyPage base_name versions (group_matches_by_version versions match_rows))))"

text \<open>\<open>_render_match\<close>: the moves once as rows and once as JSON for the replay script.\<close>

definition move_object :: "MoveView \<Rightarrow> json" where
  "move_object m =
     JObj [(''move_number'', JInt (w_move_number m)), (''bot_name'', JStr (w_bot_name m)),
       (''board_state'', JStr (w_board_state m)),
       (''error'', case w_error m of Some e \<Rightarrow> JStr e | None \<Rightarrow> JNull)]"

definition moves_json :: "MoveView list \<Rightarrow> string" where
  "moves_json rows = json_dumps (JArr (map move_object rows))"

definition render_match :: "int \<Rightarrow> string \<Rightarrow> string \<Rightarrow> string option \<Rightarrow> ('w, page) prog" where
  "render_match match_id back_url back_label bot_base_name =
     bindP (db_query (match_by_id match_id bot_base_name)) (\<lambda>found.
       case found of
         None \<Rightarrow> ret PageNotFound
       | Some m \<Rightarrow>
           bindP (db_read (for_match match_id)) (\<lambda>move_rows.
             ret (MatchPage m move_rows (moves_json move_rows) back_url back_label)))"

definition match_detail :: "int \<Rightarrow> ('w, page) prog" where
  "match_detail match_id = render_match match_id ''/matches'' ''Back to matches'' None"

definition bot_match_detail :: "string \<Rightarrow> int \<Rightarrow> ('w, page) prog" where
  "bot_match_detail base_name match_id =
     render_match match_id (''/bots/'' @ base_name) (''Back to '' @ base_name) (Some base_name)"

section \<open>The event stream of a dashboard\<close>

datatype send_result = Sent | WebSocketDisconnect | ClosedRuntimeError | SendError py_exc

text \<open>
  The messages of the tab's own queue, in order; the \<open>i\<close>-th send answers \<open>send i\<close>. A failed send
  ends the stream quietly when the socket is gone.
\<close>

fun forward_events :: "(nat \<Rightarrow> string \<Rightarrow> send_result) \<Rightarrow> nat \<Rightarrow> string list \<Rightarrow> string list \<times> unit res" where
  "forward_events send i [] = ([], Inr ())"
| "forward_events send i (body # bodies) =
     (case bytes_decode body of
        Inl e \<Rightarrow> ([], Inl e)
      | Inr text \<Rightarrow>
          (case send i text of
             Sent \<Rightarrow> (case forward_events send (i + 1) bodies of (out, r) \<Rightarrow> (text # out, r))
           | WebSocketDisconnect \<Rightarrow> ([], Inr ())
           | ClosedRuntimeError \<Rightarrow> ([], Inr ())
           | SendError e \<Rightarrow> ([], Inl e)))"

record stream_end =
  se_sent :: "string list"
  se_result :: "unit res"
  se_closes :: bool

definition dashboard_ws ::
  "unit res \<Rightarrow> unit res \<Rightarrow> bool \<Rightarrow> (nat \<Rightarrow> string \<Rightarrow> send_result) \<Rightarrow> string list \<Rightarrow> stream_end"
where
  "dashboard_ws connect declare_and_bind is_closed send bodies =
     (case connect of
        Inl e \<Rightarrow> \<lparr>se_sent = [], se_result = Inl e, se_closes = False\<rparr>
      | Inr _ \<Rightarrow>
          (case (case declare_and_bind of Inl e \<Rightarrow> ([], Inl e) | Inr _ \<Rightarrow> forward_events send 0 bodies) of
             (out, r) \<Rightarrow> \<lparr>se_sent = out, se_result = r, se_closes = \<not> is_closed\<rparr>))"

section \<open>The routes\<close>

datatype web_request =
    GetHome
  | GetSubmit
  | PostSubmit string "string option"
  | GetPlay "string option"
  | PostPlayName string
  | GetPlayVs int "string option"
  | PostPlayTurn TurnRequest
  | GetLeaderboard
  | GetDashboard
  | GetMatches
  | GetBotFamily string
  | GetMatch int
  | GetBotMatch string int

datatype web_response =
    Page page
  | SubmitResponse SubmitPage
  | PlayResponse response
  | NameResponse response "(string \<times> string) option"
  | Unprocessable

record ('w, 'k) web =
  wb_outside :: "'w outside"
  wb_ast_parse :: ast_parser
  wb_collate :: "string \<Rightarrow> 'k"
  wb_core_v1 :: "'w \<Rightarrow> unit res \<times> 'w"
  wb_sample :: "string \<Rightarrow> string"
  wb_host_ip :: "string option"
  wb_human_is_x :: bool

definition mapP :: "('a \<Rightarrow> 'b) \<Rightarrow> ('w, 'a) prog \<Rightarrow> ('w, 'b) prog" where
  "mapP f m = bindP m (\<lambda>x. ret (f x))"

definition web_app :: "('w, 'k::linorder) web \<Rightarrow> web_request \<Rightarrow> ('w, web_response) prog" where
  "web_app A req =
     (case req of
        GetHome \<Rightarrow> mapP Page (home (wb_sample A))
      | GetSubmit \<Rightarrow> mapP Page submit_form
      | PostSubmit file ttt_owned_bots \<Rightarrow>
          mapP SubmitResponse (handle_submission (wb_outside A) (wb_ast_parse A) file ttt_owned_bots)
      | GetPlay ttt_player_name \<Rightarrow> mapP PlayResponse (render_play_page (wb_collate A) ttt_player_name)
      | PostPlayName player_name \<Rightarrow>
          (case handle_set_player_name player_name of (r, cookie) \<Rightarrow> ret (NameResponse r cookie))
      | GetPlayVs bot_id ttt_player_name \<Rightarrow>
          mapP PlayResponse (render_play_vs_page (wb_human_is_x A) bot_id ttt_player_name)
      | PostPlayTurn payload \<Rightarrow>
          (if valid_TurnRequest payload
             then mapP PlayResponse (handle_play_turn (wb_outside A) (wb_core_v1 A) payload)
           else ret Unprocessable)
      | GetLeaderboard \<Rightarrow> mapP Page leaderboard_page
      | GetDashboard \<Rightarrow> mapP Page (dashboard (wb_host_ip A))
      | GetMatches \<Rightarrow> mapP Page matches_page
      | GetBotFamily base_name \<Rightarrow> mapP Page (bot_family base_name)
      | GetMatch match_id \<Rightarrow> mapP Page (match_detail match_id)
      | GetBotMatch base_name match_id \<Rightarrow> mapP Page (bot_match_detail base_name match_id))"

section \<open>The sections of a family page\<close>

definition participates :: "string \<Rightarrow> MatchRow \<Rightarrow> bool" where
  "participates n m \<longleftrightarrow> r_bot_x m = n \<or> r_bot_o m = n"

lemma group_match_map:
  assumes "set keys \<subseteq> set names"
  shows "group_match names (map (\<lambda>n. (n, f n)) keys) m =
    map (\<lambda>n. (n, f n @ (if participates n m then [m] else []))) keys"
  using assms by (auto simp: group_match_def append_at_def participates_def Let_def)

lemma foldl_group_match:
  assumes "set keys \<subseteq> set names"
  shows "foldl (group_match names) (map (\<lambda>n. (n, f n)) keys) ms =
    map (\<lambda>n. (n, f n @ filter (participates n) ms)) keys"
proof (induction ms arbitrary: f)
  case (Cons m ms)
  show ?case
    using Cons.IH [of "\<lambda>n. f n @ (if participates n m then [m] else [])"]
    by (simp add: group_match_map [OF assms])
qed simp

lemma group_matches_by_version_filter:
  assumes "distinct (map f_versioned_name versions)"
  shows "group_matches_by_version versions ms =
    map (\<lambda>v. (f_versioned_name v, filter (participates (f_versioned_name v)) ms)) versions"
proof -
  let ?names = "map f_versioned_name versions"
  have "map fst (map (\<lambda>n. (n, [] :: MatchRow list)) ?names) = ?names" by (simp add: o_def)
  then have "dict_of (map (\<lambda>n. (n, [] :: MatchRow list)) ?names) = map (\<lambda>n. (n, [])) ?names"
    using assms by (intro dict_of_distinct) (simp add: o_def)
  then show ?thesis
    using foldl_group_match [of ?names ?names "\<lambda>_. []" ms]
    by (simp add: group_matches_by_version_def o_def)
qed

lemma mset_family:
  "mset (family_rows base d) = image_mset (\<lambda>b. \<lparr>f_versioned_name = b_versioned_name b, f_version = b_version b,
     f_submitted_at = b_submitted_at b, f_clean_wins = clean_wins (b_id b) d,
     f_forfeit_wins = forfeit_wins (b_id b) d, f_draws = draws (b_id b) d, f_losses = losses (b_id b) d\<rparr>)
     (mset (filter (\<lambda>b. b_base_name b = base) (bots d)))"
  by (simp add: family_rows_def)

lemma set_family_names:
  "f_versioned_name ` set (family_rows base d) =
     b_versioned_name ` {b \<in> set (bots d). b_base_name b = base}"
  by (force simp: family_rows_def)

lemma distinct_family_names:
  assumes "db_ok d"
  shows "distinct (map f_versioned_name (family_rows base d))"
proof -
  have "mset (map f_versioned_name (family_rows base d)) =
      mset (map b_versioned_name (filter (\<lambda>b. b_base_name b = base) (bots d)))"
    using arg_cong [OF mset_family, of "image_mset f_versioned_name" base d]
    by (simp add: multiset.map_comp o_def)
  moreover have "distinct (map b_versioned_name (filter (\<lambda>b. b_base_name b = base) (bots d)))"
    using assms by (simp add: db_ok_def distinct_map_filter)
  ultimately show ?thesis by (metis distinct_count_atmost_1 mset_eq_setD)
qed

lemma family_empty: "family_rows base d = [] \<longleftrightarrow> base \<notin> b_base_name ` set (bots d)"
proof -
  have "family_rows base d = [] \<longleftrightarrow> f_versioned_name ` set (family_rows base d) = {}" by simp
  also have "\<dots> \<longleftrightarrow> base \<notin> b_base_name ` set (bots d)" by (auto simp: set_family_names)
  finally show ?thesis .
qed

lemma set_match_select:
  "r \<in> set (match_select d) \<Longrightarrow> \<exists>m bx bo bw. r = match_row m bx bo bw \<and> bx \<in> set (bots d) \<and> bo \<in> set (bots d)"
  by (auto simp: match_select_def join_players_def)

lemma family_match_listed:
  assumes "r \<in> set (rows_for_bot base d)"
  shows "\<exists>v \<in> set (family_rows base d). participates (f_versioned_name v) r"
proof -
  have r: "r \<in> set (match_select d)" "involves_family base r"
    using assms by (simp_all add: rows_for_bot_def)
  then obtain m bx bo bw where row: "r = match_row m bx bo bw" "bx \<in> set (bots d)" "bo \<in> set (bots d)"
    using set_match_select by blast
  then have "b_base_name bx = base \<or> b_base_name bo = base"
    using r(2) by (simp add: involves_family_def match_row_def)
  then obtain b where b: "b \<in> set (bots d)" "b_base_name b = base" "participates (b_versioned_name b) r"
    using row by (auto simp: participates_def match_row_def)
  then have "b_versioned_name b \<in> f_versioned_name ` set (family_rows base d)"
    unfolding set_family_names by blast
  then show ?thesis using b(3) by auto
qed

lemma bot_family_eq:
  "bot_family base s = (if \<not> pg_text base then Inl DataError
     else Inr (if family_rows base (s_db s) = [] then PageNotFound
     else FamilyPage base (family_rows base (s_db s))
       (group_matches_by_version (family_rows base (s_db s)) (rows_for_bot base (s_db s)))), s)"
  by (simp add: bot_family_def bindP_def db_query_def family_def list_for_bot_def ret_def)

text \<open>On a consistent database the page of a family is the 404 page exactly when no bot has that
  name; otherwise it has one section for each version, newest first, with the matches that version
  played, newest first, and every match of the family stands in some section.\<close>

theorem family_page_groups_all_matches:
  assumes "db_ok (s_db s)" and "pg_text base"
  shows "(base \<notin> b_base_name ` set (bots (s_db s)) \<longrightarrow> bot_family base s = (Inr PageNotFound, s)) \<and>
    (base \<in> b_base_name ` set (bots (s_db s)) \<longrightarrow>
      bot_family base s = (Inr (FamilyPage base (family_rows base (s_db s))
        (map (\<lambda>v. (f_versioned_name v,
            filter (\<lambda>m. r_bot_x m = f_versioned_name v \<or> r_bot_o m = f_versioned_name v) (rows_for_bot base (s_db s))))
          (family_rows base (s_db s)))), s) \<and>
      (\<forall>r \<in> set (rows_for_bot base (s_db s)). \<exists>v \<in> set (family_rows base (s_db s)).
         r_bot_x r = f_versioned_name v \<or> r_bot_o r = f_versioned_name v))"
  using group_matches_by_version_filter [OF distinct_family_names [OF assms(1)], of base] family_match_listed assms(2)
  by (auto simp: bot_family_eq family_empty participates_def [abs_def])

text \<open>The page of family A in the sample database: version 2, then version 1.\<close>

definition sample_sys :: "unit sys" where
  "sample_sys = \<lparr>s_db = sample_db, s_log = [], s_taken = (\<lambda>_. 0), s_events = [], s_world = (),
     s_drawn = 0, s_tried = 0\<rparr>"

theorem family_page_groups_all_matches_witness:
  "bot_family ''nobody'' sample_sys = (Inr PageNotFound, sample_sys) \<and>
   (\<exists>versions grouped. bot_family ''A'' sample_sys = (Inr (FamilyPage ''A'' versions grouped), sample_sys) \<and>
      (\<forall>r \<in> set (rows_for_bot ''A'' sample_db). \<exists>v \<in> set versions.
         r_bot_x r = f_versioned_name v \<or> r_bot_o r = f_versioned_name v))"
proof -
  have ok: "db_ok (s_db sample_sys)" by (simp add: sample_sys_def sample_db_ok)
  have "''nobody'' \<notin> b_base_name ` set (bots (s_db sample_sys))" "''A'' \<in> b_base_name ` set (bots (s_db sample_sys))"
    by (simp_all add: sample_sys_def sample_db_def sample_bot_def)
  moreover have "pg_text ''nobody''" "pg_text ''A''" by (simp_all add: pg_text_def)
  ultimately show ?thesis
    using family_page_groups_all_matches [OF ok, of "''nobody''"] family_page_groups_all_matches [OF ok, of "''A''"]
    by (simp add: sample_sys_def)
qed

section \<open>The page of a match\<close>

lemma moves_json_reads: "json_loads (moves_json rows) = Some (JArr (map move_object rows))"
  unfolding moves_json_def
  by (rule json_loads_dumps) (auto simp: move_object_def split: option.splits)

lemma render_match_eq:
  "render_match i url label base s = (case match_by_id i base (s_db s) of
       Inl e \<Rightarrow> Inl e
     | Inr None \<Rightarrow> Inr PageNotFound
     | Inr (Some m) \<Rightarrow>
         Inr (MatchPage m (for_match i (s_db s)) (moves_json (for_match i (s_db s))) url label), s)"
  by (simp add: render_match_def bindP_def db_query_def db_read_def ret_def split: option.split sum.split)

text \<open>C35: after a match has been recorded, its page shows its players, winner and result, and the
  JSON its replay script reads holds exactly the moves that were played, in order.\<close>

theorem match_page_replays_the_record:
  assumes "db_ok d" and "record_match x y result cid now d = (Inr u, s_db s)"
    and "bx \<in> set (bots d)" "b_id bx = x" and "bo \<in> set (bots d)" "b_id bo = y"
    and "sorted (map mv_number (mr_moves result))"
  shows "\<exists>rows replay. match_detail (matches_seq d) s =
      (Inr (MatchPage (match_row (recorded x y result cid now d) bx bo (winner_bot bx bo (mr_result result)))
        rows replay ''/matches'' ''Back to matches''), s) \<and>
    json_loads replay = Some (JArr (map (\<lambda>mv. JObj
      [(''move_number'', JInt (int (mv_number mv))),
       (''bot_name'', JStr (b_versioned_name (if mv_player mv = ''x'' then bx else bo))),
       (''board_state'', JStr (mv_board mv)),
       (''error'', case mv_error mv of JStr e \<Rightarrow> JStr e | _ \<Rightarrow> JNull)]) (mr_moves result)))"
proof -
  let ?view = "move_view (\<lambda>i. b_versioned_name (if i = x then bx else bo)) x y"
  have found: "match_by_id (matches_seq d) None (s_db s) =
      Inr (Some (match_row (recorded x y result cid now d) bx bo (winner_bot bx bo (mr_result result))))"
    by (rule match_by_id_record [OF assms(1-6)])
  have rows: "for_match (matches_seq d) (s_db s) = map ?view (mr_moves result)"
    by (rule for_match_record [OF assms])
  have same: "b_versioned_name bx = b_versioned_name bo" if "x = y"
    using filter_Some_id [OF assms(1,3)] filter_Some_id [OF assms(1,5)] assms(4,6) that by simp
  have object: "move_object (?view mv) = JObj
      [(''move_number'', JInt (int (mv_number mv))),
       (''bot_name'', JStr (b_versioned_name (if mv_player mv = ''x'' then bx else bo))),
       (''board_state'', JStr (mv_board mv)),
       (''error'', case mv_error mv of JStr e \<Rightarrow> JStr e | _ \<Rightarrow> JNull)]" for mv
    using same by (cases "mv_error mv") (auto simp: move_object_def move_view_def)
  have "json_loads (moves_json (for_match (matches_seq d) (s_db s))) =
      Some (JArr (map (\<lambda>mv. move_object (?view mv)) (mr_moves result)))"
    by (simp add: moves_json_reads rows o_def)
  then show ?thesis
    by (simp add: match_detail_def render_match_eq found object)
qed

theorem match_page_replays_the_record_witness:
  "\<exists>d1 m rows replay. match_detail 4 (sample_sys\<lparr>s_db := d1\<rparr>) =
      (Inr (MatchPage m rows replay ''/matches'' ''Back to matches''), sample_sys\<lparr>s_db := d1\<rparr>) \<and>
    json_loads replay = Some (JArr [JObj [(''move_number'', JInt 1), (''bot_name'', JStr ''A''),
      (''board_state'', JStr ''b''), (''error'', JStr ''e'')]])"
proof -
  let ?r = "\<lparr>mr_result = X_FORFEIT, mr_moves = [\<lparr>mv_number = 1, mv_player = ''x'',
       mv_board = ''b'', mv_error = JStr ''e''\<rparr>]\<rparr>"
  obtain d1 where d1: "record_match 1 2 ?r ''c'' 9 sample_db = (Inr (), d1)"
    by (simp add: record_match_def Let_def pg_text_def sample_db_def sample_bot_def error_column_def)
  have b: "sample_bot 1 ''A'' ''A'' 1 \<in> set (bots sample_db)" "sample_bot 2 ''B'' ''B'' 1 \<in> set (bots sample_db)"
    "b_id (sample_bot 1 ''A'' ''A'' 1) = 1" "b_id (sample_bot 2 ''B'' ''B'' 1) = 2"
    "b_versioned_name (sample_bot 1 ''A'' ''A'' 1) = ''A''" "matches_seq sample_db = 4"
    by (simp_all add: sample_db_def sample_bot_def)
  have "record_match 1 2 ?r ''c'' 9 sample_db = (Inr (), s_db (sample_sys\<lparr>s_db := d1\<rparr>))"
    using d1 by simp
  from match_page_replays_the_record [OF sample_db_ok this b(1,3) b(2,4)]
  show ?thesis by (simp add: b(5,6)) blast
qed

text \<open>C40: on a consistent database the page of a match is found exactly for the ids of the stored
  matches, and the 404 page is sent for every other id that fits an \<open>INTEGER\<close> column. An id of
  more than 32 bits, or a name with a NUL character, does not get the 404 page: the query fails and
  the request ends in the driver's error.\<close>

theorem page_of_unknown_id:
  assumes "db_ok (s_db s)"
  shows "(\<not> pg_int4 i \<longrightarrow> match_detail i s = (Inl DataError, s)) \<and>
    (pg_int4 i \<and> i \<notin> m_id ` set (matches (s_db s)) \<longrightarrow> match_detail i s = (Inr PageNotFound, s)) \<and>
    (i \<in> m_id ` set (matches (s_db s)) \<longrightarrow>
      (\<exists>m rows json. match_detail i s = (Inr (MatchPage m rows json ''/matches'' ''Back to matches''), s) \<and> r_id m = i)) \<and>
    (\<not> pg_text base \<longrightarrow> bot_family base s = (Inl DataError, s) \<and> bot_match_detail base i s = (Inl DataError, s))"
proof -
  note status = match_by_id_status [OF assms, of i]
  have "\<not> pg_int4 i \<Longrightarrow> match_detail i s = (Inl DataError, s)"
    "pg_int4 i \<Longrightarrow> i \<notin> m_id ` set (matches (s_db s)) \<Longrightarrow> match_detail i s = (Inr PageNotFound, s)"
    using status(1,2) by (simp_all add: match_detail_def render_match_eq)
  moreover have "\<exists>m rows json. match_detail i s = (Inr (MatchPage m rows json ''/matches'' ''Back to matches''), s) \<and> r_id m = i"
    if m: "i \<in> m_id ` set (matches (s_db s))"
    using status(3) [OF m] by (auto simp: match_detail_def render_match_eq)
  moreover have "bot_family base s = (Inl DataError, s) \<and> bot_match_detail base i s = (Inl DataError, s)"
    if "\<not> pg_text base"
    using that by (simp add: bot_family_eq bot_match_detail_def render_match_eq match_by_id_def)
  ultimately show ?thesis by blast
qed

theorem page_of_unknown_id_witness:
  "fst (match_detail 2147483648 sample_sys) = Inl DataError \<and>
   fst (match_detail 2147483647 sample_sys) = Inr PageNotFound \<and>
   fst (bot_family [CHR 0x00] sample_sys) = Inl DataError \<and>
   (\<exists>m rows json url label. fst (match_detail 1 sample_sys) = Inr (MatchPage m rows json url label))"
proof -
  have ok: "db_ok (s_db sample_sys)" by (simp add: sample_sys_def sample_db_ok)
  have ids: "m_id ` set (matches (s_db sample_sys)) = {1, 2, 3}"
    by (simp add: sample_sys_def sample_db_def sample_match_def)
  have "\<not> pg_int4 2147483648" "\<not> pg_text [CHR 0x00]" by (simp_all add: pg_int4_def pg_text_def)
  then have "fst (match_detail 2147483648 sample_sys) = Inl DataError \<and> fst (bot_family [CHR 0x00] sample_sys) = Inl DataError"
    using page_of_unknown_id [OF ok, of 2147483648 "[CHR 0x00]"] by simp
  moreover have "fst (match_detail 2147483647 sample_sys) = Inr PageNotFound"
    using page_of_unknown_id [OF ok, of 2147483647] unfolding ids by simp
  moreover obtain m rows json where "match_detail 1 sample_sys =
      (Inr (MatchPage m rows json ''/matches'' ''Back to matches''), sample_sys)"
    using page_of_unknown_id [OF ok, of 1] unfolding ids by blast
  ultimately show ?thesis by simp
qed

section \<open>Routes that only read\<close>

text \<open>The program leaves the tables, the queues and the events as they are.\<close>

definition same_tables :: "'w sys \<Rightarrow> 'w sys \<Rightarrow> bool" where
  "same_tables s t \<longleftrightarrow>
     s_db t = s_db s \<and> s_log t = s_log s \<and> s_taken t = s_taken s \<and> s_events t = s_events s"

interpretation reading: state_preorder same_tables
  by unfold_locales (simp_all add: same_tables_def)

lemma reading_in_world: "keeps same_tables (in_world f)"
  by (simp add: keeps_def same_tables_def in_world_def split: prod.split)

lemma keeps_case_option:
  "keeps R a \<Longrightarrow> (\<And>x. keeps R (f x)) \<Longrightarrow> keeps R (case v of None \<Rightarrow> a | Some x \<Rightarrow> f x)"
  by (cases v) auto

lemma keeps_case_sum:
  "(\<And>e. keeps R (f e)) \<Longrightarrow> (\<And>x. keeps R (g x)) \<Longrightarrow> keeps R (case v of Inl e \<Rightarrow> f e | Inr x \<Rightarrow> g x)"
  by (cases v) auto

lemma keeps_if: "keeps R a \<Longrightarrow> keeps R b \<Longrightarrow> keeps R (if c then a else b)"
  by simp

lemma reading_mapP: "keeps same_tables m \<Longrightarrow> keeps same_tables (mapP f m)"
  unfolding mapP_def by (intro reading.keeps_bindP reading.keeps_ret)

lemmas reading_rules = reading.keeps_rules reading_in_world reading_mapP
  keeps_case_option keeps_case_sum keeps_if

lemmas page_defs = home_def submit_form_def leaderboard_page_def dashboard_def matches_page_def
  bot_family_def match_detail_def bot_match_detail_def render_match_def

lemma reading_pages:
  "keeps same_tables (home f)" "keeps same_tables submit_form" "keeps same_tables leaderboard_page"
  "keeps same_tables (dashboard v)" "keeps same_tables matches_page" "keeps same_tables (bot_family base)"
  "keeps same_tables (match_detail i)" "keeps same_tables (bot_match_detail base i)"
  unfolding page_defs by (intro reading_rules)+

lemma reading_play:
  "keeps same_tables (render_play_page collate cookie)" "keeps same_tables (render_play_vs_page b i cookie)"
  "keeps same_tables (handle_play_turn W core q)"
  unfolding render_play_page_def render_play_vs_page_def handle_play_turn_def Let_def
  by (intro reading_rules)+

text \<open>C36: no request to a page or an action but a submission changes the tables, the queues or the events:
  looking at any page and playing against a bot leave the tournament as it is, also when the request
  fails. The health route, the static files and the dashboard's websocket are not among these.\<close>

theorem only_submissions_write:
  assumes "\<And>file cookie. req \<noteq> PostSubmit file cookie"
  shows "s_db (snd (web_app A req s)) = s_db s \<and> s_log (snd (web_app A req s)) = s_log s \<and>
    s_taken (snd (web_app A req s)) = s_taken s \<and> s_events (snd (web_app A req s)) = s_events s"
proof -
  have "keeps same_tables (web_app A req)"
    using assms
    by (cases req) (auto simp: web_app_def reading_pages reading_play intro: reading_rules split: prod.split)
  then show ?thesis by (simp add: keeps_def same_tables_def)
qed

theorem only_submissions_write_witness:
  "\<forall>A :: (unit, int) web. s_db (snd (web_app A (GetBotFamily ''A'') sample_sys)) = sample_db"
proof
  fix A :: "(unit, int) web"
  show "s_db (snd (web_app A (GetBotFamily ''A'') sample_sys)) = sample_db"
    using only_submissions_write [of "GetBotFamily ''A''" A sample_sys] by (simp add: sample_sys_def)
qed

section \<open>What a dashboard receives\<close>

lemma event_body_decodes: "wf_json (JObj details) \<Longrightarrow> bytes_decode (event_body t details) = Inr (event_body t details)"
  unfolding event_body_def by (intro bytes_decode_ascii ascii_json_dumps) simp

lemma forward_events_all:
  "\<forall>b \<in> set bodies. bytes_decode b = Inr b \<Longrightarrow> (\<And>j text. send j text = Sent) \<Longrightarrow>
   forward_events send i bodies = (bodies, Inr ())"
  by (induction bodies arbitrary: i) auto

lemma forward_events_prefix:
  "\<forall>b \<in> set bodies. bytes_decode b = Inr b \<Longrightarrow> \<exists>n. fst (forward_events send i bodies) = take n bodies"
proof (induction bodies arbitrary: i)
  case (Cons b bodies)
  obtain n where "fst (forward_events send (i + 1) bodies) = take n bodies"
    using Cons.IH Cons.prems by fastforce
  moreover have "fst (forward_events send i (b # bodies)) =
      (if send i b = Sent then b # fst (forward_events send (i + 1) bodies) else [])"
    using Cons.prems by (simp split: send_result.split prod.split)
  ultimately show ?case
    by (cases "send i b = Sent") (auto intro: exI [of _ "Suc n"] exI [of _ 0])
qed simp

text \<open>A dashboard's tab gets the events in the order they were published and no others: all of them
  while its socket works, a prefix of them otherwise, and the connection to the broker is closed
  in the end; each text parses to the type and the details of its event.\<close>

theorem dashboard_streams_events:
  assumes "\<forall>(t, details) \<in> set events. wf_json (JObj details)"
  shows "let tab = dashboard_ws (Inr ()) (Inr ()) False send (map (\<lambda>(t, details). event_body t details) events) in
    (\<exists>n. map json_loads (se_sent tab) = map (\<lambda>(t, details).
        Some (JObj [(''type'', JStr t), (''details'', JObj details)])) (take n events)) \<and>
    ((\<forall>i text. send i text = Sent) \<longrightarrow> length (se_sent tab) = length events \<and> se_result tab = Inr ()) \<and>
    se_closes tab"
proof -
  let ?bodies = "map (\<lambda>(t, details). event_body t details) events"
  have texts: "\<forall>b \<in> set ?bodies. bytes_decode b = Inr b"
    using assms by (force simp: event_body_decodes)
  obtain n where n: "fst (forward_events send 0 ?bodies) = take n ?bodies"
    using forward_events_prefix [OF texts] by blast
  have "json_loads (event_body t details) = Some (JObj [(''type'', JStr t), (''details'', JObj details)])"
    if "(t, details) \<in> set (take n events)" for t details
    using that assms by (intro json_loads_event_body) (auto dest!: in_set_takeD)
  then have "map json_loads (take n ?bodies) = map (\<lambda>(t, details).
        Some (JObj [(''type'', JStr t), (''details'', JObj details)])) (take n events)"
    by (auto simp: take_map)
  then show ?thesis
    using n forward_events_all [OF texts, of send 0]
    by (auto simp: dashboard_ws_def Let_def split: prod.split intro: exI [of _ n])
qed

theorem dashboard_streams_events_witness:
  "map json_loads (se_sent (dashboard_ws (Inr ()) (Inr ()) False (\<lambda>_ _. Sent)
     [event_body EVENT_BOT_UPLOADED [(''versioned_name'', JStr ''A'')]])) =
   [Some (JObj [(''type'', JStr ''bot.uploaded''), (''details'', JObj [(''versioned_name'', JStr ''A'')])])]"
proof -
  let ?events = "[(EVENT_BOT_UPLOADED, [(''versioned_name'', JStr ''A'')])]"
  let ?tab = "dashboard_ws (Inr ()) (Inr ()) False (\<lambda>_ _. Sent) (map (\<lambda>(t, details). event_body t details) ?events)"
  obtain n where n: "map json_loads (se_sent ?tab) = map (\<lambda>(t, details).
        Some (JObj [(''type'', JStr t), (''details'', JObj details)])) (take n ?events)"
    and "length (se_sent ?tab) = length ?events"
    using dashboard_streams_events [of ?events "\<lambda>_ _. Sent"] by (auto simp: Let_def)
  moreover have "length (map json_loads (se_sent ?tab)) = length (take n ?events)" unfolding n by simp
  ultimately have "take n ?events = ?events" by (cases n) simp_all
  with n show ?thesis by (simp add: EVENT_BOT_UPLOADED_def)
qed

end
