(* ===== verification/ExportBots.thy ===== *)
theory ExportBots
  imports DbStats
begin

text \<open>
  \<open>scripts/export_bots.py\<close>: the sources of the bots as files and the leaderboard as Markdown. A file
  system is a map from paths to contents with a parameter that says which paths cannot be made or
  written, and why. \<open>main\<close> runs the two exports one after the other.
\<close>

section \<open>File names\<close>

definition filename_safe :: "char \<Rightarrow> bool" where
  "filename_safe c \<longleftrightarrow> c \<in> set (''ABCDEFGHIJKLMNOPQRSTUVWXYZ'' @ ''abcdefghijklmnopqrstuvwxyz'' @
     ''0123456789'' @ ''_-'')"

text \<open>\<open>_UNSAFE.sub("_", s)\<close>: every maximal run of other characters becomes one underscore.\<close>

function sub_unsafe :: "string \<Rightarrow> string" where
  "sub_unsafe [] = []"
| "sub_unsafe (c # cs) =
     (if filename_safe c then c # sub_unsafe cs
      else CHR ''_'' # sub_unsafe (dropWhile (\<lambda>d. \<not> filename_safe d) cs))"
  by pat_completeness auto
termination
  by (relation "measure length") (auto simp: le_imp_less_Suc length_dropWhile_le)

definition safe_filename :: "string \<Rightarrow> string" where
  "safe_filename name = sub_unsafe name @ ''.py''"

section \<open>The leaderboard\<close>

definition md_escape :: "string \<Rightarrow> string" where
  "md_escape s = concat (map (\<lambda>c. if c = CHR ''|'' then [CHR 0x5C, CHR ''|''] else [c]) s)"

definition md_row :: "nat \<Rightarrow> StatsRow \<Rightarrow> string" where
  "md_row i row =
     ''| '' @ nat_str i @ '' | '' @ md_escape (s_versioned_name row) @ '' | '' @
     nat_str (s_clean_wins row) @ '' | '' @ nat_str (s_forfeit_wins row) @ '' | '' @
     nat_str (s_draws row) @ '' | '' @ nat_str (s_losses row) @ '' | '' @
     nat_str (s_lifetime_wins row) @ ''-'' @ nat_str (s_lifetime_losses row) @ '' |''"

definition md_head :: "string list" where
  "md_head =
     [''# Leaderboard'', [],
      ''| # | Bot | Clean Wins | Forfeit Wins | Draws | Losses | Lifetime |'',
      ''|---|-----|------------|--------------|-------|--------|----------|'']"

definition render_leaderboard_md :: "StatsRow list \<Rightarrow> string" where
  "render_leaderboard_md rows =
     (if rows = [] then ''# Leaderboard'' @ [LF, LF] @ ''No bots submitted yet.'' @ [LF]
      else join [LF] (md_head @ map (\<lambda>(i, row). md_row i row) (enumerate 1 rows)) @ [LF])"

section \<open>Files\<close>

type_synonym files = "string \<rightharpoonup> string"

definition write_file :: "(string \<Rightarrow> py_exc option) \<Rightarrow> string \<Rightarrow> string \<Rightarrow> files \<Rightarrow> unit res \<times> files" where
  "write_file fault path content fs =
     (case fault path of Some e \<Rightarrow> (Inl e, fs) | None \<Rightarrow> (Inr (), fs(path \<mapsto> content)))"

text \<open>\<open>out_dir.mkdir(parents=True, exist_ok=True)\<close>\<close>

definition make_dir :: "(string \<Rightarrow> py_exc option) \<Rightarrow> string \<Rightarrow> unit res" where
  "make_dir fault out_dir = (case fault out_dir of Some e \<Rightarrow> Inl e | None \<Rightarrow> Inr ())"

definition in_dir :: "string \<Rightarrow> string \<Rightarrow> string" where
  "in_dir out_dir name = out_dir @ ''/'' @ name"

definition export_leaderboard :: "(string \<Rightarrow> py_exc option) \<Rightarrow> string \<Rightarrow> db \<Rightarrow> files \<Rightarrow> string res \<times> files" where
  "export_leaderboard fault out_dir d fs =
     (case make_dir fault out_dir of
        Inl e \<Rightarrow> (Inl e, fs)
      | Inr _ \<Rightarrow>
          (let path = in_dir out_dir ''leaderboard.md''
           in case write_file fault path (render_leaderboard_md (leaderboard d)) fs of
                (Inl e, fs1) \<Rightarrow> (Inl e, fs1)
              | (Inr _, fs1) \<Rightarrow> (Inr path, fs1)))"

text \<open>The loop of \<open>export_all\<close>, from the number written so far.\<close>

fun export_loop ::
  "(string \<Rightarrow> py_exc option) \<Rightarrow> string \<Rightarrow> nat \<Rightarrow> Bot list \<Rightarrow> files \<Rightarrow> nat res \<times> files"
where
  "export_loop fault out_dir written [] fs = (Inr written, fs)"
| "export_loop fault out_dir written (b # bs) fs =
     (case b_source b of
        None \<Rightarrow> export_loop fault out_dir written bs fs
      | Some src \<Rightarrow>
          if src = [] then export_loop fault out_dir written bs fs
          else (case write_file fault (in_dir out_dir (safe_filename (b_versioned_name b))) src fs of
                  (Inl e, fs1) \<Rightarrow> (Inl e, fs1)
                | (Inr _, fs1) \<Rightarrow> export_loop fault out_dir (written + 1) bs fs1))"

definition export_all :: "(string \<Rightarrow> py_exc option) \<Rightarrow> string \<Rightarrow> db \<Rightarrow> files \<Rightarrow> nat res \<times> files" where
  "export_all fault out_dir d fs =
     (case make_dir fault out_dir of
        Inl e \<Rightarrow> (Inl e, fs)
      | Inr _ \<Rightarrow> export_loop fault out_dir 0 (bots d) fs)"

definition export_main :: "(string \<Rightarrow> py_exc option) \<Rightarrow> string \<Rightarrow> db \<Rightarrow> files \<Rightarrow> (nat \<times> string) res \<times> files" where
  "export_main fault out_dir d fs =
     (case export_all fault out_dir d fs of
        (Inl e, fs1) \<Rightarrow> (Inl e, fs1)
      | (Inr n, fs1) \<Rightarrow>
          (case export_leaderboard fault out_dir d fs1 of
             (Inl e, fs2) \<Rightarrow> (Inl e, fs2)
           | (Inr path, fs2) \<Rightarrow> (Inr (n, path), fs2)))"

section \<open>What is written\<close>

text \<open>The bots whose source is exported, with their files.\<close>

fun exported :: "string \<Rightarrow> Bot list \<Rightarrow> (string \<times> string) list" where
  "exported out_dir [] = []"
| "exported out_dir (b # bs) =
     (case b_source b of
        None \<Rightarrow> exported out_dir bs
      | Some src \<Rightarrow>
          if src = [] then exported out_dir bs
          else (in_dir out_dir (safe_filename (b_versioned_name b)), src) # exported out_dir bs)"

lemma export_loop_files:
  assumes ok: "\<And>p. fault p = None"
  shows "export_loop fault out_dir written bs fs =
    (Inr (written + length (exported out_dir bs)), fs ++ map_of (rev (exported out_dir bs)))"
proof (induction bs arbitrary: written fs)
  case (Cons b bs)
  show ?case
  proof (cases "b_source b")
    case (Some src)
    let ?p = "in_dir out_dir (safe_filename (b_versioned_name b))"
    show ?thesis
    proof (cases "src = []")
      case False
      have step: "export_loop fault out_dir written (b # bs) fs = export_loop fault out_dir (written + 1) bs (fs(?p \<mapsto> src))"
        using Some False by (simp add: write_file_def ok)
      have out: "exported out_dir (b # bs) = (?p, src) # exported out_dir bs" using Some False by simp
      have files: "fs ++ map_of (rev ((?p, src) # exported out_dir bs)) = fs(?p \<mapsto> src) ++ map_of (rev (exported out_dir bs))"
        by (simp add: fun_eq_iff map_add_def split: option.split)
      show ?thesis unfolding step out files Cons.IH by simp
    qed (simp add: Some Cons.IH)
  qed (simp add: Cons.IH)
qed simp

lemma export_all_files:
  assumes "\<And>p. fault p = None"
  shows "export_all fault out_dir d fs =
    (Inr (length (exported out_dir (bots d))), fs ++ map_of (rev (exported out_dir (bots d))))"
  using export_loop_files [where fault = fault and written = 0, OF assms]
  by (simp add: export_all_def make_dir_def assms)

lemma exported_paths:
  "set (map fst (exported out_dir bs)) \<subseteq> (\<lambda>b. in_dir out_dir (safe_filename (b_versioned_name b))) ` set bs"
  by (induction bs) (auto split: option.splits if_splits)

lemma exported_mem:
  "b \<in> set bs \<Longrightarrow> b_source b = Some src \<Longrightarrow> src \<noteq> [] \<Longrightarrow>
   (in_dir out_dir (safe_filename (b_versioned_name b)), src) \<in> set (exported out_dir bs)"
  by (induction bs) (auto split: option.splits)

lemma length_exported:
  "length (exported out_dir bs) = length (filter (\<lambda>b. b_source b \<notin> {None, Some []}) bs)"
  by (induction bs) (auto split: option.split)

lemma in_dir_inject [simp]: "in_dir d a = in_dir d b \<longleftrightarrow> a = b"
  by (simp add: in_dir_def)

lemma distinct_exported:
  "distinct (map (\<lambda>b. safe_filename (b_versioned_name b)) bs) \<Longrightarrow> distinct (map fst (exported out_dir bs))"
proof (induction bs)
  case (Cons b bs)
  have "in_dir out_dir (safe_filename (b_versioned_name b)) \<notin> set (map fst (exported out_dir bs))"
    using Cons.prems exported_paths [of out_dir bs] by auto
  then show ?case using Cons by (auto split: option.split)
qed simp

lemma sub_unsafe_safe: "list_all filename_safe s \<Longrightarrow> sub_unsafe s = s"
  by (induction s) auto

lemma safe_filename_safe: "list_all filename_safe (sub_unsafe s)"
  by (induction s rule: sub_unsafe.induct) (simp_all add: filename_safe_def)


lemma safe_filename_inject:
  "list_all filename_safe a \<Longrightarrow> list_all filename_safe b \<Longrightarrow> safe_filename a = safe_filename b \<longleftrightarrow> a = b"
  by (simp add: safe_filename_def sub_unsafe_safe)

section \<open>Properties\<close>

text \<open>When every path can be written and the names of the bots are made of the characters a file
  name keeps, the export writes the source of every bot that has one to a file of its own, reports
  their number, and touches no other file.\<close>

theorem export_keeps_every_source:
  assumes "db_ok d" and "\<And>b. b \<in> set (bots d) \<Longrightarrow> list_all filename_safe (b_versioned_name b)"
    and "\<And>p. fault p = None"
  shows "\<exists>n fs'. export_all fault out_dir d fs = (Inr n, fs') \<and>
    n = length (filter (\<lambda>b. b_source b \<notin> {None, Some []}) (bots d)) \<and>
    (\<forall>b \<in> set (bots d). b_source b \<notin> {None, Some []} \<longrightarrow>
      fs' (in_dir out_dir (b_versioned_name b @ ''.py'')) = b_source b) \<and>
    (\<forall>p. p \<notin> (\<lambda>b. in_dir out_dir (b_versioned_name b @ ''.py'')) ` set (bots d) \<longrightarrow> fs' p = fs p)"
proof -
  let ?out = "exported out_dir (bots d)"
  have name: "safe_filename (b_versioned_name b) = b_versioned_name b @ ''.py''" if "b \<in> set (bots d)" for b
    using assms(2) [OF that] by (simp add: safe_filename_def sub_unsafe_safe)
  then have "map (\<lambda>b. safe_filename (b_versioned_name b)) (bots d) = map (\<lambda>n. n @ ''.py'') (map b_versioned_name (bots d))"
    by simp
  moreover have "distinct (map (\<lambda>n. n @ ''.py'') (map b_versioned_name (bots d)))"
    using db_okD(2) [OF assms(1)] unfolding distinct_map [of "\<lambda>n. n @ ''.py''"]
    by (simp add: inj_on_def)
  ultimately have distinct: "distinct (map fst ?out)" by (intro distinct_exported) (simp add: o_def cong: map_cong)
  have "length ?out = length (filter (\<lambda>b. b_source b \<notin> {None, Some []}) (bots d))"
    by (rule length_exported)
  moreover have "(fs ++ map_of (rev ?out)) (in_dir out_dir (b_versioned_name b @ ''.py'')) = b_source b"
    if b: "b \<in> set (bots d)" "b_source b \<notin> {None, Some []}" for b
  proof -
    obtain src where src: "b_source b = Some src" "src \<noteq> []" using b(2) by auto
    then have "(in_dir out_dir (b_versioned_name b @ ''.py''), src) \<in> set (rev ?out)"
      using exported_mem [OF b(1) src] name [OF b(1)] by simp
    then show ?thesis using distinct src by (simp add: map_add_find_right rev_map [symmetric])
  qed
  moreover have "(fs ++ map_of (rev ?out)) p = fs p"
    if "p \<notin> (\<lambda>b. in_dir out_dir (b_versioned_name b @ ''.py'')) ` set (bots d)" for p
  proof -
    have "p \<notin> set (map fst ?out)" using exported_paths [of out_dir "bots d"] that name by auto
    then have "map_of (rev ?out) p = None" by (simp add: map_of_eq_None_iff)
    then show ?thesis by (simp add: map_add_def)
  qed
  ultimately show ?thesis using export_all_files [where fault = fault, OF assms(3)] by blast
qed

text \<open>Two bots whose names differ only in the characters that are replaced share one file.\<close>

theorem export_can_lose_a_source:
  "let d = empty_db\<lparr>bots := [(sample_bot 1 ''a b'' ''a b'' 1)\<lparr>b_source := Some ''1''\<rparr>,
       (sample_bot 2 ''a_b'' ''a_b'' 1)\<lparr>b_source := Some ''2''\<rparr>]\<rparr>
   in export_all (\<lambda>_. None) ''out'' d Map.empty = (Inr 2, [''out/a_b.py'' \<mapsto> ''2''])"
  by (simp add: Let_def export_all_def make_dir_def sample_bot_def safe_filename_def filename_safe_def write_file_def in_dir_def)

theorem export_keeps_every_source_witness:
  "\<exists>n fs'. export_all (\<lambda>_. None) ''out'' (empty_db\<lparr>bots_seq := 2, bots := [(sample_bot 1 ''A'' ''AV2'' 2)\<lparr>b_source := Some ''x''\<rparr>]\<rparr>)
     Map.empty = (Inr n, fs') \<and> n = 1 \<and> fs' ''out/AV2.py'' = Some ''x''"
proof -
  let ?d = "empty_db\<lparr>bots_seq := 2, bots := [(sample_bot 1 ''A'' ''AV2'' 2)\<lparr>b_source := Some ''x''\<rparr>]\<rparr>"
  have "db_ok ?d" by (simp add: db_ok_def seqs_ok_def columns_ok_def pg_text_def empty_db_def sample_bot_def)
  moreover have "list_all filename_safe (b_versioned_name b)" if "b \<in> set (bots ?d)" for b
    using that by (simp add: sample_bot_def filename_safe_def)
  ultimately show ?thesis
    using export_keeps_every_source [of ?d "\<lambda>_. None" "''out''" Map.empty]
    by (simp add: sample_bot_def in_dir_def) blast
qed

end
