(* ===== verification/SeedBots.thy ===== *)
theory SeedBots
  imports Submit "HOL-Library.Char_ord" "HOL-Library.List_Lexorder"
begin

text \<open>
  \<open>scripts/seed_example_bots.py\<close>: clearing the tables, registering every example file as a bot and
  publishing a build message for every bot. A source file is its name and its bytes; the lines the
  script prints are left out.
\<close>

section \<open>The script\<close>

definition clear_tables :: "db \<Rightarrow> unit res \<times> db" where
  "clear_tables d = (Inr (), d\<lparr>moves := [], matches := [], bots := []\<rparr>)"

text \<open>The insertion of one source whose docstring has a name.\<close>

definition seed_bot :: "'w outside \<Rightarrow> string \<Rightarrow> string \<Rightarrow> string \<Rightarrow> ('w, Bot) prog" where
  "seed_bot W bot_name rk source_bytes s =
     bindP (db_read (next_version bot_name)) (\<lambda>version.
       (let v_name = versioned_name bot_name version
        in bindP (token_hex W 32) (\<lambda>token.
             db_write (create_bot bot_name v_name version token
               (python_version_from_runtime_key rk) rk (Some source_bytes) (o_now W (s_world s)))))) s"

fun insert_bots :: "'w outside \<Rightarrow> ast_parser \<Rightarrow> nat \<Rightarrow> (string \<times> string) list \<Rightarrow> ('w, nat) prog" where
  "insert_bots W ast_parse inserted [] = ret inserted"
| "insert_bots W ast_parse inserted ((src, source_bytes) # sources) =
     (let source_text = utf8_decode source_bytes
      in bindP (lift_res (extract_bot_name ast_parse source_text)) (\<lambda>bot_name.
           case bot_name of
             None \<Rightarrow> insert_bots W ast_parse inserted sources
           | Some n \<Rightarrow>
               if n = [] then insert_bots W ast_parse inserted sources
               else bindP (lift_res (extract_runtime_key ast_parse source_text)) (\<lambda>key.
                 let rk = (case key of Some k \<Rightarrow> if k \<noteq> [] then k else DEFAULT_RUNTIME_KEY
                                     | None \<Rightarrow> DEFAULT_RUNTIME_KEY)
                 in seqP (seed_bot W n rk source_bytes)
                         (insert_bots W ast_parse (inserted + 1) sources))))"

fun enqueue_loop :: "'w outside \<Rightarrow> nat \<Rightarrow> Bot list \<Rightarrow> ('w, nat) prog" where
  "enqueue_loop W n [] = ret n"
| "enqueue_loop W n (b # bs) =
     seqP (enqueue_build_pod W \<lparr>bp_bot_id = b_id b, bp_runtime_key = b_runtime_key b\<rparr>)
          (enqueue_loop W (n + 1) bs)"

definition enqueue_builds :: "'w outside \<Rightarrow> ('w, nat) prog" where
  "enqueue_builds W = bindP (db_read all_bots) (enqueue_loop W 0)"

text \<open>\<open>main\<close>; \<open>None\<close> when there is no source file. The files are taken in the order of their names.\<close>

definition seed_main :: "'w outside \<Rightarrow> ast_parser \<Rightarrow> (string \<times> string) list \<Rightarrow> ('w, (nat \<times> nat) option) prog" where
  "seed_main W ast_parse files =
     seqP (db_write clear_tables)
       (let sources = sort_key fst files
        in if sources = [] then ret None
           else bindP (insert_bots W ast_parse 0 sources) (\<lambda>inserted.
                bindP (enqueue_builds W) (\<lambda>enqueued. ret (Some (inserted, enqueued)))))"

section \<open>One source\<close>

text \<open>A source the script registers, with the name of its bot.\<close>

definition seeds :: "ast_parser \<Rightarrow> string \<Rightarrow> string \<Rightarrow> bool" where
  "seeds p source n \<longleftrightarrow> extract_bot_name p (utf8_decode source) = Inr (Some n) \<and> n \<noteq> [] \<and>
     \<not> reserved_version_suffix n \<and> pg_text n \<and> (\<exists>k. extract_runtime_key p (utf8_decode source) = Inr k)"

lemma seed_bot_run:
  assumes "db_ok (s_db s)" and "names_ok (s_db s)" and "\<not> reserved_version_suffix n" and "pg_text n"
    and "pg_text (o_token_hex W 32 (s_drawn s))" and "is_runtime rk"
    and "\<forall>b \<in> set (bots (s_db s)). b_version b \<le> N" and "0 \<le> N" and "N + 1 < 2 ^ 31"
    and "bots_seq (s_db s) < 2 ^ 31"
  shows "\<exists>b t. seed_bot W n rk src s = (Inr b, t) \<and> db_ok (s_db t) \<and> names_ok (s_db t) \<and>
    bots (s_db t) = bots (s_db s) @ [b] \<and> matches (s_db t) = matches (s_db s) \<and> moves (s_db t) = moves (s_db s) \<and>
    b_source b = Some src \<and> b_base_name b = n \<and> s_log t = s_log s \<and>
    b_version b \<le> N + 1 \<and> bots_seq (s_db t) = bots_seq (s_db s) + 1"
proof -
  let ?v = "next_version n (s_db s)"
  let ?tok = "o_token_hex W 32 (s_drawn s)"
  obtain c d where c: "create_bot n (versioned_name n ?v) ?v ?tok (python_version_from_runtime_key rk) rk
      (Some src) (o_now W (s_world s)) (s_db s) = (c, d)" by force
  then have d: "d = snd (create_bot n (versioned_name n ?v) ?v ?tok (python_version_from_runtime_key rk) rk
      (Some src) (o_now W (s_world s)) (s_db s))" by simp
  have "db_ok d" unfolding d by (rule create_bot_ok [OF assms(1)])
  moreover have "names_ok d" unfolding d
    by (rule create_bot_names_ok [OF assms(2) refl next_version_positive [OF assms(2)] assms(3)])
  moreover have v: "?v \<le> N + 1" using next_version_le [OF assms(7,8)] .
  have int4: "pg_int4 ?v" "pg_int4 (bots_seq (s_db s))"
    using v next_version_positive [OF assms(2), of n] assms(1,9,10) by (auto simp: pg_int4_def db_ok_def seqs_ok_def)
  moreover obtain b where "c = Inr b" "bots d = bots (s_db s) @ [b]" "matches d = matches (s_db s)"
      "moves d = moves (s_db s)" "b_source b = Some src" "b_base_name b = n" "b_version b = ?v"
      "bots_seq d = bots_seq (s_db s) + 1"
    using c int4 next_name_fresh [OF assms(2,3)] pg_text_versioned [OF assms(4)] assms(4,5) pg_text_runtime [OF assms(6)]
    by (auto simp: create_bot_def Let_def split: if_splits)
  ultimately show ?thesis
    using c v by (auto simp: seed_bot_def prog_simps)
qed

section \<open>All sources\<close>

lemma insert_bots_run:
  assumes "\<forall>src \<in> snd ` set sources. \<exists>n. seeds p src n" and "\<And>i. pg_text (o_token_hex W 32 i)"
    and "db_ok (s_db s)" and "names_ok (s_db s)"
    and "\<forall>b \<in> set (bots (s_db s)). b_version b \<le> N" and "0 \<le> N"
    and "N + int (length sources) < 2 ^ 31" and "bots_seq (s_db s) + int (length sources) \<le> 2 ^ 31"
  shows "\<exists>bs t. insert_bots W p inserted sources s = (Inr (inserted + length sources), t) \<and>
    db_ok (s_db t) \<and> names_ok (s_db t) \<and> bots (s_db t) = bots (s_db s) @ bs \<and>
    matches (s_db t) = matches (s_db s) \<and> moves (s_db t) = moves (s_db s) \<and> s_log t = s_log s \<and>
    map b_source bs = map (\<lambda>f. Some (snd f)) sources \<and>
    list_all2 (\<lambda>b f. seeds p (snd f) (b_base_name b)) bs sources"
  using assms
proof (induction sources arbitrary: inserted s N)
  case (Cons f sources)
  obtain fname src where f: "f = (fname, src)" by (cases f)
  obtain n key where n: "seeds p src n" and key: "extract_runtime_key p (utf8_decode src) = Inr key"
    using Cons.prems(1) f by (auto simp: seeds_def)
  define rk where "rk = (case key of Some k \<Rightarrow> if k \<noteq> [] then k else DEFAULT_RUNTIME_KEY | None \<Rightarrow> DEFAULT_RUNTIME_KEY)"
  have "is_runtime rk"
    using extract_runtime_key_runtime key is_runtime_default by (auto simp: rk_def split: option.split)
  then obtain b t where b: "seed_bot W n rk src s = (Inr b, t)" "db_ok (s_db t)" "names_ok (s_db t)"
    "bots (s_db t) = bots (s_db s) @ [b]" "matches (s_db t) = matches (s_db s)" "moves (s_db t) = moves (s_db s)"
    "b_source b = Some src" "b_base_name b = n" "s_log t = s_log s" "b_version b \<le> N + 1"
    "bots_seq (s_db t) = bots_seq (s_db s) + 1"
    using seed_bot_run [of s n W rk N src] Cons.prems n by (auto simp: seeds_def)
  have step: "insert_bots W p inserted (f # sources) s = insert_bots W p (inserted + 1) sources t"
    using n key b(1) unfolding f
    by (simp add: seeds_def lift_res_def bindP_def seqP_def Let_def rk_def)
  obtain bs u where "insert_bots W p (inserted + 1) sources t = (Inr (inserted + 1 + length sources), u)"
    "db_ok (s_db u)" "names_ok (s_db u)" "bots (s_db u) = bots (s_db t) @ bs"
    "matches (s_db u) = matches (s_db t)" "moves (s_db u) = moves (s_db t)" "s_log u = s_log t"
    "map b_source bs = map (\<lambda>f. Some (snd f)) sources"
    "list_all2 (\<lambda>b f. seeds p (snd f) (b_base_name b)) bs sources"
    using Cons.IH [of t "N + 1" "inserted + 1"] Cons.prems b(2,3,4,10,11) by fastforce
  with b n show ?case unfolding step by (intro exI [of _ "b # bs"] exI [of _ u]) (simp add: f)
qed (simp add: ret_def)

lemma enqueue_loop_run:
  assumes "\<And>i. o_broker W i = None"
  shows "\<exists>t. enqueue_loop W n bs s = (Inr (n + length bs), t) \<and> s_db t = s_db s \<and>
    s_log t = s_log s @ map (\<lambda>b. (BUILD_POD_QUEUE,
      dump_build (o_pydantic W) \<lparr>bp_bot_id = b_id b, bp_runtime_key = b_runtime_key b\<rparr>)) bs"
proof (induction bs arbitrary: n s)
  case (Cons b bs)
  obtain s1 where s1: "enqueue_build_pod W \<lparr>bp_bot_id = b_id b, bp_runtime_key = b_runtime_key b\<rparr> s = (Inr (), s1)"
    "s_db s1 = s_db s" "s_log s1 = s_log s @ [(BUILD_POD_QUEUE,
      dump_build (o_pydantic W) \<lparr>bp_bot_id = b_id b, bp_runtime_key = b_runtime_key b\<rparr>)]"
    by (simp add: enqueue_build_pod_def publish_def Let_def assms)
  then show ?case using Cons.IH [of "n + 1" s1] by (auto simp: seqP_run)
qed (simp add: ret_def)

text \<open>On a consistent database with room in the sequence of bots, with a working broker and example files that each name a bot, seeding leaves exactly one bot
  for each file, in the order of the file names, holding the bytes of its file under the name its
  docstring gives, with unique versioned names; no match or move is left; and exactly one build
  message per bot has been published, in the order of the bots.\<close>

theorem seeding_registers_the_examples:
  assumes "db_ok (s_db s)" and "bots_seq (s_db s) + int (length files) \<le> 2 ^ 31"
    and "files \<noteq> []" and "\<forall>src \<in> snd ` set files. \<exists>n. seeds p src n"
    and "\<And>i. pg_text (o_token_hex W 32 i)" and "\<And>i. o_broker W i = None"
  shows "\<exists>t. seed_main W p files s = (Inr (Some (length files, length files)), t) \<and>
    db_ok (s_db t) \<and> names_ok (s_db t) \<and> matches (s_db t) = [] \<and> moves (s_db t) = [] \<and>
    map b_source (bots (s_db t)) = map (\<lambda>f. Some (snd f)) (sort_key fst files) \<and>
    list_all2 (\<lambda>b f. seeds p (snd f) (b_base_name b)) (bots (s_db t)) (sort_key fst files) \<and>
    s_log t = s_log s @ map (\<lambda>b. (BUILD_POD_QUEUE,
      dump_build (o_pydantic W) \<lparr>bp_bot_id = b_id b, bp_runtime_key = b_runtime_key b\<rparr>)) (bots (s_db t))"
proof -
  let ?sources = "sort_key fst files"
  let ?s0 = "s\<lparr>s_db := (s_db s)\<lparr>moves := [], matches := [], bots := []\<rparr>\<rparr>"
  have "db_ok (s_db ?s0)" "names_ok (s_db ?s0)"
    using assms(1) by (simp_all add: db_ok_def names_ok_def seqs_ok_def columns_ok_def)
  moreover have "\<forall>src \<in> snd ` set ?sources. \<exists>n. seeds p src n" using assms(4) by simp
  moreover have "1 \<le> bots_seq (s_db s)" using assms(1) by (simp add: db_ok_def seqs_ok_def)
  then have "0 + int (length ?sources) < 2 ^ 31" "bots_seq (s_db ?s0) + int (length ?sources) \<le> 2 ^ 31"
    using assms(2) by simp_all
  ultimately obtain t where t: "insert_bots W p 0 ?sources ?s0 = (Inr (0 + length ?sources), t)"
    "db_ok (s_db t)" "names_ok (s_db t)" "matches (s_db t) = []" "moves (s_db t) = []" "s_log t = s_log s"
    "map b_source (bots (s_db t)) = map (\<lambda>f. Some (snd f)) ?sources"
    "list_all2 (\<lambda>b f. seeds p (snd f) (b_base_name b)) (bots (s_db t)) ?sources"
    using insert_bots_run [of ?sources p W ?s0 0 0] assms(5) by auto
  then have count: "length (bots (s_db t)) = length files" by (metis length_map length_sort)
  obtain u where u: "enqueue_loop W 0 (bots (s_db t)) t = (Inr (0 + length (bots (s_db t))), u)" "s_db u = s_db t"
    "s_log u = s_log t @ map (\<lambda>b. (BUILD_POD_QUEUE,
      dump_build (o_pydantic W) \<lparr>bp_bot_id = b_id b, bp_runtime_key = b_runtime_key b\<rparr>)) (bots (s_db t))"
    using enqueue_loop_run [OF assms(6)] by blast
  have nonempty: "?sources \<noteq> []" using assms(3) by (metis length_0_conv length_sort)
  have "seed_main W p files s = (Inr (Some (length files, length files)), u)"
    using t(1) u(1) count nonempty
    by (simp add: seed_main_def clear_tables_def enqueue_builds_def all_bots_def prog_simps)
  then show ?thesis using t u by auto
qed

end
