(* ===== verification/Spec2Isabelle.thy ===== *)
theory Spec2Isabelle
  imports Settings BrokerConnection SchemaState SampleTests DemoRound StartUp Tasks Tournament PerfectPlay JsCoverage Rpc Health Pages
    ExportBots SeedBots
begin

text \<open>
  The tic-tac-toe bot arena: people upload Python scripts that play tic-tac-toe, every script gets
  a pod of its own in a Kubernetes cluster, and every two of them play each other.

  \<^bold>\<open>The program.\<close> The web application takes a submission, stores the bot with its source, and
  publishes a build message. The pod builder takes it from its queue, starts a pod that runs the
  turn server with the source, waits until the pod is up and answers, marks the bot ready, and
  publishes a ready message. The scheduler answers that with a match message for every pairing of
  the new bot with the ready bots, in both roles. The on-deck handler takes one match message at a
  time, asks the two pods for turns over HTTP, judges every reply, and stores the match with its
  moves. The web application shows what is stored, lets a person play a ready bot, and streams
  the events the services publish.

  \<^bold>\<open>Theories and sources.\<close>
  \<^item> \<open>Prelude\<close>: exceptions and results (\<open>'a res\<close>, \<open>Inl\<close> an exception), the parts of Python's
    \<open>str\<close> the program uses. \<open>Json\<close>, \<open>PyJson\<close> and \<open>Base64\<close>: the parts of \<open>json\<close> and
    \<open>base64\<close> it calls.
  \<^item> \<open>Engine\<close>: \<open>runner/engine.py\<close>. \<open>Pods\<close>: \<open>dispatcher/pods.py\<close>, with the record \<open>env\<close> of
    the calls that leave the program. \<open>MatchRunner\<close>: \<open>dispatcher/match_runner.py\<close>.
  \<^item> \<open>Messaging\<close>: the messages and queue names of \<open>messaging/contracts.py\<close> and
    \<open>messaging/amqp.py\<close>, and the ranking of versions of \<open>messaging/routing.py\<close>.
  \<^item> \<open>Db\<close> and \<open>DbStats\<close>: the tables and repositories of \<open>entities/\<close>, and what their queries
    answer. \<open>Schema\<close>: the migration of \<open>alembic/versions/\<close> and the models of \<open>entities/\<close> as data,
    with creating and dropping tables. \<open>SchemaRows\<close>: inserts under that schema. \<open>Migrations\<close>:
    \<open>alembic/env.py\<close>, and the reset on databases. \<open>SchemaState\<close>: what it is for the stored rows
    to satisfy the schema, and that those the running services reach do.
  \<^item> \<open>System\<close>: the state the services share and the programs over it, with publishing
    (\<open>messaging/rabbitmq.py\<close>) and consuming (\<open>messaging/connection.py\<close>). \<open>BrokerClient\<close>: the
    connection of \<open>messaging/rabbitmq.py\<close> and \<open>messaging/client.py\<close>, await by await, and the life
    span of \<open>web/main.py\<close>. \<open>BrokerConnection\<close>: the wrapper of \<open>messaging/connection.py\<close>.
    \<open>Settings\<close>: the URLs of the environment, \<open>db/session.py\<close>, and the services on the brokers
    these URLs reach.
  \<^item> \<open>PodBuilder\<close>, \<open>Scheduler\<close>, \<open>OndeckHandler\<close>: the message handlers of
    \<open>dispatcher/pod_builder.py\<close>, \<open>match_scheduler/main.py\<close>, \<open>dispatcher/ondeck_handler.py\<close>.
  \<^item> \<open>WebUtils\<close>: \<open>web/runtimes.py\<close> and \<open>web/utils.py\<close>. \<open>Submit\<close>: \<open>web/submit.py\<close>.
    \<open>BotClient\<close>: \<open>web/bot_client.py\<close> and \<open>web/play.py\<close>. \<open>Pages\<close>: the routes of
    \<open>web/main.py\<close>, composed into one application \<open>web_app\<close>.
  \<^item> \<open>TurnServer\<close>: \<open>bot-runner-images/python/turn_server.py\<close>, the server inside a pod.
  \<^item> \<open>Rpc\<close> and \<open>Health\<close>: \<open>messaging/rpc_client.py\<close>, \<open>messaging/rpc_server.py\<close>,
    \<open>messaging/health.py\<close> and the gateways of the services.
  \<^item> \<open>ExampleBots\<close> and \<open>PerfectPlay\<close>: the scripts of \<open>example_bots/\<close> and the template
    \<open>web/templates/template_bot.py\<close>, as functions from the text a bot reads to what it prints,
    and the play of the two perfect bots. \<open>SampleTests\<close>: \<open>web/templates/test_template_bot.py\<close>.
  \<^item> \<open>ExportBots\<close>, \<open>SeedBots\<close>, \<open>ResetDb\<close>, \<open>JsCoverage\<close>: the scripts of \<open>scripts/\<close>.
  \<^item> \<open>Transition\<close>, \<open>Pipeline\<close>, \<open>Tournament\<close>: the services together. \<open>StartUp\<close>: the \<open>run\<close>
    functions of the services with their loops, the declarations of queues, and services that die.
  \<^item> \<open>Coroutines\<close>: coroutines of atomic actions, their runs, their interleavings and a
    rely-guarantee rule. \<open>Interleaving\<close>: the handlers and the submission as coroutines. \<open>Tasks\<close>: a
    pool of them, await by await. \<open>Cooperation\<close>: the handlers when the outside works.
    \<open>Completion\<close>: the round robin they then complete. \<open>Demo\<close> and \<open>DemoRound\<close>: a concrete outside
    on which the properties are applied.

  \<^bold>\<open>State.\<close> A handler is a \<open>prog\<close>: a function from the state \<open>sys\<close> to a value or an exception
  and a state. The state has the database, the log of published messages with the number taken
  from each queue, the published events, the outside world, and two counters (secrets drawn,
  publishes tried). A database session is one read or one transaction. \<open>pipe_step\<close> is the step
  relation of the services: a submission, one message handled by one service, or the outside
  moving, in any order. A handler is one step of it; in \<open>Tasks\<close> a handler is a coroutine, a step
  is one await of any of the running ones, and a worker can be cancelled or killed at every await.
  \<open>site_step\<close> adds to \<open>pipe_step\<close> the broker's set of queues: services start, and a message
  for a queue nobody has declared is dropped, as AMQP does. \<open>crash_step\<close> is a service that dies in a handler: it leaves what a run leaves in which the
  outside failed at that point, and its message is delivered again.

  \<^bold>\<open>Results.\<close>
  \<^item> The game: \<open>check_winner\<close> and \<open>validate_move\<close> decide the rules (\<open>game_outcome\<close>,
    \<open>legal_move\<close>), the two judges of the program agree, and a match that returns is a legal
    transcript (\<open>transcript_from\<close>) whatever the pods answer.
  \<^item> The services: \<open>pipe_ok\<close> ties tables and messages together in every reachable state, so that
    stored matches are legal games of ready bots, no match message is dropped silently, and no
    pairing is forgotten. \<open>tournament_of\<close> reads an abstract tournament off the state, and every
    step of the services is one \<open>tournament_step\<close> or none.
  \<^item> Completion: when broker, cluster and pods work (\<open>cooperative\<close>), the services cannot go on for
    ever, and wherever they stop every submitted bot has met every bot in both roles in a stored
    legal match; two ready messages that wait together are scheduled twice.
  \<^item> Interleavings: a coroutine that is not interrupted is its handler; whatever interleaves, is
    cancelled or dies, stored matches stay legal and acknowledged pairs are scheduled; two
    submissions of one family race.
  \<^item> Starts and crashes: once every service has started, the broker with its missing queues makes
    exactly the steps of the pipeline; a pod that is ready too early is never paired; stored matches
    stay legal under crashes and redelivery, but a redelivered match is stored twice; a handler
    that raises ends its service.
  \<^item> One component each: which submission changes what, ownership and versions, what has happened in
    the cluster before a bot is ready, how long the pod builder takes when its calls return and the
    one call it can wait for in vain, what the dispatcher's health route reports over any broker,
    the scheduler's pairings and their prefix on a failure,
    the leaderboard and the lifetime record, the schema's constraints as the invariant \<open>db_ok\<close>,
    pages that only read, the recorded match replayed on its page.
  \<^item> The schema: the writes of the repositories are the inserts the migration's columns and
    constraints allow; in every reachable state every row has the columns, types and nullability of
    its table and every constraint holds; models and migration agree but for one default; the downgrade undoes the
    upgrade; a reset rebuilds the tables, or loses them when the URL holds a percent sign.
  \<^item> Set-up: the queue object connects once and leaves no connection open, except when two first
    publishes overlap, and stays half made when its set-up fails half way; the queues exist where the
    publishing and the reading service reach one broker, which \<open>RABBITMQ_URL\<close> can ensure and the
    different defaults do not.
  \<^item> Wire formats: a turn end to end through request, server and reply, decided by what the bot
    printed and not by its exit code; cookies, boards, JSON,
    base64 and messages read back what was written.
  \<^item> The bots: the honest examples always move legally, the cheating ones forfeit,
    \<open>perfect_bot_v2\<close> computes the value of the game tree and never loses, \<open>perfect_bot_v1\<close> does
    not win when it could.

  \<^bold>\<open>Interfaces.\<close> \<open>transition_system\<close> (an invariant of a step relation) is interpreted on the
  services, on their starts, on their crashes, on the pool of tasks, on the tournament and on the
  remote calls; \<open>rely_guarantee\<close> (what a coroutine may assume of the others and promises them) on
  the coroutines of the services; \<open>state_preorder\<close> (what a composed program
  inherits from its parts) on the growth of the state and on reading alone; \<open>ranking\<close> (the better
  of two by a key) on versions and on runtime keys; \<open>turn_judge\<close> (accepting exactly the legal
  moves) on the dispatcher's judge and on the page's.

  \<^bold>\<open>Bounds.\<close> The JSON parser recurses over its text with fuel, one more than the length of the
  text: every call consumes a character, so it never runs out. The polling loops of \<open>Pods\<close> may
  not end, and the health request has no timeout: they are \<open>partial_function (option)\<close> over a
  request that may be \<open>None\<close>, \<open>None\<close> is not returning. The pod builder is shown to return in
  bounded time when every call returns within a latency (\<open>prompt_env\<close>), and otherwise, when the clock
  advances, to hang only on a health request that does not return (\<open>probe_hangs\<close>). The handling of the waiting messages ends
  by the lexicographic order on the lengths of the three queues; \<open>load\<close> bounds the matches that can
  still come of them, for which the sequences must have room. The search of the perfect
  bots has the frames Python's recursion limit leaves, an argument; it raises \<open>RecursionError\<close> when
  they are used up, and ten are enough for any board. Python's integers are \<open>int\<close>; a
  column and a sequence of the database have 32 bits (\<open>pg_int4\<close>), and a text that cannot be stored
  is refused. The interpolation of \<open>configparser\<close> nests ten deep, as in its source. Durations are
  milliseconds.

  \<^bold>\<open>Parameters.\<close> What the program calls and this repository does not hold is an argument: the
  cluster, the network and the clock (\<open>env\<close>; of its calls only the request without a timeout may
  not return, the client of the cluster is taken to answer or raise), the broker's refusals (\<open>o_broker\<close>), \<open>secrets\<close>
  (\<open>o_token_hex\<close>), pydantic's JSON of a message (\<open>pydantic\<close>, with its round trip as the
  hypothesis \<open>pydantic_ok\<close>), Python's parser of a submitted file (\<open>ast_parser\<close>), the process of a
  bot (\<open>spawn\<close>: an exit code and what was printed, a timeout, or a failure to run), the text of an exception or a traceback, the rendering of a percentage, faults of
  the file system, the management API and the pods of \<open>reset_db\<close>, the calls of \<open>aio_pika\<close> that fail
  (\<open>faults\<close>), the broker a URL reaches from a service (\<open>resolve\<close>), the sessions, connections and calls of
  a health probe (\<open>broker\<close>), the databases behind the URLs (\<open>servers\<close>). Text is a list of
  characters of one byte; a source is decoded with replacement as the program does.

  \<^bold>\<open>Not modelled.\<close> The configuration of logging and of the HTTP servers, which only calls
  libraries. HTML, JavaScript and templates: a page is the data its template is given. The
  cancellation of a task that waits in a remote call. The generation of a migration from the
  models. Log and console output.
\<close>

section \<open>Matches\<close>

text \<open>C1: a match that returns is a game by the rules of tic-tac-toe: whatever the two pods answer,
  the recorded moves alternate from x, each is legal on the board before it, the result is the
  outcome of the last board or the forfeit of the player who failed to move, and the game stops
  there. The loop never falls off its end without a result.\<close>

theorem match_follows_the_rules:
  assumes "run_match_from_pods E pod_name_x pod_name_o turn_timeout w = (Inr res, w1)"
  shows "\<exists>mr. res = Some mr \<and> transcript_from 1 EMPTY_BOARD (mr_moves mr) (mr_result mr)"
  using run_match_transcript [OF assms] by auto

theorem match_follows_the_rules_witness:
  "\<exists>mr. Some demo_result = Some mr \<and> transcript_from 1 EMPTY_BOARD (mr_moves mr) (mr_result mr)"
  by (rule match_follows_the_rules [OF demo_match])

text \<open>A match has one to nine moves, numbered from 1, of x on the odd numbers and o on the even;
  only the last can carry an error, and the result goes with it: a forfeit by whoever moved
  last, or a win of whoever moved last, or a draw after nine moves.\<close>

theorem match_result_fits_the_last_move:
  assumes "run_match_from_pods E pod_name_x pod_name_o turn_timeout w = (Inr (Some mr), w1)"
  shows "mr_moves mr \<noteq> [] \<and> length (mr_moves mr) \<le> 9 \<and>
    map (\<lambda>m. (mv_number m, mv_player m)) (mr_moves mr) =
      map (\<lambda>k. (k, player_of k)) [1..<Suc (length (mr_moves mr))] \<and>
    (\<forall>m \<in> set (butlast (mr_moves mr)). mv_error m = JNull) \<and>
    result_fits (length (mr_moves mr)) (mv_error (last (mr_moves mr))) (mr_result mr)"
proof -
  have "transcript_from 1 EMPTY_BOARD (mr_moves mr) (mr_result mr)"
    using run_match_transcript [OF assms] by auto
  from transcript_shape [OF this in_play.start] show ?thesis by simp
qed

theorem match_result_fits_the_last_move_witness:
  "result_fits 7 JNull X_WINS \<and> length (mr_moves demo_result) = 7"
proof -
  have "length (mr_moves demo_result) = 7" "mv_error (last (mr_moves demo_result)) = JNull"
    "mr_result demo_result = X_WINS"
    by (simp_all add: demo_result_def demo_move_def)
  then show ?thesis using match_result_fits_the_last_move [OF demo_match] by simp
qed

section \<open>The services\<close>

theorem interleaved_matches_are_legal_witness:
  "legal_match (s_db demo4) (recorded 1 1 demo_result ''t'' 0 (demo_db True))"
proof -
  obtain P where P: "pool_reachable demo demo_parse 60000 P" "p_sys P = demo4"
    using reachable_pool [OF demo_reachable(4)] by blast
  have "record_match 1 1 demo_result ''t'' 0 (demo_db True) = (Inr (), s_db demo4)"
    using demo_record by (simp add: demo4_def prod_eq_iff)
  then have "recorded 1 1 demo_result ''t'' 0 (demo_db True) \<in> set (matches (s_db demo4))"
    by (simp add: record_match_tables(2))
  with interleaved_matches_are_legal [OF P(1)] P(2) show ?thesis by simp
qed

theorem reachable_tables_satisfy_the_schema_witness:
  "satisfies (store_of (s_db demo4)) [bots_table, matches_table, moves_table]"
proof -
  obtain P where P: "pool_reachable demo demo_parse 60000 P" "p_sys P = demo4"
    using reachable_pool [OF demo_reachable(4)] by blast
  then show ?thesis using reachable_tables_satisfy_the_schema [OF P(1)] by simp
qed

theorem acknowledged_pairs_are_scheduled_witness:
  "scheduled demo demo3 1 1"
proof -
  let ?s = "demo2\<lparr>s_taken := (s_taken demo2)(POD_READY_QUEUE := 1)\<rparr>"
  obtain P where P: "pool_reachable demo demo_parse 60000 P" "no_tasks P" "p_sys P = demo2"
    using reachable_pool [OF demo_reachable(2)] by blast
  have "run_co (handler_co demo 60000 POD_READY_QUEUE (snd demo_ready)) ?s = Some (Inr (), demo3)"
    using implements_schedule [of demo "snd demo_ready"] demo_schedule_run demo_schedule_returns
    by (simp add: handler_co_def implements_def prod_eq_iff)
  then obtain P' where P': "(pool_step demo demo_parse 60000)\<^sup>*\<^sup>* P P'" "p_sys P' = demo3"
    "(POD_READY_QUEUE, snd demo_ready) \<in> set (p_acked P')"
    using worker_alone [OF P(2), of POD_READY_QUEUE "snd demo_ready" ?s demo 60000 "Inr ()" demo3 demo_parse]
      demo_take_ready P(3) by (auto simp: worker_queues_def)
  have "pool_reachable demo demo_parse 60000 P'"
    using P(1) P'(1) unfolding pool_reachable_def by (meson rtranclp_trans)
  moreover have "snd demo_ready = dump_ready (o_pydantic demo) \<lparr>pr_bot_id = 1\<rparr>" by (simp add: demo_ready_def)
  ultimately show ?thesis using acknowledged_pairs_are_scheduled [of demo demo_parse 60000 P' 1 1] P'(2,3) by simp
qed

theorem submissions_of_one_family_race_witness:
  "\<exists>s t c_a d_a d_b b_a e_a e_b.
     co_step\<^sup>*\<^sup>* (demo0, [submission_co (demo\<lparr>o_token_hex := \<lambda>_ k. replicate (Suc k) CHR ''t''\<rparr>) demo_parse ''name: A'' None,
         submission_co (demo\<lparr>o_token_hex := \<lambda>_ k. replicate (Suc k) CHR ''t''\<rparr>) demo_parse ''name: A'' None])
       (s, [c_a, Done (Inl IntegrityError)]) \<and> bots (s_db s) = [b_a] \<and>
     co_step\<^sup>*\<^sup>* (demo0, [submission_co (demo\<lparr>o_token_hex := \<lambda>_ k. replicate (Suc k) CHR ''t''\<rparr>) demo_parse ''name: A'' None,
         submission_co (demo\<lparr>o_token_hex := \<lambda>_ k. replicate (Suc k) CHR ''t''\<rparr>) demo_parse ''name: A'' None])
       (t, [d_a, d_b]) \<and> bots (s_db t) = [e_a, e_b] \<and> b_version e_b = 2 \<and> b_owner_token e_b = ''tt''"
proof -
  let ?W = "demo\<lparr>o_token_hex := \<lambda>_ k. replicate (Suc k) CHR ''t''\<rparr>"
  let ?P = "\<lparr>p_sys = demo0, p_work = (\<lambda>_. None), p_web = [], p_acked = []\<rparr>"
  have "start_pool ?W ?P" using demo_start by (simp add: start_pool_def start_state_def)
  then have P: "pool_reachable ?W demo_parse 60000 ?P" by (auto simp: pool_reachable_def)
  have empty: "bots (s_db demo0) = []" "s_drawn demo0 = 0" by (simp_all add: demo0_def empty_db_def)
  have free: "owner_token ''A'' (s_db (p_sys ?P)) = Inr None" "bots_seq (s_db (p_sys ?P)) + 1 < 2 ^ 31"
    by (simp_all add: demo0_def owner_token_def pg_text_def empty_db_def)
  have name: "''A'' \<noteq> []" "\<not> reserved_version_suffix ''A''" by (simp, code_simp)
  have tokens: "pg_text (o_token_hex ?W 32 k)" for k by (simp add: pg_text_def)
  have ascii: "utf8_decode ''name: A'' = ''name: A''" by (rule utf8_decode_ascii) (simp add: is_ascii_def)
  have source: "extract_bot_name demo_parse (utf8_decode ''name: A'') = Inr (Some ''A'')"
    "extract_runtime_key demo_parse (utf8_decode ''name: A'') = Inr (Some ''python-3.14'')"
    unfolding ascii by (fact demo_extract)+
  have differ: "o_token_hex ?W 32 (s_drawn (p_sys ?P)) \<noteq> o_token_hex ?W 32 (s_drawn (p_sys ?P) + 1)" by simp
  note race = submissions_of_one_family_race [OF P free(1) name source source tokens free(2) differ, of None None,
      unfolded pool.select_convs empty append_Nil]
  let ?x = "(demo0, [submission_co ?W demo_parse ''name: A'' None, submission_co ?W demo_parse ''name: A'' None])"
  obtain s c_a b_a where "co_step\<^sup>*\<^sup>* ?x (s, [c_a, Done (Inl IntegrityError)])" "bots (s_db s) = [b_a]"
    using race [THEN conjunct1] by blast
  moreover obtain t d_a d_b e_a e_b where "co_step\<^sup>*\<^sup>* ?x (t, [d_a, d_b])" "bots (s_db t) = [e_a, e_b]"
    "b_version e_b = 2" "b_owner_token e_b = o_token_hex ?W 32 (0 + 1)"
    using race [THEN conjunct2] by blast
  ultimately show ?thesis
    by (intro exI [of _ s] exI [of _ t] exI [of _ c_a] exI [of _ d_a] exI [of _ d_b] exI [of _ b_a] exI [of _ e_a]
        exI [of _ e_b]) simp
qed

text \<open>C6: no scheduled match is dropped silently: a message taken from the queue of matches always
  parses and names two bots that exist and have pods, so its handler either adds exactly one
  match and acknowledges, or raises and leaves the matches and moves as they were.\<close>

theorem no_match_is_dropped_silently:
  assumes "reachable_state W ast_parse pod_timeout s"
    and "take_one MATCH_ONDECK_QUEUE s = Some (body, s1)"
    and "handle_match_ondeck W body s1 = (r, t)"
  shows "(r = Inr () \<and> (\<exists>m. matches (s_db t) = matches (s_db s) @ [m])) \<or>
    (\<exists>e. r = Inl e \<and> matches (s_db t) = matches (s_db s) \<and> moves (s_db t) = moves (s_db s))"
  by (rule handle_match_ondeck_adds [OF reachable_state_ok [OF assms(1)] assms(2,3)])

theorem no_match_is_dropped_silently_witness:
  "\<exists>m. matches (s_db demo4) = matches (s_db demo3) @ [m]"
  using no_match_is_dropped_silently [OF demo_reachable(3) demo_take_ondeck demo_ondeck_run] by simp

text \<open>C22: a bot becomes ready only when its pod is up. By then, in this order, the pod was created
  with the image of its runtime and a manifest from which the turn server decodes the stored source, a look at the
  cluster showed it running with its container ready, the next look gave its address, and a later health
  request to that address was answered; between these calls nothing but looks, probes and sleeps
  reached the cluster. Only then the row was marked, and any failure on the way leaves the set
  of ready bots as it was.\<close>

theorem ready_only_after_the_pod_is_up:
  assumes "handle_build_pod_message W pod_timeout body s = Some (r, t)"
    and "i \<in> ready_ids (s_db t)" and "i \<notin> ready_ids (s_db s)"
  shows "\<exists>msg b runtime manifest w1 u pod w2 pod' ip w3 v answer.
    validate_build (o_pydantic W) body = Some msg \<and> bp_bot_id msg = i \<and>
    b \<in> set (bots (s_db s)) \<and> b_id b = i \<and> map_of RUNTIMES (bp_runtime_key msg) = Some runtime \<and>
    manifest = build_bot_pod_manifest (pod_name i) (rt_image runtime) (bot_source_b64 b) i \<and>
    startup_source (manifest_source manifest) = Some (case b_source b of None \<Rightarrow> [] | Some src \<Rightarrow> src) \<and>
    create_namespaced_pod (o_env W) ''bots'' manifest (s_world s) = (Inr (), w1) \<and>
    (poll_call (o_env W))\<^sup>*\<^sup>* w1 u \<and> read_namespaced_pod (o_env W) (pod_name i) NAMESPACE u = (Inr pod, w2) \<and>
    phase pod = Some ''Running'' \<and> (\<exists>rest. container_statuses pod = Some (True # rest)) \<and>
    read_namespaced_pod (o_env W) (pod_name i) NAMESPACE w2 = (Inr pod', w3) \<and> pod_ip pod' = Some ip \<and> ip \<noteq> [] \<and>
    (poll_call (o_env W))\<^sup>*\<^sup>* w3 v \<and>
    urlopen_blocking (o_env W) (health_request ip) v = Some (Inr answer, s_world t) \<and>
    s_db t = set_pod_ready i (pod_name i) (s_db s)"
proof -
  from assms(2,3) have "s_db t \<noteq> s_db s" by auto
  from handle_build_pod_message_changed [OF assms(1) this] obtain msg b runtime w where
    msg: "validate_build (o_pydantic W) body = Some msg" "bp_bot_id msg = b_id b"
    and b: "b \<in> set (bots (s_db s))" and rt: "map_of RUNTIMES (bp_runtime_key msg) = Some runtime"
    and run: "build_and_wait (o_env W) pod_timeout (pod_name (b_id b)) (rt_image runtime)
      (bot_source_b64 b) (b_id b) (s_world s) = Some (Inr (), w)"
    and t: "s_db t = set_pod_ready (b_id b) (pod_name (b_id b)) (s_db s)" "s_world t = w"
    by metis
  have "b_id b \<in> bot_ids (s_db s)" using b by (simp add: bot_ids_def)
  then have i: "i = b_id b" using assms(2,3) t(1) by (auto simp: ready_ids_set_pod_ready)
  have src: "startup_source (manifest_source (build_bot_pod_manifest p im (bot_source_b64 b) k)) =
      Some (case b_source b of None \<Rightarrow> [] | Some src \<Rightarrow> src)" for p im k
    unfolding bot_source_b64_def by (rule pod_runs_the_source)
  from build_and_wait_success [OF run] obtain w1 u pod w2 pod' ip w3 v answer where
    up: "create_namespaced_pod (o_env W) ''bots''
        (build_bot_pod_manifest (pod_name (b_id b)) (rt_image runtime) (bot_source_b64 b) (b_id b)) (s_world s) = (Inr (), w1)"
      "(poll_call (o_env W))\<^sup>*\<^sup>* w1 u" "read_namespaced_pod (o_env W) (pod_name (b_id b)) NAMESPACE u = (Inr pod, w2)"
      "phase pod = Some ''Running''" "\<exists>rest. container_statuses pod = Some (True # rest)"
      "read_namespaced_pod (o_env W) (pod_name (b_id b)) NAMESPACE w2 = (Inr pod', w3)" "pod_ip pod' = Some ip" "ip \<noteq> []"
      "(poll_call (o_env W))\<^sup>*\<^sup>* w3 v" "urlopen_blocking (o_env W) (health_request ip) v = Some (Inr answer, w)"
    by blast
  show ?thesis
    unfolding i t(2)
    by (rule exI [of _ msg], rule exI [of _ b], rule exI [of _ runtime], rule exI, rule exI [of _ w1], rule exI [of _ u],
        rule exI [of _ pod], rule exI [of _ w2], rule exI [of _ pod'], rule exI [of _ ip], rule exI [of _ w3],
        rule exI [of _ v], rule exI [of _ answer], intro conjI) (fact msg b rt src up t(1) refl)+
qed

theorem ready_only_after_the_pod_is_up_witness:
  "\<exists>ip v answer. urlopen_blocking demo_env (health_request ip) v = Some (Inr answer, s_world demo2) \<and>
     s_db demo2 = set_pod_ready 1 (pod_name 1) (s_db demo1)"
proof -
  have "1 \<in> ready_ids (s_db demo2)"
    "1 \<notin> ready_ids (s_db (demo1\<lparr>s_taken := (\<lambda>_. 0)(BUILD_POD_QUEUE := 1)\<rparr>))"
    by (simp_all add: ready_ids_eq demo2_def demo1_def demo_db_def demo_bot_def)
  from ready_only_after_the_pod_is_up [OF demo_build_run this] show ?thesis by auto
qed

text \<open>C23: the pod builder finishes with a message in bounded time, provided its calls do: when every
  call of the cluster and every health request returns within \<open>lat\<close>, and a sleep takes at most \<open>lat\<close>
  longer than asked, then whatever the cluster and the pod answer the handler returns no later
  than two deadlines, two polling intervals and ten calls after it began. The database and the
  broker take no time on this clock.\<close>

theorem pod_builder_returns:
  assumes "prompt_env (o_env W) clk lat" and "0 \<le> pod_timeout"
  shows "\<exists>r t. handle_build_pod_message W pod_timeout body s = Some (r, t) \<and>
    clk (s_world t) \<le> clk (s_world s) + 2 * pod_timeout + 2 * POLL_INTERVAL + 10 * lat"
  by (rule handle_build_pod_message_elapsed [OF assms])

text \<open>A cluster in which the pod never comes up, with calls of 20 milliseconds.\<close>

definition pending_env :: "int env" where
  "pending_env =
     \<lparr>read_namespaced_pod = (\<lambda>p n w. (Inr (demo_pod\<lparr>phase := Some ''Pending''\<rparr>), w + 20)),
      create_namespaced_pod = (\<lambda>n m w. (Inr (), w + 20)),
      delete_namespaced_pod = (\<lambda>p n w. (Inr (), w)),
      urlopen = (\<lambda>r t w. (Inl (TimeoutError ''timed out''), w + t)),
      urlopen_blocking = (\<lambda>r w. Some (Inl (URLError ''refused''), w + 20)),
      monotonic = (\<lambda>w. (w, w)),
      sleep = (\<lambda>d w. w + d)\<rparr>"

theorem pod_builder_returns_witness:
  "\<exists>r t. handle_build_pod_message (demo\<lparr>o_env := pending_env\<rparr>) 60000 (snd demo_build) demo1 = Some (r, t) \<and>
     s_world t \<le> s_world demo1 + 121200"
proof -
  have "prompt_env (o_env (demo\<lparr>o_env := pending_env\<rparr>)) (\<lambda>w. w) 20"
    by (simp add: prompt_env_def took_def pending_env_def)
  from pod_builder_returns [OF this, of 60000 "snd demo_build" demo1] show ?thesis
    by (simp add: POLL_INTERVAL_def add.commute)
qed


definition silent_env :: "int env" where
  "silent_env = demo_env\<lparr>urlopen_blocking := (\<lambda>r w. None)\<rparr>"


section \<open>Failures of a turn\<close>

text \<open>A bot that cannot be reached on the first turn forfeits the match: the recorded match has
  one move, with the empty board and the network error.\<close>

theorem unreachable_bot_forfeits:
  assumes "get_pod_ip E px w = (Inr ipx, w1)" and "get_pod_ip E po w1 = (Inr ipo, w2)"
    and "urlopen E (turn_request ipx ''X'' (board_to_str EMPTY_BOARD)) timeout w2 =
      (Inl (URLError msg), w3)"
  shows "run_match_from_pods E px po timeout w =
    (Inr (Some \<lparr>mr_result = X_FORFEIT, mr_moves = [\<lparr>mv_number = 1, mv_player = ''x'',
       mv_board = board_to_str EMPTY_BOARD, mv_error = JStr (''HTTP error: '' @ msg)\<rparr>]\<rparr>), w3)"
  using assms(1,2) play_turn_url_error [OF assms(3)]
  by (simp add: run_match_from_pods_def turn_schedule_eq forfeit_label_def)

definition failing_env :: "py_exc \<Rightarrow> int env" where
  "failing_env e = demo_env\<lparr>urlopen := (\<lambda>r t w. (Inl e, w))\<rparr>"

lemma failing_env_sel [simp]:
  "urlopen (failing_env e) r t w = (Inl e, w)"
  "get_pod_ip (failing_env e) p w = (Inr ''10.0.0.7'', w)"
  by (simp_all add: failing_env_def get_pod_ip_def demo_pod_def)

theorem unreachable_bot_forfeits_witness:
  "fst (run_match_from_pods (failing_env (URLError ''refused'')) ''a'' ''b'' 10000 0) =
     Inr (Some \<lparr>mr_result = X_FORFEIT, mr_moves = [\<lparr>mv_number = 1, mv_player = ''x'',
       mv_board = board_to_str EMPTY_BOARD, mv_error = JStr ''HTTP error: refused''\<rparr>]\<rparr>)"
  using unreachable_bot_forfeits [of "failing_env (URLError ''refused'')" "''a''" 0 "''10.0.0.7''" 0
      "''b''" "''10.0.0.7''" 0 10000 "''refused''" 0]
  by simp

text \<open>A bot that is too slow is not made to forfeit: the timeout of the request is no
  \<open>URLError\<close>, so it leaves the handler, the message is rejected, and no match is recorded.\<close>

theorem slow_bot_leaves_no_match:
  assumes "validate_ondeck (o_pydantic W) body = Some msg"
    and "fetch_match_bots (mo_bot_x_id msg) (mo_bot_o_id msg) s = (Inr (Some (px, po)), s)"
    and "get_pod_ip (o_env W) px (s_world s) = (Inr ipx, w1)" and "get_pod_ip (o_env W) po w1 = (Inr ipo, w2)"
    and "urlopen (o_env W) (turn_request ipx ''X'' (board_to_str EMPTY_BOARD)) TURN_TIMEOUT w2 =
      (Inl (TimeoutError m), w3)"
  shows "handle_match_ondeck W body s = (Inl (TimeoutError m), s\<lparr>s_world := w3\<rparr>)"
proof -
  have "run_match_from_pods (o_env W) px po TURN_TIMEOUT (s_world s) = (Inl (TimeoutError m), w3)"
    using assms(3,4) play_turn_url_error [OF assms(5)]
    by (simp add: run_match_from_pods_def turn_schedule_eq)
  with assms(1,2) show ?thesis by (simp add: handle_match_ondeck_def bindP_def in_world_def)
qed

theorem slow_bot_leaves_no_match_witness:
  "handle_match_ondeck (demo\<lparr>o_env := failing_env (TimeoutError ''timed out'')\<rparr>) (snd demo_ondeck) demo_taken3 =
     (Inl (TimeoutError ''timed out''), demo_taken3)"
proof -
  have parse: "validate_ondeck demo_pydantic (snd demo_ondeck) = Some (ondeck_message 1 1 ''t'')"
    by (simp add: demo_ondeck_def pydantic_okD [OF demo_pydantic_ok])
  have "s_db demo_taken3 = demo_db True" "s_world demo_taken3 = 0"
    by (simp_all add: demo_taken3_def demo3_def)
  then have "fetch_match_bots 1 1 demo_taken3 = (Inr (Some (pod_name 1, pod_name 1)), demo_taken3)"
    and "demo_taken3\<lparr>s_world := 0\<rparr> = demo_taken3"
    by (simp add: fetch_match_bots_def prog_simps by_ids_def demo_db_def demo_bot_def mark_ready_def)
      (simp add: demo_taken3_def demo3_def)
  with parse slow_bot_leaves_no_match [of "demo\<lparr>o_env := failing_env (TimeoutError ''timed out'')\<rparr>" "snd demo_ondeck"
      "ondeck_message 1 1 ''t''" demo_taken3 "pod_name 1" "pod_name 1" "''10.0.0.7''" 0 "''10.0.0.7''" 0
      "''timed out''" 0]
  show ?thesis by (simp add: ondeck_message_def \<open>s_world demo_taken3 = 0\<close>)
qed

text \<open>C33: a bot that is too slow does not forfeit, it stops the match runner: the timeout is no
  \<open>URLError\<close>, so it leaves the handler, which records nothing, and then the loop of the service,
  however many messages are waiting; they stay where they are.\<close>

theorem slow_bot_stops_the_match_runner:
  assumes "take_one MATCH_ONDECK_QUEUE s = Some (body, s1)"
    and "validate_ondeck (o_pydantic W) body = Some msg"
    and "fetch_match_bots (mo_bot_x_id msg) (mo_bot_o_id msg) s1 = (Inr (Some (px, po)), s1)"
    and "get_pod_ip (o_env W) px (s_world s1) = (Inr ipx, w1)" and "get_pod_ip (o_env W) po w1 = (Inr ipo, w2)"
    and "urlopen (o_env W) (turn_request ipx ''X'' (board_to_str EMPTY_BOARD)) TURN_TIMEOUT w2 =
      (Inl (TimeoutError m), w3)"
  shows "\<exists>t. ondeck_handler_consume W (Suc n) s = Some (Inl (TimeoutError m), t) \<and> s_db t = s_db s \<and>
    s_events t = s_events s \<and> waiting MATCH_ONDECK_QUEUE s = body # waiting MATCH_ONDECK_QUEUE t"
proof -
  have raises: "handle_match_ondeck W body s1 = (Inl (TimeoutError m), s1\<lparr>s_world := w3\<rparr>)"
    by (rule slow_bot_leaves_no_match [OF assms(2-6)])
  have "ondeck_handler_consume W (Suc n) s = Some (Inl (TimeoutError m), s1\<lparr>s_world := w3\<rparr>)"
    unfolding ondeck_handler_consume_def by (rule consume_raises [OF assms(1)]) (simp add: raises)
  moreover have "waiting MATCH_ONDECK_QUEUE (s1\<lparr>s_world := w3\<rparr>) = waiting MATCH_ONDECK_QUEUE s1"
    by (simp add: waiting_def sent_to_def)
  ultimately show ?thesis using take_one_Some(2,5) [OF assms(1)] by simp
qed

theorem slow_bot_stops_the_match_runner_witness:
  "\<exists>t. ondeck_handler_consume (demo\<lparr>o_env := failing_env (TimeoutError ''timed out'')\<rparr>) 1 demo3 =
     Some (Inl (TimeoutError ''timed out''), t)"
proof -
  have parse: "validate_ondeck demo_pydantic (snd demo_ondeck) = Some (ondeck_message 1 1 ''t'')"
    by (simp add: demo_ondeck_def pydantic_okD [OF demo_pydantic_ok])
  have "s_db demo_taken3 = demo_db True" "s_world demo_taken3 = 0"
    by (simp_all add: demo_taken3_def demo3_def)
  then have "fetch_match_bots 1 1 demo_taken3 = (Inr (Some (pod_name 1, pod_name 1)), demo_taken3)"
    by (simp add: fetch_match_bots_def prog_simps by_ids_def demo_db_def demo_bot_def mark_ready_def)
  with parse slow_bot_stops_the_match_runner [where n = 0 and W = "demo\<lparr>o_env := failing_env (TimeoutError ''timed out'')\<rparr>"
      and m = "''timed out''", OF demo_take_ondeck, of "ondeck_message 1 1 ''t''" "pod_name 1" "pod_name 1" "''10.0.0.7''" 0
      "''10.0.0.7''" 0 0]
  show ?thesis by (auto simp: ondeck_message_def \<open>s_world demo_taken3 = 0\<close>)
qed

section \<open>Witnesses\<close>

text \<open>The properties of the components, on the concrete outside.\<close>

text \<open>A bot that prints a legal board and then raises.\<close>

definition raising_spawn :: spawn where
  "raising_spawn source stdin = Completed 1 (board_to_str (demo_board ''X........'')) ''Traceback''"

definition raising_env :: "int env" where
  "raising_env = demo_env\<lparr>urlopen := (\<lambda>r t w.
     (Inr (json_dumps (run_bot raising_spawn [] (JStr ''X'') (JStr (board_to_str EMPTY_BOARD)))), w))\<rparr>"

theorem turn_end_to_end_witness:
  "play_turn raising_env ''X'' ''10.0.0.7'' EMPTY_BOARD 10000 0 = (Inr (Some (demo_board ''X........''), JNull), 0)"
proof -
  note post = do_POST_turn_request [where spawn = raising_spawn and exc_str = "\<lambda>_. []" and src = "[]",
      OF refl, of "''10.0.0.7''" "''X''" "board_to_str EMPTY_BOARD"]
  have wf: "wf_board EMPTY_BOARD" "wf_board (demo_board ''X........'')"
    unfolding demo_board_empty by (simp_all add: wf_board_def demo_board_def is_cell_def)
  have "validate_move EMPTY_BOARD (demo_board ''X........'') ''X'' = Inr None" by code_simp
  then have "legal_move EMPTY_BOARD (demo_board ''X........'') ''X''"
    using validate_move_legal [OF wf] by simp
  moreover have "parse_board (board_to_str (demo_board ''X........'')) = Some (demo_board ''X........'')"
    by (rule parse_board_to_str [OF wf(2)])
  ultimately show ?thesis
    using turn_end_to_end [OF refl post, of raising_env 10000 0 0] wf(1)
    by (auto simp: raising_env_def raising_spawn_def simp del: json_dumps.simps)
qed

theorem schedule_exactly_the_pairings_witness:
  "\<exists>t ps. handle_pod_ready_message demo (dump_ready (o_pydantic demo) \<lparr>pr_bot_id = 1\<rparr>) demo2 = (Inr (), t) \<and>
     s_log t = s_log demo2 @ ondeck_bodies demo (s_drawn demo2) ps \<and> length ps = 1"
proof -
  have "db_ok (s_db demo2)" "1 \<in> ready_ids (s_db demo2)" "length (ready_bots (s_db demo2)) = 1"
    using reachable_state_ok [OF demo_reachable(2)]
    by (simp_all add: pipe_ok_def ready_ids_eq ready_bots_def demo2_def demo_db_def demo_bot_def)
  with schedule_exactly_the_pairings [of demo demo2 1] demo_pydantic_ok show ?thesis by auto
qed

theorem schedule_failure_is_a_prefix_witness:
  "\<exists>k < length (pairings 1 (map b_id (ready_bots (s_db demo2)))).
     (if k = s_tried demo2 - 3 then Some (OtherError ''closed'') else None) = Some (OtherError ''closed'')"
proof -
  let ?W = "demo\<lparr>o_broker := (\<lambda>n. if n = 3 then Some (OtherError ''closed'') else None)\<rparr>"
  have P: "pydantic_ok (o_pydantic ?W)" by (simp add: demo_pydantic_ok)
  have run: "\<exists>t. handle_pod_ready_message ?W (dump_ready (o_pydantic ?W) \<lparr>pr_bot_id = 1\<rparr>) demo2 =
      (Inl (OtherError ''closed''), t)"
    unfolding handle_pod_ready_message_run [OF P]
    by (simp add: demo2_def demo_db_def ready_bots_def demo_bot_def
        publish_ondeck_def prog_simps)
  then obtain t where "handle_pod_ready_message ?W (dump_ready (o_pydantic ?W) \<lparr>pr_bot_id = 1\<rparr>) demo2 =
      (Inl (OtherError ''closed''), t)" ..
  from schedule_failure_is_a_prefix [OF P this]
  show ?thesis by (auto simp: demo2_def split: if_splits)
qed

theorem play_page_moves_are_legal_witness:
  "\<exists>t b'. fst (handle_play_turn demo (\<lambda>w. (Inr (), w))
       \<lparr>tq_bot_id = 1, tq_bot_symbol = ''X'', tq_board = board_to_str EMPTY_BOARD\<rparr> demo2) = Inr (JsonBoard t) \<and>
     parse_board t = Some b' \<and> legal_move EMPTY_BOARD b' ''X''"
proof -
  let ?q = "\<lparr>tq_bot_id = 1, tq_bot_symbol = ''X'', tq_board = board_to_str EMPTY_BOARD\<rparr>"
  have judge: "judge_payload ''X'' (board_to_str EMPTY_BOARD)
      (json_dumps (run_bot demo_spawn [] (JStr ''X'') (JStr (board_to_str EMPTY_BOARD)))) =
    Inr (Inr (board_to_str (demo_board ''X........'')))"
  proof -
    have "run_bot demo_spawn [] (JStr ''X'') (JStr (board_to_str EMPTY_BOARD)) =
        JObj [(''board'', JStr (board_to_str (demo_board ''X........'')))]"
      by code_simp
    moreover have "validate_one_symbol_placed EMPTY_BOARD (demo_board ''X........'') ''X'' = Inr True"
      by code_simp
    moreover have "wf_board (demo_board ''X........'')"
      by (simp add: wf_board_def demo_board_def is_cell_def)
    ultimately show ?thesis
      by (simp add: judge_payload_def loads_board_reply json_get_def parse_board_strict_eq
          parse_board_to_str del: json_dumps.simps)
  qed
  have call: "call_bot demo (\<lambda>w. (Inr (), w)) p ''X'' (board_to_str EMPTY_BOARD) w =
      (Inr (Inr (board_to_str (demo_board ''X........''))), w)" for p w
    by (simp add: call_bot_def bot_pod_ip_def demo_pod_def request_bot_turn_def demo_urlopen judge
        del: json_dumps.simps)
  have "by_id 1 (s_db demo2) = Inr (Some (mark_ready 1 (pod_name 1) demo_bot))"
    by (simp add: by_id_def demo2_def demo_db_def demo_bot_def)
  moreover have "b_pod_name (mark_ready 1 (pod_name 1) demo_bot) = Some (pod_name 1)"
    by (simp add: mark_ready_def demo_bot_def)
  ultimately have run: "handle_play_turn demo (\<lambda>w. (Inr (), w)) ?q demo2 =
      (Inr (JsonBoard (board_to_str (demo_board ''X........''))), demo2\<lparr>s_world := s_world demo2\<rparr>)"
    by (subst handle_play_turn_run [where b = "mark_ready 1 (pod_name 1) demo_bot" and pname = "pod_name 1"])
      (simp_all add: call demo_bot_def)
  from play_page_moves_are_legal [OF run, of EMPTY_BOARD]
  have "\<exists>b'. parse_board (board_to_str (demo_board ''X........'')) = Some b' \<and> legal_move EMPTY_BOARD b' ''X''"
    by (auto simp: valid_TurnRequest_def)
  with run show ?thesis by auto
qed

theorem game_page_only_for_ready_bots_witness:
  "\<exists>b \<in> set (bots (s_db demo2)). b_id b = 1 \<and> b_pod_ready b \<and> b_versioned_name b = ''A''"
proof -
  have "render_play_vs_page True 1 (Some ''Ann'') demo2 = (Inr (GamePage 1 ''A'' ''Ann'' ''X'' ''O''), demo2)"
    by (simp add: render_play_vs_page_def prog_simps by_id_def demo2_def demo_db_def demo_bot_def)
  from game_page_only_for_ready_bots [OF this] show ?thesis by blast
qed

theorem submission_adds_the_next_version_witness:
  "\<exists>b. bots (s_db demo1) = bots (s_db demo0) @ [b] \<and> b_base_name b = ''A''"
proof -
  obtain page where run: "handle_submission demo demo_parse ''name: A'' None demo0 = (Inr page, demo1)"
    and "sp_error page = None"
    using demo_submit_page by blast
  from submission_adds_the_next_version [OF this] obtain n b
    where "extract_bot_name demo_parse (utf8_decode ''name: A'') = Inr (Some n)"
      and "bots (s_db demo1) = bots (s_db demo0) @ [b]" and "b_base_name b = n"
    by blast
  then show ?thesis by (simp add: demo_extract)
qed

theorem owner_can_resubmit_witness:
  "\<exists>v tok t'. resolve_owner_token demo ''A'' (parse_cookie (Some v)) demo1 = (Inr (Some tok, None), t')"
proof -
  obtain page where run: "handle_submission demo demo_parse ''name: A'' None demo0 = (Inr page, demo1)"
    and "sp_error page = None"
    using demo_submit_page by blast
  moreover have "wf_json (parse_cookie None)" by (simp add: parse_cookie_def)
  ultimately obtain n v tok t'
    where "extract_bot_name demo_parse (utf8_decode ''name: A'') = Inr (Some n)"
      and "resolve_owner_token demo n (parse_cookie (Some v)) demo1 = (Inr (Some tok, None), t')"
    using owner_can_resubmit [OF run] by blast
  then show ?thesis by (simp add: demo_extract) blast
qed

theorem foreign_submission_changes_nothing_witness:
  "s_db (snd (handle_submission demo demo_parse ''name: A'' None demo1)) = s_db demo1"
proof -
  have "owner_token ''A'' (s_db demo1) = Inr (Some ''t'')"
    by (simp add: owner_token_def pg_text_def demo1_def demo_db_def demo_bot_def)
  moreover have "json_get (parse_cookie None) ''A'' \<noteq> Inr (JStr ''t'')"
    by (simp add: parse_cookie_def json_get_def)
  ultimately show ?thesis
    using foreign_submission_changes_nothing [where W = demo and p = demo_parse and src = "''name: A''"
        and cookie = None and s = demo1 and n = "''A''" and tok = "''t''", OF prod.collapse [symmetric]]
    by (simp add: demo_extract)
qed

theorem next_version_never_conflicts_witness:
  "fst (persist_bot demo ''A'' [CHR 0x00] ''python-3.14'' [] demo1) = Inl DataError"
proof -
  have names: "names_ok (s_db demo1)"
    using reachable_state_ok [OF demo_reachable(1)] by (simp add: pipe_ok_def)
  have nosuffix: "\<not> reserved_version_suffix ''A''" by code_simp
  obtain e t where "persist_bot demo ''A'' [CHR 0x00] ''python-3.14'' [] demo1 = (Inl e, t)"
    by (auto simp: persist_bot_eq insert_version_def create_bot_def pg_text_def Let_def)
  with next_version_never_conflicts [OF names nosuffix this] show ?thesis by simp
qed

theorem services_refine_the_tournament_witness:
  "tournament_step\<^sup>*\<^sup>* no_tournament (tournament_of demo demo4) \<and>
   results (tournament_of demo demo4) = [(1, 1, ''x_wins'')]"
proof -
  have "record_match 1 1 demo_result ''t'' 0 (demo_db True) = (Inr (), s_db demo4)"
    using demo_record by (simp add: demo4_def prod_eq_iff)
  then have "results (tournament_of demo demo4) = [(1, 1, ''x_wins'')]"
    using record_match_tables(2) by (fastforce simp: tournament_of_def demo_db_def recorded_def demo_result_def)
  with services_refine_the_tournament [OF demo_reachable(4)] show ?thesis by blast
qed

theorem seeding_registers_the_examples_witness:
  "\<exists>t. seed_main demo demo_parse [(''a.py'', ''name: A'')] demo4 = (Inr (Some (1, 1)), t) \<and>
     matches (s_db t) = [] \<and> map b_source (bots (s_db t)) = [Some ''name: A'']"
proof -
  have ascii: "utf8_decode ''name: A'' = ''name: A''"
    by (rule utf8_decode_ascii) (simp add: is_ascii_def)
  have "seeds demo_parse ''name: A'' ''A''"
    using demo_extract by (simp add: seeds_def ascii pg_text_def reserved_version_suffix_def ends_in_version_def)
  then have "\<exists>n. seeds demo_parse ''name: A'' n" by blast
  moreover have "db_ok (s_db demo4)" using reachable_state_ok [OF demo_reachable(4)] by (simp add: pipe_ok_def)
  moreover have "bots_seq (s_db demo4) = 2"
    by (simp add: demo4_def record_match_bots_seq demo_db_def)
  ultimately show ?thesis
    using seeding_registers_the_examples [of demo4 "[(''a.py'', ''name: A'')]" demo_parse demo]
    by (auto simp: pg_text_def)
qed

text \<open>A pod that runs the perfect bot, against an opponent that cannot be reached.\<close>

definition perfect_post :: "string \<Rightarrow> string res" where
  "perfect_post body =
     (case read_payload body of
        Inr (JStr symbol, board) \<Rightarrow>
          if symbol = ''X'' then Inl (URLError ''refused'')
          else Inr (json_dumps (run_bot (\<lambda>_ stdin. script_outcome (\<lambda>_. []) (perfect_bot_v2 10 stdin)) []
                      (JStr symbol) board))
      | _ \<Rightarrow> Inl (URLError ''bad request''))"

definition perfect_env :: "int env" where
  "perfect_env = demo_env\<lparr>urlopen := (\<lambda>r t w. (perfect_post (the (req_data r)), w))\<rparr>"

theorem perfect_bot_v2_never_loses_witness:
  "\<exists>mr. run_match_from_pods perfect_env ''a'' ''b'' 10000 0 = (Inr (Some mr), 0) \<and>
     mr_result mr \<notin> {X_WINS, O_FORFEIT}"
proof -
  have ip: "get_pod_ip perfect_env p w = (Inr ''10.0.0.7'', w)" for p w
    by (simp add: perfect_env_def get_pod_ip_def demo_env_def demo_pod_def)
  have "urlopen perfect_env (turn_request ''10.0.0.7'' ''X'' (board_to_str EMPTY_BOARD)) 10000 0 =
      (Inl (URLError ''refused''), 0)"
    by (simp add: perfect_env_def perfect_post_def read_turn_request del: json_dumps.simps)
  then obtain mr where run: "run_match_from_pods perfect_env ''a'' ''b'' 10000 0 = (Inr (Some mr), 0)"
    using unreachable_bot_forfeits [OF ip ip] by blast
  have "plays_script perfect_env 10000 ''10.0.0.7'' ''O'' (\<lambda>_. []) (perfect_bot_v2 10)"
    by (simp add: plays_script_def perfect_env_def perfect_post_def read_turn_request del: json_dumps.simps)
  with perfect_bot_v2_never_loses [OF run ip ip, of "''O''" "\<lambda>_. []" 10] run show ?thesis by simp
qed

theorem declared_queues_lose_nothing_witness:
  "reachable_state demo demo_parse 60000 demo1 \<and>
   (\<exists>Q' Q. \<exists>t. t \<noteq> demo1 \<and> site_step demo demo_parse 60000 (Q, demo1) (Q', t))"
proof -
  let ?ops = "([DeclareQueue BUILD_POD_QUEUE, Consume BUILD_POD_QUEUE] @ serve_rpc ''health.dispatcher.pod-builder'') @
    ([DeclareQueue MATCH_ONDECK_QUEUE, Consume MATCH_ONDECK_QUEUE] @ serve_rpc ''health.dispatcher.ondeck-handler'') @
    [DeclareQueue POD_READY_QUEUE, Consume POD_READY_QUEUE] @ serve_rpc ''health.match-scheduler''"
  have "pipe_ok demo demo0" using start_state_ok [OF demo_start] .
  then obtain Q where step: "site_step demo demo_parse 60000 (run_ops ?ops {}, demo0) (Q, demo1)"
    using pipe_step_site_step [OF demo_steps(1) _ all_services_declare [OF some_start_ups]] by blast
  note iff = declared_queues_lose_nothing [OF some_start_ups demo_start
      r_into_rtranclp [where r = "site_step demo demo_parse 60000", OF step]]
  have "demo2 \<noteq> demo1" by (simp add: demo1_def demo2_def)
  with iff demo_steps(2) show ?thesis by blast
qed

lemma demo_site_submit:
  "site_step demo demo_parse 60000 ({}, demo0) ({BUILD_POD_QUEUE}, demo1)"
proof -
  have "routed {BUILD_POD_QUEUE} demo0 demo1 = demo1" "s_log demo1 \<noteq> s_log demo0"
    by (simp_all add: routed_def demo0_def demo1_def demo_build_def)
  with site_step.submit [OF demo_submission refl, where Q = "{}" and pod_timeout = 60000]
  show ?thesis by (simp add: run_ops_ensure_connected)
qed

theorem early_pod_is_never_paired_witness:
  "\<exists>Q u. POD_READY_QUEUE \<in> Q \<and> 1 \<in> ready_ids (s_db u) \<and> \<not> scheduled demo u 1 1 \<and>
     (site_step demo demo_parse 60000)\<^sup>*\<^sup>* ({}, demo0) (Q, u)"
proof -
  let ?s1 = "demo1\<lparr>s_taken := (\<lambda>_. 0)(BUILD_POD_QUEUE := 1)\<rparr>"
  let ?u = "routed {BUILD_POD_QUEUE} ?s1 demo2"
  let ?ops = "[DeclareQueue POD_READY_QUEUE, Consume POD_READY_QUEUE] @ serve_rpc ''health.match-scheduler''"
  let ?Q = "run_ops ?ops {BUILD_POD_QUEUE}"
  have reach: "site_reachable demo demo_parse 60000 ({BUILD_POD_QUEUE}, demo1)"
    using demo_site_submit demo_start unfolding site_reachable_def by (auto simp: empty_site_def)
  have ready: "1 \<in> ready_ids (s_db demo2)" "1 \<notin> ready_ids (s_db demo1)"
    by (simp_all add: ready_ids_eq demo2_def demo1_def demo_db_def demo_bot_def)
  have later: "site_step demo demo_parse 60000 ({BUILD_POD_QUEUE}, ?u) (?Q, ?u)"
    by (rule site_start_up) (use some_start_ups(3) in \<open>simp add: start_ups_def\<close>)
  have "site_step demo demo_parse 60000 ({BUILD_POD_QUEUE}, demo1) ({BUILD_POD_QUEUE}, ?u)"
    by (rule site_step.handle [OF demo_take_build handles.build [OF demo_build_run]])
  with demo_site_submit later
  have "(site_step demo demo_parse 60000)\<^sup>*\<^sup>* ({}, demo0) (?Q, ?u)"
    by (meson converse_rtranclp_into_rtranclp rtranclp.rtrancl_refl)
  moreover have "POD_READY_QUEUE \<in> ?Q" by (simp add: run_ops_eq)
  moreover have "1 \<in> ready_ids (s_db ?u) \<and> \<not> scheduled demo ?u 1 1"
    using early_pod_is_never_paired [OF reach _ demo_take_build demo_build_run ready
        r_into_rtranclp [where r = "site_step demo demo_parse 60000", OF later]]
    by simp
  ultimately show ?thesis by blast
qed

lemma demo_crash_reachable: "\<exists>Q. crash_reachable demo demo_parse 60000 (Q, demo3)"
  using reachable_state_site [OF demo_reachable(3)] site_reachable_crash by blast

definition demo_unacked :: "int sys" where
  "demo_unacked = demo4\<lparr>s_taken := s_taken demo3\<rparr>"

lemma demo_crash:
  "\<exists>Q. crash_reachable demo demo_parse 60000 (Q, demo_unacked)"
proof -
  obtain Q where "crash_reachable demo demo_parse 60000 (Q, demo3)" using demo_crash_reachable ..
  moreover have "crash_step demo demo_parse 60000 (Q, demo3) (Q, demo_unacked)"
    unfolding demo_unacked_def by (rule unacknowledged_ondeck(1) [OF demo_take_ondeck demo_ondeck_run])
  ultimately show ?thesis
    unfolding crash_reachable_def by (metis (mono_tags, lifting) rtranclp.rtrancl_into_rtrancl)
qed

lemma demo_ondeck_again:
  assumes "bots (s_db s) = bots (demo_db True)" and "s_world s = 0"
    and "pg_int4 (matches_seq (s_db s))" and "moves_seq (s_db s) < 2 ^ 30"
  shows "\<exists>t. handle_match_ondeck demo (snd demo_ondeck) s = (Inr (), t)"
proof -
  have parse: "validate_ondeck demo_pydantic (snd demo_ondeck) = Some (ondeck_message 1 1 ''t'')"
    by (simp add: demo_ondeck_def pydantic_okD [OF demo_pydantic_ok])
  have fetch: "fetch_match_bots 1 1 s = (Inr (Some (pod_name 1, pod_name 1)), s)"
    using assms(1) by (simp add: fetch_match_bots_def prog_simps by_ids_def demo_db_def demo_bot_def mark_ready_def)
  have "fst (record_match 1 1 demo_result ''t'' 0 (s_db s)) = Inr ()"
    using assms(1,3,4) by (simp add: record_match_def Let_def pg_text_def demo_db_def demo_bot_def mark_ready_def
        demo_result_def demo_move_def error_column_def)
  then obtain d where rec: "record_match 1 1 demo_result ''t'' 0 (s_db s) = (Inr (), d)"
    by (metis prod.collapse)
  have ids: "mo_bot_x_id (ondeck_message 1 1 ''t'') = 1" "mo_bot_o_id (ondeck_message 1 1 ''t'') = 1"
    "mo_correlation_id (ondeck_message 1 1 ''t'') = ''t''"
    by (simp_all add: ondeck_message_def)
  show ?thesis
    by (simp add: handle_match_ondeck_def parse ids bindP_def fetch in_world_def demo_match assms(2)
        record_result_def seqP_def db_write_def rec ret_def catch_def
        publish_match_finished_def publish_fanout_def Let_def)
qed

theorem redelivered_match_is_stored_twice_witness:
  "\<exists>u1 v m1 m2. handle_match_ondeck demo (snd demo_ondeck) u1 = (Inr (), v) \<and>
     matches (s_db v) = [m1, m2] \<and> m_id m1 \<noteq> m_id m2 \<and> m_correlation_id m1 = m_correlation_id m2"
proof -
  obtain Q where reach: "crash_reachable demo demo_parse 60000 (Q, demo3)" using demo_crash_reachable ..
  have "waiting MATCH_ONDECK_QUEUE demo_unacked = waiting MATCH_ONDECK_QUEUE demo3"
    unfolding demo_unacked_def by (rule unacknowledged_ondeck(2) [OF demo_take_ondeck demo_ondeck_run])
  then obtain u1 where u1: "take_one MATCH_ONDECK_QUEUE demo_unacked = Some (snd demo_ondeck, u1)"
    using take_one_Some(5) [OF demo_take_ondeck] by (simp add: take_one_def)
  have "bots (s_db demo4) = bots (demo_db True)"
  proof (rule record_match_tables(1))
    show "record_match 1 1 demo_result ''t'' 0 (demo_db True) = (Inr (), s_db demo4)"
      using demo_record by (simp add: demo4_def prod_eq_iff)
  qed
  moreover have "s_world demo4 = 0" by (simp add: demo4_def demo_taken3_def demo3_def)
  moreover have "pg_int4 (matches_seq (s_db demo4))" "moves_seq (s_db demo4) < 2 ^ 30"
    by (simp_all add: demo4_def record_match_def Let_def pg_text_def demo_db_def demo_bot_def mark_ready_def
        demo_result_def demo_move_def error_column_def)
  ultimately obtain v where v: "handle_match_ondeck demo (snd demo_ondeck) u1 = (Inr (), v)"
    using demo_ondeck_again [of u1] take_one_Some(2) [OF u1] by (auto simp: demo_unacked_def)
  from redelivered_match_is_stored_twice [OF reach demo_take_ondeck demo_ondeck_run demo_unacked_def u1 v]
  have "\<exists>m1 m2. matches (s_db v) = matches (s_db demo3) @ [m1, m2] \<and> m_id m1 \<noteq> m_id m2 \<and>
      m_correlation_id m1 = m_correlation_id m2" by blast
  moreover have "matches (s_db demo3) = []" by (simp add: demo3_def demo_db_def)
  ultimately show ?thesis using v by auto
qed

section \<open>The queue of the web application\<close>

text \<open>The broker is down for the first of two events.\<close>

theorem life_span_leaves_no_connection_witness:
  "\<exists>rs t. lifespan (\<lambda>n. if n = 0 then Some (OtherError ''AMQPConnectionError'') else None) demo_pydantic Map.empty
      [PublishEvent ''a'' [], PublishEvent ''b'' []] = (rs, Some (Inr (), t)) \<and>
    l_sent t = [([], event_body ''b'' [])] \<and> length (l_urls t) = 1 \<and> 0 \<in> set (l_closed t)"
proof -
  let ?run = "lifespan (\<lambda>n. if n = 0 then Some (OtherError ''AMQPConnectionError'') else None) demo_pydantic Map.empty
      [PublishEvent ''a'' [], PublishEvent ''b'' []]"
  obtain t where run: "?run = ([Inl (OtherError ''AMQPConnectionError''), Inr ()], Some (Inr (), t))"
    and one: "length (l_urls t) = 1"
    by (simp add: lifespan_def make_queue_def new_queue_def publish_event_co_def run_bind_co run_ensure_connected run_act
        connect_co_def seq_co_def connect_robust_def open_channel_def declare_build_queue_def
        declare_events_exchange_def publish_on_def close_co_def close_connection_def lib_call_def Let_def disconnected_def)
  show ?thesis using life_span_leaves_no_connection [OF run] run one by simp
qed

theorem half_made_connection_stays_witness:
  "\<exists>t. use_all (\<lambda>n. if n = 1 then Some (OtherError ''AMQPChannelError'') else None) demo_pydantic
      [PublishEvent ''a'' [], PublishEvent ''b'' []] (make_queue Map.empty) =
        ([Inl (OtherError ''AMQPChannelError''), Inl AttributeError], t) \<and> l_sent t = []"
proof -
  let ?fault = "\<lambda>n :: nat. if n = 1 then Some (OtherError ''AMQPChannelError'') else None"
  let ?uses = "[PublishEvent ''a'' [], PublishEvent ''b'' []]"
  obtain rs t where run: "use_all ?fault demo_pydantic ?uses (make_queue Map.empty) = (rs, t)" by force
  have "?fault 0 = None" "ConnectionLost \<notin> set ?uses" "?fault 1 = Some (OtherError ''AMQPChannelError'')" by simp_all
  with half_made_connection_stays [OF this(1,2) run] run show ?thesis by simp
qed

end
